(* ===== verification/Prelude.thy ===== *)
theory Prelude
  imports Main
begin

text \<open>
  Shared ground of the development: what a C function can do besides return (call
  \<open>exit\<close>, or run into undefined behaviour), state-passing programs over such outcomes,
  linear search in an array, and the collections of rewrite rules the components share.
\<close>

section \<open>Outcomes of C code\<close>

text \<open>
  \<open>Ret v\<close> is a normal return, \<open>Exited n\<close> a call of \<open>exit(n)\<close>, \<open>Fault f\<close> the point at
  which the C program dereferences a null pointer, reads or writes outside an object,
  reads an indeterminate value, overflows a signed integer or divides by zero.
\<close>

datatype fault = Null_Deref | Out_Of_Bounds | Uninitialised | Int_Overflow | Div_By_Zero

datatype 'a outcome = Ret 'a | Exited int | Fault fault

primrec omap :: "('a \<Rightarrow> 'b) \<Rightarrow> 'a outcome \<Rightarrow> 'b outcome" where
  "omap f (Ret a) = Ret (f a)"
| "omap f (Exited n) = Exited n"
| "omap f (Fault e) = Fault e"

primrec obind :: "'a outcome \<Rightarrow> ('a \<Rightarrow> 'b outcome) \<Rightarrow> 'b outcome" where
  "obind (Ret a) g = g a"
| "obind (Exited n) g = Exited n"
| "obind (Fault e) g = Fault e"

text \<open>A null pointer is \<open>None\<close>; \<open>deref\<close> is the C dereference.\<close>

primrec deref :: "'a option \<Rightarrow> 'a outcome" where
  "deref None = Fault Null_Deref"
| "deref (Some a) = Ret a"

lemma obind_assoc: "obind (obind m f) g = obind m (\<lambda>x. obind (f x) g)"
  by (cases m) simp_all

lemma obind_Ret_iff:
  "obind m g = Ret b \<longleftrightarrow> (\<exists>a. m = Ret a \<and> g a = Ret b)"
  by (cases m) auto

lemma omap_Ret_iff:
  "omap f m = Ret b \<longleftrightarrow> (\<exists>a. m = Ret a \<and> f a = b)"
  by (cases m) auto

lemma deref_Ret_iff [simp]: "deref p = Ret a \<longleftrightarrow> p = Some a"
  by (cases p) auto

section \<open>State-passing programs\<close>

type_synonym ('s, 'a) cprog = "'s \<Rightarrow> 'a outcome \<times> 's"

definition creturn :: "'a \<Rightarrow> ('s, 'a) cprog" where
  "creturn a s = (Ret a, s)"

definition cexit :: "int \<Rightarrow> ('s, 'a) cprog" where
  "cexit n s = (Exited n, s)"

definition cfault :: "fault \<Rightarrow> ('s, 'a) cprog" where
  "cfault e s = (Fault e, s)"

definition cmodify :: "('s \<Rightarrow> 's) \<Rightarrow> ('s, unit) cprog" where
  "cmodify f s = (Ret (), f s)"

definition cgets :: "('s \<Rightarrow> 'a) \<Rightarrow> ('s, 'a) cprog" where
  "cgets f s = (Ret (f s), s)"

definition cbind :: "('s, 'a) cprog \<Rightarrow> ('a \<Rightarrow> ('s, 'b) cprog) \<Rightarrow> ('s, 'b) cprog" where
  "cbind m g s =
     (case m s of
        (Ret a, s') \<Rightarrow> g a s'
      | (Exited n, s') \<Rightarrow> (Exited n, s')
      | (Fault e, s') \<Rightarrow> (Fault e, s'))"

named_theorems c_simps \<open>running state-passing programs\<close>

lemma creturn_run [c_simps]: "creturn a s = (Ret a, s)"
  by (simp add: creturn_def)

lemma cexit_run [c_simps]: "cexit n s = (Exited n, s)"
  by (simp add: cexit_def)

lemma cfault_run [c_simps]: "cfault e s = (Fault e, s)"
  by (simp add: cfault_def)

lemma cmodify_run [c_simps]: "cmodify f s = (Ret (), f s)"
  by (simp add: cmodify_def)

lemma cgets_run [c_simps]: "cgets f s = (Ret (f s), s)"
  by (simp add: cgets_def)

lemma cbind_Ret [c_simps]: "m s = (Ret a, s') \<Longrightarrow> cbind m g s = g a s'"
  by (simp add: cbind_def)

lemma cbind_Exited [c_simps]: "m s = (Exited n, s') \<Longrightarrow> cbind m g s = (Exited n, s')"
  by (simp add: cbind_def)

lemma cbind_Fault [c_simps]: "m s = (Fault e, s') \<Longrightarrow> cbind m g s = (Fault e, s')"
  by (simp add: cbind_def)

lemma cbind_Ret_iff:
  "cbind m g s = (Ret b, t) \<longleftrightarrow> (\<exists>a u. m s = (Ret a, u) \<and> g a u = (Ret b, t))"
  by (auto simp: cbind_def split: prod.splits outcome.splits)

lemma cbind_assoc: "cbind (cbind m f) g = cbind m (\<lambda>x. cbind (f x) g)"
  by (rule ext) (simp add: cbind_def split: prod.split outcome.split)

lemma cbind_creturn_left: "cbind (creturn a) g = g a"
  by (rule ext) (simp add: c_simps)

lemma cbind_creturn_right: "cbind m creturn = m"
  by (rule ext) (simp add: cbind_def creturn_def split: prod.split outcome.split)

section \<open>Programs that may not return\<close>

text \<open>\<open>None\<close> is a call that does not return: it loops for ever, or waits for ever.\<close>

type_synonym ('s, 'a) dprog = "'s \<Rightarrow> ('a outcome \<times> 's) option"

definition dlift :: "('s, 'a) cprog \<Rightarrow> ('s, 'a) dprog" where
  "dlift m s = Some (m s)"

definition dreturn :: "'a \<Rightarrow> ('s, 'a) dprog" where
  "dreturn a s = Some (Ret a, s)"

definition dbind :: "('s, 'a) dprog \<Rightarrow> ('a \<Rightarrow> ('s, 'b) dprog) \<Rightarrow> ('s, 'b) dprog" where
  "dbind m g s =
     (case m s of
        None \<Rightarrow> None
      | Some (r, t) \<Rightarrow>
          (case r of Ret a \<Rightarrow> g a t | Exited n \<Rightarrow> Some (Exited n, t) | Fault e \<Rightarrow> Some (Fault e, t)))"

lemma dlift_run [c_simps]: "dlift m s = Some (m s)"
  by (simp add: dlift_def)

lemma dreturn_run [c_simps]: "dreturn a s = Some (Ret a, s)"
  by (simp add: dreturn_def)

lemma dbind_None [c_simps]: "m s = None \<Longrightarrow> dbind m g s = None"
  by (simp add: dbind_def)

lemma dbind_Ret [c_simps]: "m s = Some (Ret a, t) \<Longrightarrow> dbind m g s = g a t"
  by (simp add: dbind_def)

lemma dbind_Exited [c_simps]: "m s = Some (Exited n, t) \<Longrightarrow> dbind m g s = Some (Exited n, t)"
  by (simp add: dbind_def)

lemma dbind_Fault [c_simps]: "m s = Some (Fault e, t) \<Longrightarrow> dbind m g s = Some (Fault e, t)"
  by (simp add: dbind_def)

lemma dbind_Ret_iff:
  "dbind m g s = Some (Ret b, t) \<longleftrightarrow> (\<exists>a u. m s = Some (Ret a, u) \<and> g a u = Some (Ret b, t))"
  by (auto simp: dbind_def split: option.splits outcome.splits)

section \<open>Interleavings\<close>

text \<open>
  A system of threads whose step is chosen by a label (the index of a thread): \<open>None\<close> when it
  cannot move, an outcome otherwise. A schedule is a list of labels.
\<close>

fun schedule :: "('l \<Rightarrow> 's \<Rightarrow> 's outcome option) \<Rightarrow> 'l list \<Rightarrow> 's \<Rightarrow> 's option" where
  "schedule step [] s = Some s"
| "schedule step (l # ls) s =
     (case step l s of
        None \<Rightarrow> None
      | Some r \<Rightarrow> (case r of Ret t \<Rightarrow> schedule step ls t | Exited n \<Rightarrow> None | Fault e \<Rightarrow> None))"

text \<open>A set of states that the steps do not leave, as the reachable ones, contains every run.\<close>

locale interleaving =
  fixes step :: "'l \<Rightarrow> 's \<Rightarrow> 's outcome option"
    and reach :: "'s \<Rightarrow> bool"
  assumes reach_step: "reach s \<Longrightarrow> step l s = Some (Ret t) \<Longrightarrow> reach t"
begin

lemma run_reach:
  assumes "schedule step ls s = Some t" and "reach s"
  shows "reach t"
  using assms
proof (induction ls arbitrary: s)
  case (Cons l ls)
  from Cons.prems(1) obtain u where "step l s = Some (Ret u)" "schedule step ls u = Some t"
    by (auto split: option.splits outcome.splits)
  with Cons reach_step show ?case by blast
qed simp

lemma run_append:
  assumes "schedule step ls s = Some t"
  shows "schedule step (ls @ ms) s = schedule step ms t"
  using assms by (induction ls arbitrary: s) (auto split: option.splits outcome.splits)

end

section \<open>Linear search in an array\<close>

text \<open>
  \<open>for (i = 0; i < n; i++) if (P(a[i])) return i;\<close> with \<open>None\<close> when the loop ends.
\<close>

fun first_index :: "('a \<Rightarrow> bool) \<Rightarrow> 'a list \<Rightarrow> nat option" where
  "first_index P [] = None"
| "first_index P (x # xs) = (if P x then Some 0 else map_option Suc (first_index P xs))"

lemma first_index_None: "first_index P xs = None \<longleftrightarrow> (\<forall>x \<in> set xs. \<not> P x)"
  by (induction xs) auto

lemma first_index_Some:
  "first_index P xs = Some i \<longleftrightarrow> i < length xs \<and> P (xs ! i) \<and> (\<forall>j < i. \<not> P (xs ! j))"
proof (induction xs arbitrary: i)
  case Nil
  then show ?case by simp
next
  case (Cons x xs)
  then show ?case
    by (cases i) (auto simp: less_Suc_eq_0_disj nth_Cons split: nat.splits)
qed

lemma first_index_SomeD:
  assumes "first_index P xs = Some i"
  shows "i < length xs" and "P (xs ! i)" and "\<And>j. j < i \<Longrightarrow> \<not> P (xs ! j)"
  using assms by (auto simp: first_index_Some)

lemma first_index_cong:
  assumes "length xs = length ys" and "\<And>i. i < length xs \<Longrightarrow> P (xs ! i) = Q (ys ! i)"
  shows "first_index P xs = first_index Q ys"
  using assms
proof (induction xs ys rule: list_induct2)
  case Nil
  then show ?case by simp
next
  case (Cons x xs y ys)
  from Cons.prems [of 0] have "P x = Q y" by simp
  moreover have "first_index P xs = first_index Q ys"
    by (rule Cons.IH) (use Cons.prems [of "Suc _"] in auto)
  ultimately show ?case by simp
qed

text \<open>At most one element of an array satisfies a predicate.\<close>

definition at_most_one :: "('a \<Rightarrow> bool) \<Rightarrow> 'a list \<Rightarrow> bool" where
  "at_most_one P xs \<longleftrightarrow> length (filter P xs) \<le> 1"

lemma at_most_one_alt:
  "at_most_one P xs \<longleftrightarrow>
     (\<forall>i < length xs. \<forall>j < length xs. P (xs ! i) \<longrightarrow> P (xs ! j) \<longrightarrow> i = j)"
proof (induction xs)
  case Nil
  then show ?case by (simp add: at_most_one_def)
next
  case (Cons x xs)
  show ?case
  proof (cases "P x")
    case False
    then have "at_most_one P (x # xs) = at_most_one P xs" by (simp add: at_most_one_def)
    with Cons.IH False show ?thesis by (simp add: All_less_Suc2)
  next
    case True
    then have "at_most_one P (x # xs) \<longleftrightarrow> (\<forall>j < length xs. \<not> P (xs ! j))"
      by (simp add: at_most_one_def filter_empty_conv all_set_conv_all_nth)
    with True show ?thesis by (auto simp: All_less_Suc2)
  qed
qed

lemma at_most_one_update_false:
  assumes "at_most_one P xs" and "\<not> P y"
  shows "at_most_one P (xs[i := y])"
proof -
  have "P (xs[i := y] ! k) \<longrightarrow> P (xs ! k)" if "k < length xs" for k
    using that assms(2) by (cases "k = i") auto
  with assms(1) show ?thesis unfolding at_most_one_alt length_list_update by blast
qed

lemma at_most_one_update_true:
  assumes "\<And>x. x \<in> set xs \<Longrightarrow> \<not> P x"
  shows "at_most_one P (xs[i := y])"
proof -
  have "P (xs[i := y] ! k) \<longrightarrow> k = i" if "k < length xs" for k
    using that assms by (cases "k = i") auto
  then show ?thesis unfolding at_most_one_alt length_list_update by blast
qed

text \<open>The elements that satisfy \<open>P\<close> carry pairwise different keys \<open>f\<close>.\<close>

definition distinct_on :: "('a \<Rightarrow> bool) \<Rightarrow> ('a \<Rightarrow> 'b) \<Rightarrow> 'a list \<Rightarrow> bool" where
  "distinct_on P f xs \<longleftrightarrow> distinct (map f (filter P xs))"

lemma distinct_on_alt:
  "distinct_on P f xs \<longleftrightarrow>
     (\<forall>i < length xs. \<forall>j < length xs.
        P (xs ! i) \<longrightarrow> P (xs ! j) \<longrightarrow> f (xs ! i) = f (xs ! j) \<longrightarrow> i = j)"
proof (induction xs)
  case Nil
  then show ?case by (simp add: distinct_on_def)
next
  case (Cons x xs)
  show ?case
  proof (cases "P x")
    case False
    then have "distinct_on P f (x # xs) = distinct_on P f xs" by (simp add: distinct_on_def)
    with Cons.IH False show ?thesis by (simp add: All_less_Suc2)
  next
    case True
    have "(\<exists>y \<in> set xs. P y \<and> f y = f x) \<longleftrightarrow> (\<exists>j < length xs. P (xs ! j) \<and> f (xs ! j) = f x)"
      by (metis in_set_conv_nth)
    with True have "distinct_on P f (x # xs) \<longleftrightarrow>
        distinct_on P f xs \<and> (\<forall>j < length xs. P (xs ! j) \<longrightarrow> f (xs ! j) \<noteq> f x)"
      by (auto simp: distinct_on_def image_iff)
    with Cons.IH True show ?thesis by (auto simp: All_less_Suc2)
  qed
qed

lemma distinct_on_update_out:
  assumes "distinct_on P f xs" and "\<not> P y"
  shows "distinct_on P f (xs[i := y])"
proof -
  have "P (xs[i := y] ! k) \<longrightarrow> P (xs ! k) \<and> f (xs[i := y] ! k) = f (xs ! k)" if "k < length xs" for k
    using that assms(2) by (cases "k = i") auto
  with assms(1) show ?thesis unfolding distinct_on_alt length_list_update by metis
qed

lemma distinct_on_update_fresh:
  assumes "distinct_on P f xs" and "\<And>x. x \<in> set xs \<Longrightarrow> P x \<Longrightarrow> f x \<noteq> f y"
  shows "distinct_on P f (xs[i := y])"
  unfolding distinct_on_alt length_list_update
proof (intro allI impI)
  fix k l
  assume kl: "k < length xs" "l < length xs" "P (xs[i := y] ! k)" "P (xs[i := y] ! l)"
    "f (xs[i := y] ! k) = f (xs[i := y] ! l)"
  show "k = l"
  proof (cases "k = i \<or> l = i")
    case True
    with kl assms(2) show ?thesis
      by (metis nth_list_update_eq nth_list_update_neq nth_mem)
  next
    case False
    with kl assms(1) show ?thesis unfolding distinct_on_alt by simp
  qed
qed

lemma distinct_on_update_same:
  assumes "distinct_on P f xs" and "P y \<Longrightarrow> P (xs ! i) \<and> f y = f (xs ! i)"
  shows "distinct_on P f (xs[i := y])"
proof -
  have "P (xs[i := y] ! k) \<longrightarrow> P (xs ! k) \<and> f (xs[i := y] ! k) = f (xs ! k)" if "k < length xs" for k
    using that assms(2) by (cases "k = i") auto
  with assms(1) show ?thesis unfolding distinct_on_alt length_list_update by metis
qed

section \<open>Counting the elements with a property\<close>

definition cnt :: "('a \<Rightarrow> bool) \<Rightarrow> 'a list \<Rightarrow> nat" where
  "cnt P xs = length (filter P xs)"

lemma cnt_append [simp]: "cnt P (xs @ ys) = cnt P xs + cnt P ys"
  by (simp add: cnt_def)

lemma cnt_single [simp]: "cnt P [x] = (if P x then 1 else 0)"
  by (simp add: cnt_def)

lemma cnt_pos: "i < length xs \<Longrightarrow> P (xs ! i) \<Longrightarrow> 0 < cnt P xs"
  by (auto simp: cnt_def filter_empty_conv)

lemma cnt_none: "(\<And>x. x \<in> set xs \<Longrightarrow> \<not> P x) \<Longrightarrow> cnt P xs = 0"
  by (auto simp: cnt_def filter_empty_conv)

lemma cnt_mono: "(\<And>x. x \<in> set xs \<Longrightarrow> P x \<Longrightarrow> Q x) \<Longrightarrow> cnt P xs \<le> cnt Q xs"
  by (induction xs) (auto simp: cnt_def)

text \<open>Replacing one element moves the count by what it loses and gains.\<close>

lemma cnt_update:
  assumes "i < length xs"
  shows "cnt P (xs[i := y]) + (if P (xs ! i) then 1 else 0) = cnt P xs + (if P y then 1 else 0)"
proof -
  have xs: "xs = take i xs @ [xs ! i] @ drop (Suc i) xs"
    using id_take_nth_drop [OF assms] by simp
  have "xs[i := y] = take i xs @ [y] @ drop (Suc i) xs"
    using upd_conv_take_nth_drop [OF assms, of y] by simp
  then have "cnt P (xs[i := y]) = cnt P (take i xs) + (if P y then 1 else 0) + cnt P (drop (Suc i) xs)"
    by (simp only: cnt_append cnt_single)
  moreover have "cnt P xs = cnt P (take i xs) + (if P (xs ! i) then 1 else 0) + cnt P (drop (Suc i) xs)"
    by (subst xs) (simp only: cnt_append cnt_single)
  ultimately show ?thesis by simp
qed

text \<open>With a count of one there is one index.\<close>

lemma cnt_unique:
  assumes "cnt P xs \<le> 1" and "i < length xs" and "k < length xs" and "P (xs ! i)" and "P (xs ! k)"
  shows "i = k"
proof -
  have "at_most_one P xs" using assms(1) by (simp add: cnt_def at_most_one_def)
  with assms(2-5) show ?thesis by (auto simp: at_most_one_alt)
qed

text \<open>The same for a sum.\<close>

lemma sum_list_update_int:
  "i < length ts \<Longrightarrow> sum_list (map f (ts[i := t])) = sum_list (map f ts) - f (ts ! i) + (f t :: int)"
proof (induction ts arbitrary: i)
  case (Cons a ts)
  then show ?case by (cases i) auto
qed simp

text \<open>Different members of a distinct concatenation have no element in common.\<close>

lemma distinct_concat_nth:
  assumes "distinct (concat (map f ts))" and "i < length ts" and "j < length ts"
    and "x \<in> set (f (ts ! i))" and "x \<in> set (f (ts ! j))"
  shows "i = j"
  using assms
proof (induction ts arbitrary: i j)
  case (Cons a ts)
  have d: "distinct (concat (map f ts))" "set (f a) \<inter> set (concat (map f ts)) = {}"
    using Cons.prems(1) by simp_all
  have disj: "x \<notin> set (f (ts ! k))" if "k < length ts" "x \<in> set (f a)" for k
    using d(2) that nth_mem [OF that(1)] by (auto simp del: nth_mem)
  show ?case
  proof (cases i)
    case 0
    show ?thesis
    proof (cases j)
      case (Suc l)
      with 0 Cons.prems(3-5) disj [of l] show ?thesis by simp
    qed (use 0 in simp)
  next
    case (Suc k)
    show ?thesis
    proof (cases j)
      case 0
      with Suc Cons.prems(2,4,5) disj [of k] show ?thesis by simp
    next
      case (Suc l)
      with \<open>i = Suc k\<close> Cons.prems(2-5) Cons.IH [OF d(1), of k l] show ?thesis by simp
    qed
  qed
qed simp

end
