(* ===== verification/CString.thy ===== *)
theory CString
  imports Prelude
begin

text \<open>
  The parts of the C library's string handling that the programs use: \<open>strlen\<close>,
  \<open>strcmp\<close>, \<open>strchr\<close>, \<open>strstr\<close>, \<open>strtok\<close>, \<open>isdigit\<close>, \<open>atoi\<close> and the \<open>%d\<close>
  conversion of \<open>printf\<close>. A C string is modelled by the list of its characters before
  the terminating null character; \<open>cstr\<close> reads it off a character array.
\<close>

abbreviation NUL :: char where "NUL \<equiv> CHR 0x00"
abbreviation LF :: char where "LF \<equiv> CHR 0x0A"
abbreviation CR :: char where "CR \<equiv> CHR 0x0D"
abbreviation SPC :: char where "SPC \<equiv> CHR 0x20"
abbreviation QUOTE :: char where "QUOTE \<equiv> CHR 0x27"
abbreviation CRLF :: string where "CRLF \<equiv> [CHR 0x0D, CHR 0x0A]"

definition cstr :: "string \<Rightarrow> string" where
  "cstr buf = takeWhile (\<lambda>c. c \<noteq> NUL) buf"

definition no_nul :: "string \<Rightarrow> bool" where
  "no_nul s \<longleftrightarrow> NUL \<notin> set s"

lemma no_nul_Nil [simp]: "no_nul []"
  by (simp add: no_nul_def)

lemma no_nul_Cons [simp]: "no_nul (c # s) \<longleftrightarrow> c \<noteq> NUL \<and> no_nul s"
  by (auto simp: no_nul_def)

lemma no_nul_append [simp]: "no_nul (s @ t) \<longleftrightarrow> no_nul s \<and> no_nul t"
  by (auto simp: no_nul_def)

lemma cstr_append_NUL: "no_nul s \<Longrightarrow> cstr (s @ NUL # t) = s"
  by (induction s) (auto simp: cstr_def)

lemma cstr_id: "no_nul s \<Longrightarrow> cstr s = s"
  by (induction s) (auto simp: cstr_def)

lemma no_nul_cstr: "no_nul (cstr s)"
  by (auto simp: cstr_def no_nul_def dest: set_takeWhileD)

section \<open>Searching\<close>

definition strchr :: "string \<Rightarrow> char \<Rightarrow> nat option" where
  "strchr s c = first_index (\<lambda>x. x = c) s"

fun starts_with :: "string \<Rightarrow> string \<Rightarrow> bool" where
  "starts_with [] s = True"
| "starts_with (x # xs) [] = False"
| "starts_with (x # xs) (y # ys) = (x = y \<and> starts_with xs ys)"

fun strstr :: "string \<Rightarrow> string \<Rightarrow> nat option" where
  "strstr [] needle = (if needle = [] then Some 0 else None)"
| "strstr (x # xs) needle =
     (if starts_with needle (x # xs) then Some 0 else map_option Suc (strstr xs needle))"

lemma starts_with_iff: "starts_with p s \<longleftrightarrow> (\<exists>t. s = p @ t)"
  by (induction p s rule: starts_with.induct) auto

lemma strchr_None: "strchr s c = None \<longleftrightarrow> c \<notin> set s"
  by (auto simp: strchr_def first_index_None)

lemma strchr_append:
  "c \<notin> set s \<Longrightarrow> strchr (s @ c # t) c = Some (length s)"
  by (induction s) (auto simp: strchr_def)

lemma strchr_SomeE:
  assumes "strchr s c = Some i"
  obtains t where "s = take i s @ c # t" and "c \<notin> set (take i s)" and "i < length s"
    and "drop (Suc i) s = t"
proof -
  from assms have i: "i < length s" "s ! i = c" "\<And>j. j < i \<Longrightarrow> s ! j \<noteq> c"
    by (auto simp: strchr_def dest: first_index_SomeD)
  have "c \<notin> set (take i s)"
    using i(1,3) by (auto simp: in_set_conv_nth)
  moreover have "s = take i s @ c # drop (Suc i) s"
    using i(1,2) id_take_nth_drop by blast
  ultimately show thesis using that i(1) by blast
qed

lemma strstr_Some_iff:
  "(\<exists>i. strstr s needle = Some i) \<longleftrightarrow> (\<exists>a b. s = a @ needle @ b)"
proof (induction s)
  case Nil
  then show ?case by simp
next
  case (Cons x xs)
  show ?case
  proof (cases "starts_with needle (x # xs)")
    case True
    then obtain t where "x # xs = needle @ t" by (auto simp: starts_with_iff)
    then have "\<exists>a b. x # xs = a @ needle @ b" by (metis append_Nil)
    with True show ?thesis by simp
  next
    case False
    have "(\<exists>a b. x # xs = a @ needle @ b) \<longleftrightarrow> (\<exists>a b. xs = a @ needle @ b)"
    proof
      assume "\<exists>a b. x # xs = a @ needle @ b"
      then obtain a b where ab: "x # xs = a @ needle @ b" by blast
      from False ab have "a \<noteq> []" by (auto simp: starts_with_iff)
      with ab show "\<exists>a b. xs = a @ needle @ b" by (cases a) auto
    next
      assume "\<exists>a b. xs = a @ needle @ b"
      then show "\<exists>a b. x # xs = a @ needle @ b" by (metis append_Cons)
    qed
    with False Cons.IH show ?thesis by auto
  qed
qed

section \<open>strtok\<close>

text \<open>
  One call of \<open>strtok\<close> on the text still to be scanned: the token (or the null pointer)
  and the text after the delimiter that ended it.
\<close>

definition strtok :: "string \<Rightarrow> string \<Rightarrow> string option \<times> string" where
  "strtok delims s =
     (let s' = dropWhile (\<lambda>c. c \<in> set delims) s in
      if s' = [] then (None, [])
      else (Some (takeWhile (\<lambda>c. c \<notin> set delims) s'),
            drop 1 (dropWhile (\<lambda>c. c \<notin> set delims) s')))"

lemma strtok_rest_less:
  "strtok delims s = (Some tok, rest) \<Longrightarrow> length rest < length s"
proof -
  assume "strtok delims s = (Some tok, rest)"
  then have ne: "dropWhile (\<lambda>c. c \<in> set delims) s \<noteq> []"
    and rest: "rest = drop 1 (dropWhile (\<lambda>c. c \<notin> set delims)
                 (dropWhile (\<lambda>c. c \<in> set delims) s))"
    by (auto simp: strtok_def Let_def split: if_splits)
  let ?s' = "dropWhile (\<lambda>c. c \<in> set delims) s"
  from ne have "hd ?s' \<notin> set delims" using hd_dropWhile by blast
  with ne obtain a b where "?s' = a # b" "a \<notin> set delims" by (cases ?s') auto
  then have "length rest \<le> length b"
    using rest length_dropWhile_le [of _ b] by (auto intro: le_trans [OF diff_le_self])
  also have "\<dots> < length ?s'" using \<open>?s' = a # b\<close> by simp
  also have "\<dots> \<le> length s" by (rule length_dropWhile_le)
  finally show ?thesis .
qed

lemma strtok_token:
  "strtok delims s = (Some tok, rest) \<Longrightarrow> tok \<noteq> [] \<and> set tok \<inter> set delims = {}"
proof -
  assume a: "strtok delims s = (Some tok, rest)"
  let ?s' = "dropWhile (\<lambda>c. c \<in> set delims) s"
  from a have ne: "?s' \<noteq> []" and tok: "tok = takeWhile (\<lambda>c. c \<notin> set delims) ?s'"
    by (auto simp: strtok_def Let_def split: if_splits)
  from ne have "hd ?s' \<notin> set delims" using hd_dropWhile by blast
  with ne tok have "tok \<noteq> []" by (cases ?s') auto
  moreover have "set tok \<inter> set delims = {}"
    using tok by (auto dest: set_takeWhileD)
  ultimately show ?thesis ..
qed

lemma strtok_word:
  assumes "w \<noteq> []" and "set w \<inter> set delims = {}" and "d \<in> set delims"
  shows "strtok delims (w @ d # t) = (Some w, t)"
proof -
  from assms obtain a v where w: "w = a # v" "a \<notin> set delims" by (cases w) auto
  have "dropWhile (\<lambda>c. c \<in> set delims) (w @ d # t) = w @ d # t"
    using w by simp
  moreover have "takeWhile (\<lambda>c. c \<notin> set delims) (w @ d # t) = w"
    using assms by (subst takeWhile_append2) auto
  moreover have "dropWhile (\<lambda>c. c \<notin> set delims) (w @ d # t) = d # t"
    using assms by (subst dropWhile_append2) auto
  ultimately show ?thesis using w by (simp add: strtok_def)
qed

lemma strtok_skip:
  "d \<in> set delims \<Longrightarrow> strtok delims (d # t) = strtok delims t"
  by (simp add: strtok_def)

lemma strtok_Nil [simp]: "strtok delims [] = (None, [])"
  by (simp add: strtok_def)

section \<open>Numbers in text\<close>

definition digit_char :: "nat \<Rightarrow> char" where
  "digit_char d = char_of (48 + d)"

definition digit_val :: "char \<Rightarrow> nat" where
  "digit_val c = of_char c - 48"

definition isdigit :: "char \<Rightarrow> bool" where
  "isdigit c \<longleftrightarrow> 48 \<le> (of_char c :: nat) \<and> (of_char c :: nat) \<le> 57"

lemma of_char_digit_char: "d < 10 \<Longrightarrow> of_char (digit_char d) = 48 + d"
  by (simp add: digit_char_def)

lemma digit_val_digit_char [simp]: "d < 10 \<Longrightarrow> digit_val (digit_char d) = d"
  by (simp add: digit_val_def of_char_digit_char)

lemma isdigit_digit_char [simp]: "d < 10 \<Longrightarrow> isdigit (digit_char d)"
  by (simp add: isdigit_def of_char_digit_char)

fun show_nat :: "nat \<Rightarrow> string" where
  "show_nat n =
     (if n < 10 then [digit_char n] else show_nat (n div 10) @ [digit_char (n mod 10)])"

declare show_nat.simps [simp del]

definition show_int :: "int \<Rightarrow> string" where
  "show_int i = (if i < 0 then CHR ''-'' # show_nat (nat (- i)) else show_nat (nat i))"

definition dec_value :: "string \<Rightarrow> nat" where
  "dec_value s = foldl (\<lambda>a c. 10 * a + digit_val c) 0 s"

lemma dec_value_snoc: "dec_value (s @ [c]) = 10 * dec_value s + digit_val c"
  by (simp add: dec_value_def)

lemma show_nat_digits: "c \<in> set (show_nat n) \<Longrightarrow> isdigit c"
proof (induction n rule: show_nat.induct)
  case (1 n)
  then show ?case by (subst (asm) show_nat.simps) (auto split: if_splits)
qed

lemma show_nat_not_Nil [simp]: "show_nat n \<noteq> []"
  by (subst show_nat.simps) simp

lemma dec_value_show_nat [simp]: "dec_value (show_nat n) = n"
proof (induction n rule: show_nat.induct)
  case (1 n)
  show ?case
  proof (cases "n < 10")
    case True
    then show ?thesis by (subst show_nat.simps) (simp add: dec_value_def)
  next
    case False
    with 1 show ?thesis by (subst show_nat.simps) (simp add: dec_value_snoc)
  qed
qed

text \<open>
  \<open>atoi\<close>: leading white space, a sign, digits, and the rest ignored. As in glibc, the value
  is that of \<open>strtol\<close> (which stops at the bounds of a 64-bit \<open>long\<close>) cut to 32 bits.
\<close>

definition isspace :: "char \<Rightarrow> bool" where
  "isspace c \<longleftrightarrow> c = SPC \<or> (9 \<le> (of_char c :: nat) \<and> (of_char c :: nat) \<le> 13)"

definition strtol10 :: "string \<Rightarrow> int" where
  "strtol10 s =
     (let s' = dropWhile isspace s;
          neg = (s' \<noteq> [] \<and> hd s' = CHR ''-'');
          ds = takeWhile isdigit
                 (if s' \<noteq> [] \<and> (hd s' = CHR ''-'' \<or> hd s' = CHR ''+'') then tl s' else s');
          v = int (dec_value ds)
      in if neg then max (- (2 ^ 63)) (- v) else min (2 ^ 63 - 1) v)"

definition to_int32 :: "int \<Rightarrow> int" where
  "to_int32 v = (v + 2 ^ 31) mod 2 ^ 32 - 2 ^ 31"

definition atoi :: "string \<Rightarrow> int" where
  "atoi s = to_int32 (strtol10 s)"

lemma to_int32_id: "- (2 ^ 31) \<le> v \<Longrightarrow> v < 2 ^ 31 \<Longrightarrow> to_int32 v = v"
  by (simp add: to_int32_def)

lemma to_int32_range: "- (2 ^ 31) \<le> to_int32 v \<and> to_int32 v < 2 ^ 31"
  unfolding to_int32_def using pos_mod_bound [of "2 ^ 32" "v + 2 ^ 31"] pos_mod_sign [of "2 ^ 32" "v + 2 ^ 31"]
  by simp

lemma isdigit_not_isspace: "isdigit c \<Longrightarrow> \<not> isspace c"
  by (auto simp: isdigit_def isspace_def)

lemma isdigit_not_sign: "isdigit c \<Longrightarrow> c \<noteq> CHR ''-'' \<and> c \<noteq> CHR ''+''"
  by (auto simp: isdigit_def)

lemma strtol10_digits:
  assumes "ds \<noteq> []" and "\<And>c. c \<in> set ds \<Longrightarrow> isdigit c"
    and "t = [] \<or> \<not> isdigit (hd t)"
  shows "strtol10 (ds @ t) = min (2 ^ 63 - 1) (int (dec_value ds))"
proof -
  obtain a v where ds: "ds = a # v" using assms(1) by (cases ds) auto
  have a: "isdigit a" using ds assms(2) by auto
  have tw: "takeWhile isdigit (ds @ t) = ds"
    using assms(2,3) by (cases t) (auto simp: takeWhile_append2)
  have "dropWhile isspace (ds @ t) = ds @ t"
    using isdigit_not_isspace [OF a] ds by simp
  with tw isdigit_not_sign [OF a] ds show ?thesis
    by (simp add: strtol10_def Let_def)
qed

theorem atoi_show_int:
  assumes "0 \<le> i" and "i < 2 ^ 31"
  shows "atoi (show_int i) = i"
proof -
  have "strtol10 (show_nat (nat i) @ []) = min (2 ^ 63 - 1) (int (dec_value (show_nat (nat i))))"
    by (rule strtol10_digits) (auto intro: show_nat_digits)
  with assms have "strtol10 (show_nat (nat i)) = i" by simp
  with assms show ?thesis by (simp add: atoi_def show_int_def to_int32_id)
qed

end
