(* ===== verification/Tsh_Jobs.thy ===== *)
theory Tsh_Jobs
  imports CString
begin

text \<open>
  The job list of the shell \<open>shlab-handout/tsh.c\<close>: the array \<open>jobs\<close> of \<open>MAXJOBS\<close> slots,
  the counter \<open>nextjid\<close>, and the helper routines that manipulate them. A pointer to a job
  is the index of its slot. The abstract view of the array is a finite map from process
  IDs to jobs (\<open>job_of\<close>); the interface \<open>job_table\<close> states what the shell relies on.
\<close>

section \<open>The data\<close>

abbreviation MAXLINE :: nat where "MAXLINE \<equiv> 1024"
abbreviation MAXARGS :: nat where "MAXARGS \<equiv> 128"
abbreviation MAXJOBS :: nat where "MAXJOBS \<equiv> 16"

datatype jstate = UNDEF | FG | BG | ST

record job_t =
  job_pid :: int
  job_jid :: int
  job_state :: jstate
  job_cmdline :: string

text \<open>The globals the helper routines use, and what has been printed on standard output.\<close>

record tsh =
  jobs :: "job_t list"
  nextjid :: int
  verbose :: bool
  sh_out :: string

definition tsh_print :: "string \<Rightarrow> tsh \<Rightarrow> tsh" where
  "tsh_print msg s = s\<lparr>sh_out := sh_out s @ msg\<rparr>"

section \<open>The helper routines\<close>

definition clearjob :: job_t where
  "clearjob = \<lparr>job_pid = 0, job_jid = 0, job_state = UNDEF, job_cmdline = ''''\<rparr>"

definition initjobs :: "tsh \<Rightarrow> tsh" where
  "initjobs s = s\<lparr>jobs := replicate MAXJOBS clearjob\<rparr>"

text \<open>The globals as C initialises them, before and after \<open>initjobs\<close>.\<close>

definition tsh_init :: tsh where
  "tsh_init = initjobs \<lparr>jobs = replicate MAXJOBS clearjob, nextjid = 1, verbose = False, sh_out = ''''\<rparr>"

definition maxjid :: "job_t list \<Rightarrow> int" where
  "maxjid js = foldl (\<lambda>m j. if job_jid j > m then job_jid j else m) 0 js"

definition msg_too_many :: string where
  "msg_too_many = ''Tried to create too many jobs'' @ [LF]"

definition msg_added :: "int \<Rightarrow> int \<Rightarrow> string \<Rightarrow> string" where
  "msg_added jid pid cmdline =
     ''Added job ['' @ show_int jid @ ''] '' @ show_int pid @ '' '' @ cmdline @ [LF]"

definition addjob :: "int \<Rightarrow> jstate \<Rightarrow> string \<Rightarrow> (tsh, int) cprog" where
  "addjob pid st cmdline s =
     (if pid < 1 then (Ret 0, s)
      else case first_index (\<lambda>j. job_pid j = 0) (jobs s) of
        None \<Rightarrow> (Ret 0, tsh_print msg_too_many s)
      | Some i \<Rightarrow>
          if MAXLINE \<le> length cmdline then (Fault Out_Of_Bounds, s)
          else
            (let jid = nextjid s;
                 n = nextjid s + 1;
                 s' = s\<lparr>jobs := (jobs s)[i := \<lparr>job_pid = pid, job_jid = jid,
                                   job_state = st, job_cmdline = cmdline\<rparr>],
                        nextjid := if n > int MAXJOBS then 1 else n\<rparr>
             in (Ret 1,
                 if verbose s
                 then tsh_print (msg_added jid pid cmdline) s'
                 else s')))"

definition deletejob :: "int \<Rightarrow> tsh \<Rightarrow> int \<times> tsh" where
  "deletejob pid s =
     (if pid < 1 then (0, s)
      else case first_index (\<lambda>j. job_pid j = pid) (jobs s) of
        None \<Rightarrow> (0, s)
      | Some i \<Rightarrow>
          (let js = (jobs s)[i := clearjob]
           in (1, s\<lparr>jobs := js, nextjid := maxjid js + 1\<rparr>)))"

definition fgpid :: "job_t list \<Rightarrow> int" where
  "fgpid js =
     (case first_index (\<lambda>j. job_state j = FG) js of None \<Rightarrow> 0 | Some i \<Rightarrow> job_pid (js ! i))"

definition getjobpid :: "job_t list \<Rightarrow> int \<Rightarrow> nat option" where
  "getjobpid js pid =
     (if pid < 1 then None else first_index (\<lambda>j. job_pid j = pid) js)"

definition getjobjid :: "job_t list \<Rightarrow> int \<Rightarrow> nat option" where
  "getjobjid js jid =
     (if jid < 1 then None else first_index (\<lambda>j. job_jid j = jid) js)"

definition pid2jid :: "job_t list \<Rightarrow> int \<Rightarrow> int" where
  "pid2jid js pid =
     (if pid < 1 then 0
      else case first_index (\<lambda>j. job_pid j = pid) js of
        None \<Rightarrow> 0 | Some i \<Rightarrow> job_jid (js ! i))"

fun state_label :: "nat \<Rightarrow> jstate \<Rightarrow> string" where
  "state_label i BG = ''Running ''"
| "state_label i FG = ''Foreground ''"
| "state_label i ST = ''Stopped ''"
| "state_label i UNDEF =
     ''listjobs: Internal error: job['' @ show_int (int i) @ ''].state=0 ''"

fun listjobs_from :: "nat \<Rightarrow> job_t list \<Rightarrow> string" where
  "listjobs_from i [] = ''''"
| "listjobs_from i (j # js) =
     (if job_pid j \<noteq> 0
      then ''['' @ show_int (job_jid j) @ ''] ('' @ show_int (job_pid j) @ '') '' @
           state_label i (job_state j) @ job_cmdline j
      else '''') @ listjobs_from (Suc i) js"

definition listjobs :: "tsh \<Rightarrow> tsh" where
  "listjobs s = tsh_print (listjobs_from 0 (jobs s)) s"

section \<open>Well-formed job lists\<close>

definition live :: "job_t \<Rightarrow> bool" where
  "live j \<longleftrightarrow> job_pid j \<noteq> 0"

text \<open>Every slot is either cleared or holds a live process, and no process has two slots.\<close>

definition jobs_wf :: "job_t list \<Rightarrow> bool" where
  "jobs_wf js \<longleftrightarrow> length js = MAXJOBS \<and>
     list_all (\<lambda>j. 0 \<le> job_pid j \<and> (job_pid j = 0 \<longrightarrow> j = clearjob)) js \<and>
     distinct_on live job_pid js"

lemma live_clearjob [simp]: "\<not> live clearjob"
  by (simp add: live_def clearjob_def)

lemma clearjob_simps [simp]:
  "job_pid clearjob = 0" "job_jid clearjob = 0" "job_state clearjob = UNDEF"
  "job_cmdline clearjob = ''''"
  by (simp_all add: clearjob_def)

lemma tsh_print_simps [simp]:
  "jobs (tsh_print m s) = jobs s" "nextjid (tsh_print m s) = nextjid s"
  "verbose (tsh_print m s) = verbose s" "sh_out (tsh_print m s) = sh_out s @ m"
  by (simp_all add: tsh_print_def)

lemma jobs_wf_length: "jobs_wf js \<Longrightarrow> length js = MAXJOBS"
  by (simp add: jobs_wf_def)

lemma jobs_wf_slot:
  "jobs_wf js \<Longrightarrow> j \<in> set js \<Longrightarrow> 0 \<le> job_pid j \<and> (job_pid j = 0 \<longrightarrow> j = clearjob)"
  by (auto simp: jobs_wf_def list_all_iff)

lemma jobs_wf_init: "jobs_wf (jobs tsh_init)"
  by (simp add: jobs_wf_def tsh_init_def initjobs_def distinct_on_def list_all_iff)

lemma jobs_wf_unique:
  assumes "jobs_wf js" and "i < length js" and "k < length js"
    and "job_pid (js ! i) = p" and "job_pid (js ! k) = p" and "p \<noteq> 0"
  shows "i = k"
proof -
  have "\<forall>i < length js. \<forall>k < length js. job_pid (js ! i) \<noteq> 0 \<longrightarrow> job_pid (js ! k) \<noteq> 0 \<longrightarrow>
      job_pid (js ! i) = job_pid (js ! k) \<longrightarrow> i = k"
    using assms(1) by (simp add: jobs_wf_def distinct_on_alt live_def)
  with assms(2-) show ?thesis by simp
qed

lemma jobs_wf_fill:
  assumes "jobs_wf js" and "0 < job_pid y" and "\<And>x. x \<in> set js \<Longrightarrow> job_pid x \<noteq> job_pid y"
  shows "jobs_wf (js[i := y])"
proof -
  have "distinct_on live job_pid (js[i := y])"
    using assms by (intro distinct_on_update_fresh) (auto simp: jobs_wf_def)
  with assms show ?thesis
    by (auto simp: jobs_wf_def list_all_iff dest!: set_update_subset_insert [THEN subsetD])
qed

lemma jobs_wf_clear: "jobs_wf js \<Longrightarrow> jobs_wf (js[i := clearjob])"
  by (auto simp: jobs_wf_def list_all_iff intro: distinct_on_update_out
      dest!: set_update_subset_insert [THEN subsetD])

lemma jobs_wf_set_state:
  assumes "jobs_wf js" and "i < length js" and "job_pid (js ! i) \<noteq> 0"
  shows "jobs_wf (js[i := (js ! i)\<lparr>job_state := st\<rparr>])"
proof -
  have "distinct_on live job_pid (js[i := (js ! i)\<lparr>job_state := st\<rparr>])"
    using assms by (intro distinct_on_update_same) (auto simp: jobs_wf_def live_def)
  moreover have "0 \<le> job_pid (js ! i)" using assms jobs_wf_slot nth_mem by blast
  ultimately show ?thesis using assms
    by (auto simp: jobs_wf_def list_all_iff dest!: set_update_subset_insert [THEN subsetD])
qed

section \<open>The job list as a map from process IDs\<close>

definition job_of :: "tsh \<Rightarrow> int \<Rightarrow> job_t option" where
  "job_of s pid = map_option ((!) (jobs s)) (getjobpid (jobs s) pid)"

lemma getjobpid_Some_iff:
  assumes "jobs_wf js" and "0 < pid"
  shows "getjobpid js pid = Some i \<longleftrightarrow> i < length js \<and> job_pid (js ! i) = pid"
proof
  assume "getjobpid js pid = Some i"
  then show "i < length js \<and> job_pid (js ! i) = pid"
    using assms(2) by (auto simp: getjobpid_def first_index_Some split: if_splits)
next
  assume i: "i < length js \<and> job_pid (js ! i) = pid"
  with assms(2) show "getjobpid js pid = Some i"
    by (auto simp: getjobpid_def first_index_Some)
       (metis assms i jobs_wf_unique less_irrefl order_less_trans)
qed

lemma getjobpid_None_iff:
  "0 < pid \<Longrightarrow> getjobpid js pid = None \<longleftrightarrow> (\<forall>j \<in> set js. job_pid j \<noteq> pid)"
  by (auto simp: getjobpid_def first_index_None)

lemma job_of_iff:
  assumes "jobs_wf (jobs s)" and "0 < pid"
  shows "job_of s pid = Some j \<longleftrightarrow> j \<in> set (jobs s) \<and> job_pid j = pid"
proof
  assume "job_of s pid = Some j"
  then show "j \<in> set (jobs s) \<and> job_pid j = pid"
    using assms getjobpid_Some_iff by (auto simp: job_of_def)
next
  assume "j \<in> set (jobs s) \<and> job_pid j = pid"
  then obtain i where "i < length (jobs s)" "jobs s ! i = j" "job_pid j = pid"
    by (auto simp: in_set_conv_nth)
  with assms have "getjobpid (jobs s) pid = Some i" by (simp add: getjobpid_Some_iff)
  with \<open>jobs s ! i = j\<close> show "job_of s pid = Some j" by (simp add: job_of_def)
qed

lemma job_of_nonpos: "pid \<le> 0 \<Longrightarrow> job_of s pid = None"
  by (simp add: job_of_def getjobpid_def)

lemma job_of_None_iff:
  "0 < pid \<Longrightarrow> job_of s pid = None \<longleftrightarrow> (\<forall>j \<in> set (jobs s). job_pid j \<noteq> pid)"
  by (simp add: job_of_def getjobpid_None_iff)

lemma pid2jid_job_of:
  "pid2jid (jobs s) pid = (case job_of s pid of None \<Rightarrow> 0 | Some j \<Rightarrow> job_jid j)"
  by (auto simp: pid2jid_def job_of_def getjobpid_def split: option.split)

lemma job_of_tsh_print [simp]: "job_of (tsh_print m s) = job_of s"
  by (rule ext) (simp add: job_of_def)

section \<open>addjob and deletejob on the map\<close>

definition has_room :: "tsh \<Rightarrow> bool" where
  "has_room s \<longleftrightarrow> (\<exists>j \<in> set (jobs s). job_pid j = 0)"

definition new_job :: "tsh \<Rightarrow> int \<Rightarrow> jstate \<Rightarrow> string \<Rightarrow> job_t" where
  "new_job s pid st cmdline =
     \<lparr>job_pid = pid, job_jid = nextjid s, job_state = st, job_cmdline = cmdline\<rparr>"

lemma free_slot:
  assumes "has_room s"
  obtains i where "first_index (\<lambda>j. job_pid j = 0) (jobs s) = Some i"
    and "i < length (jobs s)" and "job_pid (jobs s ! i) = 0"
proof (cases "first_index (\<lambda>j. job_pid j = 0) (jobs s)")
  case None
  with assms show ?thesis by (simp add: has_room_def first_index_None)
next
  case (Some i)
  then show ?thesis using that first_index_SomeD [OF Some] by simp
qed

lemma addjob_room:
  fixes st cmdline
  assumes "1 \<le> pid" and "has_room s" and "length cmdline < MAXLINE"
  obtains i where "first_index (\<lambda>j. job_pid j = 0) (jobs s) = Some i"
    and "i < length (jobs s)" and "job_pid (jobs s ! i) = 0"
    and "fst (addjob pid st cmdline s) = Ret 1"
    and "jobs (snd (addjob pid st cmdline s)) = (jobs s)[i := new_job s pid st cmdline]"
    and "nextjid (snd (addjob pid st cmdline s)) =
      (if nextjid s + 1 > int MAXJOBS then 1 else nextjid s + 1)"
proof -
  obtain i where i: "first_index (\<lambda>j. job_pid j = 0) (jobs s) = Some i"
    "i < length (jobs s)" "job_pid (jobs s ! i) = 0"
    using assms(2) by (rule free_slot)
  then show thesis
    using assms by (intro that [of i]) (auto simp: addjob_def new_job_def Let_def)
qed

lemma addjob_full:
  assumes "1 \<le> pid" and "\<not> has_room s"
  shows "addjob pid st cmdline s = (Ret 0, tsh_print msg_too_many s)"
proof -
  have "first_index (\<lambda>j. job_pid j = 0) (jobs s) = None"
    using assms(2) by (auto simp: has_room_def first_index_None)
  with assms(1) show ?thesis by (simp add: addjob_def)
qed

lemma addjob_rejected:
  assumes "\<not> (1 \<le> pid \<and> has_room s \<and> length cmdline < MAXLINE)"
  shows "jobs (snd (addjob pid st cmdline s)) = jobs s"
    and "nextjid (snd (addjob pid st cmdline s)) = nextjid s"
proof -
  have "jobs (snd (addjob pid st cmdline s)) = jobs s \<and>
        nextjid (snd (addjob pid st cmdline s)) = nextjid s"
  proof (cases "1 \<le> pid \<and> has_room s")
    case True
    with assms have "MAXLINE \<le> length cmdline" by auto
    with True show ?thesis by (auto simp: addjob_def split: option.splits)
  next
    case False
    then show ?thesis using addjob_full by (cases "1 \<le> pid") (auto simp: addjob_def)
  qed
  then show "jobs (snd (addjob pid st cmdline s)) = jobs s"
    and "nextjid (snd (addjob pid st cmdline s)) = nextjid s" by simp_all
qed

lemma deletejob_absent:
  assumes "job_of s pid = None"
  shows "deletejob pid s = (0, s)"
proof (cases "pid < 1")
  case False
  with assms have "first_index (\<lambda>j. job_pid j = pid) (jobs s) = None"
    by (simp add: job_of_def getjobpid_def)
  then show ?thesis by (simp add: deletejob_def)
qed (simp add: deletejob_def)

lemma deletejob_present:
  assumes "job_of s pid = Some j"
  obtains i where "getjobpid (jobs s) pid = Some i" and "0 < pid"
    and "deletejob pid s =
      (1, s\<lparr>jobs := (jobs s)[i := clearjob],
            nextjid := maxjid ((jobs s)[i := clearjob]) + 1\<rparr>)"
proof -
  have "\<not> pid < 1" using assms job_of_nonpos by fastforce
  with assms obtain i where "first_index (\<lambda>j. job_pid j = pid) (jobs s) = Some i"
    by (auto simp: job_of_def getjobpid_def)
  with \<open>\<not> pid < 1\<close> show thesis
    by (intro that [of i]) (simp_all add: getjobpid_def deletejob_def Let_def)
qed

lemma addjob_jobs_wf:
  assumes "jobs_wf (jobs s)" and "job_of s pid = None"
  shows "jobs_wf (jobs (snd (addjob pid st cmdline s)))"
proof (cases "1 \<le> pid \<and> has_room s \<and> length cmdline < MAXLINE")
  case True
  then obtain i where
    js: "jobs (snd (addjob pid st cmdline s)) = (jobs s)[i := new_job s pid st cmdline]"
    by (metis addjob_room)
  from True assms(2) have "\<And>x. x \<in> set (jobs s) \<Longrightarrow> job_pid x \<noteq> pid"
    by (simp add: job_of_None_iff)
  with True assms(1) show ?thesis
    unfolding js by (intro jobs_wf_fill) (auto simp: new_job_def)
next
  case False
  with assms(1) show ?thesis by (simp add: addjob_rejected)
qed

lemma deletejob_jobs_wf:
  assumes "jobs_wf (jobs s)"
  shows "jobs_wf (jobs (snd (deletejob pid s)))"
proof (cases "job_of s pid")
  case None
  with assms show ?thesis by (simp add: deletejob_absent)
next
  case (Some j)
  then obtain i where "jobs (snd (deletejob pid s)) = (jobs s)[i := clearjob]"
    by (rule deletejob_present) simp
  with assms show ?thesis by (simp add: jobs_wf_clear)
qed

lemma job_of_update:
  assumes wf: "jobs_wf (jobs s)" and js: "jobs s' = (jobs s)[i := y]" and wf': "jobs_wf (jobs s')"
    and i: "i < length (jobs s)" and q: "0 < q"
  shows "job_of s' q =
    (if job_pid y = q then Some y else if job_pid (jobs s ! i) = q then None else job_of s q)"
proof (cases "job_pid y = q")
  case True
  then have "y \<in> set (jobs s')" using i js by (simp add: set_update_memI)
  with True wf' q show ?thesis by (simp add: job_of_iff)
next
  case False
  note ny = this
  show ?thesis
  proof (cases "job_pid (jobs s ! i) = q")
    case True
    have "job_pid j \<noteq> q" if "j \<in> set (jobs s')" for j
    proof
      assume "job_pid j = q"
      from that obtain k where k: "k < length (jobs s)" "j = (jobs s)[i := y] ! k"
        by (auto simp: in_set_conv_nth js)
      with \<open>job_pid j = q\<close> ny i have "k \<noteq> i" "job_pid (jobs s ! k) = q"
        by (auto simp: nth_list_update split: if_splits)
      with k(1) jobs_wf_unique [OF wf _ i _ True] q show False by auto
    qed
    with ny True q show ?thesis by (simp add: job_of_None_iff)
  next
    case False
    have "(job_pid (jobs s' ! k) = q) = (job_pid (jobs s ! k) = q)" if "k < length (jobs s)" for k
      using that ny False i by (cases "k = i") (simp_all add: js)
    then have "first_index (\<lambda>j. job_pid j = q) (jobs s') = first_index (\<lambda>j. job_pid j = q) (jobs s)"
      by (intro first_index_cong) (simp_all add: js)
    then have "getjobpid (jobs s') q = getjobpid (jobs s) q"
      by (simp add: getjobpid_def)
    moreover have "jobs s' ! k = jobs s ! k" if "getjobpid (jobs s) q = Some k" for k
      using that False wf q by (cases "k = i") (simp_all add: js getjobpid_Some_iff)
    ultimately have "job_of s' q = job_of s q"
      by (cases "getjobpid (jobs s) q") (auto simp: job_of_def)
    with ny False show ?thesis by simp
  qed
qed

lemma job_of_addjob:
  assumes wf: "jobs_wf (jobs s)" and new: "job_of s pid = None"
    and ok: "1 \<le> pid" "has_room s" "length cmdline < MAXLINE"
  shows "job_of (snd (addjob pid st cmdline s)) = (job_of s)(pid \<mapsto> new_job s pid st cmdline)"
proof
  fix q
  obtain i where i: "i < length (jobs s)" "job_pid (jobs s ! i) = 0"
    and js: "jobs (snd (addjob pid st cmdline s)) = (jobs s)[i := new_job s pid st cmdline]"
    using addjob_room [OF ok] by metis
  show "job_of (snd (addjob pid st cmdline s)) q =
      ((job_of s)(pid \<mapsto> new_job s pid st cmdline)) q"
  proof (cases "0 < q")
    case False
    with ok(1) show ?thesis by (simp add: job_of_nonpos)
  next
    case True
    show ?thesis
      using job_of_update [OF wf js addjob_jobs_wf [OF wf new] i(1) True] i(2) True
      by (auto simp: new_job_def)
  qed
qed

lemma job_of_deletejob:
  assumes wf: "jobs_wf (jobs s)"
  shows "job_of (snd (deletejob pid s)) = (job_of s)(pid := None)"
proof (cases "job_of s pid")
  case None
  then show ?thesis by (simp add: deletejob_absent fun_upd_idem)
next
  case (Some j)
  then obtain i where g: "getjobpid (jobs s) pid = Some i" and pos: "0 < pid"
    and js: "jobs (snd (deletejob pid s)) = (jobs s)[i := clearjob]"
    by (rule deletejob_present) simp
  show ?thesis
  proof
    fix q
    show "job_of (snd (deletejob pid s)) q = ((job_of s)(pid := None)) q"
    proof (cases "0 < q")
      case False
      then show ?thesis by (simp add: job_of_nonpos)
    next
      case True
      have i: "i < length (jobs s)" "job_pid (jobs s ! i) = pid"
        using g getjobpid_Some_iff [OF wf pos] by auto
      show ?thesis
        using job_of_update [OF wf js deletejob_jobs_wf [OF wf] i(1) True] i(2) True by auto
    qed
  qed
qed

section \<open>Job IDs\<close>

lemma maxjid_snoc: "maxjid (js @ [j]) = max (job_jid j) (maxjid js)"
  by (simp add: maxjid_def max_def)

lemma maxjid_ge: "j \<in> set js \<Longrightarrow> job_jid j \<le> maxjid js"
  by (induction js rule: rev_induct) (auto simp: maxjid_snoc)

lemma maxjid_nonneg: "0 \<le> maxjid js"
  by (induction js rule: rev_induct) (simp_all add: maxjid_snoc, simp add: maxjid_def)

lemma maxjid_attained: "maxjid js = 0 \<or> maxjid js \<in> job_jid ` set js"
  by (induction js rule: rev_induct) (auto simp: maxjid_snoc max_def maxjid_def)

text \<open>Live jobs have different job IDs, all of them below the next one to be given out.\<close>

definition jids_ok :: "tsh \<Rightarrow> bool" where
  "jids_ok s \<longleftrightarrow> distinct_on live job_jid (jobs s) \<and>
     list_all (\<lambda>j. live j \<longrightarrow> 1 \<le> job_jid j \<and> job_jid j < nextjid s) (jobs s) \<and> 1 \<le> nextjid s"

lemma jids_ok_init: "jids_ok tsh_init"
  by (simp add: jids_ok_def tsh_init_def initjobs_def distinct_on_def list_all_iff)

lemma deletejob_jids_ok:
  assumes "jobs_wf (jobs s)" and "jids_ok s"
  shows "jids_ok (snd (deletejob pid s))"
proof (cases "job_of s pid")
  case None
  with assms show ?thesis by (simp add: deletejob_absent)
next
  case (Some j)
  then obtain i where
    d: "snd (deletejob pid s) = s\<lparr>jobs := (jobs s)[i := clearjob],
                nextjid := maxjid ((jobs s)[i := clearjob]) + 1\<rparr>"
    by (rule deletejob_present) simp
  let ?js = "(jobs s)[i := clearjob]"
  have "distinct_on live job_jid ?js"
    using assms(2) by (intro distinct_on_update_out) (simp_all add: jids_ok_def)
  moreover have "1 \<le> job_jid k \<and> job_jid k < maxjid ?js + 1" if "k \<in> set ?js" "live k" for k
  proof -
    from that have "k \<in> set (jobs s)"
      using set_update_subset_insert [of "jobs s" i clearjob] by auto
    with that assms(2) have "1 \<le> job_jid k" by (simp add: jids_ok_def list_all_iff)
    with maxjid_ge [OF that(1)] show ?thesis by simp
  qed
  ultimately show ?thesis
    using maxjid_nonneg [of ?js] by (simp add: d jids_ok_def list_all_iff)
qed

lemma addjob_jids_ok:
  assumes "jids_ok s" and "nextjid s < int MAXJOBS"
  shows "jids_ok (snd (addjob pid st cmdline s))"
proof (cases "1 \<le> pid \<and> has_room s \<and> length cmdline < MAXLINE")
  case False
  with assms(1) show ?thesis by (simp add: addjob_rejected jids_ok_def)
next
  case True
  then obtain i where js: "jobs (snd (addjob pid st cmdline s)) = (jobs s)[i := new_job s pid st cmdline]"
    and n: "nextjid (snd (addjob pid st cmdline s)) =
      (if nextjid s + 1 > int MAXJOBS then 1 else nextjid s + 1)"
    by (metis addjob_room)
  let ?j = "new_job s pid st cmdline"
  have "distinct_on live job_jid ((jobs s)[i := ?j])"
    using assms(1)
    by (intro distinct_on_update_fresh) (auto simp: jids_ok_def list_all_iff new_job_def)
  moreover have "1 \<le> job_jid k \<and> job_jid k < nextjid s + 1"
    if "k \<in> set ((jobs s)[i := ?j])" "live k" for k
    using that assms(1) set_update_subset_insert [of "jobs s" i ?j]
    by (fastforce simp: jids_ok_def list_all_iff new_job_def)
  ultimately show ?thesis
    using assms by (simp add: jids_ok_def list_all_iff js n)
qed

section \<open>The interface the shell relies on\<close>

text \<open>
  \<open>look\<close> is the map from process IDs to jobs, \<open>add\<close> and \<open>del\<close> the two updates, \<open>room\<close>
  whether a slot is free, \<open>admissible\<close> which arguments \<open>add\<close> accepts.
\<close>

locale job_table =
  fixes look :: "'s \<Rightarrow> int \<Rightarrow> 'j option"
    and add :: "int \<Rightarrow> 'a \<Rightarrow> 's \<Rightarrow> 's"
    and del :: "int \<Rightarrow> 's \<Rightarrow> 's"
    and mk :: "'s \<Rightarrow> int \<Rightarrow> 'a \<Rightarrow> 'j"
    and inv :: "'s \<Rightarrow> bool"
    and room :: "'s \<Rightarrow> bool"
    and admissible :: "'a \<Rightarrow> bool"
  assumes inv_add: "inv s \<Longrightarrow> look s p = None \<Longrightarrow> inv (add p a s)"
    and inv_del: "inv s \<Longrightarrow> inv (del p s)"
    and look_add: "inv s \<Longrightarrow> look s p = None \<Longrightarrow> 1 \<le> p \<Longrightarrow> room s \<Longrightarrow> admissible a \<Longrightarrow>
      look (add p a s) = (look s)(p \<mapsto> mk s p a)"
    and look_del: "inv s \<Longrightarrow> look (del p s) = (look s)(p := None)"
    and look_pos: "p < 1 \<Longrightarrow> look s p = None"
begin

lemma del_add:
  assumes "inv s" and "look s p = None" and "1 \<le> p" and "room s" and "admissible a"
  shows "look (del p (add p a s)) = look s"
  using assms by (simp add: look_del look_add inv_add fun_upd_idem)

lemma look_add_other:
  assumes "inv s" and "look s p = None" and "1 \<le> p" and "room s" and "admissible a" and "q \<noteq> p"
  shows "look (add p a s) q = look s q"
  using assms by (simp add: look_add)

lemma del_all:
  assumes "inv s"
  shows "look (fold del ps s) = (look s) |` (- set ps)" and "inv (fold del ps s)"
proof -
  have "look (fold del ps s) = (look s) |` (- set ps) \<and> inv (fold del ps s)"
    using assms
  proof (induction ps arbitrary: s)
    case Nil
    then show ?case by simp
  next
    case (Cons p ps)
    have "look (del p s) |` (- set ps) = look s |` (- set (p # ps))"
      using Cons.prems by (auto simp: look_del restrict_map_def fun_eq_iff)
    with Cons show ?case by (simp add: inv_del)
  qed
  then show "look (fold del ps s) = (look s) |` (- set ps)" and "inv (fold del ps s)" by simp_all
qed

end

interpretation jt: job_table
  where look = job_of
    and add = "\<lambda>pid a s. snd (addjob pid (fst a) (snd a) s)"
    and del = "\<lambda>pid s. snd (deletejob pid s)"
    and mk = "\<lambda>s pid a. new_job s pid (fst a) (snd a)"
    and inv = "\<lambda>s. jobs_wf (jobs s)"
    and room = has_room
    and admissible = "\<lambda>a. length (snd a) < MAXLINE"
  by unfold_locales
    (auto simp: addjob_jobs_wf deletejob_jobs_wf job_of_addjob job_of_deletejob job_of_nonpos)

end
