(* ===== verification/Tsh_Parse.thy ===== *)
theory Tsh_Parse
  imports Tsh_Jobs
begin

text \<open>
  Command-line parsing in \<open>shlab-handout/tsh.c\<close>: \<open>parseline\<close> and \<open>isnum\<close>. The static
  \<open>array\<close> and the pointers into it become the text still to be scanned; the strings
  \<open>argv[0], argv[1], \<dots>\<close> are the pieces that the null characters written over the
  delimiters cut out. Writing past \<open>array\<close> or \<open>argv\<close> is a fault.
\<close>

text \<open>The delimiter of the argument that starts at \<open>buf\<close>, and where its text begins.\<close>

definition arg_start :: "string \<Rightarrow> string \<times> char" where
  "arg_start buf = (case buf of
      [] \<Rightarrow> (buf, SPC)
    | c # cs \<Rightarrow> if c = QUOTE then (cs, QUOTE) else (buf, SPC))"

definition skip_spaces :: "string \<Rightarrow> string" where
  "skip_spaces buf = dropWhile (\<lambda>c. c = SPC) buf"

text \<open>The \<open>while (delim)\<close> loop; \<open>argc\<close> arguments have been stored so far.\<close>

function parse_args :: "nat \<Rightarrow> string \<Rightarrow> string list outcome" where
  "parse_args argc buf =
     (if MAXARGS \<le> argc then Fault Out_Of_Bounds
      else case strchr (fst (arg_start buf)) (snd (arg_start buf)) of
        None \<Rightarrow> Ret []
      | Some i \<Rightarrow>
          omap ((#) (take i (fst (arg_start buf))))
            (parse_args (Suc argc) (skip_spaces (drop (Suc i) (fst (arg_start buf))))))"
  by pat_completeness auto
termination
  by (relation "measure (\<lambda>(argc, buf). MAXARGS - argc)") auto

declare parse_args.simps [simp del]

text \<open>
  \<open>parseline\<close>: the argument vector and whether the job runs in the background. The first
  character of the last argument decides, and that argument is dropped. An empty command
  line makes \<open>buf[strlen(buf) - 1]\<close> write before the array.
\<close>

definition parseline :: "string \<Rightarrow> (string list \<times> bool) outcome" where
  "parseline cmdline =
     (if MAXLINE \<le> length cmdline then Fault Out_Of_Bounds
      else if cmdline = [] then Fault Out_Of_Bounds
      else obind (parse_args 0 (skip_spaces (butlast cmdline @ [SPC])))
        (\<lambda>argv.
           if argv = [] then Ret ([], True)
           else if last argv \<noteq> [] \<and> hd (last argv) = CHR ''&''
           then Ret (butlast argv, True)
           else Ret (argv, False)))"

definition isnum :: "string \<Rightarrow> bool" where
  "isnum s = list_all isdigit s"

section \<open>Lemmas\<close>

lemma skip_spaces_simps [simp]:
  "skip_spaces (SPC # s) = skip_spaces s"
  "skip_spaces [] = []"
  by (simp_all add: skip_spaces_def)

lemma skip_spaces_id: "s = [] \<or> hd s \<noteq> SPC \<Longrightarrow> skip_spaces s = s"
  by (cases s) (auto simp: skip_spaces_def)

lemma skip_spaces_replicate: "skip_spaces (replicate n SPC @ s) = skip_spaces s"
  by (induction n) auto

text \<open>At the end of the buffer the loop stops.\<close>

lemma parse_args_Nil: "argc < MAXARGS \<Longrightarrow> parse_args argc [] = Ret []"
  by (subst parse_args.simps) (simp add: arg_start_def strchr_def)

text \<open>An unquoted word up to the next space.\<close>

lemma parse_args_word:
  assumes "argc < MAXARGS" and "w \<noteq> []" and "hd w \<noteq> QUOTE" and "SPC \<notin> set w"
  shows "parse_args argc (w @ SPC # rest) =
     omap ((#) w) (parse_args (Suc argc) (skip_spaces rest))"
proof -
  from assms obtain a v where w: "w = a # v" "a \<noteq> QUOTE" by (cases w) auto
  have "arg_start (w @ SPC # rest) = (w @ SPC # rest, SPC)"
    using w by (simp add: arg_start_def)
  moreover have "strchr (w @ SPC # rest) SPC = Some (length w)"
    by (rule strchr_append) (rule assms(4))
  ultimately show ?thesis using assms(1) by (subst parse_args.simps) simp
qed

text \<open>A quoted argument up to the closing quote; it may hold spaces or be empty.\<close>

lemma parse_args_quoted:
  assumes "argc < MAXARGS" and "QUOTE \<notin> set w"
  shows "parse_args argc (QUOTE # w @ QUOTE # rest) =
     omap ((#) w) (parse_args (Suc argc) (skip_spaces rest))"
proof -
  have "strchr (w @ QUOTE # rest) QUOTE = Some (length w)"
    by (rule strchr_append) (rule assms(2))
  then show ?thesis using assms(1) by (subst parse_args.simps) (simp add: arg_start_def)
qed

section \<open>Command lines for argument lists\<close>

text \<open>An argument as the user types it, and the string the program is meant to see.\<close>

datatype arg = Plain string | Quoted string

fun arg_ok :: "arg \<Rightarrow> bool" where
  "arg_ok (Plain w) = (w \<noteq> [] \<and> hd w \<noteq> QUOTE \<and> SPC \<notin> set w)"
| "arg_ok (Quoted w) = (QUOTE \<notin> set w)"

fun arg_text :: "arg \<Rightarrow> string" where
  "arg_text (Plain w) = w"
| "arg_text (Quoted w) = QUOTE # w @ [QUOTE]"

fun arg_val :: "arg \<Rightarrow> string" where
  "arg_val (Plain w) = w"
| "arg_val (Quoted w) = w"

text \<open>Each argument followed by one or more spaces; \<open>k\<close> more spaces than needed each time.\<close>

fun args_text :: "nat \<Rightarrow> arg list \<Rightarrow> string" where
  "args_text k [] = []"
| "args_text k (a # as) = arg_text a @ replicate (Suc k) SPC @ args_text k as"

lemma arg_text_start: "arg_ok a \<Longrightarrow> arg_text a \<noteq> [] \<and> hd (arg_text a) \<noteq> SPC"
  by (cases a; cases "arg_text a") auto

lemma skip_spaces_args:
  assumes "list_all arg_ok as"
  shows "skip_spaces (replicate n SPC @ args_text k as) = args_text k as"
proof -
  have "args_text k as = [] \<or> hd (args_text k as) \<noteq> SPC"
    using assms arg_text_start by (cases as) auto
  then show ?thesis by (simp add: skip_spaces_replicate skip_spaces_id)
qed

lemma parse_args_args:
  assumes "list_all arg_ok as" and "argc + length as < MAXARGS"
  shows "parse_args argc (args_text k as) = Ret (map arg_val as)"
  using assms
proof (induction as arbitrary: argc)
  case Nil
  then show ?case by (simp add: parse_args_Nil)
next
  case (Cons a as)
  have step: "parse_args argc (args_text k (a # as)) =
      omap ((#) (arg_val a)) (parse_args (Suc argc) (skip_spaces (replicate k SPC @ args_text k as)))"
  proof (cases a)
    case (Plain w)
    then show ?thesis using Cons.prems by (simp add: parse_args_word)
  next
    case (Quoted w)
    have "skip_spaces (SPC # replicate k SPC @ args_text k as) =
        skip_spaces (replicate k SPC @ args_text k as)" by simp
    then show ?thesis using Quoted Cons.prems by (simp add: parse_args_quoted)
  qed
  with Cons show ?case by (simp add: skip_spaces_args)
qed

lemma parse_args_length: "parse_args argc buf = Ret argv \<Longrightarrow> argc + length argv < MAXARGS"
proof (induction argc buf arbitrary: argv rule: parse_args.induct)
  case (1 argc buf)
  show ?case
  proof (cases "strchr (fst (arg_start buf)) (snd (arg_start buf))")
    case None
    with "1.prems" show ?thesis
      by (subst (asm) parse_args.simps) (simp split: if_splits)
  next
    case (Some i)
    from "1.prems" have lt: "\<not> MAXARGS \<le> argc"
      by (subst (asm) parse_args.simps) (auto split: if_splits)
    with "1.prems" Some obtain av where
      rec: "parse_args (Suc argc) (skip_spaces (drop (Suc i) (fst (arg_start buf)))) = Ret av"
      and "argv = take i (fst (arg_start buf)) # av"
      by (subst (asm) parse_args.simps)
        (cases "parse_args (Suc argc) (skip_spaces (drop (Suc i) (fst (arg_start buf))))"; auto)
    with "1.IH" [OF lt Some rec] show ?thesis by simp
  qed
qed

lemma parse_args_overflow:
  assumes "list_all arg_ok as" and "argc \<le> MAXARGS" and "MAXARGS \<le> argc + length as"
  shows "parse_args argc (args_text k as) = Fault Out_Of_Bounds"
  using assms
proof (induction as arbitrary: argc)
  case Nil
  then show ?case by (subst parse_args.simps) simp
next
  case (Cons a as)
  show ?case
  proof (cases "argc < MAXARGS")
    case False
    then show ?thesis by (subst parse_args.simps) simp
  next
    case True
    have "parse_args argc (args_text k (a # as)) =
        omap ((#) (arg_val a)) (parse_args (Suc argc) (skip_spaces (replicate k SPC @ args_text k as)))"
      using Cons.prems True by (cases a) (simp_all add: parse_args_word parse_args_quoted)
    with Cons True show ?thesis by (simp add: skip_spaces_args)
  qed
qed

text \<open>
  The line the user types: \<open>n\<close> leading spaces, the arguments separated by \<open>k + 1\<close> spaces and
  followed by \<open>k\<close> spaces and the newline.
\<close>

definition cmd_line :: "nat \<Rightarrow> nat \<Rightarrow> arg list \<Rightarrow> string" where
  "cmd_line n k as = replicate n SPC @ butlast (args_text k as) @ [LF]"

lemma args_text_snoc: "as \<noteq> [] \<Longrightarrow> butlast (args_text k as) @ [SPC] = args_text k as"
proof -
  assume "as \<noteq> []"
  then have "args_text k as \<noteq> []" by (cases as) simp_all
  moreover have "args_text k as \<noteq> [] \<Longrightarrow> last (args_text k as) = SPC"
    by (induction as) (auto simp: last_append)
  ultimately show ?thesis by (metis append_butlast_last_id)
qed

lemma parseline_buffer:
  assumes "list_all arg_ok as" and "as \<noteq> []"
  shows "skip_spaces (butlast (cmd_line n k as) @ [SPC]) = args_text k as"
proof -
  have "butlast (cmd_line n k as) @ [SPC] = replicate n SPC @ args_text k as"
    using args_text_snoc [OF assms(2)] by (simp add: cmd_line_def butlast_append)
  then show ?thesis by (simp only: skip_spaces_args [OF assms(1)])
qed

lemma parseline_args:
  assumes "list_all arg_ok as" and "as \<noteq> []" and "length as < MAXARGS"
    and "length (cmd_line n k as) < MAXLINE"
  shows "parseline (cmd_line n k as) =
    (let vals = map arg_val as in
     if last vals \<noteq> [] \<and> hd (last vals) = CHR ''&'' then Ret (butlast vals, True)
     else Ret (vals, False))"
proof -
  have "cmd_line n k as \<noteq> []" by (simp add: cmd_line_def)
  with assms show ?thesis
    by (simp add: parseline_def parseline_buffer parse_args_args Let_def)
qed

lemma parseline_overflow:
  assumes "list_all arg_ok as" and "MAXARGS \<le> length as"
  shows "parseline (cmd_line n k as) = Fault Out_Of_Bounds"
proof (cases "MAXLINE \<le> length (cmd_line n k as)")
  case False
  have "as \<noteq> []" using assms(2) by auto
  with False assms show ?thesis
    by (simp add: parseline_def parseline_buffer parse_args_overflow)
qed (simp add: parseline_def)

lemma parseline_blank:
  assumes "n < 1023"
  shows "parseline (replicate n SPC @ [LF]) = Ret ([], True)"
proof -
  have "replicate n SPC @ [SPC] = replicate (Suc n) SPC @ []"
    by (simp add: replicate_append_same)
  then have "skip_spaces (replicate n SPC @ [SPC]) = []"
    by (simp only: skip_spaces_replicate) simp
  with assms show ?thesis by (simp add: parseline_def parse_args_Nil)
qed

end
