(* ===== verification/Tsh_Shell.thy ===== *)
theory Tsh_Shell
  imports Tsh_Parse
begin

text \<open>
  The shell \<open>shlab-handout/tsh.c\<close> itself: \<open>main\<close>, \<open>eval\<close>, the built-in commands, \<open>waitfg\<close>
  and the signal handlers, as a state machine. The program counter \<open>pc\<close> names the points
  of the main flow between which a signal handler can run; a label names what happens next
  (a command line arrives, \<open>fork\<close> returns, a child changes state, a signal is delivered),
  so a list of labels is one schedule of the shell, its children and the keyboard.
\<close>

section \<open>Signals and wait statuses\<close>

definition SIGINT :: int where "SIGINT = 2"
definition SIGTSTP :: int where "SIGTSTP = 20"
definition SIGCONT :: int where "SIGCONT = 18"

text \<open>What \<open>waitpid\<close> reports: \<open>WIFEXITED\<close>, \<open>WIFSIGNALED\<close> and \<open>WIFSTOPPED\<close> with their values.\<close>

datatype wstatus = WExited int | WSignaled int | WStopped int

section \<open>Signal handlers\<close>

definition msg_job :: "int \<Rightarrow> int \<Rightarrow> string \<Rightarrow> int \<Rightarrow> string" where
  "msg_job jid pid what sig =
     ''Job ['' @ show_int jid @ ''] ('' @ show_int pid @ '') '' @ what @ '' by signal '' @
     show_int sig @ [LF]"

definition msg_term_unknown :: string where
  "msg_term_unknown = ''I don'' @ [QUOTE] @ ''t know how to handle that kind of terminating signal'' @ [LF]"

definition msg_stop_unknown :: string where
  "msg_stop_unknown = ''I don'' @ [QUOTE] @ ''t know how to handle that kind of stopping signal'' @ [LF]"

text \<open>One iteration of the reaping loop, for the child and status \<open>waitpid\<close> returned.\<close>

fun sigchld_one :: "int \<Rightarrow> wstatus \<Rightarrow> (tsh, unit) cprog" where
  "sigchld_one pid (WExited code) s = (Ret (), snd (deletejob pid s))"
| "sigchld_one pid (WSignaled sig) s =
     (if sig = SIGINT
      then case getjobpid (jobs s) pid of
          None \<Rightarrow> (Fault Null_Deref, s)
        | Some i \<Rightarrow>
            (Ret (), tsh_print (msg_job (job_jid (jobs s ! i)) pid ''terminated'' SIGINT)
                       (snd (deletejob pid s)))
      else (Ret (), tsh_print msg_term_unknown s))"
| "sigchld_one pid (WStopped sig) s =
     (if sig = SIGTSTP
      then case getjobpid (jobs s) pid of
          None \<Rightarrow> (Fault Null_Deref, s)
        | Some i \<Rightarrow>
            (Ret (), tsh_print (msg_job (job_jid (jobs s ! i)) pid ''stopped'' SIGTSTP)
                       (s\<lparr>jobs := (jobs s)[i := (jobs s ! i)\<lparr>job_state := ST\<rparr>]\<rparr>))
      else (Ret (), tsh_print msg_stop_unknown s))"

text \<open>\<open>sigchld_handler\<close>: every status change that is available is reaped.\<close>

fun sigchld_handler :: "(int \<times> wstatus) list \<Rightarrow> (tsh, unit) cprog" where
  "sigchld_handler [] s = (Ret (), s)"
| "sigchld_handler ((pid, st) # evs) s =
     cbind (sigchld_one pid st) (\<lambda>_. sigchld_handler evs) s"

text \<open>The signals that \<open>sigint_handler\<close> and \<open>sigtstp_handler\<close> send with \<open>kill\<close>.\<close>

definition sigint_handler :: "job_t list \<Rightarrow> (int \<times> int) list" where
  "sigint_handler js = (let pid = fgpid js in if pid > 0 then [(- pid, SIGINT)] else [])"

definition sigtstp_handler :: "job_t list \<Rightarrow> (int \<times> int) list" where
  "sigtstp_handler js = (let pid = fgpid js in if pid > 0 then [(- pid, SIGTSTP)] else [])"

section \<open>The built-in commands\<close>

text \<open>
  \<open>do_bgfg\<close> up to the call of \<open>kill\<close>: the slot of the job the arguments name, or nothing
  after an error message.
\<close>

definition do_bgfg_find :: "string list \<Rightarrow> (tsh, nat option) cprog" where
  "do_bgfg_find argv s =
     (if length argv < 2
      then (Ret None, tsh_print (hd argv @ '' command requires PID or %jobid argument'' @ [LF]) s)
      else
        (let arg = argv ! 1;
             byjid = (arg \<noteq> [] \<and> hd arg = CHR ''%'');
             checknum = (if byjid then tl arg else arg)
         in if \<not> isnum checknum
            then (Ret None, tsh_print (hd argv @ '': argument must be a PID or %jobid'' @ [LF]) s)
            else if byjid
            then (case getjobjid (jobs s) (atoi (tl arg)) of
                None \<Rightarrow> (Ret None, tsh_print (arg @ '': No such job'' @ [LF]) s)
              | Some i \<Rightarrow> (Ret (Some i), s))
            else (case getjobpid (jobs s) (atoi arg) of
                None \<Rightarrow> (Ret None, tsh_print (''('' @ arg @ ''): No such process'' @ [LF]) s)
              | Some i \<Rightarrow> (Ret (Some i), s))))"

definition job_line :: "job_t \<Rightarrow> string" where
  "job_line j = ''['' @ show_int (job_jid j) @ ''] ('' @ show_int (job_pid j) @ '') '' @ job_cmdline j"

text \<open>\<open>do_bgfg\<close> after \<open>kill(-pid, SIGCONT)\<close>: the new state of the slot, and the message of \<open>bg\<close>.\<close>

definition do_bgfg_resume :: "string \<Rightarrow> nat \<Rightarrow> tsh \<Rightarrow> tsh" where
  "do_bgfg_resume cmd i s =
     (if cmd = ''bg'' then
        (let s' = s\<lparr>jobs := (jobs s)[i := (jobs s ! i)\<lparr>job_state := BG\<rparr>]\<rparr>
         in tsh_print (job_line (jobs s' ! i)) s')
      else s\<lparr>jobs := (jobs s)[i := (jobs s ! i)\<lparr>job_state := FG\<rparr>]\<rparr>)"

text \<open>
  \<open>builtin_cmd\<close>: \<open>Not_Builtin\<close>, done, or a job for \<open>bg\<close> or \<open>fg\<close>. The comparison with
  \<open>argv[0]\<close> dereferences a null pointer when there is no argument at all.
\<close>

datatype builtin = Not_Builtin | Builtin_Done | Builtin_Job string nat

definition builtin_cmd :: "string list \<Rightarrow> (tsh, builtin) cprog" where
  "builtin_cmd argv s =
     (case argv of
        [] \<Rightarrow> (Fault Null_Deref, s)
      | cmd # _ \<Rightarrow>
          if cmd = ''quit'' then (Exited 0, s)
          else if cmd = ''jobs'' then (Ret Builtin_Done, listjobs s)
          else if cmd = ''bg'' \<or> cmd = ''fg'' then
            cbind (do_bgfg_find argv)
              (\<lambda>r. creturn (case r of None \<Rightarrow> Builtin_Done | Some i \<Rightarrow> Builtin_Job cmd i)) s
          else (Ret Not_Builtin, s))"

text \<open>\<open>waitfg\<close> leaves its loop when the process is not the foreground job.\<close>

definition waitfg_done :: "int \<Rightarrow> job_t list \<Rightarrow> bool" where
  "waitfg_done pid js \<longleftrightarrow> pid \<noteq> fgpid js"

section \<open>The machine\<close>

datatype pc =
    PPrompt                    \<comment> \<open>\<open>main\<close>, about to read a command line\<close>
  | PFork "string list" bool string  \<comment> \<open>\<open>eval\<close>, \<open>SIGCHLD\<close> blocked, about to fork\<close>
  | PAdd int bool string       \<comment> \<open>\<open>eval\<close> in the parent, about to call \<open>addjob\<close>\<close>
  | PBgPrint int               \<comment> \<open>\<open>eval\<close>, a background job, about to print its line\<close>
  | PWait int                  \<comment> \<open>in \<open>waitfg\<close>\<close>
  | PBgfgFound string nat      \<comment> \<open>\<open>do_bgfg\<close>, has found the job, before \<open>pid = job->pid\<close>\<close>
  | PBgfgKill string nat int   \<comment> \<open>\<open>do_bgfg\<close>, before \<open>kill\<close>\<close>
  | PBgfg string nat int       \<comment> \<open>\<open>do_bgfg\<close>, between \<open>kill\<close> and the assignment to \<open>state\<close>\<close>
  | PExit int                  \<comment> \<open>the shell has called \<open>exit\<close>\<close>
  | PCrash fault               \<comment> \<open>undefined behaviour: a segmentation fault\<close>

record shell =
  sh :: tsh
  emit_prompt :: bool
  kills :: "(int \<times> int) list"          \<comment> \<open>calls of \<open>kill\<close>, the oldest first\<close>
  alive :: "int list"                   \<comment> \<open>children that have not terminated\<close>
  used :: "int list"                    \<comment> \<open>every process ID \<open>fork\<close> has returned\<close>
  waitable :: "(int \<times> wstatus) list"   \<comment> \<open>status changes not yet reaped\<close>
  chld_pending :: bool
  chld_blocked :: bool
  pc :: pc

datatype label =
    LRead string        \<comment> \<open>\<open>fgets\<close> stores this line\<close>
  | LEof                \<comment> \<open>\<open>feof(stdin)\<close> holds after \<open>fgets\<close>\<close>
  | LReadError          \<comment> \<open>\<open>fgets\<close> fails with \<open>ferror(stdin)\<close>\<close>
  | LFork int           \<comment> \<open>\<open>fork\<close> returns this process ID\<close>
  | LForkFails string   \<comment> \<open>\<open>fork\<close> fails, with the text of \<open>strerror(errno)\<close>\<close>
  | LAdd
  | LBgPrint
  | LWaitOver
  | LBgPid
  | LBgKill
  | LBgfg
  | LChild int wstatus  \<comment> \<open>a child terminates or stops; the kernel raises \<open>SIGCHLD\<close>\<close>
  | LSigchld            \<comment> \<open>\<open>SIGCHLD\<close> is delivered\<close>
  | LSigint
  | LSigtstp
  | LSigquit

fun running :: "pc \<Rightarrow> bool" where
  "running (PExit n) = False"
| "running (PCrash e) = False"
| "running _ = True"

definition tsh_prompt :: string where "tsh_prompt = ''tsh> ''"

text \<open>\<open>main\<close>: the options, and the state at the first prompt (\<open>None\<close>: \<open>usage\<close> calls \<open>exit(1)\<close>).\<close>

fun main_opts :: "string \<Rightarrow> bool \<times> bool \<Rightarrow> (bool \<times> bool) option" where
  "main_opts [] vp = Some vp"
| "main_opts (c # cs) (v, p) =
     (if c = CHR ''v'' then main_opts cs (True, p)
      else if c = CHR ''p'' then main_opts cs (v, False)
      else None)"

definition usage :: string where
  "usage = ''Usage: shell [-hvp]'' @ [LF] @
     ''   -h   print this message'' @ [LF] @
     ''   -v   print additional diagnostic information'' @ [LF] @
     ''   -p   do not emit a command prompt'' @ [LF]"

definition shell_init :: "string \<Rightarrow> shell" where
  "shell_init opts =
     (case main_opts opts (False, True) of
        None \<Rightarrow>
          \<lparr>sh = tsh_print usage tsh_init, emit_prompt = True, kills = [], alive = [], used = [],
           waitable = [], chld_pending = False, chld_blocked = False, pc = PExit 1\<rparr>
      | Some (v, p) \<Rightarrow>
          \<lparr>sh = tsh_init\<lparr>verbose := v\<rparr>, emit_prompt = p, kills = [], alive = [], used = [],
           waitable = [], chld_pending = False, chld_blocked = False, pc = PPrompt\<rparr>)"

text \<open>
  One turn of the read loop up to the first point where \<open>eval\<close> blocks or forks, or \<open>do_bgfg\<close>
  has found its job: prompt, \<open>parseline\<close>, \<open>builtin_cmd\<close>.
\<close>

definition eval_front :: "string \<Rightarrow> (tsh, string list \<times> bool \<times> builtin) cprog" where
  "eval_front cmdline s =
     (case parseline cmdline of
        Ret (argv, bg) \<Rightarrow> cbind (builtin_cmd argv) (\<lambda>b. creturn (argv, bg, b)) s
      | Exited n \<Rightarrow> (Exited n, s)
      | Fault e \<Rightarrow> (Fault e, s))"

definition show_prompt :: "shell \<Rightarrow> tsh" where
  "show_prompt s = (if emit_prompt s then tsh_print tsh_prompt (sh s) else sh s)"

definition do_read :: "string \<Rightarrow> shell \<Rightarrow> shell" where
  "do_read cmdline s =
     (case eval_front cmdline (show_prompt s) of
        (Fault e, t) \<Rightarrow> s\<lparr>sh := t, pc := PCrash e\<rparr>
      | (Exited n, t) \<Rightarrow> s\<lparr>sh := t, pc := PExit n\<rparr>
      | (Ret (argv, bg, b), t) \<Rightarrow>
          (case b of
             Builtin_Done \<Rightarrow> s\<lparr>sh := t\<rparr>
           | Builtin_Job cmd i \<Rightarrow>
               s\<lparr>sh := t, pc := PBgfgFound cmd i\<rparr>
           | Not_Builtin \<Rightarrow>
               s\<lparr>sh := t, chld_blocked := True, pc := PFork argv bg cmdline\<rparr>))"

text \<open>\<open>unix_error\<close> prints on standard output and calls \<open>exit(1)\<close>.\<close>

definition tsh_unix_error :: "string \<Rightarrow> string \<Rightarrow> shell \<Rightarrow> shell" where
  "tsh_unix_error msg err s = s\<lparr>sh := tsh_print (msg @ '': '' @ err @ [LF]) (sh s), pc := PExit 1\<rparr>"

definition tsh_app_error :: "string \<Rightarrow> shell \<Rightarrow> shell" where
  "tsh_app_error msg s = s\<lparr>sh := tsh_print (msg @ [LF]) (sh s), pc := PExit 1\<rparr>"

text \<open>\<open>sigquit_handler\<close>.\<close>

definition sigquit_handler :: "shell \<Rightarrow> shell" where
  "sigquit_handler s =
     s\<lparr>sh := tsh_print (''Terminating after receipt of SIGQUIT signal'' @ [LF]) (sh s), pc := PExit 1\<rparr>"

text \<open>\<open>fork\<close> has returned in the parent.\<close>

definition do_fork :: "int \<Rightarrow> bool \<Rightarrow> string \<Rightarrow> shell \<Rightarrow> shell" where
  "do_fork pid bg cmdline s =
     s\<lparr>alive := pid # alive s, used := pid # used s, pc := PAdd pid bg cmdline\<rparr>"

text \<open>The child's side of \<open>eval\<close>: \<open>execve\<close> replaces it, or fails and it exits with 1.\<close>

definition eval_child :: "string list \<Rightarrow> bool \<Rightarrow> (string, unit) cprog" where
  "eval_child argv execve_ok out =
     (if execve_ok then (Ret (), out)
      else (Exited 1, out @ hd argv @ '': Command not found'' @ [LF]))"

definition do_add :: "int \<Rightarrow> bool \<Rightarrow> string \<Rightarrow> shell \<Rightarrow> shell" where
  "do_add pid bg cmdline s =
     (case addjob pid (if bg then BG else FG) cmdline (sh s) of
        (Ret r, t) \<Rightarrow>
          s\<lparr>sh := t, chld_blocked := False, pc := (if bg then PBgPrint pid else PWait pid)\<rparr>
      | (Exited n, t) \<Rightarrow> s\<lparr>sh := t, pc := PExit n\<rparr>
      | (Fault e, t) \<Rightarrow> s\<lparr>sh := t, pc := PCrash e\<rparr>)"

definition do_bgprint :: "int \<Rightarrow> shell \<Rightarrow> shell" where
  "do_bgprint pid s =
     (case getjobpid (jobs (sh s)) pid of
        None \<Rightarrow> s\<lparr>pc := PCrash Null_Deref\<rparr>
      | Some i \<Rightarrow> s\<lparr>sh := tsh_print (job_line (jobs (sh s) ! i)) (sh s), pc := PPrompt\<rparr>)"

definition do_resume :: "string \<Rightarrow> nat \<Rightarrow> int \<Rightarrow> shell \<Rightarrow> shell" where
  "do_resume cmd i pid s =
     s\<lparr>sh := do_bgfg_resume cmd i (sh s), pc := (if cmd = ''bg'' then PPrompt else PWait pid)\<rparr>"

fun terminates :: "wstatus \<Rightarrow> bool" where
  "terminates (WStopped sig) = False"
| "terminates _ = True"

definition do_child :: "int \<Rightarrow> wstatus \<Rightarrow> shell \<Rightarrow> shell" where
  "do_child pid st s =
     s\<lparr>alive := (if terminates st then removeAll pid (alive s) else alive s),
       waitable := waitable s @ [(pid, st)], chld_pending := True\<rparr>"

definition do_sigchld :: "shell \<Rightarrow> shell" where
  "do_sigchld s =
     (case sigchld_handler (waitable s) (sh s) of
        (Ret _, t) \<Rightarrow> s\<lparr>sh := t, waitable := [], chld_pending := False\<rparr>
      | (Exited n, t) \<Rightarrow> s\<lparr>sh := t, pc := PExit n\<rparr>
      | (Fault e, t) \<Rightarrow> s\<lparr>sh := t, pc := PCrash e\<rparr>)"

text \<open>
  The transition function: \<open>None\<close> where the label cannot happen in the state. A process ID
  that \<open>fork\<close> returns is not that of a process that is alive or has not been reaped.
\<close>

fun tsh_next :: "label \<Rightarrow> shell \<Rightarrow> shell option" where
  "tsh_next (LRead cmdline) s = (if pc s = PPrompt then Some (do_read cmdline s) else None)"
| "tsh_next LEof s =
     (if pc s = PPrompt then Some (s\<lparr>sh := show_prompt s, pc := PExit 0\<rparr>) else None)"
| "tsh_next LReadError s =
     (if pc s = PPrompt then Some (tsh_app_error ''fgets error'' (s\<lparr>sh := show_prompt s\<rparr>)) else None)"
| "tsh_next (LFork pid) s =
     (case pc s of
        PFork argv bg cmdline \<Rightarrow>
          if 0 < pid \<and> pid \<notin> set (alive s) \<union> fst ` set (waitable s) then Some (do_fork pid bg cmdline s) else None
      | _ \<Rightarrow> None)"
| "tsh_next (LForkFails err) s =
     (case pc s of PFork argv bg cmdline \<Rightarrow> Some (tsh_unix_error ''Fork error'' err s) | _ \<Rightarrow> None)"
| "tsh_next LAdd s =
     (case pc s of PAdd pid bg cmdline \<Rightarrow> Some (do_add pid bg cmdline s) | _ \<Rightarrow> None)"
| "tsh_next LBgPrint s = (case pc s of PBgPrint pid \<Rightarrow> Some (do_bgprint pid s) | _ \<Rightarrow> None)"
| "tsh_next LWaitOver s =
     (case pc s of
        PWait pid \<Rightarrow> if waitfg_done pid (jobs (sh s)) then Some (s\<lparr>pc := PPrompt\<rparr>) else None
      | _ \<Rightarrow> None)"
| "tsh_next LBgPid s =
     (case pc s of PBgfgFound cmd i \<Rightarrow> Some (s\<lparr>pc := PBgfgKill cmd i (job_pid (jobs (sh s) ! i))\<rparr>) | _ \<Rightarrow> None)"
| "tsh_next LBgKill s =
     (case pc s of
        PBgfgKill cmd i pid \<Rightarrow> Some (s\<lparr>kills := kills s @ [(- pid, SIGCONT)], pc := PBgfg cmd i pid\<rparr>)
      | _ \<Rightarrow> None)"
| "tsh_next LBgfg s = (case pc s of PBgfg cmd i pid \<Rightarrow> Some (do_resume cmd i pid s) | _ \<Rightarrow> None)"
| "tsh_next (LChild pid st) s =
     (if running (pc s) \<and> pid \<in> set (alive s) then Some (do_child pid st s) else None)"
| "tsh_next LSigchld s =
     (if running (pc s) \<and> chld_pending s \<and> \<not> chld_blocked s then Some (do_sigchld s) else None)"
| "tsh_next LSigint s =
     (if running (pc s) then Some (s\<lparr>kills := kills s @ sigint_handler (jobs (sh s))\<rparr>) else None)"
| "tsh_next LSigtstp s =
     (if running (pc s) then Some (s\<lparr>kills := kills s @ sigtstp_handler (jobs (sh s))\<rparr>) else None)"
| "tsh_next LSigquit s =
     (if running (pc s) then Some (sigquit_handler s) else None)"

fun tsh_run :: "label list \<Rightarrow> shell \<Rightarrow> shell option" where
  "tsh_run [] s = Some s"
| "tsh_run (l # ls) s = (case tsh_next l s of None \<Rightarrow> None | Some t \<Rightarrow> tsh_run ls t)"

text \<open>The states some schedule reaches; \<open>ok l s\<close> restricts which labels it takes where.\<close>

inductive tsh_reach :: "(label \<Rightarrow> shell \<Rightarrow> bool) \<Rightarrow> shell \<Rightarrow> bool" for ok where
  reach_init: "tsh_reach ok (shell_init opts)"
| reach_step: "tsh_reach ok s \<Longrightarrow> ok l s \<Longrightarrow> tsh_next l s = Some t \<Longrightarrow> tsh_reach ok t"

text \<open>No \<open>SIGCHLD\<close> in \<open>do_bgfg\<close> between the search for the job and the assignment to \<open>job->state\<close>.\<close>

fun at_bgfg :: "pc \<Rightarrow> bool" where
  "at_bgfg (PBgfgFound cmd i) = True"
| "at_bgfg (PBgfgKill cmd i pid) = True"
| "at_bgfg (PBgfg cmd i pid) = True"
| "at_bgfg _ = False"

definition no_race :: "label \<Rightarrow> shell \<Rightarrow> bool" where
  "no_race l s \<longleftrightarrow> \<not> (l = LSigchld \<and> at_bgfg (pc s))"

text \<open>A new process has no ID that the list still holds for a dead one.\<close>

definition no_reuse :: "label \<Rightarrow> shell \<Rightarrow> bool" where
  "no_reuse l s \<longleftrightarrow> (case l of LFork pid \<Rightarrow> job_of (sh s) pid = None | _ \<Rightarrow> True)"

definition steady :: "label \<Rightarrow> shell \<Rightarrow> bool" where
  "steady l s \<longleftrightarrow> no_race l s \<and> no_reuse l s"

text \<open>A free slot whenever \<open>eval\<close> adds a job.\<close>

definition no_overflow :: "label \<Rightarrow> shell \<Rightarrow> bool" where
  "no_overflow l s \<longleftrightarrow> (l = LAdd \<longrightarrow> has_room (sh s))"

end
