(* ===== verification/Tsh_Proofs.thy ===== *)
theory Tsh_Proofs
  imports Tsh_Shell
begin

text \<open>
  Correctness of the shell: the invariant of every steady schedule (without the race in \<open>do_bgfg\<close>),
  what the handlers and \<open>waitfg\<close> guarantee under it, and the schedules that break it.
\<close>

abbreviation is_fg :: "job_t \<Rightarrow> bool" where
  "is_fg j \<equiv> job_state j = FG"

definition fg_free :: "job_t list \<Rightarrow> bool" where
  "fg_free js \<longleftrightarrow> list_all (\<lambda>j. \<not> is_fg j) js"

section \<open>The job list only loses foreground jobs in the handlers\<close>

definition fg_shrinks :: "job_t list \<Rightarrow> job_t list \<Rightarrow> bool" where
  "fg_shrinks js js' \<longleftrightarrow> length js' = length js \<and>
     (\<forall>k < length js. is_fg (js' ! k) \<longrightarrow> js' ! k = js ! k)"

lemma fg_shrinks_refl [simp]: "fg_shrinks js js"
  by (simp add: fg_shrinks_def)

lemma fg_shrinks_trans: "fg_shrinks a b \<Longrightarrow> fg_shrinks b c \<Longrightarrow> fg_shrinks a c"
  by (simp add: fg_shrinks_def)

lemma fg_shrinks_update: "\<not> is_fg y \<Longrightarrow> fg_shrinks js (js[i := y])"
  unfolding fg_shrinks_def
proof (intro conjI allI impI)
  fix k
  assume "\<not> is_fg y" "k < length js" "is_fg (js[i := y] ! k)"
  then show "js[i := y] ! k = js ! k" by (cases "k = i") simp_all
qed simp

lemma fg_shrinks_set: "fg_shrinks js js' \<Longrightarrow> j \<in> set js' \<Longrightarrow> is_fg j \<Longrightarrow> j \<in> set js"
proof -
  assume a: "fg_shrinks js js'" "j \<in> set js'" "is_fg j"
  then obtain k where "k < length js" "js' ! k = j"
    by (auto simp: fg_shrinks_def in_set_conv_nth)
  with a show ?thesis by (auto simp: fg_shrinks_def)
qed

lemma fg_shrinks_free: "fg_shrinks js js' \<Longrightarrow> fg_free js \<Longrightarrow> fg_free js'"
  using fg_shrinks_set by (auto simp: fg_free_def list_all_iff)

lemma fg_shrinks_one: "fg_shrinks js js' \<Longrightarrow> at_most_one is_fg js \<Longrightarrow> at_most_one is_fg js'"
  by (simp add: at_most_one_alt fg_shrinks_def)

lemma fg_free_one: "fg_free js \<Longrightarrow> at_most_one is_fg js"
  by (auto simp: fg_free_def at_most_one_def list_all_iff filter_empty_conv
      dest: filter_False)

text \<open>What one reaped status does to the job list, whatever the status.\<close>

lemma deletejob_jobs:
  "jobs (snd (deletejob pid s)) =
     (case getjobpid (jobs s) pid of None \<Rightarrow> jobs s | Some i \<Rightarrow> (jobs s)[i := clearjob])"
  by (auto simp: deletejob_def getjobpid_def Let_def split: option.split)

definition reaped :: "wstatus \<Rightarrow> job_t list \<Rightarrow> nat option \<Rightarrow> job_t list" where
  "reaped st js slot =
     (case slot of None \<Rightarrow> js
      | Some i \<Rightarrow>
          (case st of
             WExited c \<Rightarrow> js[i := clearjob]
           | WSignaled sig \<Rightarrow> if sig = SIGINT then js[i := clearjob] else js
           | WStopped sig \<Rightarrow> if sig = SIGTSTP then js[i := (js ! i)\<lparr>job_state := ST\<rparr>] else js))"

lemma sigchld_one_jobs:
  "jobs (snd (sigchld_one pid st s)) = reaped st (jobs s) (getjobpid (jobs s) pid)"
  by (cases st) (auto simp: reaped_def deletejob_jobs split: option.split)

lemma sigchld_one_cases:
  obtains "jobs (snd (sigchld_one pid st s)) = jobs s"
  | i where "getjobpid (jobs s) pid = Some i"
      "jobs (snd (sigchld_one pid st s)) = (jobs s)[i := clearjob]"
  | i where "getjobpid (jobs s) pid = Some i"
      "jobs (snd (sigchld_one pid st s)) = (jobs s)[i := (jobs s ! i)\<lparr>job_state := ST\<rparr>]"
proof (cases "getjobpid (jobs s) pid")
  case None
  then show ?thesis using that(1) by (simp add: sigchld_one_jobs reaped_def)
next
  case (Some i)
  have "jobs (snd (sigchld_one pid st s)) = reaped st (jobs s) (Some i)"
    by (simp only: sigchld_one_jobs Some)
  moreover have "reaped st (jobs s) (Some i) \<in>
      {jobs s, (jobs s)[i := clearjob], (jobs s)[i := (jobs s ! i)\<lparr>job_state := ST\<rparr>]}"
    by (simp add: reaped_def split: wstatus.split)
  ultimately show ?thesis using that Some by fastforce
qed

lemma getjobpid_slot:
  "getjobpid js pid = Some i \<Longrightarrow> i < length js \<and> job_pid (js ! i) = pid \<and> 0 < pid"
  by (auto simp: getjobpid_def first_index_Some split: if_splits)

lemma sigchld_one_shrinks: "fg_shrinks (jobs s) (jobs (snd (sigchld_one pid st s)))"
  by (cases rule: sigchld_one_cases [of pid st s]) (simp_all add: fg_shrinks_update)

lemma sigchld_one_wf: "jobs_wf (jobs s) \<Longrightarrow> jobs_wf (jobs (snd (sigchld_one pid st s)))"
  by (cases rule: sigchld_one_cases [of pid st s])
    (auto simp: jobs_wf_clear dest!: getjobpid_slot intro!: jobs_wf_set_state)

lemma sigchld_one_pids:
  "job_pid ` set (jobs (snd (sigchld_one pid st s))) \<subseteq> insert 0 (job_pid ` set (jobs s))"
proof (cases rule: sigchld_one_cases [of pid st s])
  case 1
  then show ?thesis by auto
next
  case (2 i)
  then show ?thesis using set_update_subset_insert [of "jobs s" i clearjob] by auto
next
  case (3 i)
  then have "jobs s ! i \<in> set (jobs s)" by (auto dest: getjobpid_slot)
  with 3(2) show ?thesis
    using set_update_subset_insert [of "jobs s" i "(jobs s ! i)\<lparr>job_state := ST\<rparr>"] by auto
qed

lemma sigchld_handler_ind:
  assumes step: "\<And>pid st s. P s \<Longrightarrow> P (snd (sigchld_one pid st s))" and "P s"
  shows "P (snd (sigchld_handler evs s))"
  using assms(2)
proof (induction evs arbitrary: s)
  case Nil
  then show ?case by simp
next
  case (Cons ev evs)
  obtain pid st where ev: "ev = (pid, st)" by (cases ev)
  obtain r t where one: "sigchld_one pid st s = (r, t)" by (cases "sigchld_one pid st s")
  with step [OF Cons.prems, of pid st] have "P t" by simp
  then show ?case using Cons.IH ev one by (cases r) (simp_all add: c_simps)
qed

lemma sigchld_handler_shrinks: "fg_shrinks (jobs s) (jobs (snd (sigchld_handler evs s)))"
  by (rule sigchld_handler_ind [where P = "\<lambda>t. fg_shrinks (jobs s) (jobs t)"])
    (auto intro: fg_shrinks_trans sigchld_one_shrinks)

lemma sigchld_handler_wf:
  "jobs_wf (jobs s) \<Longrightarrow> jobs_wf (jobs (snd (sigchld_handler evs s)))"
  by (rule sigchld_handler_ind) (auto intro: sigchld_one_wf)

lemma sigchld_handler_pids:
  "job_pid ` set (jobs (snd (sigchld_handler evs s))) \<subseteq> insert 0 (job_pid ` set (jobs s))"
proof (rule sigchld_handler_ind [where P = "\<lambda>t. job_pid ` set (jobs t) \<subseteq> insert 0 (job_pid ` set (jobs s))"])
  fix pid st and t :: tsh
  assume "job_pid ` set (jobs t) \<subseteq> insert 0 (job_pid ` set (jobs s))"
  then have "insert 0 (job_pid ` set (jobs t)) \<subseteq> insert 0 (job_pid ` set (jobs s))" by blast
  with sigchld_one_pids [of pid st t]
  show "job_pid ` set (jobs (snd (sigchld_one pid st t))) \<subseteq> insert 0 (job_pid ` set (jobs s))"
    by (rule subset_trans)
qed blast

section \<open>Reading a command line leaves the job list alone\<close>

lemma do_bgfg_find_jobs: "jobs (snd (do_bgfg_find argv s)) = jobs s"
  by (simp add: do_bgfg_find_def Let_def split: option.split)

lemma do_bgfg_find_slot:
  assumes "jobs_wf (jobs s)" and "fst (do_bgfg_find argv s) = Ret (Some i)"
  shows "i < length (jobs s) \<and> 0 < job_pid (jobs s ! i)"
proof -
  consider n where "getjobjid (jobs s) n = Some i" | n where "getjobpid (jobs s) n = Some i"
    using assms(2) by (auto simp: do_bgfg_find_def Let_def split: if_splits option.splits)
  then show ?thesis
  proof cases
    case (1 n)
    then have i: "i < length (jobs s)" "1 \<le> job_jid (jobs s ! i)"
      by (auto simp: getjobjid_def first_index_Some split: if_splits)
    then have "jobs s ! i \<noteq> clearjob" by auto
    with i(1) jobs_wf_slot [OF assms(1), of "jobs s ! i"] show ?thesis by auto
  next
    case (2 n)
    then show ?thesis by (auto dest: getjobpid_slot)
  qed
qed

lemma builtin_cmd_jobs: "jobs (snd (builtin_cmd argv s)) = jobs s"
proof (cases argv)
  case Nil
  then show ?thesis by (simp add: builtin_cmd_def)
next
  case (Cons cmd args)
  obtain r t where "do_bgfg_find argv s = (r, t)" by fastforce
  with do_bgfg_find_jobs [of argv s] Cons show ?thesis
    by (cases r) (simp_all add: builtin_cmd_def listjobs_def c_simps)
qed

lemma builtin_cmd_slot:
  assumes "jobs_wf (jobs s)" and "fst (builtin_cmd argv s) = Ret (Builtin_Job cmd i)"
  shows "i < length (jobs s) \<and> 0 < job_pid (jobs s ! i) \<and> (cmd = ''bg'' \<or> cmd = ''fg'')"
proof (cases argv)
  case Nil
  with assms(2) show ?thesis by (simp add: builtin_cmd_def)
next
  case (Cons c args)
  obtain r t where rt: "do_bgfg_find argv s = (r, t)" by fastforce
  with assms(2) Cons have "r = Ret (Some i) \<and> c = cmd \<and> (cmd = ''bg'' \<or> cmd = ''fg'')"
    by (cases r) (auto simp: builtin_cmd_def c_simps split: if_splits option.splits)
  with do_bgfg_find_slot [OF assms(1), of argv i] rt show ?thesis by simp
qed

lemma eval_front_jobs: "jobs (snd (eval_front cmdline s)) = jobs s"
proof (cases "parseline cmdline")
  case (Ret r)
  obtain argv bg where r: "r = (argv, bg)" by (cases r)
  obtain b t where "builtin_cmd argv s = (b, t)" by fastforce
  with builtin_cmd_jobs [of argv s] Ret r show ?thesis
    by (cases b) (simp_all add: eval_front_def c_simps)
qed (simp_all add: eval_front_def)

lemma eval_front_slot:
  assumes "jobs_wf (jobs s)" and "fst (eval_front cmdline s) = Ret (argv, bg, Builtin_Job cmd i)"
  shows "i < length (jobs s) \<and> 0 < job_pid (jobs s ! i) \<and> (cmd = ''bg'' \<or> cmd = ''fg'')"
proof (cases "parseline cmdline")
  case (Ret r)
  obtain av g where r: "r = (av, g)" by (cases r)
  obtain b t where bt: "builtin_cmd av s = (b, t)" by fastforce
  with assms(2) Ret r have "b = Ret (Builtin_Job cmd i)"
    by (cases b) (simp_all add: eval_front_def c_simps)
  with builtin_cmd_slot [OF assms(1), of av cmd i] bt show ?thesis by simp
qed (use assms(2) in \<open>simp_all add: eval_front_def\<close>)

lemma show_prompt_jobs [simp]: "jobs (show_prompt s) = jobs (sh s)"
  by (simp add: show_prompt_def)

section \<open>The invariant\<close>

text \<open>
  The job list and the process IDs: well-formed, every job's process was forked, every child
  and every reported status belongs to a forked process.
\<close>

definition ids_ok :: "int list \<Rightarrow> job_t list \<Rightarrow> int list \<Rightarrow> (int \<times> wstatus) list \<Rightarrow> bool" where
  "ids_ok us js al ws \<longleftrightarrow> list_all (\<lambda>p. 0 < p) us \<and>
     job_pid ` set js \<subseteq> insert 0 (set us) \<and> set al \<subseteq> set us \<and> fst ` set ws \<subseteq> set us"

text \<open>What is known at each point of the main flow.\<close>

fun pc_ok :: "pc \<Rightarrow> shell \<Rightarrow> bool" where
  "pc_ok PPrompt s = (fg_free (jobs (sh s)) \<and> \<not> chld_blocked s)"
| "pc_ok (PFork argv bg cmdline) s = (fg_free (jobs (sh s)) \<and> chld_blocked s)"
| "pc_ok (PAdd pid bg cmdline) s =
     (fg_free (jobs (sh s)) \<and> chld_blocked s \<and> pid \<in> set (used s) \<and> job_of (sh s) pid = None)"
| "pc_ok (PBgPrint pid) s = (fg_free (jobs (sh s)) \<and> \<not> chld_blocked s)"
| "pc_ok (PWait pid) s =
     (list_all (\<lambda>j. is_fg j \<longrightarrow> job_pid j = pid) (jobs (sh s)) \<and> \<not> chld_blocked s \<and> 0 < pid)"
| "pc_ok (PBgfgFound cmd i) s =
     (fg_free (jobs (sh s)) \<and> \<not> chld_blocked s \<and> i < length (jobs (sh s)) \<and>
      0 < job_pid (jobs (sh s) ! i) \<and> (cmd = ''bg'' \<or> cmd = ''fg''))"
| "pc_ok (PBgfgKill cmd i pid) s =
     (fg_free (jobs (sh s)) \<and> \<not> chld_blocked s \<and> i < length (jobs (sh s)) \<and>
      job_pid (jobs (sh s) ! i) = pid \<and> 0 < pid \<and> (cmd = ''bg'' \<or> cmd = ''fg''))"
| "pc_ok (PBgfg cmd i pid) s =
     (fg_free (jobs (sh s)) \<and> \<not> chld_blocked s \<and> i < length (jobs (sh s)) \<and>
      job_pid (jobs (sh s) ! i) = pid \<and> 0 < pid \<and> (cmd = ''bg'' \<or> cmd = ''fg''))"
| "pc_ok (PExit n) s = True"
| "pc_ok (PCrash e) s = True"

definition shell_inv :: "shell \<Rightarrow> bool" where
  "shell_inv s \<longleftrightarrow> jobs_wf (jobs (sh s)) \<and> at_most_one is_fg (jobs (sh s)) \<and>
     ids_ok (used s) (jobs (sh s)) (alive s) (waitable s) \<and> pc_ok (pc s) s"

lemma ids_ok_jobs:
  "ids_ok us js al ws \<Longrightarrow> job_pid ` set js' \<subseteq> insert 0 (job_pid ` set js) \<Longrightarrow> ids_ok us js' al ws"
  by (auto simp: ids_ok_def)

lemma ids_ok_reaped: "ids_ok us js al ws \<Longrightarrow> ids_ok us js al []"
  by (simp add: ids_ok_def)

lemma ids_ok_fork: "ids_ok us js al ws \<Longrightarrow> 0 < p \<Longrightarrow> ids_ok (p # us) js (p # al) ws"
  by (auto simp: ids_ok_def)

lemma ids_ok_child:
  "ids_ok us js al ws \<Longrightarrow> p \<in> set al \<Longrightarrow> ids_ok us js al (ws @ [(p, st)])"
  "ids_ok us js al ws \<Longrightarrow> p \<in> set al \<Longrightarrow> ids_ok us js (removeAll p al) (ws @ [(p, st)])"
  by (auto simp: ids_ok_def)

lemma ids_ok_insert:
  assumes "ids_ok us js al ws" and "p \<in> set us" and "job_pid ` set js' \<subseteq> insert p (job_pid ` set js)"
  shows "ids_ok us js' al ws"
proof -
  from assms have "insert p (job_pid ` set js) \<subseteq> insert 0 (set us)" by (auto simp: ids_ok_def)
  with assms(3) have "job_pid ` set js' \<subseteq> insert 0 (set us)" by (rule subset_trans)
  with assms(1) show ?thesis by (simp add: ids_ok_def)
qed

lemma pids_update:
  "i < length js \<Longrightarrow> job_pid y = job_pid (js ! i) \<Longrightarrow> job_pid ` set (js[i := y]) = job_pid ` set js"
  by (metis list.set_map list_update_id map_update nth_map)

lemma fg_free_init: "fg_free (jobs tsh_init)"
  by (simp add: fg_free_def tsh_init_def initjobs_def list_all_iff)

lemma fg_free_update: "fg_free js \<Longrightarrow> \<not> is_fg y \<Longrightarrow> fg_free (js[i := y])"
  by (meson fg_shrinks_free fg_shrinks_update)

lemma shell_inv_init: "shell_inv (shell_init opts)"
proof (cases "main_opts opts (False, True)")
  case None
  then show ?thesis using jobs_wf_init fg_free_one [OF fg_free_init]
    by (auto simp: shell_inv_def shell_init_def ids_ok_def tsh_init_def initjobs_def)
next
  case (Some vp)
  then show ?thesis using jobs_wf_init fg_free_one [OF fg_free_init] fg_free_init
    by (cases vp) (auto simp: shell_inv_def shell_init_def ids_ok_def tsh_init_def initjobs_def)
qed

lemma do_read_inv:
  assumes inv: "shell_inv s" and pc: "pc s = PPrompt"
  shows "shell_inv (do_read cmdline s)"
proof -
  obtain r t where rt: "eval_front cmdline (show_prompt s) = (r, t)" by fastforce
  with eval_front_jobs [of cmdline "show_prompt s"] have js: "jobs t = jobs (sh s)" by simp
  note base = inv [unfolded shell_inv_def pc pc_ok.simps]
  show ?thesis
  proof (cases r)
    case (Ret v)
    obtain argv bg b where v: "v = (argv, bg, b)" by (cases v)
    show ?thesis
    proof (cases b)
      case (Builtin_Job cmd i)
      have "fst (eval_front cmdline (show_prompt s)) = Ret (argv, bg, Builtin_Job cmd i)"
        using rt Ret v Builtin_Job by simp
      then have "i < length (jobs t) \<and> 0 < job_pid (jobs t ! i) \<and> (cmd = ''bg'' \<or> cmd = ''fg'')"
        using eval_front_slot [of "show_prompt s" cmdline argv bg cmd i] base js by simp
      with base rt Ret v Builtin_Job js show ?thesis
        by (simp add: do_read_def shell_inv_def Let_def)
    qed (use base rt Ret v js pc in \<open>simp_all add: do_read_def shell_inv_def\<close>)
  qed (use base rt js in \<open>simp_all add: do_read_def shell_inv_def\<close>)
qed

lemma addjob_jobs_cases:
  obtains "jobs (snd (addjob pid st cmdline s)) = jobs s"
  | i where "i < length (jobs s)" "job_pid (jobs s ! i) = 0"
      "jobs (snd (addjob pid st cmdline s)) = (jobs s)[i := new_job s pid st cmdline]"
  using addjob_room addjob_rejected by metis

lemma do_add_inv:
  assumes inv: "shell_inv s" and pc: "pc s = PAdd pid bg cmdline"
  shows "shell_inv (do_add pid bg cmdline s)"
proof -
  define st where "st = (if bg then BG else FG)"
  obtain r t where rt: "addjob pid st cmdline (sh s) = (r, t)" by fastforce
  note base = inv [unfolded shell_inv_def pc pc_ok.simps]
  have free: "\<And>j. j \<in> set (jobs (sh s)) \<Longrightarrow> \<not> is_fg j"
    using base by (auto simp: fg_free_def list_all_iff)
  have ids: "ids_ok (used s) (jobs (sh s)) (alive s) (waitable s)" using base by simp
  have pos: "0 < pid" using base by (auto simp: ids_ok_def list_all_iff)
  have wf: "jobs_wf (jobs t)"
    using addjob_jobs_wf [of "sh s" pid st cmdline] base rt by simp
  have js: "(\<forall>j \<in> set (jobs t). is_fg j \<longrightarrow> job_pid j = pid \<and> \<not> bg) \<and> at_most_one is_fg (jobs t) \<and>
      ids_ok (used s) (jobs t) (alive s) (waitable s)"
  proof (cases rule: addjob_jobs_cases [of pid st cmdline "sh s"])
    case 1
    with rt base free show ?thesis by simp
  next
    case (2 i)
    let ?y = "new_job (sh s) pid st cmdline"
    have t: "jobs t = (jobs (sh s))[i := ?y]" using 2 rt by simp
    have sub: "set (jobs t) \<subseteq> insert ?y (set (jobs (sh s)))"
      unfolding t by (rule set_update_subset_insert)
    have "at_most_one is_fg (jobs t)"
      unfolding t by (rule at_most_one_update_true) (rule free)
    moreover have "\<forall>j \<in> set (jobs t). is_fg j \<longrightarrow> job_pid j = pid \<and> \<not> bg"
      using sub free by (auto simp: new_job_def st_def)
    moreover have "job_pid ` set (jobs t) \<subseteq> insert pid (job_pid ` set (jobs (sh s)))"
      using image_mono [OF sub, of job_pid] by (simp add: new_job_def)
    then have "ids_ok (used s) (jobs t) (alive s) (waitable s)"
      using ids base by (intro ids_ok_insert [OF ids]) simp_all
    ultimately show ?thesis by blast
  qed
  show ?thesis
    using js wf pos rt [unfolded st_def]
    by (cases r; cases bg) (auto simp: do_add_def shell_inv_def fg_free_def list_all_iff)
qed

lemma do_resume_inv:
  assumes inv: "shell_inv s" and pc: "pc s = PBgfg cmd i pid"
  shows "shell_inv (do_resume cmd i pid s)"
proof -
  let ?js = "jobs (sh s)" and ?st = "if cmd = ''bg'' then BG else FG"
  note base = inv [unfolded shell_inv_def pc pc_ok.simps]
  define y where "y = (?js ! i)\<lparr>job_state := ?st\<rparr>"
  have y: "job_pid y = job_pid (?js ! i)" "is_fg y = (cmd \<noteq> ''bg'')" by (simp_all add: y_def)
  define t where "t = do_bgfg_resume cmd i (sh s)"
  have js: "jobs t = ?js[i := y]"
    by (simp add: t_def do_bgfg_resume_def Let_def y_def)
  have free: "\<And>j. j \<in> set ?js \<Longrightarrow> \<not> is_fg j"
    using base by (auto simp: fg_free_def list_all_iff)
  have sub: "set (?js[i := y]) \<subseteq> insert y (set ?js)" by (rule set_update_subset_insert)
  have "jobs_wf (?js[i := y])" unfolding y_def using base by (intro jobs_wf_set_state) simp_all
  moreover have "at_most_one is_fg (?js[i := y])"
    by (rule at_most_one_update_true) (rule free)
  moreover have "job_pid ` set (?js[i := y]) = job_pid ` set ?js"
    using base y by (intro pids_update) simp_all
  then have "ids_ok (used s) (?js[i := y]) (alive s) (waitable s)"
    using base by (simp add: ids_ok_def)
  moreover have "\<forall>j \<in> set (?js[i := y]). is_fg j \<longrightarrow> job_pid j = pid \<and> cmd \<noteq> ''bg''"
    using sub free y base by auto
  moreover have "do_resume cmd i pid s = s\<lparr>sh := t, pc := (if cmd = ''bg'' then PPrompt else PWait pid)\<rparr>"
    by (simp add: do_resume_def t_def)
  ultimately show ?thesis using base
    by (auto simp: shell_inv_def js fg_free_def list_all_iff)
qed

lemma do_sigchld_inv:
  assumes inv: "shell_inv s" and nb: "\<not> chld_blocked s" and nr: "\<not> at_bgfg (pc s)"
  shows "shell_inv (do_sigchld s)"
proof -
  obtain r t where rt: "sigchld_handler (waitable s) (sh s) = (r, t)" by fastforce
  note base = inv [unfolded shell_inv_def]
  have sh: "fg_shrinks (jobs (sh s)) (jobs t)"
    using sigchld_handler_shrinks [of "sh s" "waitable s"] rt by simp
  have wf: "jobs_wf (jobs t)"
    using sigchld_handler_wf [of "sh s" "waitable s"] rt base by simp
  have one: "at_most_one is_fg (jobs t)"
    using sh base by (auto intro: fg_shrinks_one)
  have ids: "ids_ok (used s) (jobs t) (alive s) (waitable s)"
    using sigchld_handler_pids [of "waitable s" "sh s"] rt base by (auto intro: ids_ok_jobs)
  have fg: "list_all (\<lambda>j. is_fg j \<longrightarrow> job_pid j = p) (jobs t)"
    if "list_all (\<lambda>j. is_fg j \<longrightarrow> job_pid j = p) (jobs (sh s))" for p
    using that fg_shrinks_set [OF sh] by (auto simp: list_all_iff)
  have "pc_ok (pc s) (s\<lparr>sh := t, waitable := [], chld_pending := False\<rparr>)"
    using base nb nr fg fg_shrinks_free [OF sh] by (cases "pc s") simp_all
  with wf one ids rt show ?thesis
    by (cases r) (simp_all add: do_sigchld_def shell_inv_def ids_ok_reaped)
qed

lemma pc_ok_cong:
  assumes "jobs (sh t) = jobs (sh s)" and "chld_blocked t = chld_blocked s" and "used t = used s"
  shows "pc_ok p t = pc_ok p s"
proof -
  have "job_of (sh t) = job_of (sh s)" using assms(1) by (simp add: fun_eq_iff job_of_def)
  with assms show ?thesis by (cases p) simp_all
qed

lemma shell_inv_cong:
  assumes "jobs (sh t) = jobs (sh s)" and "chld_blocked t = chld_blocked s" and "used t = used s"
    and "pc t = pc s" and "alive t = alive s" and "waitable t = waitable s" and "shell_inv s"
  shows "shell_inv t"
  using assms pc_ok_cong [OF assms(1-3)] by (simp add: shell_inv_def)

lemma fg_is_waited:
  assumes "list_all (\<lambda>j. is_fg j \<longrightarrow> job_pid j = pid) js" and "pid \<noteq> fgpid js"
  shows "fg_free js"
proof (rule ccontr)
  assume "\<not> fg_free js"
  then obtain i where i: "first_index is_fg js = Some i"
    by (cases "first_index is_fg js") (auto simp: fg_free_def list_all_iff first_index_None)
  then have "job_pid (js ! i) = pid"
    using assms(1) first_index_SomeD [OF i] by (auto simp: list_all_iff)
  with i assms(2) show False by (simp add: fgpid_def)
qed

lemma tsh_next_inv:
  assumes inv: "shell_inv s" and nr: "steady l s" and step: "tsh_next l s = Some t"
  shows "shell_inv t"
proof (cases l)
  case (LRead cmdline)
  with step inv show ?thesis by (auto split: if_splits intro: do_read_inv)
next
  case (LFork pid)
  then obtain argv bg cmdline where p: "pc s = PFork argv bg cmdline" "0 < pid"
    "t = do_fork pid bg cmdline s" using step by (auto split: pc.splits if_splits)
  note base = inv [unfolded shell_inv_def p(1) pc_ok.simps]
  have "job_of (sh s) pid = None" using nr LFork by (simp add: steady_def no_reuse_def)
  with p(2,3) base show ?thesis by (simp add: do_fork_def shell_inv_def ids_ok_fork)
next
  case LAdd
  with step inv show ?thesis by (auto split: pc.splits intro: do_add_inv)
next
  case LBgPrint
  then obtain pid where p: "pc s = PBgPrint pid" "t = do_bgprint pid s"
    using step by (auto split: pc.splits)
  note base = inv [unfolded shell_inv_def p(1) pc_ok.simps]
  show ?thesis using base p(2)
    by (cases "getjobpid (jobs (sh s)) pid") (simp_all add: do_bgprint_def shell_inv_def)
next
  case LWaitOver
  then obtain pid where p: "pc s = PWait pid" "pid \<noteq> fgpid (jobs (sh s))" "t = s\<lparr>pc := PPrompt\<rparr>"
    using step by (auto simp: waitfg_done_def split: pc.splits if_splits)
  note base = inv [unfolded shell_inv_def p(1) pc_ok.simps]
  with p fg_is_waited show ?thesis by (auto simp: shell_inv_def)
next
  case LBgPid
  with step inv show ?thesis by (auto simp: shell_inv_def split: pc.splits)
next
  case LBgKill
  with step inv show ?thesis by (auto simp: shell_inv_def split: pc.splits)
next
  case LBgfg
  with step inv show ?thesis by (auto split: pc.splits intro: do_resume_inv)
next
  case (LChild pid st)
  then have p: "pid \<in> set (alive s)" "t = do_child pid st s" using step by (auto split: if_splits)
  have "pc_ok (pc s) t = pc_ok (pc s) s" using p by (intro pc_ok_cong) (simp_all add: do_child_def)
  with p inv ids_ok_child show ?thesis by (simp add: do_child_def shell_inv_def)
next
  case LSigchld
  then have "t = do_sigchld s" "\<not> chld_blocked s" using step by (auto split: if_splits)
  with inv nr LSigchld show ?thesis by (auto simp: steady_def no_race_def intro!: do_sigchld_inv)
next
  case LSigint
  with step inv show ?thesis by (auto split: if_splits intro: shell_inv_cong)
next
  case LSigtstp
  with step inv show ?thesis by (auto split: if_splits intro: shell_inv_cong)
next
  case LEof
  with step inv show ?thesis by (auto simp: shell_inv_def split: if_splits)
next
  case (LForkFails err)
  with step inv show ?thesis by (auto simp: shell_inv_def tsh_unix_error_def split: pc.splits)
next
  case LReadError
  with step inv show ?thesis by (auto simp: shell_inv_def tsh_app_error_def split: if_splits)
next
  case LSigquit
  with step inv show ?thesis by (auto simp: shell_inv_def sigquit_handler_def split: if_splits)
qed

lemma tsh_reach_inv:
  assumes "tsh_reach ok s" and "\<And>l s. ok l s \<Longrightarrow> steady l s"
  shows "shell_inv s"
  using assms(1)
proof induction
  case (reach_init opts)
  then show ?case by (rule shell_inv_init)
next
  case (reach_step s l t)
  then show ?case using assms(2) tsh_next_inv by blast
qed

end
