(* ===== verification/Tsh_Cover.thy ===== *)
theory Tsh_Cover
  imports Tsh_Proofs
begin

text \<open>
  Why the \<open>SIGCHLD\<close> handler of \<open>tsh.c\<close> finds the job of every child it reaps: \<open>eval\<close> blocks
  the signal from before \<open>fork\<close> until \<open>addjob\<close> has returned, so that while the handler can
  run, every child has a job, and a terminated child reports nothing after its termination.
\<close>

text \<open>Nothing follows the termination of a process, and it is not alive any more.\<close>

fun events_ok :: "int list \<Rightarrow> (int \<times> wstatus) list \<Rightarrow> bool" where
  "events_ok al [] = True"
| "events_ok al ((p, st) # ws) =
     ((terminates st \<longrightarrow> p \<notin> set al \<and> p \<notin> fst ` set ws) \<and> events_ok al ws)"

text \<open>Every process that is alive or has reported something has a job.\<close>

definition covered :: "int list \<Rightarrow> (int \<times> wstatus) list \<Rightarrow> tsh \<Rightarrow> bool" where
  "covered al ws s \<longleftrightarrow> (\<forall>p \<in> set al \<union> fst ` set ws. job_of s p \<noteq> None)"

fun adding :: "pc \<Rightarrow> int list" where
  "adding (PAdd pid bg cmdline) = [pid]"
| "adding _ = []"

definition cover_ok :: "shell \<Rightarrow> bool" where
  "cover_ok s \<longleftrightarrow> events_ok (alive s) (waitable s) \<and>
     (\<forall>p \<in> set (alive s) \<union> fst ` set (waitable s). p \<in> set (adding (pc s)) \<or> job_of (sh s) p \<noteq> None)"

definition cover_inv :: "shell \<Rightarrow> bool" where
  "cover_inv s \<longleftrightarrow> (running (pc s) \<longrightarrow> cover_ok s)"

lemma events_ok_mono: "events_ok al ws \<Longrightarrow> set al' \<subseteq> set al \<Longrightarrow> events_ok al' ws"
  by (induction al ws rule: events_ok.induct) auto

lemma events_ok_child:
  assumes "events_ok al ws" and "p \<in> set al"
  shows "events_ok (if terminates st then removeAll p al else al) (ws @ [(p, st)])"
  using assms by (induction al ws rule: events_ok.induct) auto

lemma events_ok_fork:
  assumes "events_ok al ws" and "p \<notin> fst ` set ws"
  shows "events_ok (p # al) ws"
  using assms by (induction al ws rule: events_ok.induct) auto

section \<open>Reaping covered processes\<close>

lemma job_of_jobs: "jobs t = jobs s \<Longrightarrow> job_of t = job_of s"
  by (rule ext) (simp add: job_of_def)

lemma sigchld_one_ret:
  assumes "job_of s p \<noteq> None"
  shows "fst (sigchld_one p st s) = Ret ()"
proof -
  obtain i where "getjobpid (jobs s) p = Some i" using assms by (auto simp: job_of_def)
  then show ?thesis by (cases st) simp_all
qed

lemma job_of_same_pids:
  assumes "0 < q" and "job_pid ` set (jobs t) = job_pid ` set (jobs s)"
  shows "job_of t q = None \<longleftrightarrow> job_of s q = None"
proof -
  have "job_of u q = None \<longleftrightarrow> q \<notin> job_pid ` set (jobs u)" for u :: tsh
    using assms(1) by (auto simp: job_of_None_iff)
  with assms(2) show ?thesis by simp
qed

lemma job_of_pos: "job_of s q \<noteq> None \<Longrightarrow> 0 < q"
  by (rule ccontr) (simp add: job_of_nonpos)

text \<open>A status report keeps the jobs of all other processes, and its own if it only stopped.\<close>

lemma sigchld_one_stopped_pids:
  "job_pid ` set (jobs (snd (sigchld_one p (WStopped sig) s))) = job_pid ` set (jobs s)"
proof (cases "getjobpid (jobs s) p")
  case (Some i)
  then have "i < length (jobs s)" by (auto dest: getjobpid_slot)
  with Some show ?thesis by (simp add: sigchld_one_jobs reaped_def pids_update)
qed (simp add: sigchld_one_jobs reaped_def)

lemma sigchld_one_other:
  assumes wf: "jobs_wf (jobs s)" and q: "0 < q" and ne: "q \<noteq> p"
  shows "job_of (snd (sigchld_one p st s)) q = None \<longleftrightarrow> job_of s q = None"
proof (cases rule: sigchld_one_cases [of p st s])
  case 1
  show ?thesis by (simp only: job_of_jobs [OF 1])
next
  case (2 i)
  have i: "i < length (jobs s)" "job_pid (jobs s ! i) = p"
    using getjobpid_slot [OF 2(1)] by auto
  have "job_of (snd (sigchld_one p st s)) q =
      (if job_pid clearjob = q then Some clearjob
       else if job_pid (jobs s ! i) = q then None else job_of s q)"
    by (rule job_of_update [OF wf 2(2) sigchld_one_wf [OF wf] i(1) q])
  then show ?thesis using i(2) ne q by (simp only: clearjob_simps) simp
next
  case (3 i)
  have i: "i < length (jobs s)" using getjobpid_slot [OF 3(1)] by auto
  have "job_pid ` set (jobs (snd (sigchld_one p st s))) = job_pid ` set (jobs s)"
    unfolding 3(2) using i by (rule pids_update) simp
  then show ?thesis by (rule job_of_same_pids [OF q])
qed

lemma sigchld_one_keeps:
  assumes wf: "jobs_wf (jobs s)" and q: "job_of s q \<noteq> None"
    and keep: "q = p \<Longrightarrow> \<not> terminates st"
  shows "job_of (snd (sigchld_one p st s)) q \<noteq> None"
proof (cases "q = p")
  case False
  with q show ?thesis using sigchld_one_other [OF wf job_of_pos [OF q], of p st] by simp
next
  case True
  then obtain sig where "st = WStopped sig" using keep by (cases st) simp_all
  with q True show ?thesis
    using job_of_same_pids [OF job_of_pos [OF q] sigchld_one_stopped_pids, of p sig] by simp
qed

lemma sigchld_handler_covered:
  assumes "jobs_wf (jobs s)" and "events_ok al ws" and "covered al ws s"
  shows "fst (sigchld_handler ws s) = Ret () \<and> covered al [] (snd (sigchld_handler ws s))"
  using assms
proof (induction al ws arbitrary: s rule: events_ok.induct)
  case (1 al)
  then show ?case by simp
next
  case (2 al p st ws)
  obtain r t where one: "sigchld_one p st s = (r, t)" by fastforce
  have "job_of s p \<noteq> None" using "2.prems"(3) by (simp add: covered_def)
  then have r: "r = Ret ()" using sigchld_one_ret [of s p st] one by simp
  have "covered al ws t"
    unfolding covered_def
  proof
    fix q assume q: "q \<in> set al \<union> fst ` set ws"
    then have "q = p \<Longrightarrow> \<not> terminates st" using "2.prems"(2) by auto
    moreover have "job_of s q \<noteq> None" using "2.prems"(3) q by (auto simp: covered_def)
    ultimately show "job_of t q \<noteq> None"
      using sigchld_one_keeps [OF "2.prems"(1), of q p st] one by simp
  qed
  moreover have "jobs_wf (jobs t)" using sigchld_one_wf [OF "2.prems"(1), of p st] one by simp
  ultimately have "fst (sigchld_handler ws t) = Ret () \<and> covered al [] (snd (sigchld_handler ws t))"
    using "2.IH" "2.prems"(2) by simp
  with one r show ?case by (simp add: c_simps)
qed

section \<open>The invariant\<close>

lemma cover_ok_cong:
  assumes "cover_ok s" and "alive t = alive s" and "waitable t = waitable s"
    and "adding (pc t) = adding (pc s)"
    and "\<And>p. 0 < p \<Longrightarrow> job_of (sh t) p = None \<longleftrightarrow> job_of (sh s) p = None"
  shows "cover_ok t"
proof -
  have "job_of (sh t) p \<noteq> None" if "job_of (sh s) p \<noteq> None" for p
    using assms(5) [OF job_of_pos [OF that]] that by simp
  with assms(1-4) show ?thesis unfolding cover_ok_def by metis
qed

lemma cover_ok_jobs:
  assumes "cover_ok s" and "alive t = alive s" and "waitable t = waitable s"
    and "adding (pc t) = adding (pc s)" and "jobs (sh t) = jobs (sh s)"
  shows "cover_ok t"
  using assms(1-4) by (rule cover_ok_cong) (simp only: job_of_jobs [OF assms(5)])

lemma do_read_cover:
  assumes "cover_ok s" and "pc s = PPrompt"
  shows "cover_ok (do_read cmdline s)"
proof -
  obtain r t where rt: "eval_front cmdline (show_prompt s) = (r, t)" by fastforce
  with eval_front_jobs [of cmdline "show_prompt s"] have js: "jobs t = jobs (sh s)" by simp
  have "alive (do_read cmdline s) = alive s \<and> waitable (do_read cmdline s) = waitable s \<and>
      adding (pc (do_read cmdline s)) = [] \<and> sh (do_read cmdline s) = t"
    using rt assms(2)
    by (cases r) (auto simp: do_read_def Let_def split: builtin.split)
  with js assms show ?thesis by (auto intro: cover_ok_jobs [of s])
qed

lemma do_add_cover:
  assumes inv: "shell_inv s" and cov: "cover_ok s" and pc: "pc s = PAdd pid bg cmdline"
    and room: "has_room (sh s)"
  shows "cover_inv (do_add pid bg cmdline s)"
proof -
  define st where "st = (if bg then BG else FG)"
  obtain r t where rt: "addjob pid st cmdline (sh s) = (r, t)" by fastforce
  note base = inv [unfolded shell_inv_def pc pc_ok.simps]
  have pid: "1 \<le> pid" using base by (auto simp: ids_ok_def list_all_iff)
  show ?thesis
  proof (cases "length cmdline < MAXLINE")
    case True
    have look: "job_of t = (job_of (sh s))(pid \<mapsto> new_job (sh s) pid st cmdline)"
      using job_of_addjob [of "sh s" pid cmdline st] base pid room True rt by simp
    have "\<not> running (pc (do_add pid bg cmdline s)) \<or>
        adding (pc (do_add pid bg cmdline s)) = [] \<and> sh (do_add pid bg cmdline s) = t \<and>
        alive (do_add pid bg cmdline s) = alive s \<and> waitable (do_add pid bg cmdline s) = waitable s"
      using rt [unfolded st_def] by (cases r) (simp_all add: do_add_def)
    with look cov pc show ?thesis by (auto simp: cover_inv_def cover_ok_def)
  next
    case False
    obtain i where "first_index (\<lambda>j. job_pid j = 0) (jobs (sh s)) = Some i"
      using free_slot [OF room] by blast
    with False pid have "\<not> running (pc (do_add pid bg cmdline s))"
      by (simp add: do_add_def addjob_def)
    then show ?thesis by (simp add: cover_inv_def)
  qed
qed

lemma do_sigchld_cover:
  assumes inv: "shell_inv s" and cov: "cover_ok s" and nb: "\<not> chld_blocked s"
  shows "fst (sigchld_handler (waitable s) (sh s)) = Ret ()" and "cover_ok (do_sigchld s)"
proof -
  note base = inv [unfolded shell_inv_def]
  have "adding (pc s) = []" using base nb by (cases "pc s") simp_all
  then have c: "covered (alive s) (waitable s) (sh s)" using cov by (simp add: cover_ok_def covered_def)
  obtain r t where rt: "sigchld_handler (waitable s) (sh s) = (r, t)" by fastforce
  have h: "r = Ret () \<and> covered (alive s) [] t"
    using sigchld_handler_covered [OF _ _ c] base cov rt by (simp add: cover_ok_def)
  then show "fst (sigchld_handler (waitable s) (sh s)) = Ret ()" using rt by simp
  show "cover_ok (do_sigchld s)"
    using h rt by (simp add: do_sigchld_def cover_ok_def covered_def)
qed

text \<open>The schedules considered: steady ones with room for every job.\<close>

definition calm :: "label \<Rightarrow> shell \<Rightarrow> bool" where
  "calm l s \<longleftrightarrow> steady l s \<and> no_overflow l s"

lemma do_resume_pids:
  assumes "i < length (jobs s)"
  shows "job_pid ` set (jobs (do_bgfg_resume cmd i s)) = job_pid ` set (jobs s)"
  using pids_update [OF assms, of "(jobs s ! i)\<lparr>job_state := BG\<rparr>"]
    pids_update [OF assms, of "(jobs s ! i)\<lparr>job_state := FG\<rparr>"]
  by (simp add: do_bgfg_resume_def Let_def)

lemma do_fork_cover:
  assumes inv: "shell_inv s" and cov: "cover_ok s" and pc: "pc s = PFork argv bg cmdline"
    and new: "pid \<notin> fst ` set (waitable s)"
  shows "cover_ok (do_fork pid bg cmdline s)"
proof -
  from new cov pc show ?thesis by (auto simp: cover_ok_def do_fork_def events_ok_fork)
qed

lemma tsh_next_cover:
  assumes inv: "shell_inv s" and cov: "cover_inv s" and ok: "calm l s" and step: "tsh_next l s = Some t"
  shows "cover_inv t"
proof (cases l)
  case (LRead cmdline)
  then have "pc s = PPrompt" "t = do_read cmdline s" using step by (auto split: if_splits)
  then show ?thesis using cov do_read_cover by (simp add: cover_inv_def)
next
  case (LFork pid)
  then obtain argv bg cmdline where p: "pc s = PFork argv bg cmdline" "pid \<notin> fst ` set (waitable s)"
    "t = do_fork pid bg cmdline s" using step by (auto split: pc.splits if_splits)
  then show ?thesis using cov do_fork_cover [OF inv _ p(1,2)] by (simp add: cover_inv_def)
next
  case LAdd
  then obtain pid bg cmdline where p: "pc s = PAdd pid bg cmdline" "t = do_add pid bg cmdline s"
    using step by (auto split: pc.splits)
  then show ?thesis using cov ok LAdd do_add_cover [OF inv _ p(1)]
    by (simp add: cover_inv_def [of s] calm_def no_overflow_def)
next
  case LBgPrint
  then obtain pid where p: "pc s = PBgPrint pid" "t = do_bgprint pid s"
    using step by (auto split: pc.splits)
  show ?thesis
  proof (cases "getjobpid (jobs (sh s)) pid")
    case (Some i)
    have "cover_ok t"
      by (rule cover_ok_jobs [of s]) (use p cov Some in \<open>simp_all add: cover_inv_def do_bgprint_def\<close>)
    then show ?thesis by (simp add: cover_inv_def)
  qed (simp add: p do_bgprint_def cover_inv_def)
next
  case LWaitOver
  then obtain pid where p: "pc s = PWait pid" "t = s\<lparr>pc := PPrompt\<rparr>"
    using step by (auto split: pc.splits if_splits)
  have "cover_ok t"
    by (rule cover_ok_jobs [of s]) (use p cov in \<open>simp_all add: cover_inv_def\<close>)
  then show ?thesis by (simp add: cover_inv_def)
next
  case LBgPid
  then obtain cmd i where p: "pc s = PBgfgFound cmd i" "t = s\<lparr>pc := PBgfgKill cmd i (job_pid (jobs (sh s) ! i))\<rparr>"
    using step by (auto split: pc.splits)
  have "cover_ok t"
    by (rule cover_ok_jobs [of s]) (use p cov in \<open>simp_all add: cover_inv_def\<close>)
  then show ?thesis by (simp add: cover_inv_def)
next
  case LBgKill
  then obtain cmd i pid where p: "pc s = PBgfgKill cmd i pid"
    "t = s\<lparr>kills := kills s @ [(- pid, SIGCONT)], pc := PBgfg cmd i pid\<rparr>"
    using step by (auto split: pc.splits)
  have "cover_ok t"
    by (rule cover_ok_jobs [of s]) (use p cov in \<open>simp_all add: cover_inv_def\<close>)
  then show ?thesis by (simp add: cover_inv_def)
next
  case LBgfg
  then obtain cmd i pid where p: "pc s = PBgfg cmd i pid" "t = do_resume cmd i pid s"
    using step by (auto split: pc.splits)
  then have "i < length (jobs (sh s))" using inv by (simp add: shell_inv_def)
  then have "job_pid ` set (jobs (sh t)) = job_pid ` set (jobs (sh s))"
    using p(2) do_resume_pids by (simp add: do_resume_def)
  moreover have "alive t = alive s" "waitable t = waitable s" "adding (pc t) = adding (pc s)"
    using p by (simp_all add: do_resume_def)
  moreover have "cover_ok s" using cov p by (simp add: cover_inv_def)
  ultimately have "cover_ok t" 
    by (metis cover_ok_cong job_of_same_pids)
  then show ?thesis by (simp add: cover_inv_def)
next
  case (LChild pid st)
  then have p: "pid \<in> set (alive s)" "t = do_child pid st s" "running (pc s)"
    using step by (auto split: if_splits)
  have "events_ok (alive t) (waitable t)"
    using events_ok_child [OF _ p(1), of "waitable s" st] p cov
    by (simp add: cover_inv_def cover_ok_def do_child_def)
  moreover have "set (alive t) \<union> fst ` set (waitable t) \<subseteq> set (alive s) \<union> fst ` set (waitable s)"
    using p by (auto simp: do_child_def split: if_splits)
  moreover have "sh t = sh s" "pc t = pc s" using p by (simp_all add: do_child_def)
  ultimately have "cover_ok t" using p(3) cov
    unfolding cover_inv_def cover_ok_def by (simp only:) blast
  then show ?thesis by (simp add: cover_inv_def)
next
  case LSigchld
  then have "running (pc s)" "\<not> chld_blocked s" "t = do_sigchld s"
    using step by (auto split: if_splits)
  then show ?thesis using cov do_sigchld_cover(2) [OF inv] by (simp add: cover_inv_def)
next
  case LSigint
  then have p: "running (pc s)" "t = s\<lparr>kills := kills s @ sigint_handler (jobs (sh s))\<rparr>"
    using step by (auto split: if_splits)
  have "cover_ok t"
    by (rule cover_ok_jobs [of s]) (use p cov in \<open>simp_all add: cover_inv_def\<close>)
  then show ?thesis by (simp add: cover_inv_def)
next
  case LSigtstp
  then have p: "running (pc s)" "t = s\<lparr>kills := kills s @ sigtstp_handler (jobs (sh s))\<rparr>"
    using step by (auto split: if_splits)
  have "cover_ok t"
    by (rule cover_ok_jobs [of s]) (use p cov in \<open>simp_all add: cover_inv_def\<close>)
  then show ?thesis by (simp add: cover_inv_def)
next
  case LEof
  with step show ?thesis by (auto simp: cover_inv_def split: if_splits)
next
  case (LForkFails err)
  with step show ?thesis by (auto simp: cover_inv_def tsh_unix_error_def split: pc.splits)
next
  case LReadError
  with step show ?thesis by (auto simp: cover_inv_def tsh_app_error_def split: if_splits)
next
  case LSigquit
  with step show ?thesis by (auto simp: cover_inv_def sigquit_handler_def split: if_splits)
qed

lemma cover_inv_init: "cover_inv (shell_init opts)"
  by (simp add: cover_inv_def cover_ok_def shell_init_def split: option.split prod.split)

lemma calm_reach:
  assumes "tsh_reach calm s"
  shows "shell_inv s \<and> cover_inv s"
  using assms
proof induction
  case (reach_init opts)
  then show ?case by (simp add: shell_inv_init cover_inv_init)
next
  case (reach_step s l t)
  then show ?case using tsh_next_inv tsh_next_cover calm_def by blast
qed

end
