(* ===== verification/Tsh_Props.thy ===== *)
theory Tsh_Props
  imports Tsh_Cover
begin

text \<open>
  What the shell promises, as properties of its schedules, and the schedules and inputs on
  which \<open>shlab-handout/tsh.c\<close> breaks these promises.
\<close>

section \<open>waitfg\<close>








section \<open>waitfg returns\<close>

lemma sigchld_handler_append:
  "sigchld_handler (as @ bs) s = cbind (sigchld_handler as) (\<lambda>_. sigchld_handler bs) s"
proof (induction as arbitrary: s)
  case (Cons ev as)
  obtain p st where ev: "ev = (p, st)" by (cases ev)
  obtain r t where "sigchld_one p st s = (r, t)" by fastforce
  with Cons ev show ?case by (cases r) (simp_all add: cbind_def)
qed (simp add: cbind_def)

text \<open>The status changes after which \<open>waitfg\<close> stops waiting.\<close>

fun handled :: "wstatus \<Rightarrow> bool" where
  "handled (WExited c) = True"
| "handled (WSignaled sig) = (sig = SIGINT)"
| "handled (WStopped sig) = (sig = SIGTSTP)"

definition no_fg_of :: "int \<Rightarrow> job_t list \<Rightarrow> bool" where
  "no_fg_of p js \<longleftrightarrow> (\<forall>j \<in> set js. \<not> (is_fg j \<and> job_pid j = p))"

lemma no_fg_of_shrinks: "fg_shrinks js js' \<Longrightarrow> no_fg_of p js \<Longrightarrow> no_fg_of p js'"
  using fg_shrinks_set by (auto simp: no_fg_of_def)

lemma sigchld_one_no_fg:
  assumes wf: "jobs_wf (jobs s)" and h: "handled st" and p: "0 < p"
  shows "no_fg_of p (jobs (snd (sigchld_one p st s)))"
proof (cases "getjobpid (jobs s) p")
  case None
  then have "\<forall>j \<in> set (jobs s). job_pid j \<noteq> p" using p by (simp add: getjobpid_None_iff)
  with None show ?thesis by (auto simp: sigchld_one_jobs reaped_def no_fg_of_def)
next
  case (Some i)
  have i: "i < length (jobs s)" "job_pid (jobs s ! i) = p" using getjobpid_slot [OF Some] by auto
  have upd: "no_fg_of p ((jobs s)[i := y])" if "\<not> is_fg y" for y
    unfolding no_fg_of_def
  proof
    fix j assume "j \<in> set ((jobs s)[i := y])"
    then obtain k where k: "k < length (jobs s)" "(jobs s)[i := y] ! k = j"
      by (auto simp: in_set_conv_nth)
    show "\<not> (is_fg j \<and> job_pid j = p)"
    proof (cases "k = i")
      case True
      with k that show ?thesis by simp
    next
      case False
      with k i show ?thesis using jobs_wf_unique [OF wf k(1) i(1), of p] p by auto
    qed
  qed
  from h upd [of clearjob] upd [of "(jobs s ! i)\<lparr>job_state := ST\<rparr>"] Some show ?thesis
    by (cases st) (simp_all add: sigchld_one_jobs reaped_def deletejob_jobs)
qed

lemma sigchld_handler_no_fg:
  assumes wf: "jobs_wf (jobs s)" and ret: "fst (sigchld_handler ws s) = Ret ()"
    and ev: "(p, st) \<in> set ws" "handled st" and p: "0 < p"
  shows "no_fg_of p (jobs (snd (sigchld_handler ws s)))"
proof -
  obtain as bs where ws: "ws = as @ (p, st) # bs" using ev(1) by (meson split_list)
  obtain r1 t1 where 1: "sigchld_handler as s = (r1, t1)" by fastforce
  obtain r2 t2 where 2: "sigchld_one p st t1 = (r2, t2)" by fastforce
  have "r1 = Ret ()" "r2 = Ret ()"
    using ret 1 2 by (cases r1; cases r2; simp add: ws sigchld_handler_append c_simps)+
  then have "sigchld_handler ws s = sigchld_handler bs t2"
    using 1 2 by (simp add: ws sigchld_handler_append c_simps)
  moreover have "jobs_wf (jobs t1)" using sigchld_handler_wf [OF wf, of as] 1 by simp
  then have "no_fg_of p (jobs t2)" using sigchld_one_no_fg [OF _ ev(2) p, of t1] 2 by simp
  ultimately show ?thesis
    using no_fg_of_shrinks [OF sigchld_handler_shrinks] by simp
qed

lemma pending_kept:
  assumes "tsh_reach ok s"
  shows "waitable s \<noteq> [] \<longrightarrow> chld_pending s \<or> \<not> running (pc s)"
  using assms
proof induction
  case (reach_init opts)
  then show ?case by (simp add: shell_init_def split: option.split prod.split)
next
  case (reach_step s l t)
  then show ?case
    by (cases l) (auto simp: do_read_def do_fork_def do_add_def do_bgprint_def do_resume_def
        do_child_def do_sigchld_def tsh_unix_error_def tsh_app_error_def sigquit_handler_def Let_def
        split: if_splits pc.splits outcome.splits prod.splits option.splits builtin.splits)
qed

lemma waitfg_returns:
  assumes reach: "tsh_reach calm s" and pc: "pc s = PWait p"
    and ev: "(p, st) \<in> set (waitable s)" "handled st"
  shows "\<exists>t. tsh_run [LSigchld, LWaitOver] s = Some t \<and> pc t = PPrompt"
proof -
  have inv: "shell_inv s" and cov: "cover_ok s"
    using calm_reach [OF reach] pc by (simp_all add: cover_inv_def)
  note base = inv [unfolded shell_inv_def pc pc_ok.simps]
  obtain r u where ru: "sigchld_handler (waitable s) (sh s) = (r, u)" by fastforce
  have r: "r = Ret ()" using do_sigchld_cover(1) [OF inv cov] base ru by simp
  have pos: "0 < p" using base by blast
  have "no_fg_of p (jobs u)"
    using sigchld_handler_no_fg [OF _ _ ev pos, of "sh s"] base ru r by simp
  moreover have "fg_shrinks (jobs (sh s)) (jobs u)"
    using sigchld_handler_shrinks [of "sh s" "waitable s"] ru by simp
  then have "\<forall>j \<in> set (jobs u). is_fg j \<longrightarrow> job_pid j = p"
    using base fg_shrinks_set by (auto simp: list_all_iff)
  ultimately have "fg_free (jobs u)" by (auto simp: no_fg_of_def fg_free_def list_all_iff)
  then have "fgpid (jobs u) = 0"
    by (auto simp: fgpid_def fg_free_def list_all_iff first_index_Some split: option.split)
  moreover have "chld_pending s" using pending_kept [OF reach] ev(1) pc by auto
  ultimately show ?thesis
    using base pc ru r by (simp add: do_sigchld_def waitfg_done_def)
qed

section \<open>The race of do_bgfg\<close>

lemma sigchld_handler_slot:
  "job_pid (jobs (snd (sigchld_handler ws s)) ! i) = job_pid (jobs s ! i) \<or>
   job_pid (jobs (snd (sigchld_handler ws s)) ! i) = 0"
proof (rule sigchld_handler_ind [where P = "\<lambda>t. job_pid (jobs t ! i) = job_pid (jobs s ! i) \<or> job_pid (jobs t ! i) = 0"])
  fix p st and t :: tsh
  assume IH: "job_pid (jobs t ! i) = job_pid (jobs s ! i) \<or> job_pid (jobs t ! i) = 0"
  show "job_pid (jobs (snd (sigchld_one p st t)) ! i) = job_pid (jobs s ! i) \<or>
      job_pid (jobs (snd (sigchld_one p st t)) ! i) = 0"
  proof (cases rule: sigchld_one_cases [of p st t])
    case (2 k)
    with IH getjobpid_slot [OF 2(1)] show ?thesis by (cases "k = i") simp_all
  next
    case (3 k)
    with IH getjobpid_slot [OF 3(1)] show ?thesis by (cases "k = i") simp_all
  qed (use IH in simp)
qed simp

text \<open>A reaped exit clears the slot of the process.\<close>

lemma sigchld_handler_clears:
  assumes wf: "jobs_wf (jobs s)" and ret: "sigchld_handler (ws @ [(p, WExited c)]) s = (Ret (), t)"
    and i: "i < length (jobs s)" "job_pid (jobs s ! i) = p" and p: "0 < p"
  shows "jobs t ! i = clearjob"
proof -
  obtain r u where u: "sigchld_handler ws s = (r, u)" by fastforce
  have r: "r = Ret ()" and t: "t = snd (deletejob p u)"
    using ret u by (cases r; simp add: sigchld_handler_append c_simps)+
  have "jobs_wf (jobs u)" using sigchld_handler_wf [OF wf, of ws] u by simp
  then have none: "job_of t p = None" by (simp add: t job_of_deletejob)
  have "snd (sigchld_handler (ws @ [(p, WExited c)]) s) = t" using ret by simp
  then have slot: "job_pid (jobs t ! i) = p \<or> job_pid (jobs t ! i) = 0" and wf': "jobs_wf (jobs t)"
    and len: "length (jobs t) = length (jobs s)"
    using sigchld_handler_slot [of "ws @ [(p, WExited c)]" s i] i(2)
      sigchld_handler_wf [OF wf, of "ws @ [(p, WExited c)]"] sigchld_handler_shrinks [of s "ws @ [(p, WExited c)]"]
    by (simp_all add: fg_shrinks_def)
  have m: "jobs t ! i \<in> set (jobs t)" using i(1) len by simp
  with none p have "job_pid (jobs t ! i) \<noteq> p" by (auto simp: job_of_None_iff)
  with slot jobs_wf_slot [OF wf' m] show ?thesis by auto
qed

text \<open>A foreground job without a process hides every one behind it.\<close>

lemma fgpid_first:
  assumes "i < length js" and "is_fg (js ! i)" and "\<And>k. k < i \<Longrightarrow> \<not> is_fg (js ! k)"
  shows "fgpid js = job_pid (js ! i)"
proof -
  have "first_index is_fg js = Some i" using assms by (auto simp: first_index_Some)
  then show ?thesis by (simp add: fgpid_def)
qed

lemma ghost_hides:
  assumes "fg_free js" and "i < length js" and "js' = js[i := clearjob\<lparr>job_state := FG\<rparr>]"
  shows "fgpid js' = 0" and "i < k \<Longrightarrow> fgpid (js'[k := y]) = 0"
proof -
  have free: "\<not> is_fg (js ! k)" if "k < i" for k using assms(1,2) that by (auto simp: fg_free_def list_all_length)
  have "fgpid js' = job_pid (js' ! i)"
    by (rule fgpid_first) (use assms(2,3) free in auto)
  then show "fgpid js' = 0" using assms(2,3) by simp
  show "fgpid (js'[k := y]) = 0" if "i < k"
  proof -
    have "fgpid (js'[k := y]) = job_pid (js'[k := y] ! i)"
      by (rule fgpid_first) (use assms(2,3) free that in auto)
    then show ?thesis using assms(2,3) that by simp
  qed
qed

section \<open>Signals typed at the keyboard\<close>

lemma fg_filter_one:
  assumes "at_most_one is_fg js"
  shows "filter is_fg js = (case first_index is_fg js of None \<Rightarrow> [] | Some i \<Rightarrow> [js ! i])"
proof (cases "first_index is_fg js")
  case None
  then have "\<forall>j \<in> set js. \<not> is_fg j" by (simp add: first_index_None)
  with None show ?thesis by (simp add: filter_empty_conv)
next
  case (Some i)
  then have "js ! i \<in> set (filter is_fg js)" by (auto dest: first_index_SomeD)
  moreover have "length (filter is_fg js) \<le> 1" using assms by (simp add: at_most_one_def)
  ultimately have "filter is_fg js = [js ! i]"
    by (cases "filter is_fg js") auto
  with Some show ?thesis by simp
qed

lemma fg_pid_pos:
  assumes "jobs_wf js" and "first_index is_fg js = Some i"
  shows "0 < job_pid (js ! i)"
proof -
  have i: "js ! i \<in> set js" "is_fg (js ! i)"
    using first_index_SomeD [OF assms(2)] by auto
  then have "js ! i \<noteq> clearjob" by auto
  with jobs_wf_slot [OF assms(1) i(1)] show ?thesis by auto
qed

lemma handlers_forward:
  assumes "jobs_wf js" and "at_most_one is_fg js"
  shows "sigint_handler js = map (\<lambda>j. (- job_pid j, SIGINT)) (filter is_fg js)"
    and "sigtstp_handler js = map (\<lambda>j. (- job_pid j, SIGTSTP)) (filter is_fg js)"
  using fg_pid_pos [OF assms(1)]
  by (auto simp: sigint_handler_def sigtstp_handler_def fgpid_def fg_filter_one [OF assms(2)]
      split: option.split)

section \<open>The arguments of bg and fg\<close>

lemma isnum_show_int: "0 \<le> n \<Longrightarrow> isnum (show_int n)"
  by (auto simp: isnum_def show_int_def list_all_iff intro: show_nat_digits)

lemma show_int_start: "0 \<le> n \<Longrightarrow> show_int n \<noteq> [] \<and> hd (show_int n) \<noteq> CHR ''%''"
proof -
  assume n: "0 \<le> n"
  then have ne: "show_int n \<noteq> []" by (simp add: show_int_def)
  then have "hd (show_int n) \<in> set (show_nat (nat n))" using n by (simp add: show_int_def)
  then have "isdigit (hd (show_int n))" by (rule show_nat_digits)
  then have "hd (show_int n) \<noteq> CHR ''%''" by (auto simp: isdigit_def)
  with ne show ?thesis by simp
qed

section \<open>Schedules of one job\<close>

text \<open>Running a schedule step by step reaches its last state.\<close>

fun allowed :: "(label \<Rightarrow> shell \<Rightarrow> bool) \<Rightarrow> label list \<Rightarrow> shell \<Rightarrow> bool" where
  "allowed ok [] s = True"
| "allowed ok (l # ls) s =
     (ok l s \<and> (case tsh_next l s of None \<Rightarrow> False | Some t \<Rightarrow> allowed ok ls t))"

lemma reach_run:
  "tsh_reach ok s \<Longrightarrow> allowed ok ls s \<Longrightarrow> tsh_run ls s = Some t \<Longrightarrow> tsh_reach ok t"
  by (induction ls arbitrary: s) (auto split: option.splits intro: reach_step)

lemma allowed_calm: "allowed calm ls s \<Longrightarrow> allowed steady ls s"
  by (induction ls arbitrary: s) (auto simp: calm_def split: option.splits)

text \<open>The schedule of one foreground job up to a status change of its process.\<close>

definition fg_then :: "wstatus \<Rightarrow> label list" where
  "fg_then st = [LRead (''/bin/sleep 5'' @ [LF]), LFork 7, LAdd, LChild 7 st]"

definition fg_state :: "label list \<Rightarrow> shell" where
  "fg_state ls = the (tsh_run ls (shell_init ''p''))"

lemma fg_state_calm:
  "allowed calm ls (shell_init ''p'') \<Longrightarrow> tsh_run ls (shell_init ''p'') \<noteq> None \<Longrightarrow>
     tsh_reach calm (fg_state ls)"
  by (auto simp: fg_state_def intro: reach_run reach_init)

lemma fg_state_steady:
  "allowed calm ls (shell_init ''p'') \<Longrightarrow> tsh_run ls (shell_init ''p'') \<noteq> None \<Longrightarrow>
     tsh_reach steady (fg_state ls)"
  using allowed_calm [of ls "shell_init ''p''"]
  by (auto simp: fg_state_def intro: reach_run reach_init)

section \<open>Properties\<close>

text \<open>C1. At most one job is in the foreground, it is the one \<open>waitfg\<close> waits for, and none is
  when the shell prompts, in every state that a steady schedule reaches: one without \<open>SIGCHLD\<close>
  in \<open>do_bgfg\<close> and in which \<open>fork\<close> returns no process ID that the list still holds.\<close>

theorem tsh_one_foreground:
  assumes "tsh_reach steady s"
  shows "jobs_wf (jobs (sh s)) \<and> at_most_one is_fg (jobs (sh s)) \<and>
    (pc s = PPrompt \<longrightarrow> filter is_fg (jobs (sh s)) = []) \<and>
    (\<forall>p. pc s = PWait p \<longrightarrow> (\<forall>j \<in> set (filter is_fg (jobs (sh s))). job_pid j = p))"
proof -
  have "shell_inv s" using tsh_reach_inv [OF assms] by blast
  then show ?thesis
    by (auto simp: shell_inv_def fg_free_def list_all_iff filter_empty_conv)
qed

theorem tsh_one_foreground_witness:
  "at_most_one is_fg (jobs (sh (fg_state (fg_then (WExited 0)))))"
proof -
  have "tsh_reach steady (fg_state (fg_then (WExited 0)))"
    by (rule fg_state_steady) code_simp+
  then show ?thesis by (rule tsh_one_foreground [THEN conjunct2, THEN conjunct1])
qed

text \<open>C2. Whenever \<open>SIGCHLD\<close> is not blocked, the handler finds the job of every process that
  \<open>waitpid\<close> reports, so it never dereferences a null job: \<open>eval\<close> blocks the signal until
  \<open>addjob\<close> has run. This holds for calm schedules: steady ones (as above) in which the list has
  room for every job.\<close>

theorem tsh_handler_safe:
  assumes "tsh_reach calm s" and "running (pc s)" and "\<not> chld_blocked s"
  shows "fst (sigchld_handler (waitable s) (sh s)) = Ret ()"
  using calm_reach [OF assms(1)] assms(2,3) do_sigchld_cover(1) by (simp add: cover_inv_def)

theorem tsh_handler_safe_witness:
  "fst (sigchld_handler (waitable (fg_state (fg_then (WStopped SIGTSTP))))
     (sh (fg_state (fg_then (WStopped SIGTSTP))))) = Ret ()"
proof (rule tsh_handler_safe)
  show "tsh_reach calm (fg_state (fg_then (WStopped SIGTSTP)))"
    by (rule fg_state_calm) code_simp+
qed code_simp+

text \<open>C3. In calm schedules: once the process \<open>waitfg\<close> waits for has exited, was interrupted by SIGINT or was
  stopped by SIGTSTP, the delivery of \<open>SIGCHLD\<close> lets \<open>waitfg\<close> return, and the shell prompts
  again.\<close>

theorem tsh_waitfg_returns:
  assumes "tsh_reach calm s" and "pc s = PWait p"
    and "(p, st) \<in> set (waitable s)" and "handled st"
  shows "\<exists>t. tsh_run [LSigchld, LWaitOver] s = Some t \<and> pc t = PPrompt"
  using assms by (rule waitfg_returns)

theorem tsh_waitfg_returns_witness:
  "\<exists>t. tsh_run [LSigchld, LWaitOver] (fg_state (fg_then (WSignaled SIGINT))) = Some t \<and> pc t = PPrompt"
proof (rule tsh_waitfg_returns [where p = 7 and st = "WSignaled SIGINT"])
  show "tsh_reach calm (fg_state (fg_then (WSignaled SIGINT)))"
    by (rule fg_state_calm) code_simp+
qed code_simp+



text \<open>C5. The race in \<open>do_bgfg\<close>, from any state of a calm schedule: when the process that \<open>fg\<close>
  resumes exits between \<open>kill\<close> and the assignment to its state, the cleared slot becomes a
  foreground job without a process; a SIGINT then reaches nobody, and a later \<open>fg\<close> of any job
  behind it in the list returns to the prompt at once, while that job runs in the foreground.\<close>

theorem tsh_bgfg_race:
  assumes "tsh_reach calm s" and "pc s = PBgfg ''fg'' i pid" and "pid \<in> set (alive s)"
  shows "\<exists>t. tsh_run [LChild pid (WExited c), LSigchld, LBgfg, LWaitOver] s = Some t \<and> pc t = PPrompt \<and>
    jobs (sh t) ! i = clearjob\<lparr>job_state := FG\<rparr> \<and> sigint_handler (jobs (sh t)) = [] \<and>
    (\<forall>k q v. i < k \<and> k < length (jobs (sh v)) \<and> 0 < q \<and> jobs (sh v) = jobs (sh t) \<and> pc v = PBgfg ''fg'' k q \<longrightarrow>
       (\<exists>w. tsh_run [LBgfg, LWaitOver] v = Some w \<and> pc w = PPrompt \<and> is_fg (jobs (sh w) ! k) \<and>
         sigint_handler (jobs (sh w)) = []))"
proof -
  let ?u = "do_child pid (WExited c) s"
  have u: "tsh_next (LChild pid (WExited c)) s = Some ?u" using assms(2,3) by simp
  have "tsh_reach calm ?u"
    by (rule reach_step [OF assms(1) _ u]) (simp add: calm_def steady_def no_race_def no_reuse_def no_overflow_def)
  from calm_reach [OF this] have inv: "shell_inv ?u" and cov: "cover_ok ?u"
    using assms(2) by (simp_all add: cover_inv_def do_child_def)
  have base: "jobs_wf (jobs (sh s)) \<and> fg_free (jobs (sh s)) \<and> \<not> chld_blocked s \<and> i < length (jobs (sh s)) \<and>
      job_pid (jobs (sh s) ! i) = pid \<and> 0 < pid"
    using inv assms(2) by (simp add: shell_inv_def do_child_def)
  then have "fst (sigchld_handler (waitable ?u) (sh ?u)) = Ret ()"
    by (intro do_sigchld_cover(1) [OF inv cov]) (simp add: do_child_def)
  then obtain h where h: "sigchld_handler (waitable s @ [(pid, WExited c)]) (sh s) = (Ret (), h)"
    by (cases "sigchld_handler (waitable ?u) (sh ?u)") (simp add: do_child_def)
  have clear: "jobs h ! i = clearjob" using base by (intro sigchld_handler_clears [OF _ h]) auto
  have sh: "fg_shrinks (jobs (sh s)) (jobs h)"
    using sigchld_handler_shrinks [of "sh s" "waitable s @ [(pid, WExited c)]"] h by simp
  have free: "fg_free (jobs h)" and len: "i < length (jobs h)"
    using fg_shrinks_free [OF sh] sh base by (simp_all add: fg_shrinks_def)
  let ?js = "(jobs h)[i := clearjob\<lparr>job_state := FG\<rparr>]"
  note ghost = ghost_hides [OF free len refl]
  let ?t = "?u\<lparr>sh := h\<lparr>jobs := ?js\<rparr>, waitable := [], chld_pending := False, pc := PPrompt\<rparr>"
  have "tsh_run [LChild pid (WExited c), LSigchld, LBgfg, LWaitOver] s = Some ?t"
    using u h base assms(2) ghost(1) clear
    by (simp add: do_child_def do_sigchld_def do_resume_def do_bgfg_resume_def waitfg_done_def)
  moreover have "jobs (sh ?t) ! i = clearjob\<lparr>job_state := FG\<rparr>" "sigint_handler (jobs (sh ?t)) = []" "pc ?t = PPrompt"
    using len ghost(1) by (simp_all add: sigint_handler_def)
  moreover have "\<exists>w. tsh_run [LBgfg, LWaitOver] v = Some w \<and> pc w = PPrompt \<and> is_fg (jobs (sh w) ! k) \<and>
      sigint_handler (jobs (sh w)) = []"
    if "i < k \<and> k < length (jobs (sh v)) \<and> 0 < q \<and> jobs (sh v) = jobs (sh ?t) \<and> pc v = PBgfg ''fg'' k q" for k q v
  proof -
    have "k < length (jobs h)" using that by auto
    with that ghost(2) [of k] show ?thesis
      by (simp add: do_resume_def do_bgfg_resume_def waitfg_done_def sigint_handler_def)
  qed
  ultimately show ?thesis by blast
qed

text \<open>Two stopped jobs: the first is resumed and exits, the second is resumed after it.\<close>

definition two_stopped :: "label list" where
  "two_stopped = concat (map (\<lambda>p. [LRead (''a'' @ [LF]), LFork p, LAdd, LChild p (WStopped SIGTSTP), LSigchld, LWaitOver]) [7, 8])"

theorem tsh_bgfg_race_witness:
  "let s = fg_state (two_stopped @ [LRead (''fg %1'' @ [LF]), LBgPid, LBgKill])
   in \<exists>t. tsh_run [LChild 7 (WExited 0), LSigchld, LBgfg, LWaitOver] s = Some t \<and> pc t = PPrompt \<and>
     sigint_handler (jobs (sh t)) = []"
proof -
  let ?s = "fg_state (two_stopped @ [LRead (''fg %1'' @ [LF]), LBgPid, LBgKill])"
  have "tsh_reach calm ?s" by (rule fg_state_calm) code_simp+
  moreover have "pc ?s = PBgfg ''fg'' 0 7" "7 \<in> set (alive ?s)" by code_simp+
  ultimately show ?thesis using tsh_bgfg_race [of ?s 0 7 0] unfolding Let_def by blast
qed

text \<open>Both jobs of the example, one after the other.\<close>

lemma tsh_bgfg_race_example:
  "let s = the (tsh_run (two_stopped @
             [LRead (''fg %1'' @ [LF]), LBgPid, LBgKill, LChild 7 (WExited 0), LSigchld, LBgfg, LWaitOver,
              LRead (''fg %2'' @ [LF]), LBgPid, LBgKill, LBgfg, LWaitOver]) (shell_init ''p''))
   in pc s = PPrompt \<and> alive s = [8] \<and>
      map job_pid (filter is_fg (jobs (sh s))) = [0, 8] \<and> sigint_handler (jobs (sh s)) = []"
  by code_simp

text \<open>A background job killed by another signal stays in the list. When its process ID is given out
  again the list has two jobs with it: why schedules are steady.\<close>

lemma tsh_stale_pid:
  "map job_pid (filter live (jobs (sh (the (tsh_run
     [LRead (''a &'' @ [LF]), LFork 7, LAdd, LBgPrint, LChild 7 (WSignaled 9), LSigchld,
      LRead (''a &'' @ [LF]), LFork 7, LAdd] (shell_init ''p'')))))) = [7, 7]"
  by code_simp

text \<open>SIGINT and SIGTSTP typed at the keyboard are sent to the process group of the
  foreground job, and to nobody when there is none.\<close>

theorem tsh_signals_forwarded:
  assumes "tsh_reach steady s" and "running (pc s)"
  shows "map_option kills (tsh_next LSigint s) =
      Some (kills s @ map (\<lambda>j. (- job_pid j, SIGINT)) (filter is_fg (jobs (sh s)))) \<and>
    map_option kills (tsh_next LSigtstp s) =
      Some (kills s @ map (\<lambda>j. (- job_pid j, SIGTSTP)) (filter is_fg (jobs (sh s))))"
proof -
  have "shell_inv s" using tsh_reach_inv [OF assms(1)] by blast
  then have "jobs_wf (jobs (sh s))" "at_most_one is_fg (jobs (sh s))"
    by (simp_all add: shell_inv_def)
  with assms(2) show ?thesis
    by (simp_all add: handlers_forward)
qed

theorem tsh_signals_forwarded_witness:
  "map_option kills (tsh_next LSigint (fg_state (fg_then (WExited 0)))) = Some [(- 7, SIGINT)]"
proof -
  have "tsh_reach steady (fg_state (fg_then (WExited 0)))"
    by (rule fg_state_steady) code_simp+
  moreover have "running (pc (fg_state (fg_then (WExited 0))))" by code_simp
  ultimately have "map_option kills (tsh_next LSigint (fg_state (fg_then (WExited 0)))) =
      Some (kills (fg_state (fg_then (WExited 0))) @
        map (\<lambda>j. (- job_pid j, SIGINT)) (filter is_fg (jobs (sh (fg_state (fg_then (WExited 0)))))))"
    by (rule tsh_signals_forwarded [THEN conjunct1])
  moreover have "kills (fg_state (fg_then (WExited 0))) @
      map (\<lambda>j. (- job_pid j, SIGINT)) (filter is_fg (jobs (sh (fg_state (fg_then (WExited 0))))))
      = [(- 7, SIGINT)]" by code_simp
  ultimately show ?thesis by simp
qed

text \<open>C6. \<open>parseline\<close> recovers the arguments of a command line: words, and quoted arguments
  that may hold spaces; a last argument that starts with an ampersand is dropped and asks
  for the background.\<close>

theorem tsh_parseline_args:
  assumes "list_all arg_ok as" and "as \<noteq> []" and "length as < MAXARGS"
    and "length (cmd_line n k as) < MAXLINE"
  shows "parseline (cmd_line n k as) =
    (let vals = map arg_val as in
     if last vals \<noteq> [] \<and> hd (last vals) = CHR ''&'' then Ret (butlast vals, True)
     else Ret (vals, False))"
  using assms by (rule parseline_args)

theorem tsh_parseline_args_witness:
  "parseline (cmd_line 1 0 [Plain ''echo'', Quoted ''a b'', Plain ''&'']) = Ret ([''echo'', ''a b''], True)"
proof -
  let ?as = "[Plain ''echo'', Quoted ''a b'', Plain ''&'']"
  have "list_all arg_ok ?as" "?as \<noteq> []" "length ?as < MAXARGS" "length (cmd_line 1 0 ?as) < MAXLINE"
    by code_simp+
  from tsh_parseline_args [OF this] show ?thesis by simp
qed

text \<open>\<open>argv\<close> has room for 128 pointers, the null pointer included: a line with 128
  arguments or more is written past its end.\<close>

theorem tsh_parseline_overflow:
  assumes "list_all arg_ok as" and "MAXARGS \<le> length as"
  shows "parseline (cmd_line n k as) = Fault Out_Of_Bounds"
  using assms by (rule parseline_overflow)

theorem tsh_parseline_overflow_witness:
  "parseline (cmd_line 0 0 (replicate 128 (Plain ''x''))) = Fault Out_Of_Bounds"
  by (rule tsh_parseline_overflow) code_simp+

text \<open>A blank command line crashes the shell: \<open>builtin_cmd\<close> compares the null pointer in
  \<open>argv[0]\<close>.\<close>

theorem tsh_blank_line_crash:
  assumes "pc s = PPrompt" and "n < 1023"
  shows "map_option pc (tsh_next (LRead (replicate n SPC @ [LF])) s) = Some (PCrash Null_Deref)"
  using assms
  by (simp add: do_read_def eval_front_def parseline_blank builtin_cmd_def c_simps)

theorem tsh_blank_line_crash_witness:
  "map_option pc (tsh_next (LRead (replicate 0 SPC @ [LF])) (shell_init ''p'')) = Some (PCrash Null_Deref)"
  by (rule tsh_blank_line_crash) (code_simp, simp)

text \<open>A background job for which the list has no room crashes the shell: \<open>addjob\<close> refuses
  it, and \<open>eval\<close> dereferences the null pointer \<open>getjobpid\<close> returns.\<close>

theorem tsh_full_list_crash:
  assumes "tsh_reach steady s" and "pc s = PAdd pid True cmdline" and "\<not> has_room (sh s)"
  shows "map_option pc (tsh_run [LAdd, LBgPrint] s) = Some (PCrash Null_Deref)"
proof -
  have "shell_inv s" using tsh_reach_inv [OF assms(1)] by blast
  then have none: "job_of (sh s) pid = None" and "pid \<in> set (used s)" "list_all (\<lambda>p. 0 < p) (used s)"
    using assms(2) by (simp_all add: shell_inv_def ids_ok_def)
  then have "1 \<le> pid" by (auto simp: list_all_iff)
  then have "addjob pid BG cmdline (sh s) = (Ret 0, tsh_print msg_too_many (sh s))"
    using assms(3) by (rule addjob_full)
  moreover have "getjobpid (jobs (sh s)) pid = None" using none by (simp add: job_of_def)
  ultimately show ?thesis using assms(2) by (simp add: do_add_def do_bgprint_def)
qed

definition bg_jobs :: "int list \<Rightarrow> label list" where
  "bg_jobs ps = concat (map (\<lambda>p. [LRead (''a &'' @ [LF]), LFork p, LAdd, LBgPrint]) ps)"

definition full_list :: "label list" where
  "full_list = bg_jobs [1, 2, 3, 4, 5, 6, 7, 8, 9, 10, 11, 12, 13, 14, 15, 16] @
     [LRead (''a &'' @ [LF]), LFork 17]"

theorem tsh_full_list_crash_witness:
  "map_option pc (tsh_run [LAdd, LBgPrint] (fg_state full_list)) = Some (PCrash Null_Deref)"
proof (rule tsh_full_list_crash)
  show "tsh_reach steady (fg_state full_list)" by (rule fg_state_steady) code_simp+
  show "pc (fg_state full_list) = PAdd 17 True (''a &'' @ [LF])" by code_simp
  show "\<not> has_room (sh (fg_state full_list))" by code_simp
qed

text \<open>A background job that exits before the parent prints its line crashes the shell: the
  handler has deleted the job.\<close>

theorem tsh_short_job_crash:
  assumes "tsh_reach calm s" and "pc s = PAdd pid True cmdline" and "has_room (sh s)"
    and "length cmdline < MAXLINE" and "waitable s = [(pid, WExited c)]"
  shows "map_option pc (tsh_run [LAdd, LSigchld, LBgPrint] s) = Some (PCrash Null_Deref)"
proof -
  have inv: "shell_inv s" using calm_reach [OF assms(1)] by blast
  then have wf: "jobs_wf (jobs (sh s))" and none: "job_of (sh s) pid = None"
    and pid: "pid \<in> set (used s)" "list_all (\<lambda>p. 0 < p) (used s)"
    using assms(2) by (simp_all add: shell_inv_def ids_ok_def)
  then have pos: "1 \<le> pid" by (auto simp: list_all_iff)
  obtain r t where rt: "addjob pid BG cmdline (sh s) = (r, t)" by fastforce
  have "\<exists>n. r = Ret n" using rt pos assms(3,4) free_slot [OF assms(3)]
    by (auto simp: addjob_def Let_def split: if_splits option.splits)
  then obtain n where r: "r = Ret n" by blast
  have wf': "jobs_wf (jobs t)" using addjob_jobs_wf [OF wf none, of BG cmdline] rt by simp
  have del: "job_of (snd (deletejob pid t)) pid = None" using job_of_deletejob [OF wf', of pid] by simp
  moreover have "chld_pending s" using pending_kept [OF assms(1)] assms(2,5) by simp
  ultimately show ?thesis
    using rt r assms(2,5)
    by (simp add: do_add_def do_sigchld_def do_bgprint_def c_simps job_of_def)
qed

theorem tsh_short_job_crash_witness:
  "map_option pc (tsh_run [LAdd, LSigchld, LBgPrint]
     (fg_state [LRead (''a &'' @ [LF]), LFork 7, LChild 7 (WExited 0)])) = Some (PCrash Null_Deref)"
proof (rule tsh_short_job_crash)
  show "tsh_reach calm (fg_state [LRead (''a &'' @ [LF]), LFork 7, LChild 7 (WExited 0)])"
    by (rule fg_state_calm) code_simp+
  show "pc (fg_state [LRead (''a &'' @ [LF]), LFork 7, LChild 7 (WExited 0)]) =
      PAdd 7 True (''a &'' @ [LF])" by code_simp
  show "waitable (fg_state [LRead (''a &'' @ [LF]), LFork 7, LChild 7 (WExited 0)]) =
      [(7, WExited 0)]" by code_simp
qed code_simp+

text \<open>C7. The job list is a map from process IDs to jobs: \<open>addjob\<close> adds one entry, \<open>deletejob\<close>
  removes one, and deleting a job just added restores the map.\<close>

theorem tsh_job_map:
  assumes "jobs_wf (jobs s)" and "job_of s pid = None" and "1 \<le> pid" and "has_room s"
    and "length cmdline < MAXLINE"
  shows "job_of (snd (addjob pid st cmdline s)) = (job_of s)(pid \<mapsto> new_job s pid st cmdline) \<and>
    job_of (snd (deletejob q s)) = (job_of s)(q := None) \<and>
    job_of (snd (deletejob pid (snd (addjob pid st cmdline s)))) = job_of s"
  using assms job_of_addjob [OF assms] job_of_deletejob [OF assms(1)]
    jt.del_add [of s pid "(st, cmdline)"] by simp

theorem tsh_job_map_witness:
  "job_of (snd (deletejob 5 (snd (addjob 5 FG ''ls'' tsh_init)))) = job_of tsh_init"
proof -
  have "jobs_wf (jobs tsh_init)" by (rule jobs_wf_init)
  moreover have "job_of tsh_init 5 = None" "(1::int) \<le> 5" "has_room tsh_init" "length ''ls'' < MAXLINE"
    by code_simp+
  ultimately show ?thesis using tsh_job_map [of tsh_init 5 "''ls''" FG 0] by simp
qed

text \<open>Job IDs stay unique while the counter has not wrapped: deleting a job keeps them
  unique always, adding one as long as the next ID is below \<open>MAXJOBS\<close>.\<close>

theorem tsh_jids_unique:
  assumes "jobs_wf (jobs s)" and "jids_ok s"
  shows "jids_ok (snd (deletejob pid s)) \<and>
    (nextjid s < int MAXJOBS \<longrightarrow> jids_ok (snd (addjob pid st cmdline s)))"
  using deletejob_jids_ok [OF assms] addjob_jids_ok [OF assms(2)] by simp

theorem tsh_jids_unique_witness:
  "jids_ok (snd (addjob 5 BG ''ls'' tsh_init))"
  using tsh_jids_unique [OF jobs_wf_init jids_ok_init, of 5 BG "''ls''"]
  by (simp add: tsh_init_def initjobs_def)

text \<open>After the counter wraps two live jobs can have the same job ID: fill the list, delete
  all jobs but the first and the last, and add two.\<close>

theorem tsh_jids_duplicate:
  "let add = \<lambda>p s. snd (addjob p BG ''a'' s);
       full = fold add [1, 2, 3, 4, 5, 6, 7, 8, 9, 10, 11, 12, 13, 14, 15, 16] tsh_init;
       two = fold (\<lambda>p s. snd (deletejob p s)) [2, 3, 4, 5, 6, 7, 8, 9, 10, 11, 12, 13, 14, 15] full
   in map (\<lambda>j. (job_pid j, job_jid j)) (filter live (jobs (add 18 (add 17 two)))) =
      [(1, 1), (17, 17), (18, 1), (16, 16)]"
  by code_simp

text \<open>\<open>bg\<close> and \<open>fg\<close> accept the decimal text of a job ID after a percent sign and of a
  process ID without it, find the job the list has under that number, and otherwise print
  the message and change nothing else.\<close>

theorem tsh_bgfg_argument:
  assumes "0 \<le> n" and "n < 2 ^ 31"
  shows "do_bgfg_find [cmd, CHR ''%'' # show_int n] s =
      (case getjobjid (jobs s) n of
         None \<Rightarrow> (Ret None, tsh_print ((CHR ''%'' # show_int n) @ '': No such job'' @ [LF]) s)
       | Some i \<Rightarrow> (Ret (Some i), s)) \<and>
    do_bgfg_find [cmd, show_int n] s =
      (case getjobpid (jobs s) n of
         None \<Rightarrow> (Ret None, tsh_print (''('' @ show_int n @ ''): No such process'' @ [LF]) s)
       | Some i \<Rightarrow> (Ret (Some i), s))"
  using assms isnum_show_int [of n] show_int_start [of n] atoi_show_int [of n]
  by (simp_all add: do_bgfg_find_def Let_def)

theorem tsh_bgfg_argument_witness:
  "do_bgfg_find [''fg'', CHR ''%'' # show_int 3] tsh_init =
     (Ret None, tsh_print ((CHR ''%'' # show_int 3) @ '': No such job'' @ [LF]) tsh_init)"
proof -
  have "getjobjid (jobs tsh_init) 3 = None" by code_simp
  with tsh_bgfg_argument [of 3 "''fg''" tsh_init] show ?thesis by simp
qed

end
