(* ===== verification/Bounded_Buffer.thy ===== *)
theory Bounded_Buffer
  imports Prelude "HOL-Library.Signed_Division"
begin

text \<open>
  The bounded buffers \<open>hw6/sbuf.c\<close>, \<open>first-proxylab-handout/sbuf.c\<close> and
  \<open>first-proxylab-handout/logbuf.c\<close>: a circular array with one semaphore as lock and two as
  counters. An operation is a sequence of atomic steps, so that the operations of several
  threads interleave; the buffer may run any number of them.
\<close>

section \<open>The buffer\<close>

abbreviation INT_MAX :: int where "INT_MAX \<equiv> 2147483647"

text \<open>The sum of two values of type \<open>int\<close>.\<close>

definition int_add :: "int \<Rightarrow> int \<Rightarrow> int outcome" where
  "int_add a b = (if - INT_MAX - 1 \<le> a + b \<and> a + b \<le> INT_MAX then Ret (a + b) else Fault Int_Overflow)"

text \<open>\<open>sbuf_t\<close> and \<open>logbuf_t\<close>; \<open>None\<close> for the array is the null pointer of a failed \<open>calloc\<close>.\<close>

record 'a bbuf =
  bb_buf :: "'a list option"
  bb_n :: int
  bb_front :: int
  bb_rear :: int
  bb_mutex :: nat
  bb_slots :: nat
  bb_items :: nat

text \<open>\<open>sem_wait\<close> blocks (\<open>None\<close>) on zero.\<close>

definition sem_wait :: "nat \<Rightarrow> nat option" where
  "sem_wait v = (if v = 0 then None else Some (v - 1))"

definition sem_post :: "nat \<Rightarrow> nat" where
  "sem_post v = v + 1"

text \<open>\<open>init\<close> with the array \<open>calloc\<close> returned; \<open>zero\<close> is the item whose bytes are all zero.\<close>

definition bb_init :: "'a \<Rightarrow> bool \<Rightarrow> int \<Rightarrow> 'a bbuf" where
  "bb_init zero alloc_ok n =
     \<lparr>bb_buf = (if alloc_ok then Some (replicate (nat n) zero) else None), bb_n = n,
      bb_front = 0, bb_rear = 0, bb_mutex = 1, bb_slots = nat n, bb_items = 0\<rparr>"

text \<open>\<open>++i\<close> on an \<open>int\<close>, and the element \<open>i % n\<close> of the array.\<close>

definition bb_incr :: "int \<Rightarrow> int outcome" where
  "bb_incr i = (if i = INT_MAX then Fault Int_Overflow else Ret (i + 1))"

definition bb_slot :: "'a bbuf \<Rightarrow> int \<Rightarrow> nat outcome" where
  "bb_slot b i =
     (if bb_n b = 0 then Fault Div_By_Zero
      else case bb_buf b of
        None \<Rightarrow> Fault Null_Deref
      | Some xs \<Rightarrow>
          let k = i smod bb_n b
          in if 0 \<le> k \<and> nat k < length xs then Ret (nat k) else Fault Out_Of_Bounds)"

section \<open>The steps of insert and remove\<close>

datatype 'a bb_pc =
    Ins0 'a          \<comment> \<open>before \<open>P(slots)\<close>\<close>
  | Ins1 'a          \<comment> \<open>before \<open>P(mutex)\<close>\<close>
  | Ins2 'a          \<comment> \<open>before \<open>++rear\<close>\<close>
  | Ins3 'a int      \<comment> \<open>before the store, with the new value of \<open>rear\<close>\<close>
  | Ins4             \<comment> \<open>before \<open>V(mutex)\<close>\<close>
  | Ins5             \<comment> \<open>before \<open>V(items)\<close>\<close>
  | Rem0             \<comment> \<open>before \<open>P(items)\<close>\<close>
  | Rem1             \<comment> \<open>before \<open>P(mutex)\<close>\<close>
  | Rem2             \<comment> \<open>before \<open>++front\<close>\<close>
  | Rem3 int         \<comment> \<open>before the load, with the new value of \<open>front\<close>\<close>
  | Rem4 'a          \<comment> \<open>before \<open>V(mutex)\<close>\<close>
  | Rem5 'a          \<comment> \<open>before \<open>V(slots)\<close>\<close>
  | Returned "'a option"

definition bb_store :: "'a \<Rightarrow> nat \<Rightarrow> 'a bbuf \<Rightarrow> 'a bbuf" where
  "bb_store x k b = b\<lparr>bb_buf := map_option (\<lambda>xs. xs[k := x]) (bb_buf b)\<rparr>"

definition bb_load :: "nat \<Rightarrow> 'a bbuf \<Rightarrow> 'a" where
  "bb_load k b = the (bb_buf b) ! k"

text \<open>One step of a thread: \<open>None\<close> while it blocks in \<open>sem_wait\<close>.\<close>

fun bb_step :: "'a bb_pc \<Rightarrow> 'a bbuf \<Rightarrow> ('a bb_pc outcome \<times> 'a bbuf) option" where
  "bb_step (Ins0 x) b =
     map_option (\<lambda>v. (Ret (Ins1 x), b\<lparr>bb_slots := v\<rparr>)) (sem_wait (bb_slots b))"
| "bb_step (Ins1 x) b =
     map_option (\<lambda>v. (Ret (Ins2 x), b\<lparr>bb_mutex := v\<rparr>)) (sem_wait (bb_mutex b))"
| "bb_step (Ins2 x) b =
     Some (case bb_incr (bb_rear b) of
         Ret r \<Rightarrow> (Ret (Ins3 x r), b\<lparr>bb_rear := r\<rparr>)
       | Exited n \<Rightarrow> (Exited n, b) | Fault e \<Rightarrow> (Fault e, b))"
| "bb_step (Ins3 x r) b =
     Some (case bb_slot b r of
         Ret k \<Rightarrow> (Ret Ins4, bb_store x k b)
       | Exited n \<Rightarrow> (Exited n, b) | Fault e \<Rightarrow> (Fault e, b))"
| "bb_step Ins4 b = Some (Ret Ins5, b\<lparr>bb_mutex := sem_post (bb_mutex b)\<rparr>)"
| "bb_step Ins5 b = Some (Ret (Returned None), b\<lparr>bb_items := sem_post (bb_items b)\<rparr>)"
| "bb_step Rem0 b =
     map_option (\<lambda>v. (Ret Rem1, b\<lparr>bb_items := v\<rparr>)) (sem_wait (bb_items b))"
| "bb_step Rem1 b =
     map_option (\<lambda>v. (Ret Rem2, b\<lparr>bb_mutex := v\<rparr>)) (sem_wait (bb_mutex b))"
| "bb_step Rem2 b =
     Some (case bb_incr (bb_front b) of
         Ret f \<Rightarrow> (Ret (Rem3 f), b\<lparr>bb_front := f\<rparr>)
       | Exited n \<Rightarrow> (Exited n, b) | Fault e \<Rightarrow> (Fault e, b))"
| "bb_step (Rem3 f) b =
     Some (case bb_slot b f of
         Ret k \<Rightarrow> (Ret (Rem4 (bb_load k b)), b)
       | Exited n \<Rightarrow> (Exited n, b) | Fault e \<Rightarrow> (Fault e, b))"
| "bb_step (Rem4 x) b = Some (Ret (Rem5 x), b\<lparr>bb_mutex := sem_post (bb_mutex b)\<rparr>)"
| "bb_step (Rem5 x) b = Some (Ret (Returned (Some x)), b\<lparr>bb_slots := sem_post (bb_slots b)\<rparr>)"
| "bb_step (Returned r) b = None"

text \<open>One thread alone: the six steps of an operation, or \<open>None\<close> where it blocks.\<close>

fun bb_alone :: "nat \<Rightarrow> 'a bb_pc \<Rightarrow> 'a bbuf \<Rightarrow> ('a option outcome \<times> 'a bbuf) option" where
  "bb_alone 0 p b = (case p of Returned r \<Rightarrow> Some (Ret r, b) | _ \<Rightarrow> None)"
| "bb_alone (Suc k) p b =
     (case bb_step p b of
        None \<Rightarrow> None
      | Some (Ret q, b') \<Rightarrow> bb_alone k q b'
      | Some (Exited n, b') \<Rightarrow> Some (Exited n, b')
      | Some (Fault e, b') \<Rightarrow> Some (Fault e, b'))"

definition bb_insert :: "'a \<Rightarrow> 'a bbuf \<Rightarrow> ('a option outcome \<times> 'a bbuf) option" where
  "bb_insert x b = bb_alone 6 (Ins0 x) b"

definition bb_remove :: "'a bbuf \<Rightarrow> ('a option outcome \<times> 'a bbuf) option" where
  "bb_remove b = bb_alone 6 Rem0 b"

section \<open>The three copies\<close>

text \<open>
  \<open>hw6/sbuf.c\<close> allocates with \<open>Calloc\<close>, which exits with 0 when \<open>calloc\<close> fails; the other
  two use the result unchecked. A log item is a \<open>char*\<close>, \<open>None\<close> when null.
\<close>

definition sbuf_init :: "bool \<Rightarrow> int \<Rightarrow> int bbuf outcome" where
  "sbuf_init alloc_ok n = (if alloc_ok then Ret (bb_init 0 True n) else Exited 0)"

definition sbuf_deinit :: "int bbuf \<Rightarrow> int bbuf" where
  "sbuf_deinit b = b\<lparr>bb_buf := None\<rparr>"

definition sbuf_insert :: "int \<Rightarrow> int bbuf \<Rightarrow> (int option outcome \<times> int bbuf) option" where
  "sbuf_insert item sp = bb_insert item sp"

definition sbuf_remove :: "int bbuf \<Rightarrow> (int option outcome \<times> int bbuf) option" where
  "sbuf_remove sp = bb_remove sp"

definition psbuf_init :: "bool \<Rightarrow> int \<Rightarrow> int bbuf" where
  "psbuf_init alloc_ok n = bb_init 0 alloc_ok n"

definition psbuf_deinit :: "int bbuf \<Rightarrow> int bbuf" where
  "psbuf_deinit b = b\<lparr>bb_buf := None\<rparr>"

definition psbuf_insert :: "int \<Rightarrow> int bbuf \<Rightarrow> (int option outcome \<times> int bbuf) option" where
  "psbuf_insert item sp = bb_insert item sp"

definition psbuf_remove :: "int bbuf \<Rightarrow> (int option outcome \<times> int bbuf) option" where
  "psbuf_remove sp = bb_remove sp"

type_synonym logbuf_t = "string option bbuf"

definition logbuf_init :: "bool \<Rightarrow> int \<Rightarrow> logbuf_t" where
  "logbuf_init alloc_ok n = bb_init None alloc_ok n"

definition logbuf_deinit :: "logbuf_t \<Rightarrow> logbuf_t" where
  "logbuf_deinit b = b\<lparr>bb_buf := None\<rparr>"

definition logbuf_insert :: "string option \<Rightarrow> logbuf_t \<Rightarrow> (string option option outcome \<times> logbuf_t) option" where
  "logbuf_insert item sp = bb_insert item sp"

definition logbuf_remove :: "logbuf_t \<Rightarrow> (string option option outcome \<times> logbuf_t) option" where
  "logbuf_remove sp = bb_remove sp"

section \<open>Threads\<close>

text \<open>
  A system of threads that share one buffer, with two observations: the items in the order
  they were stored, and in the order they were taken.
\<close>

record 'a bb_sys =
  bs_buf :: "'a bbuf"
  bs_threads :: "'a bb_pc list"
  bs_in :: "'a list"
  bs_out :: "'a list"

definition bs_observe :: "'a bb_pc \<Rightarrow> 'a bb_pc \<Rightarrow> 'a bb_sys \<Rightarrow> 'a bb_sys" where
  "bs_observe p q s =
     (case (p, q) of
        (Ins3 x r, Ins4) \<Rightarrow> s\<lparr>bs_in := bs_in s @ [x]\<rparr>
      | (Rem3 f, Rem4 x) \<Rightarrow> s\<lparr>bs_out := bs_out s @ [x]\<rparr>
      | _ \<Rightarrow> s)"

text \<open>Thread \<open>i\<close> takes a step; a faulting step ends the process (\<open>Fault\<close>).\<close>

definition bs_step :: "nat \<Rightarrow> 'a bb_sys \<Rightarrow> 'a bb_sys outcome option" where
  "bs_step i s =
     (if i < length (bs_threads s) then
        (case bb_step (bs_threads s ! i) (bs_buf s) of
           None \<Rightarrow> None
         | Some (r, b) \<Rightarrow>
             Some (omap (\<lambda>q. bs_observe (bs_threads s ! i) q
                       (s\<lparr>bs_buf := b, bs_threads := (bs_threads s)[i := q]\<rparr>)) r))
      else None)"

definition bs_init :: "'a \<Rightarrow> int \<Rightarrow> 'a bb_pc list \<Rightarrow> 'a bb_sys" where
  "bs_init zero n ps = \<lparr>bs_buf = bb_init zero True n, bs_threads = ps, bs_in = [], bs_out = []\<rparr>"

fun bb_start :: "'a bb_pc \<Rightarrow> bool" where
  "bb_start (Ins0 x) = True"
| "bb_start Rem0 = True"
| "bb_start _ = False"

inductive bs_reach :: "'a \<Rightarrow> int \<Rightarrow> 'a bb_sys \<Rightarrow> bool" for zero n where
  bs_reach_init: "list_all bb_start ps \<Longrightarrow> bs_reach zero n (bs_init zero n ps)"
| bs_reach_step: "bs_reach zero n s \<Longrightarrow> bs_step i s = Some (Ret t) \<Longrightarrow> bs_reach zero n t"
| bs_reach_spawn: "bs_reach zero n s \<Longrightarrow> bb_start p \<Longrightarrow>
    bs_reach zero n (s\<lparr>bs_threads := bs_threads s @ [p]\<rparr>)"

end
