(* ===== verification/Buffer_Proofs.thy ===== *)
theory Buffer_Proofs
  imports Bounded_Buffer
begin

text \<open>
  Correctness of the bounded buffer for any number of threads and any interleaving: tokens
  are conserved, the lock excludes, items come out in the order they went in, nothing is
  overwritten, and the only fault is the overflow of the index after \<open>INT_MAX\<close> insertions.
\<close>

section \<open>Where a thread is\<close>

fun ins_tok :: "'a bb_pc \<Rightarrow> bool" where
  "ins_tok (Ins1 x) = True" | "ins_tok (Ins2 x) = True" | "ins_tok (Ins3 x r) = True"
| "ins_tok Ins4 = True" | "ins_tok Ins5 = True" | "ins_tok _ = False"

fun rem_tok :: "'a bb_pc \<Rightarrow> bool" where
  "rem_tok Rem1 = True" | "rem_tok Rem2 = True" | "rem_tok (Rem3 f) = True"
| "rem_tok (Rem4 x) = True" | "rem_tok (Rem5 x) = True" | "rem_tok _ = False"

text \<open>Inside the lock.\<close>

fun in_cs :: "'a bb_pc \<Rightarrow> bool" where
  "in_cs (Ins2 x) = True" | "in_cs (Ins3 x r) = True" | "in_cs Ins4 = True"
| "in_cs Rem2 = True" | "in_cs (Rem3 f) = True" | "in_cs (Rem4 x) = True" | "in_cs _ = False"

text \<open>Between the increment and the store, or the load.\<close>

fun ins_mid :: "'a bb_pc \<Rightarrow> bool" where
  "ins_mid (Ins3 x r) = True" | "ins_mid _ = False"

fun rem_mid :: "'a bb_pc \<Rightarrow> bool" where
  "rem_mid (Rem3 f) = True" | "rem_mid _ = False"

text \<open>Holding a claim on an item not yet loaded; an item stored and not yet announced.\<close>

fun claimed :: "'a bb_pc \<Rightarrow> bool" where
  "claimed Rem1 = True" | "claimed Rem2 = True" | "claimed (Rem3 f) = True" | "claimed _ = False"

fun stored :: "'a bb_pc \<Rightarrow> bool" where
  "stored Ins4 = True" | "stored Ins5 = True" | "stored _ = False"

lemma mid_cs: "ins_mid p \<Longrightarrow> in_cs p" "rem_mid p \<Longrightarrow> in_cs p"
  by (cases p; simp)+

text \<open>The index a thread carries is the shared one it has just written.\<close>

definition idx_ok :: "'a bbuf \<Rightarrow> 'a bb_pc \<Rightarrow> bool" where
  "idx_ok b p \<longleftrightarrow> (case p of Ins3 x r \<Rightarrow> r = bb_rear b | Rem3 f \<Rightarrow> f = bb_front b | _ \<Rightarrow> True)"

section \<open>The invariant\<close>

definition counts_ok :: "nat \<Rightarrow> 'a bbuf \<Rightarrow> 'a bb_pc list \<Rightarrow> nat \<Rightarrow> nat \<Rightarrow> bool" where
  "counts_ok n b ts ni no \<longleftrightarrow>
     bb_slots b + bb_items b + cnt ins_tok ts + cnt rem_tok ts = n \<and>
     bb_mutex b + cnt in_cs ts = 1 \<and>
     bb_rear b = int (ni + cnt ins_mid ts) \<and> bb_front b = int (no + cnt rem_mid ts) \<and>
     ni = no + bb_items b + cnt claimed ts + cnt stored ts"

definition ring_ok :: "nat \<Rightarrow> 'a bbuf \<Rightarrow> 'a list \<Rightarrow> 'a list \<Rightarrow> bool" where
  "ring_ok n b ins outs \<longleftrightarrow> bb_n b = int n \<and>
     (\<exists>xs. bb_buf b = Some xs \<and> length xs = n \<and>
        (\<forall>k. length outs \<le> k \<and> k < length ins \<longrightarrow> xs ! (Suc k mod n) = ins ! k)) \<and>
     outs = take (length outs) ins \<and> length outs \<le> length ins"

definition bs_inv :: "nat \<Rightarrow> 'a bb_sys \<Rightarrow> bool" where
  "bs_inv n s \<longleftrightarrow> counts_ok n (bs_buf s) (bs_threads s) (length (bs_in s)) (length (bs_out s)) \<and>
     ring_ok n (bs_buf s) (bs_in s) (bs_out s) \<and> list_all (idx_ok (bs_buf s)) (bs_threads s)"

lemma stored_tok: "cnt stored ts + cnt ins_mid ts \<le> cnt ins_tok ts"
proof (induction ts)
  case (Cons p ts)
  then show ?case by (cases p) (auto simp: cnt_def)
qed (simp add: cnt_def)

lemma claimed_tok: "cnt claimed ts \<le> cnt rem_tok ts"
proof (induction ts)
  case (Cons p ts)
  then show ?case by (cases p) (auto simp: cnt_def)
qed (simp add: cnt_def)

text \<open>No more items are in the buffer than it has slots, and one less during a store.\<close>

lemma counts_bound:
  assumes "counts_ok n b ts ni no"
  shows "ni - no + cnt ins_mid ts \<le> n"
proof -
  have "bb_items b + cnt claimed ts + (cnt stored ts + cnt ins_mid ts) \<le> n"
    using assms stored_tok [of ts] claimed_tok [of ts] by (simp add: counts_ok_def)
  moreover have "ni - no = bb_items b + cnt claimed ts + cnt stored ts"
    using assms by (simp add: counts_ok_def)
  ultimately show ?thesis by simp
qed

lemma cs_unique:
  assumes "counts_ok n b ts ni no" and "i < length ts" and "k < length ts"
    and "in_cs (ts ! i)" and "in_cs (ts ! k)"
  shows "i = k"
  using cnt_unique [of in_cs ts i k] assms by (simp add: counts_ok_def)

lemma mid_zero:
  assumes "counts_ok n b ts ni no" and "i < length ts" and "in_cs (ts ! i)"
  shows "cnt ins_mid ts = (if ins_mid (ts ! i) then 1 else 0)"
    and "cnt rem_mid ts = (if rem_mid (ts ! i) then 1 else 0)"
proof -
  have cs: "cnt in_cs ts \<le> 1" using assms(1) by (simp add: counts_ok_def)
  have one: "cnt P ts = (if P (ts ! i) then 1 else 0)" if "\<And>p. P p \<Longrightarrow> in_cs p" for P
  proof (cases "P (ts ! i)")
    case True
    have "cnt P ts \<le> cnt in_cs ts" by (rule cnt_mono) (rule that)
    with cs True cnt_pos [OF assms(2), of P] show ?thesis by simp
  next
    case False
    have "\<not> P x" if "x \<in> set ts" for x
    proof
      assume "P x"
      obtain k where k: "k < length ts" "ts ! k = x" using \<open>x \<in> set ts\<close> by (auto simp: in_set_conv_nth)
      with \<open>P x\<close> have "in_cs (ts ! k)" using \<open>\<And>p. P p \<Longrightarrow> in_cs p\<close> by simp
      then have "k = i" using cs_unique [OF assms(1) k(1) assms(2)] assms(3) by simp
      with k False \<open>P x\<close> show False by simp
    qed
    with False show ?thesis by (simp add: cnt_none)
  qed
  show "cnt ins_mid ts = (if ins_mid (ts ! i) then 1 else 0)" by (rule one) (rule mid_cs)
  show "cnt rem_mid ts = (if rem_mid (ts ! i) then 1 else 0)" by (rule one) (rule mid_cs)
qed

section \<open>Storing and loading\<close>

lemma ring_slot:
  assumes "ring_ok n b ins outs" and "0 < n"
  shows "bb_slot b (int k) = Ret (k mod n)"
proof -
  obtain xs where xs: "bb_buf b = Some xs" "length xs = n" and n: "bb_n b = int n"
    using assms(1) by (auto simp: ring_ok_def)
  have "int k smod int n = int (k mod n)"
    by (simp add: signed_modulo_int_def sgn_if zmod_int)
  with xs n assms(2) show ?thesis by (simp add: bb_slot_def Let_def)
qed

lemma mod_window:
  fixes k l n :: nat
  assumes "k < l" and "l < k + n"
  shows "k mod n \<noteq> l mod n"
proof
  assume "k mod n = l mod n"
  then have "n dvd l - k" using mod_eq_dvd_iff_nat [of k l n] assms(1) by simp
  with assms show False using nat_dvd_not_less [of "l - k" n] by simp
qed

lemma ring_store:
  assumes ring: "ring_ok n b ins outs" and room: "length ins - length outs < n"
    and b': "bb_buf b' = bb_buf (bb_store x (Suc (length ins) mod n) b)" "bb_n b' = bb_n b"
  shows "ring_ok n b' (ins @ [x]) outs"
proof -
  obtain xs where xs: "bb_buf b = Some xs" "length xs = n"
    "\<And>k. length outs \<le> k \<Longrightarrow> k < length ins \<Longrightarrow> xs ! (Suc k mod n) = ins ! k"
    using ring by (auto simp: ring_ok_def)
  have n: "0 < n" using room by simp
  let ?ys = "xs[Suc (length ins) mod n := x]"
  have "?ys ! (Suc k mod n) = (ins @ [x]) ! k" if k: "length outs \<le> k" "k < Suc (length ins)" for k
  proof (cases "k = length ins")
    case True
    then show ?thesis using xs(2) n by simp
  next
    case False
    then have "Suc k mod n \<noteq> Suc (length ins) mod n" using k room by (intro mod_window) auto
    with k False xs(3) show ?thesis by (simp add: nth_append)
  qed
  with ring xs(1,2) b' show ?thesis by (auto simp: ring_ok_def bb_store_def)
qed

lemma ring_load:
  assumes ring: "ring_ok n b ins outs" and some: "length outs < length ins"
    and b': "bb_buf b' = bb_buf b" "bb_n b' = bb_n b"
  shows "bb_load (Suc (length outs) mod n) b = ins ! length outs"
    and "ring_ok n b' ins (outs @ [ins ! length outs])"
proof -
  obtain xs where xs: "bb_buf b = Some xs" "length xs = n"
    "\<And>k. length outs \<le> k \<Longrightarrow> k < length ins \<Longrightarrow> xs ! (Suc k mod n) = ins ! k"
    using ring by (auto simp: ring_ok_def)
  show "bb_load (Suc (length outs) mod n) b = ins ! length outs"
    using xs some by (simp add: bb_load_def)
  have "take (Suc (length outs)) ins = outs @ [ins ! length outs]"
    using some ring by (simp add: ring_ok_def take_Suc_conv_app_nth)
  with ring xs some b' show "ring_ok n b' ins (outs @ [ins ! length outs])"
    by (auto simp: ring_ok_def)
qed

lemma ring_same:
  "ring_ok n b ins outs \<Longrightarrow> bb_buf b' = bb_buf b \<Longrightarrow> bb_n b' = bb_n b \<Longrightarrow> ring_ok n b' ins outs"
  by (simp add: ring_ok_def)

section \<open>Every step keeps the invariant\<close>

lemma idx_update:
  assumes "list_all (idx_ok b) ts" and "\<And>p. p \<in> set ts \<Longrightarrow> idx_ok b p \<Longrightarrow> idx_ok b' p" and "idx_ok b' q"
  shows "list_all (idx_ok b') (ts[i := q])"
  using assms set_update_subset_insert [of ts i q] by (auto simp: list_all_iff)

lemma idx_same:
  "bb_rear b' = bb_rear b \<Longrightarrow> bb_front b' = bb_front b \<Longrightarrow> idx_ok b' p = idx_ok b p"
  by (simp add: idx_ok_def split: bb_pc.split)

text \<open>The counts after thread \<open>i\<close> moves from \<open>p\<close> to \<open>q\<close>.\<close>

lemma counts_move:
  assumes "i < length ts" and "ts ! i = p"
  shows "cnt ins_tok (ts[i := q]) + of_bool (ins_tok p) = cnt ins_tok ts + of_bool (ins_tok q)"
    and "cnt rem_tok (ts[i := q]) + of_bool (rem_tok p) = cnt rem_tok ts + of_bool (rem_tok q)"
    and "cnt in_cs (ts[i := q]) + of_bool (in_cs p) = cnt in_cs ts + of_bool (in_cs q)"
    and "cnt ins_mid (ts[i := q]) + of_bool (ins_mid p) = cnt ins_mid ts + of_bool (ins_mid q)"
    and "cnt rem_mid (ts[i := q]) + of_bool (rem_mid p) = cnt rem_mid ts + of_bool (rem_mid q)"
    and "cnt claimed (ts[i := q]) + of_bool (claimed p) = cnt claimed ts + of_bool (claimed q)"
    and "cnt stored (ts[i := q]) + of_bool (stored p) = cnt stored ts + of_bool (stored q)"
  using cnt_update [OF assms(1), where y = q] assms(2) by (simp_all add: of_bool_def)

definition bs_ok :: "nat \<Rightarrow> 'a bbuf \<Rightarrow> 'a bb_pc list \<Rightarrow> 'a list \<Rightarrow> 'a list \<Rightarrow> bool" where
  "bs_ok n b ts ins outs \<longleftrightarrow> counts_ok n b ts (length ins) (length outs) \<and> ring_ok n b ins outs \<and>
     list_all (idx_ok b) ts"

lemma bs_inv_ok: "bs_inv n s = bs_ok n (bs_buf s) (bs_threads s) (bs_in s) (bs_out s)"
  by (simp add: bs_inv_def bs_ok_def)

text \<open>Steps on a semaphore touch neither the ring nor the indices.\<close>

lemma sem_step:
  assumes ok: "bs_ok n b ts ins outs" and i: "i < length ts"
    and b': "bb_buf b' = bb_buf b" "bb_n b' = bb_n b" "bb_rear b' = bb_rear b" "bb_front b' = bb_front b"
    and q: "\<not> ins_mid q" "\<not> rem_mid q"
    and counts: "counts_ok n b' (ts[i := q]) (length ins) (length outs)"
  shows "bs_ok n b' (ts[i := q]) ins outs"
proof -
  have "idx_ok b' q" using q by (cases q) (simp_all add: idx_ok_def)
  then have "list_all (idx_ok b') (ts[i := q])"
    using ok idx_same [OF b'(3,4)] by (intro idx_update [of b]) (simp_all add: bs_ok_def)
  with ok counts ring_same [OF _ b'(1,2)] show ?thesis by (simp add: bs_ok_def)
qed

text \<open>\<open>++rear\<close> and \<open>++front\<close> happen inside the lock, so no other thread carries an index.\<close>

lemma index_step:
  assumes ok: "bs_ok n b ts ins outs" and i: "i < length ts" and p: "in_cs (ts ! i)"
    and b': "bb_buf b' = bb_buf b" "bb_n b' = bb_n b"
    and q: "idx_ok b' q"
    and counts: "counts_ok n b' (ts[i := q]) (length ins) (length outs)"
  shows "bs_ok n b' (ts[i := q]) ins outs"
proof -
  have "idx_ok b' (ts[i := q] ! k)" if "k < length ts" for k
  proof (cases "k = i")
    case True
    with i q show ?thesis by simp
  next
    case False
    then have "\<not> in_cs (ts ! k)"
      using cs_unique [of n b ts "length ins" "length outs" i k] ok i that p by (auto simp: bs_ok_def)
    with False that show ?thesis by (cases "ts ! k") (simp_all add: idx_ok_def)
  qed
  then have "list_all (idx_ok b') (ts[i := q])" by (simp add: list_all_length)
  with ok counts ring_same [OF _ b'] show ?thesis by (simp add: bs_ok_def)
qed

text \<open>The eight steps on semaphores.\<close>

fun sem_pc :: "'a bb_pc \<Rightarrow> bool" where
  "sem_pc (Ins2 x) = False" | "sem_pc (Ins3 x r) = False" | "sem_pc Rem2 = False"
| "sem_pc (Rem3 f) = False" | "sem_pc _ = True"

lemma sem_steps_counts:
  assumes c: "counts_ok n b ts ni no" and i: "i < length ts" "ts ! i = p"
    and step: "bb_step p b = Some (Ret q, b')" and sem: "sem_pc p"
  shows "counts_ok n b' (ts[i := q]) ni no"
proof -
  note moves = counts_move [OF i, of q]
  show ?thesis
  proof (cases p)
    case (Ins0 x)
    with step have "0 < bb_slots b" "q = Ins1 x" "b' = b\<lparr>bb_slots := bb_slots b - 1\<rparr>"
      by (auto simp: sem_wait_def split: if_splits)
    with Ins0 c moves show ?thesis by (simp add: counts_ok_def)
  next
    case (Ins1 x)
    with step have "0 < bb_mutex b" "q = Ins2 x" "b' = b\<lparr>bb_mutex := bb_mutex b - 1\<rparr>"
      by (auto simp: sem_wait_def split: if_splits)
    with Ins1 c moves show ?thesis by (simp add: counts_ok_def)
  next
    case Rem0
    with step have "0 < bb_items b" "q = Rem1" "b' = b\<lparr>bb_items := bb_items b - 1\<rparr>"
      by (auto simp: sem_wait_def split: if_splits)
    with Rem0 c moves show ?thesis by (simp add: counts_ok_def)
  next
    case Rem1
    with step have "0 < bb_mutex b" "q = Rem2" "b' = b\<lparr>bb_mutex := bb_mutex b - 1\<rparr>"
      by (auto simp: sem_wait_def split: if_splits)
    with Rem1 c moves show ?thesis by (simp add: counts_ok_def)
  next
    case Ins4
    with step have "q = Ins5" "b' = b\<lparr>bb_mutex := bb_mutex b + 1\<rparr>" by (simp_all add: sem_post_def)
    with Ins4 c moves show ?thesis unfolding counts_ok_def by simp
  next
    case Ins5
    with step have "q = Returned None" "b' = b\<lparr>bb_items := bb_items b + 1\<rparr>"
      by (simp_all add: sem_post_def)
    with Ins5 c moves show ?thesis unfolding counts_ok_def by simp
  next
    case (Rem4 x)
    with step have "q = Rem5 x" "b' = b\<lparr>bb_mutex := bb_mutex b + 1\<rparr>" by (simp_all add: sem_post_def)
    with Rem4 c moves show ?thesis unfolding counts_ok_def by simp
  next
    case (Rem5 x)
    with step have "q = Returned (Some x)" "b' = b\<lparr>bb_slots := bb_slots b + 1\<rparr>"
      by (simp_all add: sem_post_def)
    with Rem5 c moves show ?thesis unfolding counts_ok_def by simp
  qed (use step sem in simp_all)
qed

lemma sem_steps_shape:
  assumes "bb_step p b = Some (Ret q, b')" and "sem_pc p"
  shows "bb_buf b' = bb_buf b \<and> bb_n b' = bb_n b \<and> bb_rear b' = bb_rear b \<and>
    bb_front b' = bb_front b \<and> \<not> ins_mid q \<and> \<not> rem_mid q"
  using assms by (cases p) (auto split: if_splits)

lemma sem_steps_ok:
  assumes "bs_ok n b ts ins outs" and "i < length ts" and "ts ! i = p"
    and "bb_step p b = Some (Ret q, b')" and "sem_pc p"
  shows "bs_ok n b' (ts[i := q]) ins outs"
proof -
  have "counts_ok n b' (ts[i := q]) (length ins) (length outs)"
    using sem_steps_counts [OF _ assms(2-5)] assms(1) by (simp add: bs_ok_def)
  with sem_steps_shape [OF assms(4,5)] show ?thesis by (intro sem_step [OF assms(1,2)]) simp_all
qed

lemma incr_step_ok:
  assumes ok: "bs_ok n b ts ins outs" and i: "i < length ts" and p: "ts ! i = p"
    and step: "bb_step p b = Some (Ret q, b')" and incr: "p = Ins2 x \<or> p = Rem2"
  shows "bs_ok n b' (ts[i := q]) ins outs"
proof -
  have c: "counts_ok n b ts (length ins) (length outs)" using ok by (simp add: bs_ok_def)
  have shape: "bb_buf b' = bb_buf b \<and> bb_n b' = bb_n b \<and> idx_ok b' q"
    using step incr by (auto simp: bb_incr_def idx_ok_def split: if_splits)
  have "counts_ok n b' (ts[i := q]) (length ins) (length outs)"
    using c step incr counts_move [OF i p, of q]
    by (auto simp: counts_ok_def bb_incr_def split: if_splits)
  then show ?thesis using shape incr p by (intro index_step [OF ok i]) auto
qed

lemma store_step_ok:
  assumes ok: "bs_ok n b ts ins outs" and i: "i < length ts" and p: "ts ! i = Ins3 x r" and n: "0 < n"
    and step: "bb_step (Ins3 x r) b = Some (Ret q, b')"
  shows "q = Ins4 \<and> bs_ok n b' (ts[i := q]) (ins @ [x]) outs"
proof -
  have c: "counts_ok n b ts (length ins) (length outs)" and ring: "ring_ok n b ins outs"
    and idx: "list_all (idx_ok b) ts" using ok by (simp_all add: bs_ok_def)
  have mid: "cnt ins_mid ts = 1" using mid_zero [OF c i] p by simp
  have "idx_ok b (ts ! i)" using idx i by (auto simp: list_all_length)
  then have "r = int (Suc (length ins))" using p c mid by (simp add: idx_ok_def counts_ok_def)
  then have q: "q = Ins4" "b' = bb_store x (Suc (length ins) mod n) b"
    using step ring_slot [OF ring n, of "Suc (length ins)"] by simp_all
  have "length ins - length outs < n" using counts_bound [OF c] mid by simp
  then have "ring_ok n b' (ins @ [x]) outs"
    by (rule ring_store [OF ring]) (simp_all add: q bb_store_def)
  moreover have "counts_ok n b' (ts[i := q]) (length (ins @ [x])) (length outs)"
    using c counts_move [OF i p, of q] q by (simp add: counts_ok_def bb_store_def)
  moreover have "list_all (idx_ok b') (ts[i := q])"
    using idx q by (intro idx_update [of b]) (simp_all add: idx_ok_def bb_store_def split: bb_pc.splits)
  ultimately show ?thesis using q by (simp add: bs_ok_def)
qed

lemma load_step_ok:
  assumes ok: "bs_ok n b ts ins outs" and i: "i < length ts" and p: "ts ! i = Rem3 f" and n: "0 < n"
    and step: "bb_step (Rem3 f) b = Some (Ret q, b')"
  shows "\<exists>x. q = Rem4 x \<and> bs_ok n b' (ts[i := q]) ins (outs @ [x])"
proof -
  have c: "counts_ok n b ts (length ins) (length outs)" and ring: "ring_ok n b ins outs"
    and idx: "list_all (idx_ok b) ts" using ok by (simp_all add: bs_ok_def)
  have mid: "cnt rem_mid ts = 1" using mid_zero [OF c i] p by simp
  have "idx_ok b (ts ! i)" using idx i by (auto simp: list_all_length)
  then have "f = int (Suc (length outs))" using p c mid by (simp add: idx_ok_def counts_ok_def)
  then have q: "q = Rem4 (bb_load (Suc (length outs) mod n) b)" "b' = b"
    using step ring_slot [OF ring n, of "Suc (length outs)"] by auto
  have "0 < cnt claimed ts" using p by (intro cnt_pos [OF i]) simp
  then have some: "length outs < length ins" using c by (simp add: counts_ok_def)
  have "counts_ok n b' (ts[i := q]) (length ins) (length (outs @ [ins ! length outs]))"
    using c counts_move [OF i p, of q] q by (simp add: counts_ok_def)
  moreover have "list_all (idx_ok b') (ts[i := q])"
    using idx q by (intro idx_update [of b]) (simp_all add: idx_ok_def)
  ultimately show ?thesis using q ring_load [OF ring some, of b'] by (simp add: bs_ok_def)
qed

text \<open>What a step adds to the observations.\<close>

definition ins_after :: "'a bb_pc \<Rightarrow> 'a bb_pc \<Rightarrow> 'a list \<Rightarrow> 'a list" where
  "ins_after p q ins = (case (p, q) of (Ins3 x r, Ins4) \<Rightarrow> ins @ [x] | _ \<Rightarrow> ins)"

definition outs_after :: "'a bb_pc \<Rightarrow> 'a bb_pc \<Rightarrow> 'a list \<Rightarrow> 'a list" where
  "outs_after p q outs = (case (p, q) of (Rem3 f, Rem4 x) \<Rightarrow> outs @ [x] | _ \<Rightarrow> outs)"

lemma bb_step_ok:
  assumes ok: "bs_ok n b ts ins outs" and i: "i < length ts" and p: "ts ! i = p" and n: "0 < n"
    and step: "bb_step p b = Some (Ret q, b')"
  shows "bs_ok n b' (ts[i := q]) (ins_after p q ins) (outs_after p q outs)"
proof -
  note sem = sem_steps_ok [OF ok i p step] and incr = incr_step_ok [OF ok i p step]
  show ?thesis
  proof (cases p)
    case (Ins3 x r)
    with store_step_ok [OF ok i _ n, of x r q b'] p step show ?thesis
      by (auto simp: ins_after_def outs_after_def)
  next
    case (Rem3 f)
    with load_step_ok [OF ok i _ n, of f q b'] p step show ?thesis
      by (auto simp: ins_after_def outs_after_def)
  qed (use sem incr in \<open>simp_all add: ins_after_def outs_after_def\<close>)
qed

lemma bs_stepE:
  assumes "bs_step i s = Some (Ret t)"
  obtains q b where "i < length (bs_threads s)"
    and "bb_step (bs_threads s ! i) (bs_buf s) = Some (Ret q, b)"
    and "t = bs_observe (bs_threads s ! i) q (s\<lparr>bs_buf := b, bs_threads := (bs_threads s)[i := q]\<rparr>)"
proof (cases "bb_step (bs_threads s ! i) (bs_buf s)")
  case None
  with assms show ?thesis by (simp add: bs_step_def split: if_splits)
next
  case (Some rb)
  obtain r b where rb: "rb = (r, b)" by (cases rb)
  with assms Some that show ?thesis by (cases r) (simp_all add: bs_step_def split: if_splits)
qed

lemma bs_observe_sel:
  "bs_buf (bs_observe p q s) = bs_buf s" "bs_threads (bs_observe p q s) = bs_threads s"
  "bs_in (bs_observe p q s) = ins_after p q (bs_in s)"
  "bs_out (bs_observe p q s) = outs_after p q (bs_out s)"
  by (cases p; cases q; simp add: bs_observe_def ins_after_def outs_after_def)+

lemma bs_step_inv:
  assumes inv: "bs_inv n s" and n: "0 < n" and step: "bs_step i s = Some (Ret t)"
  shows "bs_inv n t"
proof -
  let ?p = "bs_threads s ! i"
  obtain q b where i: "i < length (bs_threads s)"
    and st: "bb_step ?p (bs_buf s) = Some (Ret q, b)"
    and t: "t = bs_observe ?p q (s\<lparr>bs_buf := b, bs_threads := (bs_threads s)[i := q]\<rparr>)"
    by (rule bs_stepE [OF step])
  have "bs_buf t = b" "bs_threads t = (bs_threads s)[i := q]"
    "bs_in t = ins_after ?p q (bs_in s)" "bs_out t = outs_after ?p q (bs_out s)"
    using t by (simp_all add: bs_observe_sel)
  with bb_step_ok [OF _ i refl n st, of "bs_in s" "bs_out s"] inv show ?thesis
    by (simp add: bs_inv_ok)
qed

lemma start_counts:
  "bb_start p \<Longrightarrow> \<not> ins_tok p \<and> \<not> rem_tok p \<and> \<not> in_cs p \<and> \<not> ins_mid p \<and> \<not> rem_mid p \<and>
     \<not> claimed p \<and> \<not> stored p \<and> idx_ok b p"
  by (cases p) (simp_all add: idx_ok_def)

lemma bs_reach_inv:
  assumes "bs_reach zero (int n) s" and "0 < n"
  shows "bs_inv n s"
  using assms(1)
proof induction
  case (bs_reach_init ps)
  then have "cnt P ps = 0" if "\<And>p. bb_start p \<Longrightarrow> \<not> P p" for P
    using that by (intro cnt_none) (auto simp: list_all_iff)
  then have "cnt ins_tok ps = 0" "cnt rem_tok ps = 0" "cnt in_cs ps = 0" "cnt ins_mid ps = 0"
    "cnt rem_mid ps = 0" "cnt claimed ps = 0" "cnt stored ps = 0"
    using start_counts by blast+
  moreover have "list_all (idx_ok b) ps" for b :: "'a bbuf"
    using bs_reach_init start_counts by (auto simp: list_all_iff)
  ultimately show ?case
    by (simp add: bs_inv_def bs_init_def bb_init_def counts_ok_def ring_ok_def)
next
  case (bs_reach_step s i t)
  then show ?case using bs_step_inv assms(2) by blast
next
  case (bs_reach_spawn s p)
  then show ?case using start_counts [OF bs_reach_spawn.hyps(2)]
    by (simp add: bs_inv_def counts_ok_def)
qed

section \<open>States in which nobody can move\<close>

text \<open>When every thread has returned or blocks, tokens force the buffer to be full or empty.\<close>

lemma blocked_pc:
  assumes "bb_step p b = None"
  shows "(\<exists>r. p = Returned r) \<or> (\<exists>x. p = Ins0 x) \<and> bb_slots b = 0 \<or> p = Rem0 \<and> bb_items b = 0 \<or>
    ((\<exists>x. p = Ins1 x) \<or> p = Rem1) \<and> bb_mutex b = 0"
  using assms by (cases p) (auto simp: sem_wait_def split: if_splits)

lemma stuck_lock_free:
  assumes c: "counts_ok n b ts ni no" and stuck: "\<And>p. p \<in> set ts \<Longrightarrow> bb_step p b = None"
  shows "cnt ins_tok ts = 0" and "cnt rem_tok ts = 0"
proof -
  have "\<not> in_cs p" if "p \<in> set ts" for p
    using blocked_pc [OF stuck [OF that]] by auto
  then have "bb_mutex b = 1" using c cnt_none [of ts in_cs] by (simp add: counts_ok_def)
  then have "\<not> ins_tok p \<and> \<not> rem_tok p" if "p \<in> set ts" for p
    using blocked_pc [OF stuck [OF that]] by auto
  then show "cnt ins_tok ts = 0" "cnt rem_tok ts = 0" by (simp_all add: cnt_none)
qed

lemma bs_stuck:
  assumes inv: "bs_inv n s" and none: "\<And>i. i < length (bs_threads s) \<Longrightarrow> bs_step i s = None"
  shows "bb_slots (bs_buf s) + bb_items (bs_buf s) = n"
    and "length (bs_in s) = length (bs_out s) + bb_items (bs_buf s)"
    and "bb_items (bs_buf s) = 0 \<Longrightarrow> bs_in s = bs_out s"
    and "p \<in> set (bs_threads s) \<Longrightarrow>
      (\<exists>r. p = Returned r) \<or> (\<exists>x. p = Ins0 x) \<and> bb_slots (bs_buf s) = 0 \<or> p = Rem0 \<and> bb_items (bs_buf s) = 0"
proof -
  let ?ts = "bs_threads s" and ?b = "bs_buf s"
  have c: "counts_ok n ?b ?ts (length (bs_in s)) (length (bs_out s))" and ring: "ring_ok n ?b (bs_in s) (bs_out s)"
    using inv by (simp_all add: bs_inv_def)
  have stuck: "bb_step p ?b = None" if p: "p \<in> set ?ts" for p
  proof -
    obtain i where "i < length ?ts" "?ts ! i = p" using p by (auto simp: in_set_conv_nth)
    with none [of i] show ?thesis by (cases "bb_step p ?b") (auto simp: bs_step_def split: prod.splits)
  qed
  note tok = stuck_lock_free [OF c stuck]
  then show "bb_slots ?b + bb_items ?b = n" using c by (simp add: counts_ok_def)
  have "\<not> claimed p \<and> \<not> stored p" if "p \<in> set ?ts" for p
  proof -
    have "\<not> ins_tok p" "\<not> rem_tok p" using tok that by (auto simp: cnt_def filter_empty_conv)
    then show ?thesis by (cases p) simp_all
  qed
  then show len: "length (bs_in s) = length (bs_out s) + bb_items ?b"
    using c cnt_none [of ?ts claimed] cnt_none [of ?ts stored] by (simp add: counts_ok_def)
  show "bs_in s = bs_out s" if "bb_items ?b = 0" using ring len that by (auto simp: ring_ok_def)
  show "(\<exists>r. p = Returned r) \<or> (\<exists>x. p = Ins0 x) \<and> bb_slots ?b = 0 \<or> p = Rem0 \<and> bb_items ?b = 0" if "p \<in> set ?ts"
    using blocked_pc [OF stuck [OF that]] tok that by (auto simp: cnt_def filter_empty_conv)
qed

section \<open>Threads that do more than one operation\<close>

text \<open>A thread outside the buffer may begin another operation.\<close>

lemma bs_inv_restart:
  assumes "bs_inv n q" and "i < length (bs_threads q)" and "bs_threads q ! i = Returned r" and "bb_start p"
  shows "bs_inv n (q\<lparr>bs_threads := (bs_threads q)[i := p]\<rparr>)"
proof -
  note p = start_counts [OF assms(4)]
  have "list_all (idx_ok (bs_buf q)) ((bs_threads q)[i := p])"
    using assms(1) p by (intro idx_update [of "bs_buf q"]) (simp_all add: bs_inv_def)
  with assms(1) p counts_move [OF assms(2,3), of p] show ?thesis by (simp add: bs_inv_def counts_ok_def)
qed

text \<open>Before the first operation, and between two, a thread holds nothing of the buffer.\<close>

lemma bs_inv_idle:
  assumes "\<And>p. p \<in> set ps \<Longrightarrow> bb_start p \<or> (\<exists>r. p = Returned r)" and "0 < n"
  shows "bs_inv (nat n) \<lparr>bs_buf = bb_init zero True n, bs_threads = ps, bs_in = [], bs_out = []\<rparr>"
proof -
  have idle: "\<not> ins_tok p \<and> \<not> rem_tok p \<and> \<not> in_cs p \<and> \<not> ins_mid p \<and> \<not> rem_mid p \<and> \<not> claimed p \<and>
      \<not> stored p \<and> idx_ok b p" if "p \<in> set ps" for p and b :: "'a bbuf"
    using assms(1) [OF that] start_counts [of p b] by (auto simp: idx_ok_def)
  then have "cnt P ps = 0" if "\<And>p. p \<in> set ps \<Longrightarrow> \<not> P p" for P using that by (intro cnt_none)
  then have "cnt ins_tok ps = 0" "cnt rem_tok ps = 0" "cnt in_cs ps = 0" "cnt ins_mid ps = 0"
    "cnt rem_mid ps = 0" "cnt claimed ps = 0" "cnt stored ps = 0" using idle by blast+
  with idle assms(2) show ?thesis
    by (simp add: bs_inv_def bb_init_def counts_ok_def ring_ok_def list_all_iff)
qed

text \<open>What a thread has taken and not yet given up.\<close>

fun carried :: "'a bb_pc \<Rightarrow> 'a list" where
  "carried (Rem4 x) = [x]" | "carried (Rem5 x) = [x]" | "carried (Returned (Some x)) = [x]" | "carried _ = []"

lemma bb_step_carried:
  assumes "bb_step p b = Some (Ret q, b')"
  obtains d where "outs_after p q outs = outs @ d" and "carried q = carried p @ d"
  using assms that by (cases p) (auto simp: outs_after_def split: outcome.splits)

text \<open>A thread that only inserts, and one that only removes.\<close>

fun inserting :: "'a bb_pc \<Rightarrow> bool" where
  "inserting (Ins0 x) = True" | "inserting (Ins1 x) = True" | "inserting (Ins2 x) = True" | "inserting (Ins3 x r) = True"
| "inserting Ins4 = True" | "inserting Ins5 = True" | "inserting (Returned None) = True" | "inserting _ = False"

fun removing :: "'a bb_pc \<Rightarrow> bool" where
  "removing Rem0 = True" | "removing Rem1 = True" | "removing Rem2 = True" | "removing (Rem3 f) = True"
| "removing (Rem4 x) = True" | "removing (Rem5 x) = True" | "removing (Returned (Some x)) = True" | "removing _ = False"

lemma bb_step_role:
  assumes "bb_step p b = Some (Ret q, b')"
  shows "inserting p \<Longrightarrow> inserting q" and "removing p \<Longrightarrow> removing q"
  using assms by (cases p; auto split: outcome.splits)+

lemma inserting_carried [simp]: "inserting p \<Longrightarrow> carried p = []"
  by (cases p rule: inserting.cases) simp_all

text \<open>The item a thread is about to store: each is inserted once.\<close>

fun pending :: "'a bb_pc \<Rightarrow> 'a list" where
  "pending (Ins0 x) = [x]" | "pending (Ins1 x) = [x]" | "pending (Ins2 x) = [x]" | "pending (Ins3 x r) = [x]"
| "pending _ = []"

definition inserts_of :: "'a \<Rightarrow> 'a bb_sys \<Rightarrow> nat" where
  "inserts_of x s = count_list (bs_in s) x + cnt (\<lambda>p. pending p = [x]) (bs_threads s)"

lemma bs_step_inserts:
  assumes "bs_step i s = Some (Ret t)"
  shows "inserts_of x t = inserts_of x s"
proof -
  obtain q b where i: "i < length (bs_threads s)" and st: "bb_step (bs_threads s ! i) (bs_buf s) = Some (Ret q, b)"
    and t: "t = bs_observe (bs_threads s ! i) q (s\<lparr>bs_buf := b, bs_threads := (bs_threads s)[i := q]\<rparr>)"
    by (rule bs_stepE [OF assms])
  have "count_list (ins_after (bs_threads s ! i) q (bs_in s)) x + of_bool (pending q = [x]) =
      count_list (bs_in s) x + of_bool (pending (bs_threads s ! i) = [x])"
    using st by (cases "bs_threads s ! i") (auto simp: ins_after_def split: outcome.splits)
  with cnt_update [OF i, of "\<lambda>p. pending p = [x]" q] show ?thesis
    by (simp add: t inserts_of_def bs_observe_sel of_bool_def split: if_splits)
qed

text \<open>As long as no thread removes twice, as many items were taken as threads carry one.\<close>

lemma bs_step_taken:
  assumes "bs_step i s = Some (Ret t)" and "length (bs_out s) = cnt (\<lambda>p. carried p \<noteq> []) (bs_threads s)"
  shows "length (bs_out t) = cnt (\<lambda>p. carried p \<noteq> []) (bs_threads t)"
proof -
  obtain q b where i: "i < length (bs_threads s)" and st: "bb_step (bs_threads s ! i) (bs_buf s) = Some (Ret q, b)"
    and t: "t = bs_observe (bs_threads s ! i) q (s\<lparr>bs_buf := b, bs_threads := (bs_threads s)[i := q]\<rparr>)"
    by (rule bs_stepE [OF assms(1)])
  have "length (outs_after (bs_threads s ! i) q (bs_out s)) + of_bool (carried (bs_threads s ! i) \<noteq> []) =
      length (bs_out s) + of_bool (carried q \<noteq> [])"
    using st by (cases "bs_threads s ! i") (auto simp: outs_after_def split: outcome.splits)
  with cnt_update [OF i, of "\<lambda>p. carried p \<noteq> []" q] assms(2) show ?thesis
    by (simp add: t bs_observe_sel of_bool_def split: if_splits)
qed

end
