(* ===== verification/Buffer_Props.thy ===== *)
theory Buffer_Props
  imports Buffer_Proofs
begin

text \<open>
  What the bounded buffers promise: one thread alone sees a bounded queue (the locale
  \<open>bounded_queue\<close>, interpreted on the three copies of the code), any number of threads see
  first-in first-out, mutual exclusion, no fault and no deadlock.
\<close>

section \<open>A bounded queue\<close>

locale bounded_queue =
  fixes insert :: "'x \<Rightarrow> 's \<Rightarrow> ('x option outcome \<times> 's) option"
    and remove :: "'s \<Rightarrow> ('x option outcome \<times> 's) option"
    and contents :: "'s \<Rightarrow> 'x list"
    and capacity :: "'s \<Rightarrow> nat"
    and budget :: "'s \<Rightarrow> nat"
    and inv :: "'s \<Rightarrow> bool"
  assumes insert_ok: "inv s \<Longrightarrow> length (contents s) < capacity s \<Longrightarrow> 0 < budget s \<Longrightarrow>
      \<exists>t. insert x s = Some (Ret None, t) \<and> inv t \<and> contents t = contents s @ [x] \<and>
        capacity t = capacity s \<and> Suc (budget t) = budget s"
    and remove_ok: "inv s \<Longrightarrow> contents s = x # q \<Longrightarrow>
      \<exists>t. remove s = Some (Ret (Some x), t) \<and> inv t \<and> contents t = q \<and>
        capacity t = capacity s \<and> budget t = budget s"
    and insert_full: "inv s \<Longrightarrow> capacity s \<le> length (contents s) \<Longrightarrow> insert x s = None"
    and remove_empty: "inv s \<Longrightarrow> contents s = [] \<Longrightarrow> remove s = None"

text \<open>A sequence of operations, \<open>Some x\<close> to insert and \<open>None\<close> to remove; \<open>None\<close> if one blocks.\<close>

fun ops_run :: "('x \<Rightarrow> 's \<Rightarrow> ('x option outcome \<times> 's) option) \<Rightarrow>
    ('s \<Rightarrow> ('x option outcome \<times> 's) option) \<Rightarrow> 'x option list \<Rightarrow> 's \<Rightarrow> ('x list \<times> 's) option" where
  "ops_run ins rem [] s = Some ([], s)"
| "ops_run ins rem (Some x # ops) s =
     (case ins x s of Some (Ret r, t) \<Rightarrow> ops_run ins rem ops t | _ \<Rightarrow> None)"
| "ops_run ins rem (None # ops) s =
     (case rem s of
        Some (Ret (Some x), t) \<Rightarrow> map_option (\<lambda>(xs, u). (x # xs, u)) (ops_run ins rem ops t)
      | _ \<Rightarrow> None)"

text \<open>The same sequence on a list.\<close>

fun queue_run :: "nat \<Rightarrow> 'x option list \<Rightarrow> 'x list \<Rightarrow> ('x list \<times> 'x list) option" where
  "queue_run cap [] q = Some ([], q)"
| "queue_run cap (Some x # ops) q =
     (if length q < cap then queue_run cap ops (q @ [x]) else None)"
| "queue_run cap (None # ops) q =
     (case q of
        [] \<Rightarrow> None
      | x # q' \<Rightarrow> map_option (\<lambda>(xs, r). (x # xs, r)) (queue_run cap ops q'))"

definition inserts :: "'x option list \<Rightarrow> nat" where
  "inserts ops = cnt (\<lambda>x. x \<noteq> None) ops"

context bounded_queue
begin

lemma ops_refine:
  assumes "inv s" and "inserts ops \<le> budget s"
  shows "map_option (\<lambda>(xs, t). (xs, contents t)) (ops_run insert remove ops s) =
    queue_run (capacity s) ops (contents s)"
  using assms
proof (induction ops arbitrary: s)
  case Nil
  then show ?case by simp
next
  case (Cons op ops)
  show ?case
  proof (cases op)
    case (Some x)
    show ?thesis
    proof (cases "length (contents s) < capacity s")
      case True
      have "0 < budget s" using Cons.prems(2) Some by (simp add: inserts_def cnt_def)
      then obtain t where t: "insert x s = Some (Ret None, t)" "inv t"
        "contents t = contents s @ [x]" "capacity t = capacity s" "Suc (budget t) = budget s"
        using insert_ok [OF Cons.prems(1) True] by blast
      have "inserts ops \<le> budget t" using Cons.prems(2) t(5) Some by (simp add: inserts_def cnt_def)
      with Cons.IH [OF t(2)] t Some True show ?thesis by simp
    next
      case False
      with insert_full [OF Cons.prems(1)] Some show ?thesis by simp
    qed
  next
    case None
    show ?thesis
    proof (cases "contents s")
      case Nil
      with remove_empty [OF Cons.prems(1)] None show ?thesis by simp
    next
      case (Cons x q)
      obtain t where t: "remove s = Some (Ret (Some x), t)" "inv t" "contents t = q"
        "capacity t = capacity s" "budget t = budget s"
        using remove_ok [OF Cons.prems(1) Cons] by blast
      have "inserts ops \<le> budget t" using Cons.prems(2) t(5) None by (simp add: inserts_def cnt_def)
      from Cons.IH [OF t(2) this] t None Cons show ?thesis
        by (cases "ops_run insert remove ops t"; cases "queue_run (capacity s) ops q")
          (auto split: prod.splits)
    qed
  qed
qed

end

section \<open>One thread alone\<close>

definition bb_seq :: "nat \<Rightarrow> 'a bbuf \<Rightarrow> 'a list \<Rightarrow> 'a list \<Rightarrow> bool" where
  "bb_seq n b ins outs \<longleftrightarrow> bs_ok n b [] ins outs"

lemma bb_seq_counts:
  "bb_seq n b ins outs \<Longrightarrow> bb_slots b + bb_items b = n \<and> bb_mutex b = 1 \<and>
     bb_rear b = int (length ins) \<and> bb_front b = int (length outs) \<and>
     length ins = length outs + bb_items b \<and> ring_ok n b ins outs"
  by (simp add: bb_seq_def bs_ok_def counts_ok_def cnt_def)

lemma bb_seq_intro:
  "bb_slots b + bb_items b = n \<Longrightarrow> bb_mutex b = 1 \<Longrightarrow> bb_rear b = int (length ins) \<Longrightarrow>
     bb_front b = int (length outs) \<Longrightarrow> length ins = length outs + bb_items b \<Longrightarrow>
     ring_ok n b ins outs \<Longrightarrow> bb_seq n b ins outs"
  by (simp add: bb_seq_def bs_ok_def counts_ok_def cnt_def)

lemma six: "6 = Suc (Suc (Suc (Suc (Suc (Suc 0)))))" by simp

lemma bb_insert_seq:
  assumes seq: "bb_seq n b ins outs" and room: "length ins - length outs < n"
    and max: "int (length ins) < INT_MAX"
  shows "\<exists>b'. bb_insert x b = Some (Ret None, b') \<and> bb_seq n b' (ins @ [x]) outs \<and> bb_n b' = bb_n b"
proof -
  note c = bb_seq_counts [OF seq]
  define b2 where "b2 = b\<lparr>bb_slots := bb_slots b - 1, bb_mutex := 0, bb_rear := bb_rear b + 1\<rparr>"
  have "ring_ok n b2 ins outs" using c by (auto simp: b2_def intro: ring_same)
  moreover have "0 < n" using room by simp
  ultimately have slot: "bb_slot b2 (int (Suc (length ins))) = Ret (Suc (length ins) mod n)"
    by (rule ring_slot)
  define b3 where "b3 = bb_store x (Suc (length ins) mod n) b2"
  have slots: "bb_slots b \<noteq> 0" using c room by simp
  define b1 where "b1 = b\<lparr>bb_slots := bb_slots b - 1\<rparr>"
  let ?r = "int (Suc (length ins))"
  have "bb_step (Ins0 x) b = Some (Ret (Ins1 x), b1)"
    "bb_step (Ins1 x) b1 = Some (Ret (Ins2 x), b1\<lparr>bb_mutex := 0\<rparr>)"
    using slots c by (simp_all add: b1_def sem_wait_def)
  moreover have "bb_step (Ins2 x) (b1\<lparr>bb_mutex := 0\<rparr>) = Some (Ret (Ins3 x ?r), b2)"
    using c max by (simp add: b1_def b2_def bb_incr_def)
  moreover have "bb_step (Ins3 x ?r) b2 = Some (Ret Ins4, b3)"
    by (simp only: bb_step.simps slot outcome.case b3_def)
  moreover have "bb_step Ins4 b3 = Some (Ret Ins5, b3\<lparr>bb_mutex := 1\<rparr>)"
    "bb_step Ins5 (b3\<lparr>bb_mutex := 1\<rparr>) =
      Some (Ret (Returned None), b3\<lparr>bb_mutex := 1, bb_items := Suc (bb_items b)\<rparr>)"
    by (simp_all add: b3_def b2_def bb_store_def sem_post_def)
  ultimately have "bb_insert x b =
      Some (Ret None, b3\<lparr>bb_mutex := 1, bb_items := Suc (bb_items b)\<rparr>)"
    by (simp only: bb_insert_def six bb_alone.simps option.case outcome.case prod.case bb_pc.case)
  moreover have "ring_ok n (b3\<lparr>bb_mutex := 1, bb_items := Suc (bb_items b)\<rparr>) (ins @ [x]) outs"
    by (rule ring_store [OF _ room]) (use c in \<open>simp_all add: b3_def b2_def bb_store_def\<close>)
  then have "bb_seq n (b3\<lparr>bb_mutex := 1, bb_items := Suc (bb_items b)\<rparr>) (ins @ [x]) outs"
    using c room by (intro bb_seq_intro) (simp_all add: b3_def b2_def bb_store_def)
  ultimately show ?thesis by (simp add: b3_def b2_def bb_store_def)
qed

lemma bb_remove_seq:
  assumes seq: "bb_seq n b ins outs" and some: "length outs < length ins" and n: "0 < n"
    and max: "int (length ins) \<le> INT_MAX"
  shows "\<exists>b'. bb_remove b = Some (Ret (Some (ins ! length outs)), b') \<and>
    bb_seq n b' ins (outs @ [ins ! length outs]) \<and> bb_n b' = bb_n b \<and> bb_rear b' = bb_rear b"
proof -
  note c = bb_seq_counts [OF seq]
  define b2 where "b2 = b\<lparr>bb_items := bb_items b - 1, bb_mutex := 0, bb_front := bb_front b + 1\<rparr>"
  have ring: "ring_ok n b2 ins outs" using c by (auto simp: b2_def intro: ring_same)
  then have slot: "bb_slot b2 (int (Suc (length outs))) = Ret (Suc (length outs) mod n)"
    using n by (rule ring_slot)
  have load: "bb_load (Suc (length outs) mod n) b2 = ins ! length outs"
    by (rule ring_load(1) [OF ring some refl refl])
  let ?b = "b2\<lparr>bb_mutex := 1, bb_slots := Suc (bb_slots b)\<rparr>"
  have items: "bb_items b \<noteq> 0" using c some by simp
  define b1 where "b1 = b\<lparr>bb_items := bb_items b - 1\<rparr>"
  let ?f = "int (Suc (length outs))" and ?x = "ins ! length outs"
  have "bb_step Rem0 b = Some (Ret Rem1, b1)"
    "bb_step Rem1 b1 = Some (Ret Rem2, b1\<lparr>bb_mutex := 0\<rparr>)"
    using items c by (simp_all add: b1_def sem_wait_def)
  moreover have "bb_step Rem2 (b1\<lparr>bb_mutex := 0\<rparr>) = Some (Ret (Rem3 ?f), b2)"
    using c max some by (simp add: b1_def b2_def bb_incr_def)
  moreover have "bb_step (Rem3 ?f) b2 = Some (Ret (Rem4 ?x), b2)"
    by (simp only: bb_step.simps slot outcome.case load)
  moreover have "bb_step (Rem4 ?x) b2 = Some (Ret (Rem5 ?x), b2\<lparr>bb_mutex := 1\<rparr>)"
    "bb_step (Rem5 ?x) (b2\<lparr>bb_mutex := 1\<rparr>) = Some (Ret (Returned (Some ?x)), ?b)"
    by (simp_all add: b2_def sem_post_def)
  ultimately have "bb_remove b = Some (Ret (Some ?x), ?b)"
    by (simp only: bb_remove_def six bb_alone.simps option.case outcome.case prod.case bb_pc.case)
  moreover have "ring_ok n ?b ins (outs @ [ins ! length outs])"
    by (rule ring_load(2) [OF ring some]) simp_all
  then have "bb_seq n ?b ins (outs @ [ins ! length outs])"
    using c some by (intro bb_seq_intro) (simp_all add: b2_def)
  ultimately show ?thesis by (auto simp: b2_def)
qed

section \<open>The contents of a buffer\<close>

definition bb_contents :: "'a bbuf \<Rightarrow> 'a list" where
  "bb_contents b =
     map (\<lambda>k. the (bb_buf b) ! (Suc k mod nat (bb_n b))) [nat (bb_front b)..<nat (bb_rear b)]"

definition bb_capacity :: "'a bbuf \<Rightarrow> nat" where
  "bb_capacity b = nat (bb_n b)"

definition bb_budget :: "'a bbuf \<Rightarrow> nat" where
  "bb_budget b = nat (INT_MAX - bb_rear b)"

definition bb_ready :: "'a bbuf \<Rightarrow> bool" where
  "bb_ready b \<longleftrightarrow> 0 < bb_n b \<and> bb_rear b \<le> INT_MAX \<and> (\<exists>ins outs. bb_seq (nat (bb_n b)) b ins outs)"

lemma bb_contents_seq:
  assumes "bb_seq n b ins outs"
  shows "bb_contents b = drop (length outs) ins"
proof -
  note c = bb_seq_counts [OF assms]
  then obtain xs where xs: "bb_buf b = Some xs" "bb_n b = int n"
    "\<And>k. length outs \<le> k \<Longrightarrow> k < length ins \<Longrightarrow> xs ! (Suc k mod n) = ins ! k"
    by (auto simp: ring_ok_def)
  have "nat (bb_front b) = length outs" "nat (bb_rear b) = length ins" "nat (bb_n b) = n"
    using c xs(2) by simp_all
  then have "bb_contents b = map (\<lambda>k. xs ! (Suc k mod n)) [length outs..<length ins]"
    using xs(1) by (simp only: bb_contents_def option.sel)
  also have "\<dots> = map ((!) ins) [length outs..<length ins]" using xs(3) by simp
  also have "\<dots> = drop (length outs) ins" by (rule nth_equalityI) simp_all
  finally show ?thesis .
qed

lemma bb_readyE:
  assumes "bb_ready b"
  obtains n ins outs where "bb_seq n b ins outs" and "bb_n b = int n" and "0 < n"
    and "int (length ins) \<le> INT_MAX" and "bb_budget b = nat (INT_MAX - int (length ins))"
    and "bb_contents b = drop (length outs) ins" and "bb_capacity b = n"
proof -
  obtain ins outs where seq: "bb_seq (nat (bb_n b)) b ins outs" using assms by (auto simp: bb_ready_def)
  with assms bb_seq_counts [OF seq] bb_contents_seq [OF seq] that [of "nat (bb_n b)" ins outs] show thesis
    by (simp add: bb_ready_def bb_budget_def bb_capacity_def)
qed

lemma bb_insert_ok:
  assumes r: "bb_ready b" and room: "length (bb_contents b) < bb_capacity b" and bud: "0 < bb_budget b"
  shows "\<exists>t. bb_insert x b = Some (Ret None, t) \<and> bb_ready t \<and> bb_contents t = bb_contents b @ [x] \<and>
    bb_capacity t = bb_capacity b \<and> Suc (bb_budget t) = bb_budget b"
proof (rule bb_readyE [OF r])
  fix n ins outs
  assume a: "bb_seq n b ins outs" "bb_n b = int n" "0 < n" "int (length ins) \<le> INT_MAX"
    "bb_budget b = nat (INT_MAX - int (length ins))" "bb_contents b = drop (length outs) ins"
    "bb_capacity b = n"
  obtain t where t: "bb_insert x b = Some (Ret None, t)" "bb_seq n t (ins @ [x]) outs" "bb_n t = bb_n b"
    using bb_insert_seq [OF a(1), of x] room bud a by auto
  note c = bb_seq_counts [OF t(2)]
  have "length outs \<le> length ins" using bb_seq_counts [OF a(1)] by simp
  moreover have "bb_ready t" using t a bud c by (auto simp: bb_ready_def)
  moreover have "Suc (bb_budget t) = bb_budget b" using c a bud by (simp add: bb_budget_def)
  ultimately show ?thesis
    using t a bb_contents_seq [OF t(2)] by (simp add: bb_capacity_def)
qed

lemma bb_remove_ok:
  assumes r: "bb_ready b" and some: "bb_contents b = x # q"
  shows "\<exists>t. bb_remove b = Some (Ret (Some x), t) \<and> bb_ready t \<and> bb_contents t = q \<and>
    bb_capacity t = bb_capacity b \<and> bb_budget t = bb_budget b"
proof (rule bb_readyE [OF r])
  fix n ins outs
  assume a: "bb_seq n b ins outs" "bb_n b = int n" "0 < n" "int (length ins) \<le> INT_MAX"
    "bb_budget b = nat (INT_MAX - int (length ins))" "bb_contents b = drop (length outs) ins"
    "bb_capacity b = n"
  have d: "drop (length outs) ins = x # q" using some a(6) by simp
  then have len: "length outs < length ins" by (metis drop_eq_Nil list.distinct(1) not_le)
  with d have x: "ins ! length outs = x" and q: "drop (Suc (length outs)) ins = q"
    using Cons_nth_drop_Suc [OF len] by simp_all
  obtain t where t: "bb_remove b = Some (Ret (Some x), t)" "bb_seq n t ins (outs @ [x])" "bb_n t = bb_n b"
    "bb_rear t = bb_rear b" using bb_remove_seq [OF a(1) len a(3,4)] x by auto
  moreover have "bb_ready t" using r t a by (auto simp: bb_ready_def)
  ultimately show ?thesis
    using a q bb_contents_seq [OF t(2)] by (simp add: bb_capacity_def bb_budget_def)
qed

lemma bb_insert_full:
  assumes r: "bb_ready b" and full: "bb_capacity b \<le> length (bb_contents b)"
  shows "bb_insert x b = None"
proof (rule bb_readyE [OF r])
  fix n ins outs
  assume a: "bb_seq n b ins outs" "bb_contents b = drop (length outs) ins" "bb_capacity b = n"
  then have "bb_slots b = 0" using bb_seq_counts [OF a(1)] full by simp
  then show ?thesis by (simp add: bb_insert_def six sem_wait_def)
qed

lemma bb_remove_empty:
  assumes r: "bb_ready b" and empty: "bb_contents b = []"
  shows "bb_remove b = None"
proof (rule bb_readyE [OF r])
  fix n ins outs
  assume a: "bb_seq n b ins outs" "bb_contents b = drop (length outs) ins"
  then have "bb_items b = 0" using bb_seq_counts [OF a(1)] empty by simp
  then show ?thesis by (simp add: bb_remove_def six sem_wait_def)
qed

lemmas bb_queue_laws = bb_insert_ok bb_remove_ok bb_insert_full bb_remove_empty

text \<open>The three copies are bounded queues.\<close>

interpretation sq: bounded_queue sbuf_insert sbuf_remove bb_contents bb_capacity bb_budget bb_ready
  by unfold_locales (simp_all add: sbuf_insert_def sbuf_remove_def bb_queue_laws)

interpretation pq: bounded_queue psbuf_insert psbuf_remove bb_contents bb_capacity bb_budget bb_ready
  by unfold_locales (simp_all add: psbuf_insert_def psbuf_remove_def bb_queue_laws)

interpretation lq: bounded_queue logbuf_insert logbuf_remove bb_contents bb_capacity bb_budget bb_ready
  by unfold_locales (simp_all add: logbuf_insert_def logbuf_remove_def bb_queue_laws)

lemma bb_init_ready:
  assumes "0 < n"
  shows "bb_ready (bb_init zero True n) \<and> bb_contents (bb_init zero True n) = [] \<and>
    bb_capacity (bb_init zero True n) = nat n \<and> bb_budget (bb_init zero True n) = nat INT_MAX"
proof -
  have "bb_seq (nat n) (bb_init zero True n) [] []"
    using assms by (intro bb_seq_intro) (simp_all add: bb_init_def ring_ok_def)
  with assms show ?thesis
    by (auto simp: bb_ready_def bb_contents_def bb_capacity_def bb_budget_def)
      (auto simp: bb_init_def)
qed

section \<open>Threads\<close>

lemma bb_step_no_fault:
  assumes ok: "bs_ok n b ts ins outs" and i: "i < length ts" and n: "0 < n"
    and step: "bb_step (ts ! i) b = Some (r, b')" and r: "\<forall>q. r \<noteq> Ret q"
    and max: "bb_rear b \<le> INT_MAX"
  shows "r = Fault Int_Overflow \<and> bb_rear b = INT_MAX"
proof -
  have c: "counts_ok n b ts (length ins) (length outs)" and ring: "ring_ok n b ins outs"
    and idx: "idx_ok b (ts ! i)" using ok i by (auto simp: bs_ok_def list_all_length)
  have slot: "\<exists>m. bb_slot b (bb_rear b) = Ret m" "\<exists>m. bb_slot b (bb_front b) = Ret m"
    using c ring_slot [OF ring n] unfolding counts_ok_def by metis+
  show ?thesis
  proof (cases "ts ! i")
    case Rem2
    have "0 < cnt claimed ts" using Rem2 by (intro cnt_pos [OF i]) simp
    then have "length outs < length ins" using c by (simp add: counts_ok_def)
    moreover have "cnt rem_mid ts = 0" using mid_zero [OF c i] Rem2 by simp
    moreover have "bb_front b = int (length outs + cnt rem_mid ts)" "int (length ins) \<le> bb_rear b"
      using c by (simp_all add: counts_ok_def)
    ultimately have "bb_front b < bb_rear b" by simp
    with Rem2 step r max show ?thesis by (auto simp: bb_incr_def split: if_splits)
  qed (use step r slot idx in \<open>auto simp: bb_incr_def idx_ok_def split: if_splits\<close>)
qed

lemma rear_max:
  assumes "bs_reach zero n s"
  shows "bb_rear (bs_buf s) \<le> INT_MAX"
  using assms
proof induction
  case (bs_reach_init ps)
  then show ?case by (simp add: bs_init_def bb_init_def)
next
  case (bs_reach_step s i t)
  have keep: "bb_step p b = Some (Ret q, b') \<Longrightarrow> bb_rear b \<le> INT_MAX \<Longrightarrow> bb_rear b' \<le> INT_MAX"
    for p q and b b' :: "'a bbuf"
    by (cases p) (auto simp: bb_incr_def bb_store_def split: if_splits outcome.splits)
  show ?case
    by (rule bs_stepE [OF bs_reach_step.hyps(2)]) (use keep bs_reach_step.IH in \<open>simp add: bs_observe_sel\<close>)
next
  case (bs_reach_spawn s p)
  then show ?case by simp
qed

section \<open>Properties\<close>

text \<open>C8. For any number of threads and any interleaving of their steps, items are removed in
  the order they were inserted, never more than \<open>n\<close> items are in the buffer, and at most one
  thread is between its \<open>P(mutex)\<close> and \<open>V(mutex)\<close>.\<close>

theorem buffer_fifo:
  assumes "bs_reach zero (int n) s" and "0 < n"
  shows "bs_out s = take (length (bs_out s)) (bs_in s) \<and>
    length (bs_in s) - length (bs_out s) \<le> n \<and> cnt in_cs (bs_threads s) \<le> 1"
proof -
  have inv: "bs_inv n s" using bs_reach_inv [OF assms] .
  then show ?thesis
    using counts_bound [of n "bs_buf s" "bs_threads s" "length (bs_in s)" "length (bs_out s)"]
    by (auto simp: bs_inv_def ring_ok_def counts_ok_def)
qed

definition two_threads :: "int bb_sys" where
  "two_threads = bs_init 0 2 [Ins0 5, Rem0]"

text \<open>Schedules of thread indices stay among the reachable states.\<close>

interpretation buffer: interleaving bs_step "bs_reach zero n" for zero n
  by unfold_locales (rule bs_reach_step)

definition two_threads_at :: "nat list \<Rightarrow> int bb_sys" where
  "two_threads_at is = (case schedule bs_step is two_threads of Some t \<Rightarrow> t | None \<Rightarrow> two_threads)"

lemma two_threads_reach: "bs_reach 0 (int 2) (two_threads_at is)"
proof -
  have "bs_reach 0 (int 2) two_threads"
    unfolding two_threads_def using bs_reach_init [of "[Ins0 5, Rem0]" "0 :: int" 2] by simp
  then show ?thesis
    by (auto simp: two_threads_at_def intro: buffer.run_reach split: option.split)
qed

theorem buffer_fifo_witness:
  "bs_out (two_threads_at [0, 0, 0, 0, 0, 0, 1, 1, 1, 1]) = [5] \<and>
   length (bs_in (two_threads_at [0, 0, 0, 0, 0, 0, 1, 1, 1, 1])) -
     length (bs_out (two_threads_at [0, 0, 0, 0, 0, 0, 1, 1, 1, 1])) \<le> 2"
proof
  show "bs_out (two_threads_at [0, 0, 0, 0, 0, 0, 1, 1, 1, 1]) = [5]" by code_simp
  show "length (bs_in (two_threads_at [0, 0, 0, 0, 0, 0, 1, 1, 1, 1])) -
      length (bs_out (two_threads_at [0, 0, 0, 0, 0, 0, 1, 1, 1, 1])) \<le> 2"
    using buffer_fifo [OF two_threads_reach] by simp
qed

text \<open>C9. No step of any thread faults: no index leaves the array, no null pointer is followed,
  as long as \<open>rear\<close> has not reached \<open>INT_MAX\<close>.\<close>

theorem buffer_no_fault:
  assumes "bs_reach zero (int n) s" and "0 < n" and "bb_rear (bs_buf s) < INT_MAX"
    and "bs_step i s = Some r"
  shows "\<exists>t. r = Ret t"
proof -
  have inv: "bs_ok n (bs_buf s) (bs_threads s) (bs_in s) (bs_out s)"
    using bs_reach_inv [OF assms(1,2)] by (simp add: bs_inv_ok)
  obtain q b where i: "i < length (bs_threads s)" and st: "bb_step (bs_threads s ! i) (bs_buf s) = Some (q, b)"
    and r: "r = omap (\<lambda>q. bs_observe (bs_threads s ! i) q
              (s\<lparr>bs_buf := b, bs_threads := (bs_threads s)[i := q]\<rparr>)) q"
    using assms(4) by (auto simp: bs_step_def split: if_splits option.splits prod.splits)
  have "\<exists>p. q = Ret p"
    using bb_step_no_fault [OF inv i assms(2) st] rear_max [OF assms(1)] assms(3) by auto
  with r show ?thesis by auto
qed

theorem buffer_no_fault_witness:
  "\<exists>t. the (bs_step 0 (two_threads_at [0, 0, 0])) = Ret t"
proof (rule buffer_no_fault [OF two_threads_reach])
  show "bs_step 0 (two_threads_at [0, 0, 0]) = Some (the (bs_step 0 (two_threads_at [0, 0, 0])))"
    by code_simp
qed code_simp+

text \<open>C10. The threads deadlock only in the two ways a bounded buffer allows: if none can take
  a step, those that have not returned all wait to insert into a full buffer or all wait to
  remove from an empty one.\<close>

theorem buffer_no_deadlock:
  assumes "bs_reach zero (int n) s" and "0 < n" and "\<forall>i < length (bs_threads s). bs_step i s = None"
  shows "(\<forall>p \<in> set (bs_threads s). (\<exists>r. p = Returned r) \<or> (\<exists>x. p = Ins0 x)) \<and>
      (length (bs_in s) - length (bs_out s) = n \<or> (\<forall>p \<in> set (bs_threads s). \<exists>r. p = Returned r)) \<or>
    (\<forall>p \<in> set (bs_threads s). (\<exists>r. p = Returned r) \<or> p = Rem0) \<and>
      (bs_in s = bs_out s \<or> (\<forall>p \<in> set (bs_threads s). \<exists>r. p = Returned r))"
proof -
  let ?ts = "bs_threads s" and ?b = "bs_buf s"
  have inv: "bs_inv n s" using bs_reach_inv [OF assms(1,2)] .
  have sum: "bb_slots ?b + bb_items ?b = n" and len: "length (bs_in s) = length (bs_out s) + bb_items ?b"
    using bs_stuck(1,2) [OF inv] assms(3) by blast+
  have pcs: "(\<exists>r. p = Returned r) \<or> (\<exists>x. p = Ins0 x) \<and> bb_slots ?b = 0 \<or> p = Rem0 \<and> bb_items ?b = 0"
    if "p \<in> set ?ts" for p
    using bs_stuck(4) [OF inv _ that] assms(3) by blast
  show ?thesis
  proof (cases "bb_items ?b = 0")
    case True
    then have "bb_slots ?b \<noteq> 0" using sum assms(2) by simp
    moreover have "bs_in s = bs_out s" using bs_stuck(3) [OF inv] assms(3) True by blast
    ultimately have "\<forall>p \<in> set ?ts. (\<exists>r. p = Returned r) \<or> p = Rem0" and "bs_in s = bs_out s"
      using pcs by fastforce+
    then show ?thesis by (intro disjI2 conjI disjI1)
  next
    case False
    show ?thesis
    proof (cases "bb_slots ?b = 0")
      case True
      then have full: "length (bs_in s) - length (bs_out s) = n" using len sum by simp
      have "\<forall>p \<in> set ?ts. (\<exists>r. p = Returned r) \<or> (\<exists>x. p = Ins0 x)" using False pcs by fastforce
      with full show ?thesis by (intro disjI1 conjI)
    next
      case False
      with \<open>bb_items ?b \<noteq> 0\<close> have over: "\<forall>p \<in> set ?ts. \<exists>r. p = Returned r" using pcs by fastforce
      then have "\<forall>p \<in> set ?ts. (\<exists>r. p = Returned r) \<or> p = Rem0" by blast
      with over show ?thesis by (intro disjI2 conjI)
    qed
  qed
qed

theorem buffer_no_deadlock_witness:
  "list_all (\<lambda>p. \<exists>r. p = Returned r) (bs_threads (two_threads_at [0, 0, 0, 0, 0, 0, 1, 1, 1, 1, 1, 1]))"
proof -
  define s where "s = two_threads_at [0, 0, 0, 0, 0, 0, 1, 1, 1, 1, 1, 1]"
  have ts: "bs_threads s = [Returned None, Returned (Some 5)]" unfolding s_def by code_simp
  have "bs_step 0 s = None" "bs_step 1 s = None" by (simp_all add: bs_step_def ts)
  then have "\<forall>i < length (bs_threads s). bs_step i s = None" by (simp add: ts less_Suc_eq)
  with buffer_no_deadlock [of 0 2 s] two_threads_reach ts show ?thesis
    unfolding s_def [symmetric] list_all_iff by (auto simp: s_def)
qed

text \<open>C11. Each copy of the buffer, once \<open>calloc\<close> has succeeded and used by one thread, is a queue of capacity \<open>n\<close>: any sequence
  of insertions and removals returns what the list returns, and blocks where the list is
  full or empty (up to \<open>2147483647\<close> insertions).\<close>

theorem buffer_is_queue:
  assumes "0 < n" and "inserts ops \<le> nat INT_MAX" and "inserts lops \<le> nat INT_MAX"
  shows "\<exists>b. sbuf_init True n = Ret b \<and>
      map_option (\<lambda>(xs, t). (xs, bb_contents t)) (ops_run sbuf_insert sbuf_remove ops b) =
        queue_run (nat n) ops [] \<and>
      map_option (\<lambda>(xs, t). (xs, bb_contents t)) (ops_run psbuf_insert psbuf_remove ops (psbuf_init True n)) =
        queue_run (nat n) ops [] \<and>
      map_option (\<lambda>(xs, t). (xs, bb_contents t)) (ops_run logbuf_insert logbuf_remove lops (logbuf_init True n)) =
        queue_run (nat n) lops []"
proof -
  note i = bb_init_ready [OF assms(1)]
  show ?thesis
    using sq.ops_refine [of "bb_init 0 True n" ops] pq.ops_refine [of "bb_init 0 True n" ops]
      lq.ops_refine [of "bb_init None True n" lops] i [of "0 :: int"] i [of "None :: string option"]
      assms(2,3)
    by (simp add: sbuf_init_def psbuf_init_def logbuf_init_def)
qed

theorem buffer_is_queue_witness:
  "map_option (\<lambda>(xs, t). (xs, bb_contents t))
     (ops_run psbuf_insert psbuf_remove [Some 4, Some 5, None, Some 6] (psbuf_init True 2)) =
   Some ([4], [5, 6])"
proof -
  have "queue_run (nat 2) [Some 4, Some 5, None, Some 6] [] = Some ([4 :: int], [5, 6])" by code_simp
  moreover have "inserts [Some 4, Some 5, None, Some (6 :: int)] \<le> nat INT_MAX"
    "inserts [None :: string option option] \<le> nat INT_MAX"
    by (simp_all add: inserts_def cnt_def)
  ultimately show ?thesis
    using buffer_is_queue [of 2 "[Some 4, Some 5, None, Some 6]" "[None]"] by auto
qed

text \<open>The unchecked \<open>calloc\<close> of the proxy's copies: after a failed allocation the first
  insertion dereferences the null pointer.\<close>

theorem buffer_alloc_failure:
  assumes "0 < n"
  shows "map_option fst (psbuf_insert item (psbuf_init False n)) = Some (Fault Null_Deref) \<and>
    map_option fst (logbuf_insert litem (logbuf_init False n)) = Some (Fault Null_Deref)"
  using assms
  by (simp add: psbuf_insert_def psbuf_init_def logbuf_insert_def logbuf_init_def bb_insert_def six
      bb_init_def sem_wait_def bb_incr_def bb_slot_def)

theorem buffer_alloc_failure_witness:
  "map_option fst (psbuf_insert 3 (psbuf_init False 16)) = Some (Fault Null_Deref)"
  by (rule buffer_alloc_failure [THEN conjunct1]) simp

end
