(* ===== verification/Csapp_Base.thy ===== *)
theory Csapp_Base
  imports CString
begin

text \<open>
  The ground of \<open>csapp.c\<close>: the process-wide state its functions touch (\<open>errno\<close>, the two
  standard streams), system calls as parameters, and the error functions, which print a
  message and call \<open>exit(0)\<close>.
\<close>

section \<open>Process state and system calls\<close>

record world =
  w_errno :: int
  w_out :: string    \<comment> \<open>standard output\<close>
  w_err :: string    \<comment> \<open>standard error\<close>

text \<open>A system or library call: its result, and the state with \<open>errno\<close> and its effects.\<close>

type_synonym ('w, 'a) syscall = "'w world_scheme \<Rightarrow> 'a \<times> 'w world_scheme"

definition EINTR :: int where "EINTR = 4"

definition print_out :: "string \<Rightarrow> 'w world_scheme \<Rightarrow> 'w world_scheme" where
  "print_out m s = s\<lparr>w_out := w_out s @ m\<rparr>"

definition print_err :: "string \<Rightarrow> 'w world_scheme \<Rightarrow> 'w world_scheme" where
  "print_err m s = s\<lparr>w_err := w_err s @ m\<rparr>"

lemma print_simps [simp]:
  "w_errno (print_out m s) = w_errno s" "w_err (print_out m s) = w_err s"
  "w_out (print_out m s) = w_out s @ m" "w_errno (print_err m s) = w_errno s"
  "w_err (print_err m s) = w_err s @ m" "w_out (print_err m s) = w_out s"
  by (simp_all add: print_out_def print_err_def)

section \<open>Error-handling functions\<close>

text \<open>\<open>strerror\<close> and \<open>gai_strerror\<close> are the C library's.\<close>

definition unix_error :: "(int \<Rightarrow> string) \<Rightarrow> string \<Rightarrow> ('w world_scheme, 'a) cprog" where
  "unix_error strerror msg s =
     (Exited 0, print_err (msg @ '': '' @ strerror (w_errno s) @ [LF]) s)"

definition posix_error :: "(int \<Rightarrow> string) \<Rightarrow> int \<Rightarrow> string \<Rightarrow> ('w world_scheme, 'a) cprog" where
  "posix_error strerror code msg s =
     (Exited 0, print_err (msg @ '': '' @ strerror code @ [LF]) s)"

definition gai_error :: "(int \<Rightarrow> string) \<Rightarrow> int \<Rightarrow> string \<Rightarrow> ('w world_scheme, 'a) cprog" where
  "gai_error gai_strerror code msg s =
     (Exited 0, print_err (msg @ '': '' @ gai_strerror code @ [LF]) s)"

definition app_error :: "string \<Rightarrow> ('w world_scheme, 'a) cprog" where
  "app_error msg s = (Exited 0, print_err (msg @ [LF]) s)"

definition dns_error :: "string \<Rightarrow> ('w world_scheme, 'a) cprog" where
  "dns_error msg s = (Exited 0, print_err (msg @ [LF]) s)"

section \<open>The shapes of the wrappers\<close>

text \<open>\<open>if ((rc = call(...)) < 0) unix_error(msg); return rc;\<close>\<close>

definition check_neg :: "(int \<Rightarrow> string) \<Rightarrow> string \<Rightarrow> ('w, int) syscall \<Rightarrow> ('w world_scheme, int) cprog" where
  "check_neg strerror msg call s =
     (case call s of (rc, t) \<Rightarrow> if rc < 0 then unix_error strerror msg t else (Ret rc, t))"

text \<open>The same without a result.\<close>

definition check_neg_void :: "(int \<Rightarrow> string) \<Rightarrow> string \<Rightarrow> ('w, int) syscall \<Rightarrow> ('w world_scheme, unit) cprog" where
  "check_neg_void strerror msg call s =
     (case call s of (rc, t) \<Rightarrow> if rc < 0 then unix_error strerror msg t else (Ret (), t))"

text \<open>\<open>if ((p = call(...)) == NULL) unix_error(msg); return p;\<close>\<close>

definition check_null :: "(int \<Rightarrow> string) \<Rightarrow> string \<Rightarrow> ('w, 'p option) syscall \<Rightarrow> ('w world_scheme, 'p option) cprog" where
  "check_null strerror msg call s =
     (case call s of (p, t) \<Rightarrow> if p = None then unix_error strerror msg t else (Ret p, t))"

text \<open>\<open>if ((rc = call(...)) != 0) posix_error(rc, msg);\<close>\<close>

definition check_zero :: "(int \<Rightarrow> string) \<Rightarrow> string \<Rightarrow> ('w, int) syscall \<Rightarrow> ('w world_scheme, unit) cprog" where
  "check_zero strerror msg call s =
     (case call s of (rc, t) \<Rightarrow> if rc \<noteq> 0 then posix_error strerror rc msg t else (Ret (), t))"

definition check_gai :: "(int \<Rightarrow> string) \<Rightarrow> string \<Rightarrow> ('w, int) syscall \<Rightarrow> ('w world_scheme, unit) cprog" where
  "check_gai gai_strerror msg call s =
     (case call s of (rc, t) \<Rightarrow> if rc \<noteq> 0 then gai_error gai_strerror rc msg t else (Ret (), t))"

text \<open>\<open>if ((p = call(...)) == NULL) dns_error(msg); return p;\<close>\<close>

definition check_dns :: "string \<Rightarrow> ('w, 'p option) syscall \<Rightarrow> ('w world_scheme, 'p option) cprog" where
  "check_dns msg call s =
     (case call s of (p, t) \<Rightarrow> if p = None then dns_error msg t else (Ret p, t))"

text \<open>A call that cannot fail.\<close>

definition pass :: "('w, 'a) syscall \<Rightarrow> ('w world_scheme, 'a) cprog" where
  "pass call s = (case call s of (r, t) \<Rightarrow> (Ret r, t))"

lemmas error_defs = unix_error_def posix_error_def gai_error_def app_error_def dns_error_def
lemmas check_defs = check_neg_def check_neg_void_def check_null_def check_zero_def check_gai_def
  check_dns_def pass_def

section \<open>What the shapes have in common\<close>

text \<open>
  A wrapper with failure test \<open>bad\<close> and message \<open>text\<close> either returns what the call
  returned, or prints one line and exits with 0.
\<close>

definition exits_on :: "('a \<Rightarrow> bool) \<Rightarrow> ('a \<Rightarrow> int \<Rightarrow> string) \<Rightarrow> ('a \<Rightarrow> 'b) \<Rightarrow>
    ('w, 'a) syscall \<Rightarrow> ('w world_scheme, 'b) cprog \<Rightarrow> bool" where
  "exits_on bad msg f call wrapper \<longleftrightarrow>
     (\<forall>s. wrapper s =
        (let (r, t) = call s in
         if bad r then (Exited 0, print_err (msg r (w_errno t) @ [LF]) t) else (Ret (f r), t)))"

lemma check_neg_exits:
  "exits_on (\<lambda>r. r < 0) (\<lambda>r e. m @ '': '' @ strerror e) (\<lambda>r. r) call (check_neg strerror m call)"
  by (simp add: exits_on_def check_neg_def unix_error_def split: prod.split)

lemma check_neg_void_exits:
  "exits_on (\<lambda>r. r < 0) (\<lambda>r e. m @ '': '' @ strerror e) (\<lambda>r. ()) call (check_neg_void strerror m call)"
  by (simp add: exits_on_def check_neg_void_def unix_error_def split: prod.split)

lemma check_null_exits:
  "exits_on (\<lambda>p. p = None) (\<lambda>r e. m @ '': '' @ strerror e) (\<lambda>r. r) call (check_null strerror m call)"
  by (simp add: exits_on_def check_null_def unix_error_def split: prod.split)

lemma check_zero_exits:
  "exits_on (\<lambda>r. r \<noteq> 0) (\<lambda>r e. m @ '': '' @ strerror r) (\<lambda>r. ()) call (check_zero strerror m call)"
  by (simp add: exits_on_def check_zero_def posix_error_def split: prod.split)

lemma check_gai_exits:
  "exits_on (\<lambda>r. r \<noteq> 0) (\<lambda>r e. m @ '': '' @ gai_strerror r) (\<lambda>r. ()) call (check_gai gai_strerror m call)"
  by (simp add: exits_on_def check_gai_def gai_error_def split: prod.split)

end
