(* ===== verification/Csapp_Rio.thy ===== *)
theory Csapp_Rio
  imports Csapp_Base
begin

text \<open>
  The robust I/O package of \<open>csapp.c\<close>. A descriptor's future is a script: what \<open>read\<close> will
  find (data in pieces of any length, errors) and how much \<open>write\<close> will take. A short read
  leaves the rest of its piece for the next call; an empty script is end of file.
\<close>

abbreviation MAXLINE :: nat where "MAXLINE \<equiv> 8192"

section \<open>read and write\<close>

datatype rd_event = RdData string | RdErr int
datatype wr_event = WrTake nat | WrErr int

record io = world +
  io_in :: "rd_event list"
  io_plan :: "wr_event list"
  io_sent :: string

text \<open>\<open>read(fd, buf, n)\<close>: the result and the bytes stored in \<open>buf\<close>.\<close>

definition sys_read :: "nat \<Rightarrow> io \<Rightarrow> int \<times> string \<times> io" where
  "sys_read n s =
     (case io_in s of
        [] \<Rightarrow> (0, [], s)
      | RdErr e # evs \<Rightarrow> (- 1, [], s\<lparr>w_errno := e, io_in := evs\<rparr>)
      | RdData d # evs \<Rightarrow>
          (int (min n (length d)), take n d,
           s\<lparr>io_in := (if length d \<le> n then evs else RdData (drop n d) # evs)\<rparr>))"

text \<open>\<open>write(fd, buf, n)\<close> takes as many bytes as the plan says; without a plan, all of them.\<close>

definition sys_write :: "string \<Rightarrow> io \<Rightarrow> int \<times> io" where
  "sys_write d s =
     (case io_plan s of
        [] \<Rightarrow> (int (length d), s\<lparr>io_sent := io_sent s @ d\<rparr>)
      | WrErr e # ws \<Rightarrow> (- 1, s\<lparr>w_errno := e, io_plan := ws\<rparr>)
      | WrTake k # ws \<Rightarrow>
          (int (min k (length d)), s\<lparr>io_sent := io_sent s @ take k d, io_plan := ws\<rparr>))"

section \<open>Unbuffered\<close>

lemma sys_read_bound:
  "sys_read n s = (r, d, t) \<Longrightarrow> r < 0 \<and> length (io_in t) < length (io_in s) \<or>
     r = int (length d) \<and> length d \<le> n \<and> length (io_in t) \<le> length (io_in s)"
  by (auto simp: sys_read_def split: list.splits rd_event.splits if_splits)

lemma sys_write_bound:
  "sys_write d s = (r, t) \<Longrightarrow> (r \<le> 0 \<and> d \<noteq> [] \<longrightarrow> length (io_plan t) < length (io_plan s)) \<and>
     length (io_plan t) \<le> length (io_plan s)"
  by (auto simp: sys_write_def split: list.splits wr_event.splits if_splits)

lemma sys_read_less:
  "sys_read n s = (r, d, t) \<Longrightarrow> 0 < r \<Longrightarrow> n - nat r + length (io_in t) < n + length (io_in s)"
  using sys_read_bound [of n s r d t] by (cases d) auto

lemma sys_write_less:
  "sys_write d s = (r, t) \<Longrightarrow> 0 < r \<Longrightarrow> d \<noteq> [] \<Longrightarrow>
     length d - nat r + length (io_plan t) < length d + length (io_plan s)"
  using sys_write_bound [of d s r t] by (cases d) auto

text \<open>
  The loop of \<open>rio_readn\<close> with \<open>nleft\<close> bytes to go; \<open>buf\<close> is what \<open>usrbuf\<close> holds so far. A
  script is finite, so that reading cannot be interrupted for ever.
\<close>

function rio_readn_loop :: "nat \<Rightarrow> nat \<Rightarrow> string \<Rightarrow> io \<Rightarrow> int \<times> string \<times> io" where
  "rio_readn_loop n nleft buf s =
     (if nleft = 0 then (int n - int nleft, buf, s)
      else case sys_read nleft s of (nread, d, t) \<Rightarrow>
        if nread < 0 then
          (if w_errno t = EINTR then rio_readn_loop n nleft buf t else (- 1, buf, t))
        else if nread = 0 then (int n - int nleft, buf, t)
        else rio_readn_loop n (nleft - nat nread) (buf @ d) t)"
  by pat_completeness auto
termination
  by (relation "measure (\<lambda>(n, nleft, buf, s). nleft + length (io_in s))")
    (auto dest: sys_read_bound [OF sym] sys_write_bound [OF sym] intro: sys_read_less [OF sym] sys_write_less [OF sym])

declare rio_readn_loop.simps [simp del]

definition rio_readn :: "nat \<Rightarrow> io \<Rightarrow> int \<times> string \<times> io" where
  "rio_readn n s = rio_readn_loop n n [] s"

function rio_writen_loop :: "nat \<Rightarrow> string \<Rightarrow> io \<Rightarrow> int \<times> io" where
  "rio_writen_loop n bufp s =
     (if bufp = [] then (int n, s)
      else case sys_write bufp s of (nwritten, t) \<Rightarrow>
        if nwritten \<le> 0 then
          (if w_errno t = EINTR then rio_writen_loop n bufp t else (- 1, t))
        else rio_writen_loop n (drop (nat nwritten) bufp) t)"
  by pat_completeness auto
termination
  by (relation "measure (\<lambda>(n, bufp, s). length bufp + length (io_plan s))")
    (auto dest: sys_read_bound [OF sym] sys_write_bound [OF sym] intro: sys_read_less [OF sym] sys_write_less [OF sym])

declare rio_writen_loop.simps [simp del]

definition rio_writen :: "string \<Rightarrow> io \<Rightarrow> int \<times> io" where
  "rio_writen d s = rio_writen_loop (length d) d s"

section \<open>Buffered\<close>

abbreviation RIO_BUFSIZE :: nat where "RIO_BUFSIZE \<equiv> 8192"

record rio_t =
  rio_fd :: int
  rio_cnt :: int
  rio_bufptr :: nat     \<comment> \<open>offset of the next unread byte in \<open>rio_buf\<close>\<close>
  rio_buf :: string

text \<open>\<open>rio_t\<close> is a local variable of its callers: \<open>rio_buf\<close> starts indeterminate.\<close>

definition rio_readinitb :: "int \<Rightarrow> rio_t \<Rightarrow> rio_t" where
  "rio_readinitb fd rp = rp\<lparr>rio_fd := fd, rio_cnt := 0, rio_bufptr := 0\<rparr>"

text \<open>\<open>read\<close> into the internal buffer overwrites its first bytes.\<close>

definition overwrite :: "string \<Rightarrow> string \<Rightarrow> string" where
  "overwrite d buf = d @ drop (length d) buf"

text \<open>The refill loop of \<open>rio_read\<close>: -1 and 0 make it return, 1 goes on to the copy.\<close>

function rio_fill :: "rio_t \<Rightarrow> io \<Rightarrow> int \<times> rio_t \<times> io" where
  "rio_fill rp s =
     (if rio_cnt rp \<le> 0 then
        (case sys_read RIO_BUFSIZE s of (r, d, t) \<Rightarrow>
           let rp' = rp\<lparr>rio_cnt := r, rio_buf := overwrite d (rio_buf rp)\<rparr>
           in if r < 0 then (if w_errno t \<noteq> EINTR then (- 1, rp', t) else rio_fill rp' t)
              else if r = 0 then (0, rp', t)
              else (1, rp'\<lparr>rio_bufptr := 0\<rparr>, t))
      else (1, rp, s))"
  by pat_completeness auto
termination
  by (relation "measure (\<lambda>(rp, s). length (io_in s))")
    (auto dest: sys_read_bound [OF sym] sys_write_bound [OF sym] intro: sys_read_less [OF sym] sys_write_less [OF sym])

declare rio_fill.simps [simp del]

definition rio_read :: "nat \<Rightarrow> rio_t \<times> io \<Rightarrow> int \<times> string \<times> rio_t \<times> io" where
  "rio_read n st =
     (case rio_fill (fst st) (snd st) of (go, rp, s) \<Rightarrow>
        if go \<le> 0 then (go, [], rp, s)
        else
          (let cnt = min n (nat (rio_cnt rp))
           in (int cnt, take cnt (drop (rio_bufptr rp) (rio_buf rp)),
               rp\<lparr>rio_bufptr := rio_bufptr rp + cnt, rio_cnt := rio_cnt rp - int cnt\<rparr>, s)))"

text \<open>
  The loops of \<open>rio_readnb\<close> and \<open>rio_readlineb\<close>, over any function in the place of
  \<open>rio_read\<close>; the second component of a result is what was stored in \<open>usrbuf\<close>.
\<close>

function readnb_loop :: "(nat \<Rightarrow> 's \<Rightarrow> int \<times> string \<times> 's) \<Rightarrow> nat \<Rightarrow> nat \<Rightarrow> string \<Rightarrow> 's \<Rightarrow> int \<times> string \<times> 's" where
  "readnb_loop rd n nleft buf s =
     (if nleft = 0 then (int n - int nleft, buf, s)
      else case rd nleft s of (nread, d, t) \<Rightarrow>
        if nread < 0 then (- 1, buf, t)
        else if nread = 0 then (int n - int nleft, buf, t)
        else readnb_loop rd n (nleft - nat nread) (buf @ d) t)"
  by pat_completeness auto
termination
  by (relation "measure (\<lambda>(rd, n, nleft, buf, s). nleft)") auto

declare readnb_loop.simps [simp del]

definition rio_readnb :: "nat \<Rightarrow> rio_t \<times> io \<Rightarrow> int \<times> string \<times> rio_t \<times> io" where
  "rio_readnb n st = readnb_loop rio_read n n [] st"

function readlineb_loop :: "(nat \<Rightarrow> 's \<Rightarrow> int \<times> string \<times> 's) \<Rightarrow> nat \<Rightarrow> nat \<Rightarrow> string \<Rightarrow> 's \<Rightarrow> int \<times> string \<times> 's" where
  "readlineb_loop rd maxlen n buf s =
     (if n < maxlen then
        (case rd 1 s of (rc, d, t) \<Rightarrow>
           if rc = 1 then
             (if d = [LF] then (int n, buf @ d @ [NUL], t)
              else readlineb_loop rd maxlen (Suc n) (buf @ d) t)
           else if rc = 0 then
             (if n = 1 then (0, buf, t) else (int n - 1, buf @ [NUL], t))
           else (- 1, buf, t))
      else (int n - 1, buf @ [NUL], s))"
  by pat_completeness auto
termination
  by (relation "measure (\<lambda>(rd, maxlen, n, buf, s). maxlen - n)") auto

declare readlineb_loop.simps [simp del]

text \<open>\<open>n\<close> counts up to \<open>maxlen\<close>, which the callers keep far below \<open>INT_MAX\<close>.\<close>

definition rio_readlineb :: "nat \<Rightarrow> rio_t \<times> io \<Rightarrow> int \<times> string \<times> rio_t \<times> io" where
  "rio_readlineb maxlen st = readlineb_loop rio_read maxlen 1 [] st"

section \<open>The wrappers\<close>

definition Rio_readn :: "(int \<Rightarrow> string) \<Rightarrow> nat \<Rightarrow> (io, int \<times> string) cprog" where
  "Rio_readn strerror nbytes s =
     (case rio_readn nbytes s of (n, d, t) \<Rightarrow>
        if n < 0 then unix_error strerror ''Rio_readn error'' t else (Ret (n, d), t))"

definition Rio_writen :: "(int \<Rightarrow> string) \<Rightarrow> string \<Rightarrow> (io, unit) cprog" where
  "Rio_writen strerror usrbuf s =
     (case rio_writen usrbuf s of (r, t) \<Rightarrow>
        if r \<noteq> int (length usrbuf) then unix_error strerror ''Rio_writen error'' t else (Ret (), t))"

definition Rio_readinitb :: "int \<Rightarrow> rio_t \<Rightarrow> rio_t" where
  "Rio_readinitb fd rp = rio_readinitb fd rp"

definition on_io :: "(io, 'a) cprog \<Rightarrow> (rio_t \<times> io, 'a) cprog" where
  "on_io m st = (case m (snd st) of (r, s) \<Rightarrow> (r, (fst st, s)))"

definition Rio_readnb :: "(int \<Rightarrow> string) \<Rightarrow> nat \<Rightarrow> (rio_t \<times> io, int \<times> string) cprog" where
  "Rio_readnb strerror n st =
     (case rio_readnb n st of (rc, d, st') \<Rightarrow>
        if rc < 0 then on_io (unix_error strerror ''Rio_readnb error'') st' else (Ret (rc, d), st'))"

definition Rio_readlineb :: "(int \<Rightarrow> string) \<Rightarrow> nat \<Rightarrow> (rio_t \<times> io, int \<times> string) cprog" where
  "Rio_readlineb strerror maxlen st =
     (case rio_readlineb maxlen st of (rc, d, st') \<Rightarrow>
        if rc < 0 then on_io (unix_error strerror ''Rio_readlineb error'') st' else (Ret (rc, d), st'))"

end
