(* ===== verification/Rio_Proofs.thy ===== *)
theory Rio_Proofs
  imports Csapp_Rio
begin

text \<open>
  What the robust I/O package promises: however \<open>read\<close> and \<open>write\<close> cut the data and however
  often they are interrupted, \<open>rio_readn\<close> and \<open>rio_writen\<close> move exactly the bytes asked for,
  and the buffered functions are a faithful view of the same byte stream.
\<close>

section \<open>The bytes of a script\<close>

fun stream :: "rd_event list \<Rightarrow> string" where
  "stream [] = []"
| "stream (RdData d # evs) = d @ stream evs"
| "stream (RdErr e # evs) = stream evs"

text \<open>Only interruptions, and no empty read before the end of file.\<close>

fun quiet :: "rd_event list \<Rightarrow> bool" where
  "quiet [] = True"
| "quiet (RdData d # evs) = (d \<noteq> [] \<and> quiet evs)"
| "quiet (RdErr e # evs) = (e = EINTR \<and> quiet evs)"

lemma sys_read_quietE:
  assumes "quiet (io_in s)" and "0 < n"
  obtains t where "sys_read n s = (0, [], t)" and "t = s" and "stream (io_in s) = []"
  | t where "sys_read n s = (- 1, [], t)" and "w_errno t = EINTR" and "quiet (io_in t)"
      and "stream (io_in t) = stream (io_in s)"
  | k t where "sys_read n s = (int k, take k (stream (io_in s)), t)" and "0 < k" and "k \<le> n"
      and "k \<le> length (stream (io_in s))" and "quiet (io_in t)"
      and "stream (io_in t) = drop k (stream (io_in s))"
proof (cases "io_in s")
  case Nil
  then show ?thesis using that(1) [of s] by (simp add: sys_read_def)
next
  case (Cons ev evs)
  show ?thesis
  proof (cases ev)
    case (RdErr e)
    with Cons assms(1) show ?thesis using that(2) by (simp add: sys_read_def)
  next
    case (RdData d)
    then have d: "d \<noteq> []" "quiet evs" using Cons assms(1) by auto
    define k where "k = min n (length d)"
    define t where "t = s\<lparr>io_in := (if length d \<le> n then evs else RdData (drop n d) # evs)\<rparr>"
    have 1: "sys_read n s = (int k, take k (stream (io_in s)), t)"
      using Cons RdData by (simp add: sys_read_def k_def t_def min_def)
    have 2: "0 < k" "k \<le> n" "k \<le> length (stream (io_in s))"
      using assms(2) d Cons RdData by (auto simp: k_def)
    have 3: "quiet (io_in t)" "stream (io_in t) = drop k (stream (io_in s))"
      using Cons RdData d by (auto simp: k_def t_def)
    show ?thesis by (rule that(3) [OF 1 2 3])
  qed
qed

section \<open>rio_readn\<close>

lemma rio_readn_loop_quiet:
  assumes "quiet (io_in s)" and "nleft \<le> n"
  shows "\<exists>t. rio_readn_loop n nleft buf s =
      (int (n - nleft + min nleft (length (stream (io_in s)))), buf @ take nleft (stream (io_in s)), t) \<and>
    quiet (io_in t) \<and> stream (io_in t) = drop nleft (stream (io_in s))"
  using assms
proof (induction n nleft buf s rule: rio_readn_loop.induct)
  case (1 n nleft buf s)
  show ?case
  proof (cases "nleft = 0")
    case True
    with "1.prems" show ?thesis by (subst rio_readn_loop.simps) simp
  next
    case False
    then have pos: "0 < nleft" by simp
    show ?thesis
    proof (cases rule: sys_read_quietE [OF "1.prems"(1) pos])
      case (1 t)
      with False "1.prems" show ?thesis
        by (subst rio_readn_loop.simps) (simp add: of_nat_diff)
    next
      case (2 t)
      have "\<exists>u. rio_readn_loop n nleft buf t =
          (int (n - nleft + min nleft (length (stream (io_in t)))), buf @ take nleft (stream (io_in t)), u) \<and>
          quiet (io_in u) \<and> stream (io_in u) = drop nleft (stream (io_in t))"
        using "1.IH"(1) [OF False 2(1) [symmetric] refl _ 2(2) 2(3) "1.prems"(2)] by simp
      with 2 False show ?thesis by (subst rio_readn_loop.simps) simp
    next
      case (3 k t)
      let ?st = "stream (io_in s)" and ?d = "take k (stream (io_in s))"
      have le: "nleft - k \<le> n" using "1.prems"(2) by simp
      obtain u where u: "rio_readn_loop n (nleft - k) (buf @ ?d) t =
          (int (n - (nleft - k) + min (nleft - k) (length (drop k ?st))),
           (buf @ ?d) @ take (nleft - k) (drop k ?st), u)"
        "quiet (io_in u)" "stream (io_in u) = drop (nleft - k) (drop k ?st)"
        using "1.IH"(2) [OF False 3(1) [symmetric] refl _ _ 3(5)] le 3(2,6) by auto
      have "rio_readn_loop n nleft buf s = rio_readn_loop n (nleft - k) (buf @ ?d) t"
        using 3(1,2) False by (subst rio_readn_loop.simps) simp
      moreover have "n - (nleft - k) + min (nleft - k) (length (drop k ?st)) =
          n - nleft + min nleft (length ?st)"
        using 3(3,4) "1.prems"(2) by (simp add: min_def) arith
      moreover have "?d @ take (nleft - k) (drop k ?st) = take nleft ?st"
        using 3(3) take_add [of k "nleft - k" ?st] by simp
      moreover have "drop (nleft - k) (drop k ?st) = drop nleft ?st" using 3(3) by simp
      ultimately show ?thesis using u by (metis append_assoc)
    qed
  qed
qed

lemma rio_readn_quiet:
  assumes "quiet (io_in s)"
  shows "\<exists>t. rio_readn n s = (int (min n (length (stream (io_in s)))), take n (stream (io_in s)), t) \<and>
    quiet (io_in t) \<and> stream (io_in t) = drop n (stream (io_in s))"
  using rio_readn_loop_quiet [OF assms order.refl, of n "[]"] by (simp add: rio_readn_def)

section \<open>rio_writen\<close>

text \<open>\<open>write\<close> is interrupted or takes something.\<close>

fun wr_quiet :: "wr_event list \<Rightarrow> bool" where
  "wr_quiet [] = True"
| "wr_quiet (WrTake k # ws) = (0 < k \<and> wr_quiet ws)"
| "wr_quiet (WrErr e # ws) = (e = EINTR \<and> wr_quiet ws)"

lemma rio_writen_loop_quiet:
  assumes "wr_quiet (io_plan s)"
  shows "\<exists>t. rio_writen_loop n bufp s = (int n, t) \<and> io_sent t = io_sent s @ bufp \<and>
    wr_quiet (io_plan t) \<and> io_in t = io_in s \<and> w_err t = w_err s"
  using assms
proof (induction n bufp s rule: rio_writen_loop.induct)
  case (1 n bufp s)
  show ?case
  proof (cases "bufp = []")
    case True
    with "1.prems" show ?thesis by (subst rio_writen_loop.simps) simp
  next
    case False
    obtain r t where rt: "sys_write bufp s = (r, t)" by fastforce
    show ?thesis
    proof (cases "io_plan s")
      case Nil
      with rt False have "rio_writen_loop n bufp s = rio_writen_loop n [] t"
        by (subst rio_writen_loop.simps) (auto simp: sys_write_def)
      moreover have "rio_writen_loop n [] t = (int n, t)" by (subst rio_writen_loop.simps) simp
      ultimately show ?thesis using rt Nil by (auto simp: sys_write_def)
    next
      case (Cons w ws)
      show ?thesis
      proof (cases w)
        case (WrErr e)
        then have t: "t = s\<lparr>w_errno := EINTR, io_plan := ws\<rparr>" "r = - 1" "wr_quiet ws"
          using rt Cons "1.prems" by (auto simp: sys_write_def)
        have "rio_writen_loop n bufp s = rio_writen_loop n bufp t"
          using rt t False by (subst rio_writen_loop.simps) simp
        with "1.IH"(1) [OF False rt [symmetric]] t show ?thesis by simp
      next
        case (WrTake k)
        then have t: "t = s\<lparr>io_sent := io_sent s @ take k bufp, io_plan := ws\<rparr>"
          "r = int (min k (length bufp))" "0 < k" "wr_quiet ws"
          using rt Cons "1.prems" by (auto simp: sys_write_def)
        then have r: "\<not> r \<le> 0" using False by simp
        have "rio_writen_loop n bufp s = rio_writen_loop n (drop (nat r) bufp) t"
          using rt r False by (subst rio_writen_loop.simps) simp
        moreover have "take k bufp @ drop (nat r) bufp = bufp"
          using t by (simp add: min_def)
        ultimately show ?thesis using "1.IH"(2) [OF False rt [symmetric] r] t by auto
      qed
    qed
  qed
qed

lemma rio_writen_quiet:
  assumes "wr_quiet (io_plan s)"
  shows "\<exists>t. rio_writen d s = (int (length d), t) \<and> io_sent t = io_sent s @ d \<and>
    wr_quiet (io_plan t) \<and> io_in t = io_in s \<and> w_err t = w_err s"
  unfolding rio_writen_def by (rule rio_writen_loop_quiet [OF assms])

section \<open>Byte sources\<close>

text \<open>
  A function that delivers the next bytes of what is left, some but not necessarily as many
  as asked for: the contract of \<open>rio_read\<close> towards \<open>rio_readnb\<close> and \<open>rio_readlineb\<close>.
\<close>

locale byte_source =
  fixes rd :: "nat \<Rightarrow> 's \<Rightarrow> int \<times> string \<times> 's"
    and rest :: "'s \<Rightarrow> string"
    and ok :: "'s \<Rightarrow> bool"
  assumes rd_some: "ok s \<Longrightarrow> rest s \<noteq> [] \<Longrightarrow> 0 < n \<Longrightarrow>
      \<exists>k t. rd n s = (int k, take k (rest s), t) \<and> 0 < k \<and> k \<le> n \<and> k \<le> length (rest s) \<and>
        ok t \<and> rest t = drop k (rest s)"
    and rd_eof: "ok s \<Longrightarrow> rest s = [] \<Longrightarrow> 0 < n \<Longrightarrow> \<exists>t. rd n s = (0, [], t) \<and> ok t \<and> rest t = []"

text \<open>The next line, its newline included, of at most \<open>m\<close> bytes.\<close>

fun take_line :: "nat \<Rightarrow> string \<Rightarrow> string" where
  "take_line 0 s = []"
| "take_line (Suc m) [] = []"
| "take_line (Suc m) (c # cs) = (if c = LF then [LF] else c # take_line m cs)"

lemma take_line_prefix: "take_line m s @ drop (length (take_line m s)) s = s"
  by (induction m s rule: take_line.induct) auto

lemma take_line_length: "length (take_line m s) \<le> m"
  by (induction m s rule: take_line.induct) auto

lemma take_line_Nil_iff: "take_line m s = [] \<longleftrightarrow> m = 0 \<or> s = []"
  by (cases "(m, s)" rule: take_line.cases) auto

context byte_source
begin

lemma readnb_loop_all:
  assumes "ok s" and "nleft \<le> n"
  shows "\<exists>t. readnb_loop rd n nleft buf s =
      (int (n - nleft + min nleft (length (rest s))), buf @ take nleft (rest s), t) \<and>
    ok t \<and> rest t = drop nleft (rest s)"
  using assms
proof (induction nleft arbitrary: buf s rule: less_induct)
  case (less nleft)
  show ?case
  proof (cases "nleft = 0")
    case True
    with less.prems show ?thesis by (subst readnb_loop.simps) simp
  next
    case False
    then have pos: "0 < nleft" by simp
    show ?thesis
    proof (cases "rest s = []")
      case True
      with rd_eof [OF less.prems(1) True pos] less.prems(2) False show ?thesis
        by (subst readnb_loop.simps) (auto simp: of_nat_diff)
    next
      case some: False
      obtain k t where k: "rd nleft s = (int k, take k (rest s), t)" "0 < k" "k \<le> nleft"
        "k \<le> length (rest s)" "ok t" "rest t = drop k (rest s)"
        using rd_some [OF less.prems(1) some pos] by blast
      have lt: "nleft - k < nleft" and le: "nleft - k \<le> n" using k(2) pos less.prems(2) by simp_all
      obtain u where u: "readnb_loop rd n (nleft - k) (buf @ take k (rest s)) t =
          (int (n - (nleft - k) + min (nleft - k) (length (rest t))),
           (buf @ take k (rest s)) @ take (nleft - k) (rest t), u)"
        "ok u" "rest u = drop (nleft - k) (rest t)"
        using less.IH [OF lt k(5) le, of "buf @ take k (rest s)"] by blast
      have "readnb_loop rd n nleft buf s = readnb_loop rd n (nleft - k) (buf @ take k (rest s)) t"
        using k(1,2) False by (subst readnb_loop.simps) simp
      moreover have "n - (nleft - k) + min (nleft - k) (length (rest t)) =
          n - nleft + min nleft (length (rest s))"
        using k less.prems(2) by (simp add: min_def) arith
      moreover have "take k (rest s) @ take (nleft - k) (rest t) = take nleft (rest s)"
        using k(3,6) take_add [of k "nleft - k" "rest s"] by simp
      moreover have "drop (nleft - k) (rest t) = drop nleft (rest s)" using k(3,6) by simp
      ultimately show ?thesis using u by (metis append_assoc)
    qed
  qed
qed

lemma rd_one:
  assumes "ok s" and "rest s = c # cs"
  shows "\<exists>t. rd 1 s = (1, [c], t) \<and> ok t \<and> rest t = cs"
  using rd_some [OF assms(1), of 1] assms(2) by (auto simp: le_Suc_eq)

lemma readlineb_loop_line:
  assumes "ok s" and "1 \<le> n"
  shows "\<exists>t. readlineb_loop rd maxlen n buf s =
      (if n = 1 \<and> 1 < maxlen \<and> rest s = [] then (0, buf, t)
       else (int (n - 1 + length (take_line (maxlen - n) (rest s))),
             buf @ take_line (maxlen - n) (rest s) @ [NUL], t)) \<and>
    ok t \<and> rest t = drop (length (take_line (maxlen - n) (rest s))) (rest s)"
  using assms
proof (induction "maxlen - n" arbitrary: n buf s)
  case 0
  then show ?case by (subst readlineb_loop.simps) (simp add: of_nat_diff)
next
  case (Suc m)
  then have lt: "n < maxlen" by simp
  show ?case
  proof (cases "rest s")
    case Nil
    with rd_eof [OF Suc.prems(1) Nil, of 1] lt Suc.hyps(2) [symmetric] Suc.prems(2) show ?thesis
      by (subst readlineb_loop.simps) (auto simp: of_nat_diff)
  next
    case (Cons c cs)
    obtain t where t: "rd 1 s = (1, [c], t)" "ok t" "rest t = cs"
      using rd_one [OF Suc.prems(1) Cons] by blast
    show ?thesis
    proof (cases "c = LF")
      case True
      with t lt Cons Suc.hyps(2) [symmetric] Suc.prems(2) show ?thesis
        by (subst readlineb_loop.simps) (simp add: of_nat_diff)
    next
      case False
      have m: "m = maxlen - Suc n" using Suc.hyps(2) by simp
      have "readlineb_loop rd maxlen n buf s = readlineb_loop rd maxlen (Suc n) (buf @ [c]) t"
        using t False lt by (subst readlineb_loop.simps) simp
      with Suc.hyps(1) [OF m t(2), of "buf @ [c]"] t(3) Cons False Suc.hyps(2) [symmetric] m Suc.prems(2)
      show ?thesis by auto
    qed
  qed
qed

end

section \<open>The internal buffer\<close>

definition rio_rest :: "rio_t \<times> io \<Rightarrow> string" where
  "rio_rest st =
     take (nat (rio_cnt (fst st))) (drop (rio_bufptr (fst st)) (rio_buf (fst st))) @
     stream (io_in (snd st))"

definition rio_ok :: "rio_t \<times> io \<Rightarrow> bool" where
  "rio_ok st \<longleftrightarrow> quiet (io_in (snd st)) \<and>
     rio_bufptr (fst st) + nat (rio_cnt (fst st)) \<le> length (rio_buf (fst st))"

lemma rio_fill_quiet:
  assumes "quiet (io_in s)" and "rio_cnt rp \<le> 0"
  shows "\<exists>go rp' t. rio_fill rp s = (go, rp', t) \<and> quiet (io_in t) \<and>
    (if stream (io_in s) = [] then go = 0 \<and> rio_cnt rp' = 0 \<and> rio_bufptr rp' = rio_bufptr rp \<and>
        length (rio_buf rp') = length (rio_buf rp) \<and> stream (io_in t) = []
     else go = 1 \<and> 0 < rio_cnt rp' \<and> rio_bufptr rp' = 0 \<and>
        nat (rio_cnt rp') \<le> length (rio_buf rp') \<and>
        take (nat (rio_cnt rp')) (rio_buf rp') @ stream (io_in t) = stream (io_in s))"
  using assms
proof (induction rp s rule: rio_fill.induct)
  case (1 rp s)
  show ?case
  proof (cases rule: sys_read_quietE [OF "1.prems"(1), of RIO_BUFSIZE, simplified])
    case (1 t)
    with "1.prems" show ?thesis by (subst rio_fill.simps) (simp add: overwrite_def)
  next
    case (2 t)
    let ?rp = "rp\<lparr>rio_cnt := - 1, rio_buf := overwrite [] (rio_buf rp)\<rparr>"
    have "rio_fill rp s = rio_fill ?rp t"
      using 2 "1.prems"(2) by (subst rio_fill.simps) simp
    moreover have "rio_buf ?rp = rio_buf rp" by (simp add: overwrite_def)
    ultimately show ?thesis
      using "1.IH" [OF "1.prems"(2) 2(1) [symmetric] refl refl _ _ 2(3)] 2
      by (cases "stream (io_in s) = []") simp_all
  next
    case (3 k t)
    define d where "d = take k (stream (io_in s))"
    have len: "length d = k" "stream (io_in s) \<noteq> []" using 3(2,4) by (auto simp: d_def)
    have "rio_fill rp s =
        (1, rp\<lparr>rio_cnt := int k, rio_buf := overwrite d (rio_buf rp), rio_bufptr := 0\<rparr>, t)"
      using 3(1,2) "1.prems"(2) by (subst rio_fill.simps) (simp add: d_def)
    with 3 len show ?thesis by (simp add: overwrite_def) (simp add: d_def)
  qed
qed

lemma rio_read_some:
  assumes "rio_ok st" and "rio_rest st \<noteq> []" and "0 < n"
  shows "\<exists>k t. rio_read n st = (int k, take k (rio_rest st), t) \<and> 0 < k \<and> k \<le> n \<and>
    k \<le> length (rio_rest st) \<and> rio_ok t \<and> rio_rest t = drop k (rio_rest st)"
proof -
  obtain rp s where st: "st = (rp, s)" by (cases st)
  obtain go rp' t where f: "rio_fill rp s = (go, rp', t)" "go = 1" "0 < rio_cnt rp'" "rio_ok (rp', t)"
    "rio_rest (rp', t) = rio_rest st"
  proof (cases "rio_cnt rp \<le> 0")
    case False
    then have "rio_fill rp s = (1, rp, s)" by (subst rio_fill.simps) simp
    with False show thesis using that [of 1 rp s] assms(1) st by simp
  next
    case True
    then have "stream (io_in s) \<noteq> []" "quiet (io_in s)"
      using assms st by (simp_all add: rio_rest_def rio_ok_def)
    then show thesis using that rio_fill_quiet [of s rp] True st
      by (auto simp: rio_rest_def rio_ok_def)
  qed
  define k where "k = min n (nat (rio_cnt rp'))"
  define data where "data = take (nat (rio_cnt rp')) (drop (rio_bufptr rp') (rio_buf rp'))"
  have len: "length data = nat (rio_cnt rp')" using f(4) by (auto simp: data_def rio_ok_def)
  have rest: "rio_rest st = data @ stream (io_in t)" using f(5) by (simp add: rio_rest_def data_def)
  let ?rp = "rp'\<lparr>rio_bufptr := rio_bufptr rp' + k, rio_cnt := rio_cnt rp' - int k\<rparr>"
  have kk: "k \<le> nat (rio_cnt rp')" "0 < k" "k \<le> n" using f(3) assms(3) by (auto simp: k_def)
  have "rio_read n st = (int k, take k (drop (rio_bufptr rp') (rio_buf rp')), ?rp, t)"
    using f st by (simp add: rio_read_def Let_def k_def)
  also have "take k (drop (rio_bufptr rp') (rio_buf rp')) = take k (rio_rest st)"
    using kk len rest by (simp add: data_def)
  finally have "rio_read n st = (int k, take k (rio_rest st), ?rp, t)" .
  moreover have "rio_ok (?rp, t)" using f(4) kk by (auto simp: rio_ok_def nat_diff_distrib)
  moreover have "rio_rest (?rp, t) = drop k (rio_rest st)"
    using kk len rest
    by (simp add: rio_rest_def data_def drop_take nat_diff_distrib add.commute)
  moreover have "k \<le> length (rio_rest st)" using kk len rest by simp
  ultimately show ?thesis using kk by blast
qed

lemma rio_read_eof:
  assumes "rio_ok st" and "rio_rest st = []" and "0 < n"
  shows "\<exists>t. rio_read n st = (0, [], t) \<and> rio_ok t \<and> rio_rest t = []"
proof -
  obtain rp s where st: "st = (rp, s)" by (cases st)
  have e: "stream (io_in s) = []" "quiet (io_in s)" "rio_cnt rp \<le> 0"
    using assms st by (auto simp: rio_rest_def rio_ok_def)
  with rio_fill_quiet [OF e(2,3)] st assms(1) show ?thesis
    by (auto simp: rio_read_def rio_ok_def rio_rest_def)
qed

interpretation rb: byte_source rio_read rio_rest rio_ok
  by unfold_locales (rule rio_read_some rio_read_eof; assumption)+

lemma rio_init:
  "quiet (io_in s) \<Longrightarrow> rio_ok (rio_readinitb fd rp, s) \<and> rio_rest (rio_readinitb fd rp, s) = stream (io_in s)"
  by (simp add: rio_ok_def rio_rest_def rio_readinitb_def)

end
