(* ===== verification/Rio_Props.thy ===== *)
theory Rio_Props
  imports Rio_Proofs
begin

text \<open>
  The properties of the robust I/O package of \<open>csapp.c\<close>, stated on the bytes of a script
  whose reads come in any pieces and are interrupted any number of times.
\<close>

definition demo_io :: io where
  "demo_io = \<lparr>w_errno = 0, w_out = [], w_err = [],
     io_in = [RdData ''ab'', RdErr EINTR, RdData [CHR ''c'', LF, CHR ''d''], RdErr EINTR],
     io_plan = [WrTake 1, WrErr EINTR, WrTake 5], io_sent = []\<rparr>"

definition fresh_rio :: rio_t where
  "fresh_rio = rio_readinitb 3 \<lparr>rio_fd = 0, rio_cnt = 0, rio_bufptr = 0, rio_buf = []\<rparr>"

lemma demo_ok: "rio_ok (fresh_rio, demo_io)" "rio_rest (fresh_rio, demo_io) = ''abc'' @ [LF] @ ''d''"
  by (simp_all add: demo_io_def fresh_rio_def rio_ok_def rio_rest_def rio_readinitb_def)

text \<open>C14. \<open>rio_readn\<close> returns exactly the next \<open>n\<close> bytes of the stream, fewer only at the end
  of file, and leaves the rest for the next call: short reads and interruptions are
  invisible.\<close>

theorem rio_readn_exact:
  assumes "quiet (io_in s)"
  shows "\<exists>t. rio_readn n s = (int (min n (length (stream (io_in s)))), take n (stream (io_in s)), t) \<and>
    quiet (io_in t) \<and> stream (io_in t) = drop n (stream (io_in s))"
  using assms by (rule rio_readn_quiet)

theorem rio_readn_exact_witness:
  "\<exists>t. rio_readn 3 demo_io = (3, ''abc'', t) \<and> stream (io_in t) = [LF] @ ''d''"
  using rio_readn_exact [of demo_io 3] by (auto simp: demo_io_def)

text \<open>C15. \<open>rio_writen\<close> sends every byte once and in order and returns their number, however
  few bytes each \<open>write\<close> takes; \<open>Rio_writen\<close> then returns.\<close>

theorem rio_writen_exact:
  assumes "wr_quiet (io_plan s)"
  shows "\<exists>t. rio_writen d s = (int (length d), t) \<and> Rio_writen strerror d s = (Ret (), t) \<and>
    io_sent t = io_sent s @ d"
  using rio_writen_quiet [OF assms, of d] by (auto simp: Rio_writen_def)

theorem rio_writen_exact_witness:
  "\<exists>t. rio_writen ''hello'' demo_io = (5, t) \<and> io_sent t = ''hello''"
  using rio_writen_exact [of demo_io "''hello''" "\<lambda>e. ''''"] by (auto simp: demo_io_def)

text \<open>C12. The buffered functions read the same stream: \<open>rio_readnb\<close> delivers the next \<open>n\<close> bytes,
  and \<open>rio_readlineb\<close> the next line, cut at \<open>maxlen - 1\<close> bytes and terminated by a null
  character, or 0 and nothing at the end of file; what is left over stays available to both.\<close>

theorem rio_buffered_exact:
  assumes "rio_ok st"
  shows "(\<exists>t. rio_readnb n st = (int (min n (length (rio_rest st))), take n (rio_rest st), t) \<and>
      rio_ok t \<and> rio_rest t = drop n (rio_rest st)) \<and>
    (\<exists>t. rio_readlineb maxlen st =
        (let line = take_line (maxlen - 1) (rio_rest st) in
         if 1 < maxlen \<and> rio_rest st = [] then (0, [], t) else (int (length line), line @ [NUL], t)) \<and>
      rio_ok t \<and> take_line (maxlen - 1) (rio_rest st) @ rio_rest t = rio_rest st)"
proof -
  have "take_line m (rio_rest st) @ drop (length (take_line m (rio_rest st))) (rio_rest st) = rio_rest st" for m
    by (rule take_line_prefix)
  then show ?thesis
    using rb.readnb_loop_all [OF assms order.refl, of n "[]"]
      rb.readlineb_loop_line [OF assms order.refl, of maxlen "[]"]
    by (auto simp: rio_readnb_def rio_readlineb_def Let_def)
qed

theorem rio_buffered_exact_witness:
  "\<exists>t. rio_readlineb 10 (fresh_rio, demo_io) = (4, ''abc'' @ [LF, NUL], t) \<and> rio_rest t = ''d''"
proof -
  have "take_line 9 (rio_rest (fresh_rio, demo_io)) = ''abc'' @ [LF]"
    by (simp add: demo_ok eval_nat_numeral)
  with rio_buffered_exact [OF demo_ok(1), of 0 10] show ?thesis by (auto simp: demo_ok Let_def)
qed

lemma rio_readn_loop_error:
  assumes "io_in s = a @ RdErr e # b" and "quiet a" and "e \<noteq> EINTR" and "length (stream a) < nleft"
  shows "\<exists>buf' t. rio_readn_loop n nleft buf s = (- 1, buf', t) \<and> w_errno t = e \<and> io_in t = b"
  using assms
proof (induction a arbitrary: nleft buf s)
  case Nil
  then show ?case by (subst rio_readn_loop.simps) (simp add: sys_read_def)
next
  case (Cons ev a)
  show ?case
  proof (cases ev)
    case (RdErr e')
    have "rio_readn_loop n nleft buf s = rio_readn_loop n nleft buf (s\<lparr>w_errno := EINTR, io_in := a @ RdErr e # b\<rparr>)"
      using Cons.prems RdErr by (subst rio_readn_loop.simps) (auto simp: sys_read_def)
    with Cons RdErr show ?thesis by simp
  next
    case (RdData d)
    then have d: "d \<noteq> []" "length d \<le> nleft" "length (stream a) < nleft - length d"
      using Cons.prems by auto
    have "rio_readn_loop n nleft buf s =
        rio_readn_loop n (nleft - length d) (buf @ d) (s\<lparr>io_in := a @ RdErr e # b\<rparr>)"
      using Cons.prems(1) RdData d by (subst rio_readn_loop.simps) (auto simp: sys_read_def min_def)
    with Cons RdData d show ?thesis by simp
  qed
qed

text \<open>A read error other than an interruption ends \<open>rio_readn\<close> with -1 and \<open>errno\<close> set, and
  \<open>Rio_readn\<close> exits with status 0, even when bytes have been read before: the caller loses
  these.\<close>

theorem rio_readn_error:
  assumes "io_in s = a @ RdErr e # b" and "quiet a" and "e \<noteq> EINTR" and "length (stream a) < n"
  shows "\<exists>buf t. rio_readn n s = (- 1, buf, t) \<and> w_errno t = e \<and>
    fst (Rio_readn strerror n s) = Exited 0"
  using rio_readn_loop_error [OF assms, of n "[]"]
  by (auto simp: rio_readn_def Rio_readn_def unix_error_def)

theorem rio_readn_error_witness:
  "fst (Rio_readn (\<lambda>e. ''x'') 3 (demo_io\<lparr>io_in := [RdData ''ab''] @ RdErr 5 # []\<rparr>)) = Exited 0"
  using rio_readn_error [of "demo_io\<lparr>io_in := [RdData ''ab''] @ RdErr 5 # []\<rparr>" "[RdData ''ab'']" 5 "[]" 3 "\<lambda>e. ''x''"]
  by (auto simp: EINTR_def)

section \<open>The bounds of the internal buffer\<close>

text \<open>Its unread bytes lie in the array, which keeps its size.\<close>

definition rio_wf :: "rio_t \<Rightarrow> bool" where
  "rio_wf rp \<longleftrightarrow> length (rio_buf rp) = RIO_BUFSIZE \<and> rio_bufptr rp \<le> RIO_BUFSIZE \<and>
     (0 < rio_cnt rp \<longrightarrow> rio_bufptr rp + nat (rio_cnt rp) \<le> RIO_BUFSIZE)"

lemma overwrite_length: "length d \<le> length buf \<Longrightarrow> length (overwrite d buf) = length buf"
  by (simp add: overwrite_def)

lemma rio_fill_wf:
  "rio_fill rp s = (go, rp', t) \<Longrightarrow> rio_wf rp \<Longrightarrow> rio_wf rp' \<and> (0 < go \<longrightarrow> 0 < rio_cnt rp')"
proof (induction rp s rule: rio_fill.induct)
  case (1 rp s)
  obtain r d u where rd: "sys_read RIO_BUFSIZE s = (r, d, u)" by (metis prod.exhaust)
  have d: "r < 0 \<and> d = [] \<or> r = int (length d) \<and> length d \<le> RIO_BUFSIZE"
    using rd by (auto simp: sys_read_def split: list.splits rd_event.splits)
  let ?rp = "rp\<lparr>rio_cnt := r, rio_buf := overwrite d (rio_buf rp)\<rparr>"
  have len: "length (overwrite d (rio_buf rp)) = RIO_BUFSIZE"
    using d "1.prems"(2) by (auto simp: rio_wf_def overwrite_length)
  show ?case
  proof (cases "rio_cnt rp \<le> 0")
    case False
    with 1 show ?thesis by (subst (asm) rio_fill.simps) auto
  next
    case True
    show ?thesis
    proof (cases "r < 0 \<and> w_errno u = EINTR")
      case again: True
      have "rio_fill rp s = rio_fill ?rp u" using True again rd by (subst rio_fill.simps) simp
      moreover have "rio_wf ?rp" using again len "1.prems"(2) by (simp add: rio_wf_def)
      ultimately show ?thesis using "1.IH" [OF True rd [symmetric] refl refl] again "1.prems"(1) by simp
    next
      case False
      with "1.prems" True rd len d show ?thesis
        by (subst (asm) rio_fill.simps) (auto simp: Let_def rio_wf_def split: if_splits)
    qed
  qed
qed

text \<open>A read takes bytes that lie in the array.\<close>

lemma rio_read_wf:
  assumes "rio_read n st = (r, d, st')" and "rio_wf (fst st)"
  shows "rio_wf (fst st') \<and> r \<le> int n \<and> (0 < r \<longrightarrow> r = int (length d))"
proof -
  obtain go rp s where f: "rio_fill (fst st) (snd st) = (go, rp, s)" by (metis prod.exhaust)
  note wf = rio_fill_wf [OF f assms(2)]
  show ?thesis using assms(1) wf f
    by (auto simp: rio_read_def Let_def rio_wf_def min_def split: if_splits)
qed

lemma readnb_loop_wf:
  "readnb_loop rio_read n nleft buf st = (r, d, st') \<Longrightarrow> rio_wf (fst st) \<Longrightarrow> length buf + nleft = n \<Longrightarrow>
     rio_wf (fst st') \<and> length d \<le> n"
proof (induction nleft arbitrary: buf st rule: less_induct)
  case (less nleft)
  show ?case
  proof (cases "nleft = 0")
    case True
    with less.prems show ?thesis by (subst (asm) readnb_loop.simps) auto
  next
    case False
    obtain k c u where rd: "rio_read nleft st = (k, c, u)" by (metis prod.exhaust)
    note wf = rio_read_wf [OF rd less.prems(2)]
    show ?thesis
    proof (cases "0 < k")
      case True
      have "readnb_loop rio_read n nleft buf st = readnb_loop rio_read n (nleft - nat k) (buf @ c) u"
        using rd True False by (subst readnb_loop.simps) simp
      with less.IH [of "nleft - nat k" "buf @ c" u] less.prems wf True False show ?thesis by auto
    next
      case k: False
      with less.prems rd wf False show ?thesis by (subst (asm) readnb_loop.simps) (auto split: if_splits)
    qed
  qed
qed

lemma readlineb_loop_wf:
  "readlineb_loop rio_read maxlen n buf st = (r, d, st') \<Longrightarrow> rio_wf (fst st) \<Longrightarrow> length buf + 1 = n \<Longrightarrow> n \<le> maxlen \<Longrightarrow>
     rio_wf (fst st') \<and> length d \<le> maxlen"
proof (induction "maxlen - n" arbitrary: n buf st)
  case 0
  then show ?case by (subst (asm) readlineb_loop.simps) auto
next
  case (Suc m)
  obtain rc c u where rd: "rio_read 1 st = (rc, c, u)" by (metis prod.exhaust)
  note wf = rio_read_wf [OF rd Suc.prems(2)]
  have lt: "n < maxlen" using Suc.hyps(2) by simp
  show ?case
  proof (cases "rc = 1 \<and> c \<noteq> [LF]")
    case True
    then have "readlineb_loop rio_read maxlen n buf st = readlineb_loop rio_read maxlen (Suc n) (buf @ c) u"
      using rd lt by (subst readlineb_loop.simps) simp
    with Suc.hyps(1) [of "Suc n" "buf @ c" u] Suc.hyps(2) Suc.prems wf True lt show ?thesis by simp
  next
    case False
    with Suc.prems rd wf lt show ?thesis
      by (subst (asm) readlineb_loop.simps) (auto split: if_splits)
  qed
qed

text \<open>C13. Whatever \<open>read\<close> returns, errors included: the buffered functions keep the unread bytes
  within the internal buffer, and store no more than they may in the caller's array, the null
  character of a line included.\<close>

theorem rio_buffer_bounds:
  assumes "rio_wf (fst st)" and "0 < maxlen"
  shows "(case rio_readnb n st of (r, d, st') \<Rightarrow> rio_wf (fst st') \<and> length d \<le> n) \<and>
    (case rio_readlineb maxlen st of (r, d, st') \<Rightarrow> rio_wf (fst st') \<and> length d \<le> maxlen)"
  using readnb_loop_wf [of n n "[]" st] readlineb_loop_wf [of maxlen 1 "[]" st] assms
  by (auto simp: rio_readnb_def rio_readlineb_def split: prod.split)

theorem rio_buffer_bounds_witness:
  "case rio_readlineb 3 (rio_readinitb 3 \<lparr>rio_fd = 0, rio_cnt = 0, rio_bufptr = 0, rio_buf = replicate RIO_BUFSIZE NUL\<rparr>, demo_io) of
     (r, d, st') \<Rightarrow> rio_wf (fst st') \<and> length d \<le> 3"
proof -
  have "rio_wf (rio_readinitb 3 \<lparr>rio_fd = 0, rio_cnt = 0, rio_bufptr = 0, rio_buf = replicate RIO_BUFSIZE NUL\<rparr>)"
    by (simp add: rio_wf_def rio_readinitb_def)
  then show ?thesis
    using rio_buffer_bounds [of "(rio_readinitb 3 \<lparr>rio_fd = 0, rio_cnt = 0, rio_bufptr = 0, rio_buf = replicate RIO_BUFSIZE NUL\<rparr>, demo_io)" 3 0]
    by simp
qed

end
