(* ===== verification/Csapp_Wrap.thy ===== *)
theory Csapp_Wrap
  imports Csapp_Rio
begin

text \<open>
  The wrappers of \<open>csapp.c\<close> around system and library calls, one definition per function. The
  wrapped call is a parameter; what a call writes through a pointer is part of the state, or of
  its result where the wrapper's callers read it. Nothing but the failure test, the message and
  the result is decided here.
\<close>

section \<open>Wrappers for process control\<close>

definition Fork :: "(int \<Rightarrow> string) \<Rightarrow> ('w, int) syscall \<Rightarrow> ('w world_scheme, int) cprog" where
  "Fork strerror fork =
     check_neg strerror ''Fork error'' fork"

definition Execve :: "(int \<Rightarrow> string) \<Rightarrow> ('a \<Rightarrow> 'b \<Rightarrow> 'c \<Rightarrow> ('w, int) syscall) \<Rightarrow> 'a \<Rightarrow> 'b \<Rightarrow> 'c \<Rightarrow> ('w world_scheme, unit) cprog" where
  "Execve strerror execve filename argv envp =
     check_neg_void strerror ''Execve error'' (execve filename argv envp)"

definition Wait :: "(int \<Rightarrow> string) \<Rightarrow> (('w, int \<times> 'status) syscall) \<Rightarrow> ('w world_scheme, int \<times> 'status) cprog" where
  "Wait strerror wait s =
     (case wait s of ((rc, status), t) \<Rightarrow>
        if rc < 0 then unix_error strerror ''Wait error'' t else (Ret (rc, status), t))"

definition Waitpid :: "(int \<Rightarrow> string) \<Rightarrow> ('a \<Rightarrow> 'b \<Rightarrow> ('w, int \<times> 'status) syscall) \<Rightarrow> 'a \<Rightarrow> 'b \<Rightarrow> ('w world_scheme, int \<times> 'status) cprog" where
  "Waitpid strerror waitpid pid options s =
     (case waitpid pid options s of ((rc, status), t) \<Rightarrow>
        if rc < 0 then unix_error strerror ''Waitpid error'' t else (Ret (rc, status), t))"

definition Kill :: "(int \<Rightarrow> string) \<Rightarrow> ('a \<Rightarrow> 'b \<Rightarrow> ('w, int) syscall) \<Rightarrow> 'a \<Rightarrow> 'b \<Rightarrow> ('w world_scheme, unit) cprog" where
  "Kill strerror kill pid signum =
     check_neg_void strerror ''Kill error'' (kill pid signum)"

definition Pause :: "('w, 'r) syscall \<Rightarrow> ('w world_scheme, 'r) cprog" where
  "Pause pause =
     pass pause"

definition Alarm :: "('a \<Rightarrow> ('w, 'r) syscall) \<Rightarrow> 'a \<Rightarrow> ('w world_scheme, 'r) cprog" where
  "Alarm alarm seconds =
     pass (alarm seconds)"

definition Setpgid :: "(int \<Rightarrow> string) \<Rightarrow> ('a \<Rightarrow> 'b \<Rightarrow> ('w, int) syscall) \<Rightarrow> 'a \<Rightarrow> 'b \<Rightarrow> ('w world_scheme, unit) cprog" where
  "Setpgid strerror setpgid pid pgid =
     check_neg_void strerror ''Setpgid error'' (setpgid pid pgid)"

definition Getpgrp :: "('w, 'r) syscall \<Rightarrow> ('w world_scheme, 'r) cprog" where
  "Getpgrp getpgrp =
     pass getpgrp"

section \<open>Wrappers for signals\<close>

definition Sigprocmask :: "(int \<Rightarrow> string) \<Rightarrow> ('a \<Rightarrow> 'b \<Rightarrow> ('w, int) syscall) \<Rightarrow> 'a \<Rightarrow> 'b \<Rightarrow> ('w world_scheme, unit) cprog" where
  "Sigprocmask strerror sigprocmask how sigs =
     check_neg_void strerror ''Sigprocmask error'' (sigprocmask how sigs)"

definition Sigemptyset :: "(int \<Rightarrow> string) \<Rightarrow> ('w, int) syscall \<Rightarrow> ('w world_scheme, unit) cprog" where
  "Sigemptyset strerror sigemptyset =
     check_neg_void strerror ''Sigemptyset error'' sigemptyset"

definition Sigfillset :: "(int \<Rightarrow> string) \<Rightarrow> ('w, int) syscall \<Rightarrow> ('w world_scheme, unit) cprog" where
  "Sigfillset strerror sigfillset =
     check_neg_void strerror ''Sigfillset error'' sigfillset"

definition Sigaddset :: "(int \<Rightarrow> string) \<Rightarrow> ('a \<Rightarrow> 'b \<Rightarrow> ('w, int) syscall) \<Rightarrow> 'a \<Rightarrow> 'b \<Rightarrow> ('w world_scheme, unit) cprog" where
  "Sigaddset strerror sigaddset sigs signum =
     check_neg_void strerror ''Sigaddset error'' (sigaddset sigs signum)"

definition Sigdelset :: "(int \<Rightarrow> string) \<Rightarrow> ('a \<Rightarrow> 'b \<Rightarrow> ('w, int) syscall) \<Rightarrow> 'a \<Rightarrow> 'b \<Rightarrow> ('w world_scheme, unit) cprog" where
  "Sigdelset strerror sigdelset sigs signum =
     check_neg_void strerror ''Sigdelset error'' (sigdelset sigs signum)"

definition Sigismember :: "(int \<Rightarrow> string) \<Rightarrow> ('a \<Rightarrow> 'b \<Rightarrow> ('w, int) syscall) \<Rightarrow> 'a \<Rightarrow> 'b \<Rightarrow> ('w world_scheme, int) cprog" where
  "Sigismember strerror sigismember sigs signum =
     check_neg strerror ''Sigismember error'' (sigismember sigs signum)"

section \<open>Wrappers for Unix I/O\<close>

definition Open :: "(int \<Rightarrow> string) \<Rightarrow> ('a \<Rightarrow> 'b \<Rightarrow> 'c \<Rightarrow> ('w, int) syscall) \<Rightarrow> 'a \<Rightarrow> 'b \<Rightarrow> 'c \<Rightarrow> ('w world_scheme, int) cprog" where
  "Open strerror open_file pathname flags mode =
     check_neg strerror ''Open error'' (open_file pathname flags mode)"

definition Write :: "(int \<Rightarrow> string) \<Rightarrow> ('a \<Rightarrow> 'b \<Rightarrow> ('w, int) syscall) \<Rightarrow> 'a \<Rightarrow> 'b \<Rightarrow> ('w world_scheme, int) cprog" where
  "Write strerror write fd buf =
     check_neg strerror ''Write error'' (write fd buf)"

definition Lseek :: "(int \<Rightarrow> string) \<Rightarrow> ('a \<Rightarrow> 'b \<Rightarrow> 'c \<Rightarrow> ('w, int) syscall) \<Rightarrow> 'a \<Rightarrow> 'b \<Rightarrow> 'c \<Rightarrow> ('w world_scheme, int) cprog" where
  "Lseek strerror lseek fildes offset whence =
     check_neg strerror ''Lseek error'' (lseek fildes offset whence)"

definition Close :: "(int \<Rightarrow> string) \<Rightarrow> ('a \<Rightarrow> ('w, int) syscall) \<Rightarrow> 'a \<Rightarrow> ('w world_scheme, unit) cprog" where
  "Close strerror close fd =
     check_neg_void strerror ''Close error'' (close fd)"

definition Select :: "(int \<Rightarrow> string) \<Rightarrow> ('a \<Rightarrow> 'b \<Rightarrow> 'c \<Rightarrow> 'd \<Rightarrow> 'e \<Rightarrow> ('w, int) syscall) \<Rightarrow> 'a \<Rightarrow> 'b \<Rightarrow> 'c \<Rightarrow> 'd \<Rightarrow> 'e \<Rightarrow> ('w world_scheme, int) cprog" where
  "Select strerror select nfds readfds writefds exceptfds timeout =
     check_neg strerror ''Select error'' (select nfds readfds writefds exceptfds timeout)"

definition Dup2 :: "(int \<Rightarrow> string) \<Rightarrow> ('a \<Rightarrow> 'b \<Rightarrow> ('w, int) syscall) \<Rightarrow> 'a \<Rightarrow> 'b \<Rightarrow> ('w world_scheme, int) cprog" where
  "Dup2 strerror dup2 fd1 fd2 =
     check_neg strerror ''Dup2 error'' (dup2 fd1 fd2)"

definition Stat :: "(int \<Rightarrow> string) \<Rightarrow> ('a \<Rightarrow> ('w, int) syscall) \<Rightarrow> 'a \<Rightarrow> ('w world_scheme, unit) cprog" where
  "Stat strerror stat filename =
     check_neg_void strerror ''Stat error'' (stat filename)"

definition Fstat :: "(int \<Rightarrow> string) \<Rightarrow> ('a \<Rightarrow> ('w, int) syscall) \<Rightarrow> 'a \<Rightarrow> ('w world_scheme, unit) cprog" where
  "Fstat strerror fstat fd =
     check_neg_void strerror ''Fstat error'' (fstat fd)"

definition Opendir :: "(int \<Rightarrow> string) \<Rightarrow> ('a \<Rightarrow> ('w, 'p option) syscall) \<Rightarrow> 'a \<Rightarrow> ('w world_scheme, 'p option) cprog" where
  "Opendir strerror opendir name =
     check_null strerror ''opendir error'' (opendir name)"

definition Closedir :: "(int \<Rightarrow> string) \<Rightarrow> ('a \<Rightarrow> ('w, int) syscall) \<Rightarrow> 'a \<Rightarrow> ('w world_scheme, int) cprog" where
  "Closedir strerror closedir dirp =
     check_neg strerror ''closedir error'' (closedir dirp)"

definition Mmap :: "(int \<Rightarrow> string) \<Rightarrow> ('a \<Rightarrow> 'b \<Rightarrow> 'c \<Rightarrow> 'd \<Rightarrow> 'e \<Rightarrow> 'f \<Rightarrow> ('w, 'p option) syscall) \<Rightarrow> 'a \<Rightarrow> 'b \<Rightarrow> 'c \<Rightarrow> 'd \<Rightarrow> 'e \<Rightarrow> 'f \<Rightarrow> ('w world_scheme, 'p option) cprog" where
  "Mmap strerror mmap addr len prot flags fd offset =
     check_null strerror ''mmap error'' (mmap addr len prot flags fd offset)"

definition Munmap :: "(int \<Rightarrow> string) \<Rightarrow> ('a \<Rightarrow> 'b \<Rightarrow> ('w, int) syscall) \<Rightarrow> 'a \<Rightarrow> 'b \<Rightarrow> ('w world_scheme, unit) cprog" where
  "Munmap strerror munmap start len =
     check_neg_void strerror ''munmap error'' (munmap start len)"

section \<open>Wrappers for storage allocation and standard I/O\<close>

definition Malloc :: "(int \<Rightarrow> string) \<Rightarrow> ('a \<Rightarrow> ('w, 'p option) syscall) \<Rightarrow> 'a \<Rightarrow> ('w world_scheme, 'p option) cprog" where
  "Malloc strerror malloc sz =
     check_null strerror ''Malloc error'' (malloc sz)"

definition Realloc :: "(int \<Rightarrow> string) \<Rightarrow> ('a \<Rightarrow> 'b \<Rightarrow> ('w, 'p option) syscall) \<Rightarrow> 'a \<Rightarrow> 'b \<Rightarrow> ('w world_scheme, 'p option) cprog" where
  "Realloc strerror realloc ptr sz =
     check_null strerror ''Realloc error'' (realloc ptr sz)"

definition Calloc :: "(int \<Rightarrow> string) \<Rightarrow> ('a \<Rightarrow> 'b \<Rightarrow> ('w, 'p option) syscall) \<Rightarrow> 'a \<Rightarrow> 'b \<Rightarrow> ('w world_scheme, 'p option) cprog" where
  "Calloc strerror calloc nmemb sz =
     check_null strerror ''Calloc error'' (calloc nmemb sz)"

definition Free :: "('a \<Rightarrow> ('w, 'r) syscall) \<Rightarrow> 'a \<Rightarrow> ('w world_scheme, 'r) cprog" where
  "Free free ptr =
     pass (free ptr)"

definition Fdopen :: "(int \<Rightarrow> string) \<Rightarrow> ('a \<Rightarrow> 'b \<Rightarrow> ('w, 'p option) syscall) \<Rightarrow> 'a \<Rightarrow> 'b \<Rightarrow> ('w world_scheme, 'p option) cprog" where
  "Fdopen strerror fdopen fd type =
     check_null strerror ''Fdopen error'' (fdopen fd type)"

definition Fopen :: "(int \<Rightarrow> string) \<Rightarrow> ('a \<Rightarrow> 'b \<Rightarrow> ('w, 'p option) syscall) \<Rightarrow> 'a \<Rightarrow> 'b \<Rightarrow> ('w world_scheme, 'p option) cprog" where
  "Fopen strerror fopen filename mode =
     check_null strerror ''Fopen error'' (fopen filename mode)"

section \<open>Wrappers for sockets\<close>

definition Socket :: "(int \<Rightarrow> string) \<Rightarrow> ('a \<Rightarrow> 'b \<Rightarrow> 'c \<Rightarrow> ('w, int) syscall) \<Rightarrow> 'a \<Rightarrow> 'b \<Rightarrow> 'c \<Rightarrow> ('w world_scheme, int) cprog" where
  "Socket strerror socket domain type protocol =
     check_neg strerror ''Socket error'' (socket domain type protocol)"

definition Setsockopt :: "(int \<Rightarrow> string) \<Rightarrow> ('a \<Rightarrow> 'b \<Rightarrow> 'c \<Rightarrow> 'd \<Rightarrow> ('w, int) syscall) \<Rightarrow> 'a \<Rightarrow> 'b \<Rightarrow> 'c \<Rightarrow> 'd \<Rightarrow> ('w world_scheme, unit) cprog" where
  "Setsockopt strerror setsockopt s level optname optval =
     check_neg_void strerror ''Setsockopt error'' (setsockopt s level optname optval)"

definition Bind :: "(int \<Rightarrow> string) \<Rightarrow> ('a \<Rightarrow> 'b \<Rightarrow> ('w, int) syscall) \<Rightarrow> 'a \<Rightarrow> 'b \<Rightarrow> ('w world_scheme, unit) cprog" where
  "Bind strerror bind sockfd my_addr =
     check_neg_void strerror ''Bind error'' (bind sockfd my_addr)"

definition Listen :: "(int \<Rightarrow> string) \<Rightarrow> ('a \<Rightarrow> 'b \<Rightarrow> ('w, int) syscall) \<Rightarrow> 'a \<Rightarrow> 'b \<Rightarrow> ('w world_scheme, unit) cprog" where
  "Listen strerror listen s backlog =
     check_neg_void strerror ''Listen error'' (listen s backlog)"

definition Accept :: "(int \<Rightarrow> string) \<Rightarrow> ('a \<Rightarrow> ('w, int) syscall) \<Rightarrow> 'a \<Rightarrow> ('w world_scheme, int) cprog" where
  "Accept strerror accept s =
     check_neg strerror ''Accept error'' (accept s)"

definition Connect :: "(int \<Rightarrow> string) \<Rightarrow> ('a \<Rightarrow> 'b \<Rightarrow> ('w, int) syscall) \<Rightarrow> 'a \<Rightarrow> 'b \<Rightarrow> ('w world_scheme, unit) cprog" where
  "Connect strerror connect sockfd serv_addr =
     check_neg_void strerror ''Connect error'' (connect sockfd serv_addr)"

definition Getaddrinfo :: "(int \<Rightarrow> string) \<Rightarrow> ('a \<Rightarrow> 'b \<Rightarrow> 'c \<Rightarrow> ('w, int) syscall) \<Rightarrow> 'a \<Rightarrow> 'b \<Rightarrow> 'c \<Rightarrow> ('w world_scheme, unit) cprog" where
  "Getaddrinfo gai_strerror getaddrinfo node service hints =
     check_gai gai_strerror ''Getaddrinfo error'' (getaddrinfo node service hints)"

definition Getnameinfo :: "(int \<Rightarrow> string) \<Rightarrow> ('a \<Rightarrow> 'b \<Rightarrow> ('w, int) syscall) \<Rightarrow> 'a \<Rightarrow> 'b \<Rightarrow> ('w world_scheme, unit) cprog" where
  "Getnameinfo gai_strerror getnameinfo sa flags =
     check_gai gai_strerror ''Getnameinfo error'' (getnameinfo sa flags)"

definition Freeaddrinfo :: "('a \<Rightarrow> ('w, 'r) syscall) \<Rightarrow> 'a \<Rightarrow> ('w world_scheme, 'r) cprog" where
  "Freeaddrinfo freeaddrinfo res =
     pass (freeaddrinfo res)"

definition Inet_ntop :: "(int \<Rightarrow> string) \<Rightarrow> ('a \<Rightarrow> 'b \<Rightarrow> 'c \<Rightarrow> ('w, 'p option) syscall) \<Rightarrow> 'a \<Rightarrow> 'b \<Rightarrow> 'c \<Rightarrow> ('w world_scheme, unit) cprog" where
  "Inet_ntop strerror inet_ntop af src sz s =
     (case inet_ntop af src sz s of (p, t) \<Rightarrow>
        if p = None then unix_error strerror ''Inet_ntop error'' t else (Ret (), t))"

definition Gethostbyname :: "('a \<Rightarrow> ('w, 'p option) syscall) \<Rightarrow> 'a \<Rightarrow> ('w world_scheme, 'p option) cprog" where
  "Gethostbyname gethostbyname name =
     check_dns ''Gethostbyname error'' (gethostbyname name)"

definition Gethostbyaddr :: "('a \<Rightarrow> 'b \<Rightarrow> 'c \<Rightarrow> ('w, 'p option) syscall) \<Rightarrow> 'a \<Rightarrow> 'b \<Rightarrow> 'c \<Rightarrow> ('w world_scheme, 'p option) cprog" where
  "Gethostbyaddr gethostbyaddr addr len type =
     check_dns ''Gethostbyaddr error'' (gethostbyaddr addr len type)"

section \<open>Wrappers for threads and semaphores\<close>

definition Pthread_create :: "(int \<Rightarrow> string) \<Rightarrow> ('a \<Rightarrow> 'b \<Rightarrow> ('w, int) syscall) \<Rightarrow> 'a \<Rightarrow> 'b \<Rightarrow> ('w world_scheme, unit) cprog" where
  "Pthread_create strerror pthread_create routine argp =
     check_zero strerror ''Pthread_create error'' (pthread_create routine argp)"

definition Pthread_cancel :: "(int \<Rightarrow> string) \<Rightarrow> ('a \<Rightarrow> ('w, int) syscall) \<Rightarrow> 'a \<Rightarrow> ('w world_scheme, unit) cprog" where
  "Pthread_cancel strerror pthread_cancel tid =
     check_zero strerror ''Pthread_cancel error'' (pthread_cancel tid)"

definition Pthread_join :: "(int \<Rightarrow> string) \<Rightarrow> ('a \<Rightarrow> ('w, int) syscall) \<Rightarrow> 'a \<Rightarrow> ('w world_scheme, unit) cprog" where
  "Pthread_join strerror pthread_join tid =
     check_zero strerror ''Pthread_join error'' (pthread_join tid)"

definition Pthread_detach :: "(int \<Rightarrow> string) \<Rightarrow> ('a \<Rightarrow> ('w, int) syscall) \<Rightarrow> 'a \<Rightarrow> ('w world_scheme, unit) cprog" where
  "Pthread_detach strerror pthread_detach tid =
     check_zero strerror ''Pthread_detach error'' (pthread_detach tid)"

definition Pthread_self :: "('w, 'r) syscall \<Rightarrow> ('w world_scheme, 'r) cprog" where
  "Pthread_self pthread_self =
     pass pthread_self"

definition Pthread_once :: "('a \<Rightarrow> 'b \<Rightarrow> ('w, 'r) syscall) \<Rightarrow> 'a \<Rightarrow> 'b \<Rightarrow> ('w world_scheme, 'r) cprog" where
  "Pthread_once pthread_once once_control init_function =
     pass (pthread_once once_control init_function)"

definition Sem_init :: "(int \<Rightarrow> string) \<Rightarrow> ('a \<Rightarrow> 'b \<Rightarrow> 'c \<Rightarrow> ('w, int) syscall) \<Rightarrow> 'a \<Rightarrow> 'b \<Rightarrow> 'c \<Rightarrow> ('w world_scheme, unit) cprog" where
  "Sem_init strerror sem_init_call sem pshared val =
     check_neg_void strerror ''Sem_init error'' (sem_init_call sem pshared val)"

definition sem_P :: "(int \<Rightarrow> string) \<Rightarrow> ('a \<Rightarrow> ('w, int) syscall) \<Rightarrow> 'a \<Rightarrow> ('w world_scheme, unit) cprog" where
  "sem_P strerror sem_wait_call sem =
     check_neg_void strerror ''P error'' (sem_wait_call sem)"

definition sem_V :: "(int \<Rightarrow> string) \<Rightarrow> ('a \<Rightarrow> ('w, int) syscall) \<Rightarrow> 'a \<Rightarrow> ('w world_scheme, unit) cprog" where
  "sem_V strerror sem_post_call sem =
     check_neg_void strerror ''V error'' (sem_post_call sem)"

section \<open>Wrappers of another shape\<close>

text \<open>\<open>Read\<close> on the descriptors of \<open>Csapp_Rio\<close>.\<close>

definition Read :: "(int \<Rightarrow> string) \<Rightarrow> nat \<Rightarrow> (io, int \<times> string) cprog" where
  "Read strerror count s =
     (case sys_read count s of (rc, d, t) \<Rightarrow>
        if rc < 0 then unix_error strerror ''Read error'' t else (Ret (rc, d), t))"

text \<open>The result of \<open>sleep\<close> is stored in an \<open>unsigned int\<close> before it is compared with 0.\<close>

definition Sleep :: "(int \<Rightarrow> string) \<Rightarrow> (nat \<Rightarrow> ('w, int) syscall) \<Rightarrow> nat \<Rightarrow> ('w world_scheme, int) cprog" where
  "Sleep strerror sleep secs s =
     (case sleep secs s of (r, t) \<Rightarrow>
        let rc = r mod 2 ^ 32
        in if rc < 0 then unix_error strerror ''Sleep error'' t else (Ret rc, t))"

text \<open>
  \<open>Signal\<close> installs the handler with an empty mask and \<open>SA_RESTART\<close>, and returns the old one;
  the handler reported by a failing \<open>sigaction\<close> is not used.
\<close>

record 'h sigact =
  sa_handler :: 'h
  sa_mask :: "int set"
  sa_restart :: bool

definition Signal :: "(int \<Rightarrow> string) \<Rightarrow> (int \<Rightarrow> 'h sigact \<Rightarrow> ('w, int \<times> 'h sigact) syscall) \<Rightarrow>
    int \<Rightarrow> 'h \<Rightarrow> ('w world_scheme, 'h) cprog" where
  "Signal strerror sigaction signum handler s =
     (case sigaction signum \<lparr>sa_handler = handler, sa_mask = {}, sa_restart = True\<rparr> s of
        ((rc, old), t) \<Rightarrow>
          if rc < 0 then unix_error strerror ''Signal error'' t else (Ret (sa_handler old), t))"

definition Sigsuspend :: "(int \<Rightarrow> string) \<Rightarrow> ('m \<Rightarrow> ('w, int) syscall) \<Rightarrow> 'm \<Rightarrow> ('w world_scheme, int) cprog" where
  "Sigsuspend strerror sigsuspend sigs s =
     (case sigsuspend sigs s of (rc, t) \<Rightarrow>
        if w_errno t \<noteq> EINTR then unix_error strerror ''Sigsuspend error'' t else (Ret rc, t))"

text \<open>\<open>readdir\<close> returns null at the end too: \<open>errno\<close> is cleared to tell the cases apart.\<close>

definition Readdir :: "(int \<Rightarrow> string) \<Rightarrow> ('d \<Rightarrow> ('w, 'p option) syscall) \<Rightarrow> 'd \<Rightarrow> ('w world_scheme, 'p option) cprog" where
  "Readdir strerror readdir dirp s =
     (case readdir dirp (s\<lparr>w_errno := 0\<rparr>) of (dep, t) \<Rightarrow>
        if dep = None \<and> w_errno t \<noteq> 0 then unix_error strerror ''readdir error'' t else (Ret dep, t))"

definition Fclose :: "(int \<Rightarrow> string) \<Rightarrow> ('f \<Rightarrow> ('w, int) syscall) \<Rightarrow> 'f \<Rightarrow> ('w world_scheme, unit) cprog" where
  "Fclose strerror fclose fp s =
     (case fclose fp s of (rc, t) \<Rightarrow>
        if rc \<noteq> 0 then unix_error strerror ''Fclose error'' t else (Ret (), t))"

text \<open>Calls on a stream also report whether \<open>ferror(stream)\<close> holds afterwards.\<close>

definition Fgets :: "(nat \<Rightarrow> 'f \<Rightarrow> ('w, string option \<times> bool) syscall) \<Rightarrow> nat \<Rightarrow> 'f \<Rightarrow> ('w world_scheme, string option) cprog" where
  "Fgets fgets n stream s =
     (case fgets n stream s of ((rptr, err), t) \<Rightarrow>
        if rptr = None \<and> err then app_error ''Fgets error'' t else (Ret rptr, t))"

text \<open>\<open>EOF\<close> is -1.\<close>

definition Fputs :: "(int \<Rightarrow> string) \<Rightarrow> (string \<Rightarrow> 'f \<Rightarrow> ('w, int) syscall) \<Rightarrow> string \<Rightarrow> 'f \<Rightarrow> ('w world_scheme, unit) cprog" where
  "Fputs strerror fputs ptr stream s =
     (case fputs ptr stream s of (rc, t) \<Rightarrow>
        if rc = - 1 then unix_error strerror ''Fputs error'' t else (Ret (), t))"

definition Fread :: "(int \<Rightarrow> string) \<Rightarrow> (nat \<Rightarrow> nat \<Rightarrow> 'f \<Rightarrow> ('w, nat \<times> string \<times> bool) syscall) \<Rightarrow>
    nat \<Rightarrow> nat \<Rightarrow> 'f \<Rightarrow> ('w world_scheme, nat \<times> string) cprog" where
  "Fread strerror fread sz nmemb stream s =
     (case fread sz nmemb stream s of ((n, d, err), t) \<Rightarrow>
        if n < nmemb \<and> err then unix_error strerror ''Fread error'' t else (Ret (n, d), t))"

definition Fwrite :: "(int \<Rightarrow> string) \<Rightarrow> (string \<Rightarrow> nat \<Rightarrow> nat \<Rightarrow> 'f \<Rightarrow> ('w, nat) syscall) \<Rightarrow>
    string \<Rightarrow> nat \<Rightarrow> nat \<Rightarrow> 'f \<Rightarrow> ('w world_scheme, unit) cprog" where
  "Fwrite strerror fwrite ptr sz nmemb stream s =
     (case fwrite ptr sz nmemb stream s of (n, t) \<Rightarrow>
        if n < nmemb then unix_error strerror ''Fwrite error'' t else (Ret (), t))"

definition Inet_pton :: "(int \<Rightarrow> string) \<Rightarrow> ('af \<Rightarrow> string \<Rightarrow> ('w, int \<times> 'addr) syscall) \<Rightarrow>
    'af \<Rightarrow> string \<Rightarrow> ('w world_scheme, 'addr) cprog" where
  "Inet_pton strerror inet_pton af src s =
     (case inet_pton af src s of ((rc, dst), t) \<Rightarrow>
        if rc = 0 then app_error ''inet_pton error: invalid dotted-decimal address'' t
        else if rc < 0 then unix_error strerror ''Inet_pton error'' t
        else (Ret dst, t))"

text \<open>\<open>Pthread_exit\<close> does not return: the thread is over with this value.\<close>

datatype ('a, 'r) thread_result = Goes_On 'a | Thread_Exit 'r

definition Pthread_exit :: "'r \<Rightarrow> 's \<Rightarrow> ('a, 'r) thread_result \<times> 's" where
  "Pthread_exit retval s = (Thread_Exit retval, s)"

section \<open>Properties\<close>

text \<open>Every wrapper of a call that reports failure by a negative number returns the result
  of a call that succeeds, and prints its message with the text of \<open>errno\<close> and exits with
  status 0 after one that fails.\<close>

theorem csapp_unix_wrappers:
  "exits_on (\<lambda>r. r < 0) (\<lambda>r e. ''Fork error'' @ '': '' @ strerror e) (\<lambda>r. r) fork (Fork strerror fork) \<and>
   exits_on (\<lambda>r. r < 0) (\<lambda>r e. ''Kill error'' @ '': '' @ strerror e) (\<lambda>r. ()) (kill pid sig) (Kill strerror kill pid sig) \<and>
   exits_on (\<lambda>r. r < 0) (\<lambda>r e. ''Dup2 error'' @ '': '' @ strerror e) (\<lambda>r. r) (dup2 a b) (Dup2 strerror dup2 a b) \<and>
   exits_on (\<lambda>r. r < 0) (\<lambda>r e. ''Accept error'' @ '': '' @ strerror e) (\<lambda>r. r) (accept fd) (Accept strerror accept fd) \<and>
   exits_on (\<lambda>r. r < 0) (\<lambda>r e. ''P error'' @ '': '' @ strerror e) (\<lambda>r. ()) (wait sem) (sem_P strerror wait sem) \<and>
   exits_on (\<lambda>r. r = None) (\<lambda>r e. ''Malloc error'' @ '': '' @ strerror e) (\<lambda>r. r) (malloc n) (Malloc strerror malloc n) \<and>
   exits_on (\<lambda>r. r = None) (\<lambda>r e. ''Calloc error'' @ '': '' @ strerror e) (\<lambda>r. r) (calloc n m) (Calloc strerror calloc n m) \<and>
   exits_on (\<lambda>r. r \<noteq> 0) (\<lambda>r e. ''Pthread_create error'' @ '': '' @ strerror r) (\<lambda>r. ()) (create f x)
     (Pthread_create strerror create f x) \<and>
   exits_on (\<lambda>r. r \<noteq> 0) (\<lambda>r e. ''Getaddrinfo error'' @ '': '' @ gai_strerror r) (\<lambda>r. ()) (gai h p q)
     (Getaddrinfo gai_strerror gai h p q)"
  unfolding Fork_def Kill_def Dup2_def Accept_def sem_P_def Malloc_def Calloc_def Pthread_create_def
    Getaddrinfo_def
  by (intro conjI check_neg_exits check_neg_void_exits check_null_exits check_zero_exits
      check_gai_exits)

text \<open>The failure test of \<open>Sleep\<close> is dead: its result is unsigned, so \<open>Sleep\<close> always
  returns, whatever \<open>sleep\<close> gives.\<close>

theorem csapp_sleep_never_fails:
  "Sleep strerror sleep secs s = (Ret (fst (sleep secs s) mod 2 ^ 32), snd (sleep secs s))"
proof -
  obtain r t where rt: "sleep secs s = (r, t)" by fastforce
  have "\<not> r mod 2 ^ 32 < 0" by (simp add: not_less)
  with rt show ?thesis by (simp add: Sleep_def Let_def)
qed

text \<open>\<open>Signal\<close> asks \<open>sigaction\<close> for the handler with an empty mask and restarting system
  calls, and returns the previous handler.\<close>

theorem csapp_signal:
  "Signal strerror sigaction signum handler s =
     (let ((rc, old), t) = sigaction signum \<lparr>sa_handler = handler, sa_mask = {}, sa_restart = True\<rparr> s
      in if rc < 0 then (Exited 0, print_err (''Signal error: '' @ strerror (w_errno t) @ [LF]) t)
         else (Ret (sa_handler old), t))"
  by (simp add: Signal_def unix_error_def split: prod.split)

end
