(* ===== verification/Csapp_Sio.thy ===== *)
theory Csapp_Sio
  imports Csapp_Rio "HOL-Library.Signed_Division"
begin

text \<open>
  The signal-safe output routines of \<open>csapp.c\<close>: \<open>sio_reverse\<close>, \<open>sio_ltoa\<close>, \<open>sio_strlen\<close>,
  \<open>sio_puts\<close>, \<open>sio_putl\<close>, \<open>sio_error\<close> and their wrappers. Arrays are character lists; C
  division truncates towards zero (\<open>sdiv\<close>, \<open>smod\<close>).
\<close>

section \<open>Strings in arrays\<close>

text \<open>The swapping loop of \<open>sio_reverse\<close> on the string before the null character.\<close>

function reverse_loop :: "nat \<Rightarrow> int \<Rightarrow> string \<Rightarrow> string" where
  "reverse_loop i j s =
     (if int i < j
      then reverse_loop (Suc i) (j - 1) (s[i := s ! nat j, nat j := s ! i])
      else s)"
  by pat_completeness auto
termination
  by (relation "measure (\<lambda>(i, j, s). nat (j - int i))") auto

declare reverse_loop.simps [simp del]

definition sio_reverse :: "string \<Rightarrow> string" where
  "sio_reverse s = reverse_loop 0 (int (length s) - 1) s"

definition sio_digit :: "int \<Rightarrow> char" where
  "sio_digit c =
     (if c < 10 then char_of (nat ((c + 48) mod 256)) else char_of (nat ((c - 10 + 97) mod 256)))"

text \<open>The digits \<open>sio_ltoa\<close> stores, lowest first: at least one, and on while \<open>v / b > 0\<close>.\<close>

function ltoa_digits :: "int \<Rightarrow> int \<Rightarrow> string" where
  "ltoa_digits v b =
     (let d = sio_digit (v smod b)
      in if v sdiv b > 0 \<and> 1 < b then d # ltoa_digits (v sdiv b) b else [d])"
  by pat_completeness auto
termination
proof (relation "measure (\<lambda>(v, b). nat v)", goal_cases)
  case 1
  then show ?case by simp
next
  case (2 v b d)
  then have b: "1 < b" and q: "v sdiv b > 0" by auto
  have "0 \<le> - v div b" if "v \<le> 0" using that b by (simp add: pos_imp_zdiv_nonneg_iff)
  then have v: "0 < v"
    using b q by (cases "0 < v") (auto simp: signed_divide_int_def sgn_if split: if_splits)
  then have "v sdiv b = v div b" using b by (simp add: signed_divide_int_def)
  then have "v sdiv b < v" using v b by (simp add: int_div_less_self)
  with v show ?case by simp
qed

declare ltoa_digits.simps [simp del]

text \<open>The base is positive in every call; a base of one does not end in C.\<close>

definition sio_ltoa :: "int \<Rightarrow> int \<Rightarrow> string" where
  "sio_ltoa v b = sio_reverse (ltoa_digits v b)"

fun sio_strlen :: "string \<Rightarrow> nat" where
  "sio_strlen [] = 0"
| "sio_strlen (c # s) = (if c \<noteq> NUL then Suc (sio_strlen s) else 0)"

section \<open>Output\<close>

definition sio_puts :: "string \<Rightarrow> io \<Rightarrow> int \<times> io" where
  "sio_puts str s = sys_write (take (sio_strlen str) str) s"

definition sio_putl :: "int \<Rightarrow> io \<Rightarrow> int \<times> io" where
  "sio_putl v s = sio_puts (sio_ltoa v 10) s"

definition sio_error :: "string \<Rightarrow> (io, 'a) cprog" where
  "sio_error str s = (Exited 1, snd (sio_puts str s))"

definition Sio_putl :: "int \<Rightarrow> (io, int) cprog" where
  "Sio_putl v s = (case sio_putl v s of (n, t) \<Rightarrow> if n < 0 then sio_error ''Sio_putl error'' t else (Ret n, t))"

definition Sio_puts :: "string \<Rightarrow> (io, int) cprog" where
  "Sio_puts str s = (case sio_puts str s of (n, t) \<Rightarrow> if n < 0 then sio_error ''Sio_puts error'' t else (Ret n, t))"

definition Sio_error :: "string \<Rightarrow> (io, 'a) cprog" where
  "Sio_error str = sio_error str"

section \<open>Lemmas\<close>

text \<open>The loop has reversed everything outside the window \<open>i..j\<close>.\<close>

lemma reverse_loop_nth:
  assumes "int i + j = int (length s) - 1" and "- 1 \<le> j" and "int i \<le> j + 1"
  shows "length (reverse_loop i j s) = length s \<and>
    (\<forall>k < length s. reverse_loop i j s ! k =
       (if i \<le> k \<and> int k \<le> j then s ! (length s - 1 - k) else s ! k))"
  using assms
proof (induction i j s rule: reverse_loop.induct)
  case (1 i j s)
  show ?case
  proof (cases "int i < j")
    case False
    have "k = length s - 1 - k" if "i \<le> k" "int k \<le> j" for k
      using that False "1.prems"(1) by linarith
    with False show ?thesis by (subst (1 2) reverse_loop.simps) auto
  next
    case True
    let ?t = "s[i := s ! nat j, nat j := s ! i]"
    have j: "nat j = length s - 1 - i" "i < length s" using "1.prems"(1) True by linarith+
    have rec: "reverse_loop i j s = reverse_loop (Suc i) (j - 1) ?t"
      using True by (subst reverse_loop.simps) simp
    have IH: "length (reverse_loop (Suc i) (j - 1) ?t) = length s"
      "\<And>k. k < length s \<Longrightarrow> reverse_loop (Suc i) (j - 1) ?t ! k =
         (if Suc i \<le> k \<and> int k \<le> j - 1 then ?t ! (length s - 1 - k) else ?t ! k)"
      using "1.IH" [OF True] "1.prems" True by auto
    have "(if Suc i \<le> k \<and> int k \<le> j - 1 then ?t ! (length s - 1 - k) else ?t ! k) =
        (if i \<le> k \<and> int k \<le> j then s ! (length s - 1 - k) else s ! k)" if k: "k < length s" for k
    proof -
      consider "k = i" | "k = nat j" "k \<noteq> i" | "k \<noteq> i" "k \<noteq> nat j" by blast
      then show ?thesis
      proof cases
        case 3
        then have "(Suc i \<le> k \<and> int k \<le> j - 1) = (i \<le> k \<and> int k \<le> j)" using True by auto
        moreover have "i \<le> k \<and> int k \<le> j \<Longrightarrow> length s - 1 - k \<noteq> i \<and> length s - 1 - k \<noteq> nat j"
          using 3 j True k by linarith
        ultimately show ?thesis using 3 by (cases "i \<le> k \<and> int k \<le> j") auto
      qed (use j True k in auto)
    qed
    with IH rec show ?thesis by simp
  qed
qed

lemma sio_reverse_rev: "sio_reverse s = rev s"
proof (cases "s = []")
  case True
  then show ?thesis by (simp add: sio_reverse_def reverse_loop.simps)
next
  case False
  then have "length (sio_reverse s) = length s \<and>
      (\<forall>k < length s. sio_reverse s ! k = (if 0 \<le> k \<and> int k \<le> int (length s) - 1 then s ! (length s - 1 - k) else s ! k))"
    unfolding sio_reverse_def by (intro reverse_loop_nth) auto
  then show ?thesis by (auto intro!: nth_equalityI simp: rev_nth)
qed

lemma sio_digit_small: "0 \<le> c \<Longrightarrow> c < 10 \<Longrightarrow> sio_digit c = digit_char (nat c)"
proof -
  assume "0 \<le> c" "c < 10"
  then have "c = 0 \<or> c = 1 \<or> c = 2 \<or> c = 3 \<or> c = 4 \<or> c = 5 \<or> c = 6 \<or> c = 7 \<or> c = 8 \<or> c = 9"
    by presburger
  then show ?thesis by (auto simp: sio_digit_def digit_char_def)
qed

lemma ltoa_digits_show:
  assumes "0 \<le> v"
  shows "rev (ltoa_digits v 10) = show_nat (nat v)"
  using assms
proof (induction "nat v" arbitrary: v rule: less_induct)
  case less
  have div: "v sdiv 10 = v div 10" "v smod 10 = v mod 10"
    using less.prems by (simp_all add: signed_divide_int_def signed_modulo_int_def sgn_if)
  have dig: "sio_digit (v mod 10) = digit_char (nat v mod 10)"
    using sio_digit_small [of "v mod 10"] less.prems by (simp add: nat_mod_distrib)
  show ?case
  proof (cases "v < 10")
    case True
    then have "\<not> v div 10 > 0" "nat v < 10" "nat v mod 10 = nat v" using less.prems by simp_all
    with div dig show ?thesis by (subst ltoa_digits.simps, subst show_nat.simps) (simp add: Let_def)
  next
    case False
    then have q: "v div 10 > 0" "nat (v div 10) < nat v" "0 \<le> v div 10" using less.prems by simp_all
    have "ltoa_digits v 10 = digit_char (nat v mod 10) # ltoa_digits (v div 10) 10"
      using q(1) div dig by (subst ltoa_digits.simps) (simp add: Let_def)
    moreover have "rev (ltoa_digits (v div 10) 10) = show_nat (nat v div 10)"
      using less.hyps [OF q(2,3)] less.prems by (simp add: nat_div_distrib)
    ultimately show ?thesis using False by (subst show_nat.simps) simp
  qed
qed

lemma sio_strlen_no_nul: "no_nul s \<Longrightarrow> sio_strlen s = length s"
  by (induction s) auto

section \<open>Properties\<close>

text \<open>\<open>sio_putl\<close> writes the decimal text of a non-negative number, when \<open>write\<close> takes all of
  it at once.\<close>

theorem sio_putl_decimal:
  assumes "0 \<le> v" and "io_plan s = []"
  shows "sio_putl v s = (int (length (show_int v)), s\<lparr>io_sent := io_sent s @ show_int v\<rparr>)"
proof -
  have "sio_ltoa v 10 = show_int v"
    using assms(1) by (simp add: sio_ltoa_def sio_reverse_rev ltoa_digits_show show_int_def)
  moreover have "no_nul (show_int v)"
    using assms(1) by (auto simp: show_int_def no_nul_def isdigit_def dest: show_nat_digits)
  ultimately show ?thesis
    using assms(2) by (simp add: sio_putl_def sio_puts_def sio_strlen_no_nul sys_write_def)
qed

definition empty_io :: io where
  "empty_io = \<lparr>w_errno = 0, w_out = [], w_err = [], io_in = [], io_plan = [], io_sent = []\<rparr>"

theorem sio_putl_decimal_witness:
  "io_sent (snd (sio_putl 305 empty_io)) = ''305''"
proof -
  have "sio_putl 305 empty_io = (int (length (show_int 305)), empty_io\<lparr>io_sent := io_sent empty_io @ show_int 305\<rparr>)"
    by (rule sio_putl_decimal) (simp_all add: empty_io_def)
  moreover have "show_int 305 = ''305''" by code_simp
  ultimately show ?thesis by (simp add: empty_io_def)
qed

text \<open>Negative numbers come out wrong: the loop stops after one digit, and C's remainder is
  negative, so \<open>-5\<close> is written as a plus sign and \<open>-12\<close> as a full stop.\<close>

theorem sio_putl_negative:
  "io_sent (snd (sio_putl (- 5) empty_io)) = ''+'' \<and> io_sent (snd (sio_putl (- 12) empty_io)) = ''.''"
  by code_simp

end
