(* ===== verification/Csapp_Net.thy ===== *)
theory Csapp_Net
  imports Csapp_Base
begin

text \<open>
  \<open>open_clientfd\<close> and \<open>open_listenfd\<close> of \<open>csapp.c\<close>: the walk over the addresses that
  \<open>getaddrinfo\<close> returns. The socket calls are a record of parameters.
\<close>

section \<open>The calls\<close>

record hints =
  ai_family :: int
  ai_socktype :: int
  ai_flags :: "string set"    \<comment> \<open>names of the flags that are set\<close>

definition SOCK_STREAM :: int where "SOCK_STREAM = 1"

definition LISTENQ :: int where "LISTENQ = 1024"

record ('w, 'ai) netcalls =
  nc_getaddrinfo :: "string option \<Rightarrow> string \<Rightarrow> hints \<Rightarrow> ('w, int \<times> 'ai list) syscall"
  nc_gai_strerror :: "int \<Rightarrow> string"
  nc_strerror :: "int \<Rightarrow> string"
  nc_freeaddrinfo :: "'ai list \<Rightarrow> ('w, unit) syscall"
  nc_socket :: "'ai \<Rightarrow> ('w, int) syscall"
  nc_connect :: "int \<Rightarrow> 'ai \<Rightarrow> ('w, int) syscall"
  nc_setsockopt :: "int \<Rightarrow> ('w, int) syscall"
  nc_bind :: "int \<Rightarrow> 'ai \<Rightarrow> ('w, int) syscall"
  nc_listen :: "int \<Rightarrow> int \<Rightarrow> ('w, int) syscall"
  nc_close :: "int \<Rightarrow> ('w, int) syscall"

section \<open>open_clientfd\<close>

definition client_hints :: hints where
  "client_hints = \<lparr>ai_family = 0, ai_socktype = SOCK_STREAM,
     ai_flags = {''AI_NUMERICSERV'', ''AI_ADDRCONFIG''}\<rparr>"

text \<open>
  The walk: \<open>Inl r\<close> is the early \<open>return\<close>, \<open>Inr (Some fd)\<close> a \<open>break\<close> at the address in use,
  \<open>Inr None\<close> the end of the list.
\<close>

fun client_walk :: "('w, 'ai) netcalls \<Rightarrow> 'ai list \<Rightarrow> 'w world_scheme \<Rightarrow> (int + int option) \<times> 'w world_scheme" where
  "client_walk c [] s = (Inr None, s)"
| "client_walk c (p # ps) s =
     (case nc_socket c p s of (clientfd, s1) \<Rightarrow>
        if clientfd < 0 then client_walk c ps s1
        else case nc_connect c clientfd p s1 of (rc, s2) \<Rightarrow>
          if rc \<noteq> - 1 then (Inr (Some clientfd), s2)
          else case nc_close c clientfd s2 of (rc', s3) \<Rightarrow>
            if rc' < 0 then
              (Inl (- 1), print_err (''open_clientfd: close failed: '' @ nc_strerror c (w_errno s3) @ [LF]) s3)
            else client_walk c ps s3)"

definition open_clientfd :: "('w, 'ai) netcalls \<Rightarrow> string \<Rightarrow> string \<Rightarrow> ('w, int) syscall" where
  "open_clientfd c hostname port s =
     (case nc_getaddrinfo c (Some hostname) port client_hints s of ((rc, listp), s1) \<Rightarrow>
        if rc \<noteq> 0 then
          (- 2, print_err (''getaddrinfo failed ('' @ hostname @ '':'' @ port @ ''): '' @
                           nc_gai_strerror c rc @ [LF]) s1)
        else case client_walk c listp s1 of (r, s2) \<Rightarrow>
          (case r of
             Inl rc' \<Rightarrow> (rc', s2)
           | Inr found \<Rightarrow>
               (case nc_freeaddrinfo c listp s2 of (_, s3) \<Rightarrow>
                  (case found of None \<Rightarrow> (- 1, s3) | Some clientfd \<Rightarrow> (clientfd, s3)))))"

section \<open>open_listenfd\<close>

definition listen_hints :: hints where
  "listen_hints = \<lparr>ai_family = 0, ai_socktype = SOCK_STREAM,
     ai_flags = {''AI_PASSIVE'', ''AI_ADDRCONFIG'', ''AI_NUMERICSERV''}\<rparr>"

fun listen_walk :: "('w, 'ai) netcalls \<Rightarrow> 'ai list \<Rightarrow> 'w world_scheme \<Rightarrow> (int + int option) \<times> 'w world_scheme" where
  "listen_walk c [] s = (Inr None, s)"
| "listen_walk c (p # ps) s =
     (case nc_socket c p s of (listenfd, s1) \<Rightarrow>
        if listenfd < 0 then listen_walk c ps s1
        else case nc_setsockopt c listenfd s1 of (_, s2) \<Rightarrow>
          case nc_bind c listenfd p s2 of (rc, s3) \<Rightarrow>
            if rc = 0 then (Inr (Some listenfd), s3)
            else case nc_close c listenfd s3 of (rc', s4) \<Rightarrow>
              if rc' < 0 then
                (Inl (- 1), print_err (''open_listenfd close failed: '' @ nc_strerror c (w_errno s4) @ [LF]) s4)
              else listen_walk c ps s4)"

definition open_listenfd :: "('w, 'ai) netcalls \<Rightarrow> string \<Rightarrow> ('w, int) syscall" where
  "open_listenfd c port s =
     (case nc_getaddrinfo c None port listen_hints s of ((rc, listp), s1) \<Rightarrow>
        if rc \<noteq> 0 then
          (- 2, print_err (''getaddrinfo failed (port '' @ port @ ''): '' @ nc_gai_strerror c rc @ [LF]) s1)
        else case listen_walk c listp s1 of (r, s2) \<Rightarrow>
          (case r of
             Inl rc' \<Rightarrow> (rc', s2)
           | Inr found \<Rightarrow>
               (case nc_freeaddrinfo c listp s2 of (_, s3) \<Rightarrow>
                  (case found of
                     None \<Rightarrow> (- 1, s3)
                   | Some listenfd \<Rightarrow>
                       (case nc_listen c listenfd LISTENQ s3 of (rc', s4) \<Rightarrow>
                          if rc' < 0 then (- 1, snd (nc_close c listenfd s4)) else (listenfd, s4))))))"

definition Open_clientfd :: "('w, 'ai) netcalls \<Rightarrow> string \<Rightarrow> string \<Rightarrow> ('w world_scheme, int) cprog" where
  "Open_clientfd c hostname port =
     check_neg (nc_strerror c) ''Open_clientfd error'' (open_clientfd c hostname port)"

definition Open_listenfd :: "('w, 'ai) netcalls \<Rightarrow> string \<Rightarrow> ('w world_scheme, int) cprog" where
  "Open_listenfd c port = check_neg (nc_strerror c) ''Open_listenfd error'' (open_listenfd c port)"

section \<open>Descriptors\<close>

text \<open>
  What the socket calls do to the set of open descriptors: \<open>socket\<close> opens a new one or fails,
  \<open>close\<close> may report an error, but releases the descriptor even then (as Linux documents it; one
  that is not open is none afterwards either), the others leave it alone.
\<close>

definition sock_laws :: "('w world_scheme \<Rightarrow> int set) \<Rightarrow> ('w, 'ai) netcalls \<Rightarrow> bool" where
  "sock_laws fds c \<longleftrightarrow>
     (\<forall>p s. case nc_socket c p s of (fd, t) \<Rightarrow>
        if fd < 0 then fds t = fds s else fd \<notin> fds s \<and> fds t = insert fd (fds s)) \<and>
     (\<forall>fd s. fds (snd (nc_close c fd s)) = fds s - {fd}) \<and>
     (\<forall>fd p s. fds (snd (nc_connect c fd p s)) = fds s) \<and>
     (\<forall>fd p s. fds (snd (nc_bind c fd p s)) = fds s) \<and>
     (\<forall>fd s. fds (snd (nc_setsockopt c fd s)) = fds s) \<and>
     (\<forall>fd q s. fds (snd (nc_listen c fd q s)) = fds s) \<and>
     (\<forall>h p x s. fds (snd (nc_getaddrinfo c h p x s)) = fds s) \<and>
     (\<forall>l s. fds (snd (nc_freeaddrinfo c l s)) = fds s) \<and>
     (\<forall>m s. fds (print_err m s) = fds s)"

lemma sock_lawsD:
  assumes "sock_laws fds c"
  shows "nc_socket c p s = (fd, t) \<Longrightarrow> fd < 0 \<Longrightarrow> fds t = fds s"
    and "nc_socket c p s = (fd, t) \<Longrightarrow> \<not> fd < 0 \<Longrightarrow> fd \<notin> fds s \<and> fds t = insert fd (fds s)"
    and "nc_close c fd s = (rc, t) \<Longrightarrow> fds t = fds s - {fd}"
    and "nc_connect c fd p s = (rc, t) \<Longrightarrow> fds t = fds s"
    and "nc_bind c fd p s = (rc, t) \<Longrightarrow> fds t = fds s"
    and "nc_setsockopt c fd s = (rc, t) \<Longrightarrow> fds t = fds s"
    and "nc_listen c fd q s = (rc, t) \<Longrightarrow> fds t = fds s"
    and "nc_getaddrinfo c h port x s = (res, t) \<Longrightarrow> fds t = fds s"
    and "nc_freeaddrinfo c l s = (u, t) \<Longrightarrow> fds t = fds s"
    and "fds (print_err m s) = fds s"
  using assms unfolding sock_laws_def by (metis (mono_tags, lifting) case_prod_conv snd_conv)+

definition walk_ok :: "('w world_scheme \<Rightarrow> int set) \<Rightarrow> 'w world_scheme \<Rightarrow> (int + int option) \<times> 'w world_scheme \<Rightarrow> bool" where
  "walk_ok fds s res \<longleftrightarrow>
     (case res of
        (Inl r, t) \<Rightarrow> r < 0 \<and> fds t = fds s
      | (Inr None, t) \<Rightarrow> fds t = fds s
      | (Inr (Some fd), t) \<Rightarrow> 0 \<le> fd \<and> fd \<notin> fds s \<and> fds t = insert fd (fds s))"

lemma walk_ok_same: "fds t = fds s \<Longrightarrow> walk_ok fds t res \<Longrightarrow> walk_ok fds s res"
  by (simp add: walk_ok_def split: prod.splits sum.splits option.splits)

lemma client_walk_ok:
  assumes "sock_laws fds c"
  shows "walk_ok fds s (client_walk c ps s)"
proof (induction ps arbitrary: s)
  case Nil
  then show ?case by (simp add: walk_ok_def)
next
  case (Cons p ps)
  obtain fd s1 where 1: "nc_socket c p s = (fd, s1)" by fastforce
  obtain rc s2 where 2: "nc_connect c fd p s1 = (rc, s2)" by fastforce
  obtain rc' s3 where 3: "nc_close c fd s2 = (rc', s3)" by fastforce
  show ?case
  proof (cases "fd < 0")
    case True
    with sock_lawsD(1) [OF assms 1] have "fds s1 = fds s" by simp
    with Cons.IH [of s1] True 1 show ?thesis by (auto intro: walk_ok_same)
  next
    case False
    note opened = sock_lawsD(2) [OF assms 1 False] and conn = sock_lawsD(4) [OF assms 2]
      and closed = sock_lawsD(3) [OF assms 3]
    show ?thesis
    proof (cases "rc = - 1")
      case True
      have same: "fds s3 = fds s" using opened conn closed by auto
      show ?thesis
      proof (cases "rc' < 0")
        case True
        with \<open>rc = - 1\<close> False 1 2 3 same sock_lawsD(10) [OF assms] show ?thesis by (simp add: walk_ok_def)
      next
        case ok: False
        with Cons.IH [of s3] \<open>rc = - 1\<close> False 1 2 3 same show ?thesis by (auto intro: walk_ok_same)
      qed
    qed (use False 1 2 opened conn in \<open>auto simp: walk_ok_def\<close>)
  qed
qed

lemma listen_walk_ok:
  assumes "sock_laws fds c"
  shows "walk_ok fds s (listen_walk c ps s)"
proof (induction ps arbitrary: s)
  case Nil
  then show ?case by (simp add: walk_ok_def)
next
  case (Cons p ps)
  obtain fd s1 where 1: "nc_socket c p s = (fd, s1)" by fastforce
  obtain u s2 where 2: "nc_setsockopt c fd s1 = (u, s2)" by fastforce
  obtain rc s3 where 3: "nc_bind c fd p s2 = (rc, s3)" by fastforce
  obtain rc' s4 where 4: "nc_close c fd s3 = (rc', s4)" by fastforce
  show ?case
  proof (cases "fd < 0")
    case True
    with sock_lawsD(1) [OF assms 1] have "fds s1 = fds s" by simp
    with Cons.IH [of s1] True 1 show ?thesis by (auto intro: walk_ok_same)
  next
    case False
    note opened = sock_lawsD(2) [OF assms 1 False] and kept = sock_lawsD(6) [OF assms 2]
      sock_lawsD(5) [OF assms 3] and closed = sock_lawsD(3) [OF assms 4]
    show ?thesis
    proof (cases "rc = 0")
      case True
      with False 1 2 3 opened kept show ?thesis by (simp add: walk_ok_def)
    next
      case neq: False
      have same: "fds s4 = fds s" using opened kept closed by auto
      show ?thesis
      proof (cases "rc' < 0")
        case True
        with neq False 1 2 3 4 same sock_lawsD(10) [OF assms] show ?thesis by (simp add: walk_ok_def)
      next
        case ok: False
        with Cons.IH [of s4] neq False 1 2 3 4 same show ?thesis by (auto intro: walk_ok_same)
      qed
    qed
  qed
qed

text \<open>A result that is negative leaves the descriptors as they were; another one is a new descriptor.\<close>

definition opens_or_not :: "('w world_scheme \<Rightarrow> int set) \<Rightarrow> 'w world_scheme \<Rightarrow> int \<times> 'w world_scheme \<Rightarrow> bool" where
  "opens_or_not fds s res \<longleftrightarrow>
     (if fst res < 0 then fds (snd res) = fds s
      else fst res \<notin> fds s \<and> fds (snd res) = insert (fst res) (fds s))"

lemma open_clientfd_opens:
  assumes "sock_laws fds c"
  shows "opens_or_not fds s (open_clientfd c hostname port s)"
proof -
  obtain rc l s1 where 1: "nc_getaddrinfo c (Some hostname) port client_hints s = ((rc, l), s1)"
    by (metis surj_pair)
  obtain r s2 where 2: "client_walk c l s1 = (r, s2)" by fastforce
  obtain u s3 where 3: "nc_freeaddrinfo c l s2 = (u, s3)" by (cases "nc_freeaddrinfo c l s2")
  have "walk_ok fds s1 (r, s2)" using client_walk_ok [OF assms, of s1 l] 2 by simp
  moreover have "fds s1 = fds s" "fds s3 = fds s2"
    using sock_lawsD(8) [OF assms 1] sock_lawsD(9) [OF assms 3] by simp_all
  ultimately show ?thesis using 1 2 3 sock_lawsD(10) [OF assms]
    by (cases r) (auto simp: open_clientfd_def opens_or_not_def walk_ok_def split: option.splits)
qed

lemma open_listenfd_opens:
  assumes "sock_laws fds c"
  shows "opens_or_not fds s (open_listenfd c port s)"
proof -
  obtain rc l s1 where 1: "nc_getaddrinfo c None port listen_hints s = ((rc, l), s1)"
    by (metis surj_pair)
  obtain r s2 where 2: "listen_walk c l s1 = (r, s2)" by fastforce
  obtain u s3 where 3: "nc_freeaddrinfo c l s2 = (u, s3)" by (cases "nc_freeaddrinfo c l s2")
  have w: "walk_ok fds s1 (r, s2)" using listen_walk_ok [OF assms, of s1 l] 2 by simp
  have same: "fds s1 = fds s" "fds s3 = fds s2" "fds (print_err m s1) = fds s1" for m
    using sock_lawsD(8) [OF assms 1] sock_lawsD(9) [OF assms 3] sock_lawsD(10) [OF assms] by simp_all
  show ?thesis
  proof (cases "rc = 0 \<and> (\<exists>fd. r = Inr (Some fd))")
    case False
    with w same 1 2 3 show ?thesis
      by (cases r) (auto simp: open_listenfd_def opens_or_not_def walk_ok_def split: option.splits)
  next
    case True
    then obtain fd where fd: "rc = 0" "r = Inr (Some fd)" by blast
    obtain rc' s4 where 4: "nc_listen c fd LISTENQ s3 = (rc', s4)" by fastforce
    obtain rc'' s5 where 5: "nc_close c fd s4 = (rc'', s5)" by fastforce
    have "fds s4 = fds s3" "fds s5 = fds s4 - {fd}"
      using sock_lawsD(7) [OF assms 4] sock_lawsD(3) [OF assms 5] by simp_all
    with w same 1 2 3 4 5 fd show ?thesis
      by (auto simp: open_listenfd_def opens_or_not_def walk_ok_def)
  qed
qed

section \<open>A concrete network\<close>

text \<open>
  A list of open descriptors, one address that refuses connections, and numbers given out from
  the highest open one on; \<open>close\<close> of a number that is not open fails.
\<close>

record fd_world = world +
  fw_open :: "int list"

definition fw_new :: "int list \<Rightarrow> int" where
  "fw_new l = 1 + foldr max l 2"

lemma fw_new_fresh: "\<not> fw_new l < 0" "fw_new l \<notin> set l"
proof -
  have "2 \<le> foldr max l 2 \<and> (\<forall>x \<in> set l. x \<le> foldr max l (2 :: int))" by (induction l) auto
  then show "\<not> fw_new l < 0" "fw_new l \<notin> set l" by (auto simp: fw_new_def)
qed

text \<open>An address is a name; \<open>down\<close> refuses, every other one works.\<close>

definition small_net :: "(\<lparr>fw_open :: int list\<rparr>, string) netcalls" where
  "small_net =
     \<lparr>nc_getaddrinfo = (\<lambda>h port x s. if port = ''80'' then ((0, [''down'', ''up'']), s) else ((- 8, []), s)),
      nc_gai_strerror = (\<lambda>rc. ''unknown service''), nc_strerror = (\<lambda>e. ''error''),
      nc_freeaddrinfo = (\<lambda>l s. ((), s)),
      nc_socket = (\<lambda>p s. (fw_new (fw_open s), s\<lparr>fw_open := fw_new (fw_open s) # fw_open s\<rparr>)),
      nc_connect = (\<lambda>fd p s. (if p = ''down'' then - 1 else 0, s)),
      nc_setsockopt = (\<lambda>fd s. (0, s)),
      nc_bind = (\<lambda>fd p s. (if p = ''down'' then - 1 else 0, s)),
      nc_listen = (\<lambda>fd q s. (0, s)),
      nc_close = (\<lambda>fd s. (if fd \<in> set (fw_open s) then 0 else - 1, s\<lparr>fw_open := removeAll fd (fw_open s)\<rparr>))\<rparr>"

lemma small_net_laws: "sock_laws (\<lambda>s. set (fw_open s)) small_net"
  by (auto simp: fw_new_fresh sock_laws_def small_net_def print_err_def)

definition fd_start :: fd_world where
  "fd_start = \<lparr>w_errno = 0, w_out = [], w_err = [], fw_open = [0, 1, 2]\<rparr>"

section \<open>Properties\<close>

text \<open>C16. \<open>open_clientfd\<close> and \<open>open_listenfd\<close> leak no descriptor: after a negative result the same
  descriptors are open as before, and otherwise exactly the one returned in addition,
  whichever addresses failed on the way, and also when \<open>close\<close> reports an error (for a system
  whose \<open>close\<close> releases the descriptor even then).\<close>

theorem csapp_open_no_leak:
  assumes "sock_laws fds c"
  shows "opens_or_not fds s (open_clientfd c hostname port s) \<and>
    opens_or_not fds s (open_listenfd c port s)"
  using open_clientfd_opens [OF assms] open_listenfd_opens [OF assms] by blast

theorem csapp_open_no_leak_witness:
  "fst (open_clientfd small_net ''h'' ''80'' fd_start) = 3 \<and>
   opens_or_not (\<lambda>s. set (fw_open s)) fd_start (open_clientfd small_net ''h'' ''80'' fd_start)"
proof
  show "fst (open_clientfd small_net ''h'' ''80'' fd_start) = 3" by code_simp
  show "opens_or_not (\<lambda>s. set (fw_open s)) fd_start (open_clientfd small_net ''h'' ''80'' fd_start)"
    using csapp_open_no_leak [OF small_net_laws] by blast
qed

end
