(* ===== verification/Dns_Name.thy ===== *)
theory Dns_Name
  imports CString "HOL-Library.Word" "HOL-Library.Monad_Syntax"
begin

text \<open>
  Names and bytes in \<open>dnsresolverlab-handout/resolver.c\<close>: canonical form, the conversion of
  names to and from the wire format, and the debugging dump. Messages are lists of bytes;
  a read or write outside an array is a fault. What an uninitialised part of the stack
  holds is a parameter.
\<close>

type_synonym byte = "8 word"

abbreviation HEADER_SIZE :: nat where "HEADER_SIZE \<equiv> 12"
abbreviation FOOTER_SIZE :: nat where "FOOTER_SIZE \<equiv> 4"
abbreviation RES_MAX :: nat where "RES_MAX \<equiv> 65536"
abbreviation RR_COUNT_LOCATION :: nat where "RR_COUNT_LOCATION \<equiv> 6"
abbreviation CNAME :: byte where "CNAME \<equiv> 5"

definition byte_char :: "byte \<Rightarrow> char" where
  "byte_char b = char_of (unat b)"

definition char_byte :: "char \<Rightarrow> byte" where
  "char_byte c = word_of_nat (of_char c)"

section \<open>Canonical names\<close>

definition lower :: "char \<Rightarrow> char" where
  "lower c = (if 65 \<le> (of_char c :: nat) \<and> (of_char c :: nat) \<le> 90 then char_of (of_char c + 32 :: nat) else c)"

text \<open>\<open>canonicalize_name\<close>; the empty name makes it read and maybe write before the array.\<close>

definition canonicalize_name :: "string \<Rightarrow> string outcome" where
  "canonicalize_name name =
     (if name = ''.'' then Ret name
      else if name = [] then Fault Out_Of_Bounds
      else Ret (map lower (if last name = CHR ''.'' then butlast name else name)))"

section \<open>To the wire\<close>

text \<open>
  The loop of \<open>name_ascii_to_wire\<close> over the tokens. The array \<open>delim\<close> holds a full stop and no
  null character, so that \<open>strtok\<close> goes on reading what follows it: \<open>delims\<close> is the full stop
  with the bytes up to the next null.
\<close>

function to_wire_loop :: "string \<Rightarrow> string \<Rightarrow> byte list" where
  "to_wire_loop delims s =
     (case strtok delims s of
        (None, _) \<Rightarrow> [0]
      | (Some token, rest) \<Rightarrow>
          word_of_nat (length token) # map char_byte token @ to_wire_loop delims rest)"
  by pat_completeness auto
termination
  by (relation "measure (\<lambda>(delims, s). length s)") (auto dest: strtok_rest_less [OF sym])

declare to_wire_loop.simps [simp del]

definition name_ascii_to_wire :: "string \<Rightarrow> string \<Rightarrow> byte list" where
  "name_ascii_to_wire after name = to_wire_loop (CHR ''.'' # after) name"

section \<open>From the wire\<close>

text \<open>
  The loop of \<open>name_ascii_from_wire\<close>, with the bytes copied so far. A pointer is followed to
  the offset in its low byte alone. The loop may run for ever: then it has no value.
\<close>

partial_function (option) from_wire_loop :: "byte list \<Rightarrow> nat \<Rightarrow> string \<Rightarrow> string outcome option" where
  "from_wire_loop wire index name =
     (if length wire \<le> index then Some (Fault Out_Of_Bounds)
      else if wire ! index = 0 then
        (if RES_MAX \<le> length name then Some (Fault Out_Of_Bounds) else Some (Ret name))
      else if 0xC0 \<le> wire ! index then
        (if length wire \<le> Suc index then Some (Fault Out_Of_Bounds)
         else from_wire_loop wire (unat (wire ! Suc index)) name)
      else
        (let size_label = unat (wire ! index)
         in if length wire < index + size_label + 1 \<or> RES_MAX < length name + size_label + 1
            then Some (Fault Out_Of_Bounds)
            else from_wire_loop wire (index + size_label + 1)
              (name @ CHR ''.'' # map byte_char (take size_label (drop (Suc index) wire)))))"

text \<open>
  The copy without the leading full stop. For the root name there is none: the code copies
  from the uninitialised second byte of \<open>name\<close> into an array of length 0.
\<close>

definition from_wire_finish :: "string \<Rightarrow> string outcome" where
  "from_wire_finish name =
     (case cstr name of
        [] \<Rightarrow> Fault Uninitialised
      | c # s \<Rightarrow> canonicalize_name s)"

definition name_ascii_from_wire :: "byte list \<Rightarrow> nat \<Rightarrow> string outcome option" where
  "name_ascii_from_wire wire index =
     map_option (\<lambda>r. obind r from_wire_finish) (from_wire_loop wire index [])"

section \<open>Byte order and the dump\<close>

unbundle bit_operations_syntax

definition swap_bytes_in_short :: "16 word \<Rightarrow> 16 word" where
  "swap_bytes_in_short s = (push_bit 8 s) OR (drop_bit 8 s)"

definition hex_digit :: "nat \<Rightarrow> char" where
  "hex_digit d = (if d < 10 then char_of (48 + d) else char_of (55 + d))"

text \<open>\<open>%02X\<close>: at least two upper-case hexadecimal digits.\<close>

fun hex :: "nat \<Rightarrow> string" where
  "hex n = (if n < 16 then [hex_digit n] else hex (n div 16) @ [hex_digit (n mod 16)])"

declare hex.simps [simp del]

definition hex02 :: "nat \<Rightarrow> string" where
  "hex02 n = (if n < 16 then CHR ''0'' # hex n else hex n)"

text \<open>One column of the text at the end of a line of \<open>print_bytes\<close>, and one round of its loop.\<close>

definition dump_char :: "byte list \<Rightarrow> nat \<Rightarrow> nat \<Rightarrow> string" where
  "dump_char bytes adjusted j =
     (if adjusted \<le> j then ''  ''
      else if length bytes \<le> j then ''  ''
      else if 33 \<le> unat (bytes ! j) \<and> unat (bytes ! j) \<le> 126 then SPC # [byte_char (bytes ! j)]
      else '' .'')"

definition dump_round :: "byte list \<Rightarrow> nat \<Rightarrow> nat \<Rightarrow> string" where
  "dump_round bytes adjusted i =
     (if i mod 8 = 0 then
        (if 0 < i then concat (map (dump_char bytes adjusted) [i - 8..<i]) else []) @
        (if i < adjusted then LF # hex02 i @ '': '' else [])
      else if i mod 4 = 0 then '' '' else []) @
     (if adjusted \<le> i then []
      else if length bytes \<le> i then ''   ''
      else hex02 (unat (bytes ! i)) @ '' '')"

definition print_bytes :: "byte list \<Rightarrow> string" where
  "print_bytes bytes =
     (let adjusted = (if length bytes mod 8 \<noteq> 0 then (length bytes div 8 + 1) * 8 else length bytes)
      in concat (map (dump_round bytes adjusted) [0..<adjusted + 1]) @ [LF])"

end
