(* ===== verification/Dns_Resolve.thy ===== *)
theory Dns_Resolve
  imports Dns_Name Csapp_Base
begin

text \<open>
  Queries and answers in \<open>dnsresolverlab-handout/resolver.c\<close>: the query message, the exchange
  over UDP, the walk over the answer records, and \<open>main\<close>. \<open>rr_from_wire\<close> and \<open>rr_to_wire\<close>
  have empty bodies and no callers.
\<close>

section \<open>The query\<close>

text \<open>
  \<open>create_dns_query\<close>: the array \<open>dest\<close> has \<open>strlen(qname) + 2\<close> bytes, of which the conversion
  writes a prefix; \<open>stack k\<close> is the byte that the others happen to hold.
\<close>

definition create_dns_query :: "(nat \<Rightarrow> byte) \<Rightarrow> string \<Rightarrow> byte \<Rightarrow> byte \<Rightarrow> string \<Rightarrow> byte list outcome" where
  "create_dns_query stack after rand1 rand2 qname =
     (let qsize = length qname + 2;
          name = name_ascii_to_wire after qname
      in if qsize < length name then Fault Out_Of_Bounds
         else Ret ([rand1, rand2, 1, 0, 0, 1, 0, 0, 0, 0, 0, 0] @
                   (name @ map stack [length name..<qsize]) @ [0, 1, 0, 1]))"

section \<open>The exchange\<close>

record dns_hints =
  dh_family :: int
  dh_socktype :: int
  dh_flags :: int
  dh_protocol :: int

definition AF_INET :: int where "AF_INET = 2"
definition SOCK_DGRAM :: int where "SOCK_DGRAM = 2"

text \<open>The socket calls; \<open>recv\<close> returns a length or -1, and the bytes it stored.\<close>

record ('w, 'ai) dnscalls =
  dc_getaddrinfo :: "string \<Rightarrow> string \<Rightarrow> dns_hints \<Rightarrow> ('w, int \<times> 'ai list) syscall"
  dc_gai_strerror :: "int \<Rightarrow> string"
  dc_freeaddrinfo :: "'ai list \<Rightarrow> ('w, unit) syscall"
  dc_socket :: "'ai \<Rightarrow> ('w, int) syscall"
  dc_connect :: "int \<Rightarrow> 'ai \<Rightarrow> ('w, int) syscall"
  dc_close :: "int \<Rightarrow> ('w, int) syscall"
  dc_send :: "int \<Rightarrow> byte list \<Rightarrow> ('w, int) syscall"
  dc_recv :: "int \<Rightarrow> nat \<Rightarrow> ('w, int \<times> byte list) syscall"

fun udp_walk :: "('w, 'ai) dnscalls \<Rightarrow> 'ai list \<Rightarrow> ('w, int option) syscall" where
  "udp_walk c [] s = (None, s)"
| "udp_walk c (rp # rps) s =
     (case dc_socket c rp s of (sfd, s1) \<Rightarrow>
        if sfd = - 1 then udp_walk c rps s1
        else case dc_connect c sfd rp s1 of (rc, s2) \<Rightarrow>
          if rc \<noteq> - 1 then (Some sfd, s2)
          else udp_walk c rps (snd (dc_close c sfd s2)))"

text \<open>
  \<open>send_recv_message\<close>: the result of \<open>recv\<close>, unchecked, and the response array: the bytes
  received in front of what it held before.
\<close>

definition send_recv_message ::
    "('w, 'ai) dnscalls \<Rightarrow> byte list \<Rightarrow> byte list \<Rightarrow> string \<Rightarrow> string \<Rightarrow> ('w world_scheme, int \<times> byte list) cprog" where
  "send_recv_message c request response server port s =
     (case dc_getaddrinfo c server port
             \<lparr>dh_family = AF_INET, dh_socktype = SOCK_DGRAM, dh_flags = 0, dh_protocol = 0\<rparr> s of
        ((rc, result), s1) \<Rightarrow>
          if rc \<noteq> 0 then (Exited 1, print_err (''getaddrinfo: '' @ dc_gai_strerror c rc @ [LF]) s1)
          else case udp_walk c result s1 of
            (None, s2) \<Rightarrow> (Exited 1, print_err (''Could not connect'' @ [LF]) s2)
          | (Some sfd, s2) \<Rightarrow>
              (case dc_freeaddrinfo c result s2 of (_, s3) \<Rightarrow>
               case dc_send c sfd request s3 of (_, s4) \<Rightarrow>
               case dc_recv c sfd RES_MAX s4 of ((n, d), s5) \<Rightarrow>
                 (Ret (n, take RES_MAX d @ drop (length d) response), s5)))"

section \<open>The answers\<close>

definition byte_at :: "byte list \<Rightarrow> nat \<Rightarrow> byte outcome" where
  "byte_at bs i = (if i < length bs then Ret (bs ! i) else Fault Out_Of_Bounds)"

text \<open>Two bytes as an \<open>unsigned short\<close>, most significant first.\<close>

definition short_at :: "byte list \<Rightarrow> nat \<Rightarrow> 16 word outcome" where
  "short_at bs i =
     obind (byte_at bs i) (\<lambda>h. obind (byte_at bs (Suc i)) (\<lambda>l.
       Ret (push_bit 8 (ucast h) + ucast l)))"

definition get_answer_address :: "byte list \<Rightarrow> nat \<Rightarrow> string outcome" where
  "get_answer_address wire index =
     obind (byte_at wire index) (\<lambda>a. obind (byte_at wire (index + 1)) (\<lambda>b.
     obind (byte_at wire (index + 2)) (\<lambda>c. obind (byte_at wire (index + 3)) (\<lambda>d.
       Ret (show_nat (unat a) @ ''.'' @ show_nat (unat b) @ ''.'' @ show_nat (unat c) @ ''.'' @
            show_nat (unat d))))))"

text \<open>\<open>strlen\<close> on the message: up to the next zero byte.\<close>

definition wire_strlen :: "byte list \<Rightarrow> nat \<Rightarrow> nat outcome" where
  "wire_strlen wire index =
     (case first_index (\<lambda>b. b = 0) (drop index wire) of
        None \<Rightarrow> Fault Out_Of_Bounds | Some k \<Rightarrow> Ret k)"

definition rr_name_len :: "byte list \<Rightarrow> nat \<Rightarrow> nat outcome" where
  "rr_name_len wire index =
     obind (byte_at wire index)
       (\<lambda>b. if 0xC0 \<le> b then Ret 2 else omap Suc (wire_strlen wire index))"

text \<open>The value of the record whose data begin at \<open>index\<close>: an alias or an address.\<close>

definition rr_value :: "byte list \<Rightarrow> nat \<Rightarrow> string outcome option" where
  "rr_value wire index =
     (case byte_at wire (index - 9) of
        Ret t \<Rightarrow>
          if t = CNAME then name_ascii_from_wire wire index else Some (get_answer_address wire index)
      | Exited n \<Rightarrow> Some (Exited n)
      | Fault e \<Rightarrow> Some (Fault e))"

text \<open>
  The loop of \<open>resolve\<close> over \<open>n\<close> records; no value when an alias never ends. The list of entries
  is the list of their values.
\<close>

fun answer_loop :: "byte list \<Rightarrow> nat \<Rightarrow> nat \<Rightarrow> string list outcome option" where
  "answer_loop wire 0 index = Some (Ret [])"
| "answer_loop wire (Suc n) index =
     (case rr_name_len wire index of
        Ret name_len \<Rightarrow>
          (let index' = index + name_len + 10
           in case rr_value wire index' of
                None \<Rightarrow> None
              | Some (Ret v) \<Rightarrow>
                  (case short_at wire (index' - 2) of
                     Ret rdata_len \<Rightarrow>
                       map_option (omap ((#) v)) (answer_loop wire n (index' + unat rdata_len))
                   | Exited k \<Rightarrow> Some (Exited k)
                   | Fault e \<Rightarrow> Some (Fault e))
              | Some (Exited k) \<Rightarrow> Some (Exited k)
              | Some (Fault e) \<Rightarrow> Some (Fault e))
      | Exited k \<Rightarrow> Some (Exited k)
      | Fault e \<Rightarrow> Some (Fault e))"

text \<open>\<open>resolve\<close> after the exchange: \<open>None\<close> inside is the null pointer, for no records.\<close>

definition read_answers :: "byte list \<Rightarrow> nat \<Rightarrow> string list option outcome option" where
  "read_answers response sz =
     (case short_at response RR_COUNT_LOCATION of
        Ret rrs \<Rightarrow>
          map_option (omap (\<lambda>vs. if rrs = 0 then None else Some vs))
            (answer_loop response (unat rrs) sz)
      | Exited k \<Rightarrow> Some (Exited k)
      | Fault e \<Rightarrow> Some (Fault e))"

definition resolve ::
    "('w, 'ai) dnscalls \<Rightarrow> (nat \<Rightarrow> byte) \<Rightarrow> byte list \<Rightarrow> string \<Rightarrow> byte \<times> byte \<Rightarrow> string \<Rightarrow> string \<Rightarrow> string \<Rightarrow>
     'w world_scheme \<Rightarrow> (string list option outcome \<times> 'w world_scheme) option" where
  "resolve c stack old after rnd qname server port s =
     (let sz = HEADER_SIZE + length qname + 2 + FOOTER_SIZE
      in case create_dns_query stack after (fst rnd) (snd rnd) qname of
           Ret wire \<Rightarrow>
             (case send_recv_message c wire old server port s of
                (Ret (n, response), t) \<Rightarrow>
                  map_option (\<lambda>r. (r, t)) (read_answers response sz)
              | (Exited k, t) \<Rightarrow> Some (Exited k, t)
              | (Fault e, t) \<Rightarrow> Some (Fault e, t))
         | Exited k \<Rightarrow> Some (Exited k, s)
         | Fault e \<Rightarrow> Some (Fault e, s))"

section \<open>main\<close>

definition resolver_main ::
    "('w, 'ai) dnscalls \<Rightarrow> (nat \<Rightarrow> byte) \<Rightarrow> byte list \<Rightarrow> string \<Rightarrow> byte \<times> byte \<Rightarrow> string list \<Rightarrow>
     'w world_scheme \<Rightarrow> (unit outcome \<times> 'w world_scheme) option" where
  "resolver_main c stack old after rnd argv s =
     (if length argv < 3 then
        Some (Exited 1,
          print_err (''Usage: '' @ hd argv @ '' <domain name> <server> [ <port> ]'' @ [LF]) s)
      else
        (let port = (if 3 < length argv then argv ! 3 else ''53'')
         in map_option
              (\<lambda>(r, t). case r of
                 Ret None \<Rightarrow> (Ret (), t)
               | Ret (Some vs) \<Rightarrow> (Ret (), print_out (concat (map (\<lambda>v. v @ [LF]) vs)) t)
               | Exited k \<Rightarrow> (Exited k, t)
               | Fault e \<Rightarrow> (Fault e, t))
              (resolve c stack old after rnd (argv ! 1) (argv ! 2) port s)))"

end
