(* ===== verification/Dns_Proofs.thy ===== *)
theory Dns_Proofs
  imports Dns_Resolve
begin

text \<open>
  Correctness of the resolver on well-formed names and answers, and what happens on the
  messages that RFC 1035 allows or a hostile server sends and the code does not expect.
\<close>

section \<open>Characters and bytes\<close>

lemma byte_char_byte [simp]: "byte_char (char_byte c) = c"
proof -
  have "of_char c < (256 :: nat)" by (rule nat_of_char_less_256)
  then have "unat (word_of_nat (of_char c) :: byte) = of_char c"
    by (simp add: unat_of_nat take_bit_eq_mod)
  then show ?thesis by (simp add: byte_char_def char_byte_def)
qed

lemma unat_len [simp]: "n < 256 \<Longrightarrow> unat (word_of_nat n :: byte) = n"
  by (simp add: unat_of_nat take_bit_eq_mod)

lemma len_small: "n < 192 \<Longrightarrow> \<not> 0xC0 \<le> (word_of_nat n :: byte)"
  by (simp add: word_le_nat_alt)

lemma len_nonzero: "0 < n \<Longrightarrow> n < 256 \<Longrightarrow> (word_of_nat n :: byte) \<noteq> 0"
  by (metis unat_len unat_0 less_numeral_extra(3))

text \<open>Two bytes, most significant first, are the number they write.\<close>

definition short_bytes :: "nat \<Rightarrow> byte list" where
  "short_bytes n = [word_of_nat (n div 256), word_of_nat (n mod 256)]"

lemma ucast_byte: "n < 256 \<Longrightarrow> (ucast (word_of_nat n :: byte) :: 16 word) = word_of_nat n"
  by (simp add: unsigned_of_nat take_bit_eq_mod)

lemma short_word:
  assumes "n < 65536"
  shows "unat (push_bit 8 (ucast (word_of_nat (n div 256) :: byte)) +
    ucast (word_of_nat (n mod 256) :: byte) :: 16 word) = n"
proof -
  have "n div 256 < 256" "n mod 256 < 256" using assms by simp_all
  then have "(push_bit 8 (ucast (word_of_nat (n div 256) :: byte)) +
      ucast (word_of_nat (n mod 256) :: byte) :: 16 word) =
      word_of_nat (n div 256) * 256 + word_of_nat (n mod 256)"
    by (simp only: ucast_byte push_bit_eq_mult) simp
  also have "\<dots> = word_of_nat (n div 256 * 256 + n mod 256)"
    by (simp only: of_nat_add of_nat_mult of_nat_numeral)
  also have "n div 256 * 256 + n mod 256 = n" by simp
  finally show ?thesis using assms by (simp add: unat_of_nat take_bit_eq_mod)
qed

section \<open>Names\<close>

text \<open>A label as the code can handle it; the wire format allows at most 63 characters.\<close>

definition label_ok :: "string \<Rightarrow> bool" where
  "label_ok l \<longleftrightarrow> l \<noteq> [] \<and> length l < 192 \<and> CHR ''.'' \<notin> set l \<and> no_nul l"

fun dotted :: "string list \<Rightarrow> string" where
  "dotted [] = []"
| "dotted [l] = l"
| "dotted (l # ls) = l @ CHR ''.'' # dotted ls"

definition labels :: "string list \<Rightarrow> byte list" where
  "labels ls = concat (map (\<lambda>l. word_of_nat (length l) # map char_byte l) ls)"

definition wire_name :: "string list \<Rightarrow> byte list" where
  "wire_name ls = labels ls @ [0]"

definition pointed :: "string list \<Rightarrow> string" where
  "pointed ls = concat (map ((#) CHR ''.'') ls)"

lemma labels_simps [simp]:
  "labels [] = []" "labels (l # ls) = word_of_nat (length l) # map char_byte l @ labels ls"
  "labels (ls @ ms) = labels ls @ labels ms"
  by (simp_all add: labels_def)

lemma pointed_simps [simp]:
  "pointed [] = []" "pointed (l # ls) = CHR ''.'' # l @ pointed ls" "pointed (ls @ ms) = pointed ls @ pointed ms"
  by (simp_all add: pointed_def)

lemma pointed_dotted: "ls \<noteq> [] \<Longrightarrow> pointed ls = CHR ''.'' # dotted ls"
  by (induction ls rule: dotted.induct) simp_all

lemma length_labels: "length (labels ls) = length (pointed ls)"
  by (induction ls) simp_all

lemma dotted_length: "ls \<noteq> [] \<Longrightarrow> length (labels ls) = Suc (length (dotted ls))"
  by (simp add: length_labels pointed_dotted)

lemma no_nul_dotted: "list_all label_ok ls \<Longrightarrow> no_nul (dotted ls)"
  by (induction ls rule: dotted.induct) (auto simp: label_ok_def)

lemma dotted_last:
  "list_all label_ok ls \<Longrightarrow> ls \<noteq> [] \<Longrightarrow> dotted ls \<noteq> [] \<and> last (dotted ls) \<noteq> CHR ''.''"
proof (induction ls rule: dotted.induct)
  case (2 l)
  then show ?case by (auto simp: label_ok_def dest: last_in_set)
qed auto

lemma canonicalize_dotted:
  assumes "list_all label_ok ls" and "ls \<noteq> []"
  shows "canonicalize_name (dotted ls) = Ret (map lower (dotted ls))"
proof -
  have "dotted ls \<noteq> ''.''" using dotted_last [OF assms] by auto
  then show ?thesis using dotted_last [OF assms] by (simp add: canonicalize_name_def)
qed

section \<open>To the wire\<close>

lemma strtok_last:
  "w \<noteq> [] \<Longrightarrow> set w \<inter> set delims = {} \<Longrightarrow> strtok delims w = (Some w, [])"
proof -
  assume a: "w \<noteq> []" "set w \<inter> set delims = {}"
  then have "\<forall>c \<in> set w. c \<notin> set delims" by auto
  then have w: "dropWhile (\<lambda>c. c \<in> set delims) w = w" "takeWhile (\<lambda>c. c \<notin> set delims) w = w"
    "dropWhile (\<lambda>c. c \<notin> set delims) w = []"
    using a(1) by (cases w; simp)+
  show ?thesis unfolding strtok_def Let_def w using a(1) by simp
qed

text \<open>The bytes that \<open>strtok\<close> takes for further delimiters do not occur in the name.\<close>

definition harmless :: "string \<Rightarrow> string list \<Rightarrow> bool" where
  "harmless after ls \<longleftrightarrow> list_all (\<lambda>l. set l \<inter> set after = {}) ls"

lemma harmless_simps [simp]:
  "harmless [] ls" "harmless after []" "harmless after (l # ls) \<longleftrightarrow> set l \<inter> set after = {} \<and> harmless after ls"
  by (simp_all add: harmless_def list_all_iff)

lemma to_wire_Nil: "to_wire_loop delims [] = [0]"
  by (subst to_wire_loop.simps) simp

lemma to_wire_dotted:
  assumes "list_all label_ok ls" and "harmless after ls"
  shows "to_wire_loop (CHR ''.'' # after) (dotted ls) = wire_name ls"
    and "ls \<noteq> [] \<Longrightarrow> to_wire_loop (CHR ''.'' # after) (dotted ls @ ''.'') = wire_name ls"
  using assms
proof (induction ls rule: dotted.induct)
  case 1
  case 1
  show ?case by (simp add: wire_name_def to_wire_Nil)
next
  case 1
  case 2
  then show ?case by simp
next
  case (2 l)
  case 1
  have "strtok (CHR ''.'' # after) l = (Some l, [])" using 1 by (intro strtok_last) (auto simp: label_ok_def)
  then show ?case by (subst to_wire_loop.simps) (simp add: wire_name_def to_wire_Nil)
next
  case (2 l)
  case 2
  have "strtok (CHR ''.'' # after) (l @ CHR ''.'' # []) = (Some l, [])"
    using 2 by (intro strtok_word) (auto simp: label_ok_def)
  then show ?case by (subst to_wire_loop.simps) (simp add: wire_name_def to_wire_Nil)
next
  case (3 l m ls)
  case 1
  have "strtok (CHR ''.'' # after) (l @ CHR ''.'' # dotted (m # ls)) = (Some l, dotted (m # ls))"
    using 1 by (intro strtok_word) (auto simp: label_ok_def)
  with 3 1 show ?case by (subst to_wire_loop.simps) (simp add: wire_name_def)
next
  case (3 l m ls)
  case 2
  have "strtok (CHR ''.'' # after) (l @ CHR ''.'' # (dotted (m # ls) @ ''.'')) = (Some l, dotted (m # ls) @ ''.'')"
    using 2 by (intro strtok_word) (auto simp: label_ok_def)
  with 3 2 show ?case by (subst to_wire_loop.simps) (simp add: wire_name_def)
qed

section \<open>From the wire\<close>

text \<open>The loop runs over labels whatever follows them.\<close>

lemma from_wire_labels:
  assumes "list_all label_ok ls" and "length name + length (pointed ls) \<le> RES_MAX"
  shows "from_wire_loop (pre @ labels ls @ post) (length pre) name =
    from_wire_loop (pre @ labels ls @ post) (length pre + length (labels ls)) (name @ pointed ls)"
  using assms
proof (induction ls arbitrary: pre name)
  case Nil
  then show ?case by simp
next
  case (Cons l ls)
  let ?w = "pre @ labels (l # ls) @ post" and ?n = "length l"
  have l: "0 < ?n" "?n < 192" using Cons.prems(1) by (auto simp: label_ok_def)
  have b: "?w ! length pre = word_of_nat ?n" by simp
  have "map byte_char (take ?n (drop (Suc (length pre)) ?w)) = l"
    by (simp add: take_map [symmetric] comp_def)
  then have "from_wire_loop ?w (length pre) name =
      from_wire_loop ?w (length pre + ?n + 1) (name @ CHR ''.'' # l)"
    using Cons.prems(2) l by (subst from_wire_loop.simps)
      (simp add: b len_nonzero len_small Let_def length_labels)
  also have "\<dots> = from_wire_loop ?w (length pre + length (labels (l # ls))) (name @ pointed (l # ls))"
    using Cons.IH [of "name @ CHR ''.'' # l" "pre @ word_of_nat ?n # map char_byte l"] Cons.prems
    by (simp add: add.assoc)
  finally show ?case .
qed

lemma from_wire_zero:
  "index < length wire \<Longrightarrow> wire ! index = 0 \<Longrightarrow> length name < RES_MAX \<Longrightarrow>
     from_wire_loop wire index name = Some (Ret name)"
  by (subst from_wire_loop.simps) simp

lemma from_wire_pointer:
  "Suc index < length wire \<Longrightarrow> 0xC0 \<le> wire ! index \<Longrightarrow>
     from_wire_loop wire index name = from_wire_loop wire (unat (wire ! Suc index)) name"
  by (subst from_wire_loop.simps) auto

lemma finish_pointed:
  assumes "list_all label_ok ls" and "ls \<noteq> []"
  shows "from_wire_finish (pointed ls) = Ret (map lower (dotted ls))"
  using assms
  by (simp add: from_wire_finish_def pointed_dotted cstr_id no_nul_dotted canonicalize_dotted)

lemma from_wire_name:
  assumes "list_all label_ok ls" and "ls \<noteq> []" and "length (dotted ls) + 1 < RES_MAX"
  shows "name_ascii_from_wire (pre @ wire_name ls @ post) (length pre) = Some (Ret (map lower (dotted ls)))"
proof -
  have len: "length (pointed ls) < RES_MAX" using assms(3) by (simp add: pointed_dotted [OF assms(2)])
  have "from_wire_loop (pre @ wire_name ls @ post) (length pre) [] = Some (Ret (pointed ls))"
    using from_wire_labels [OF assms(1), of "[]" pre "0 # post"] len
      from_wire_zero [of "length pre + length (labels ls)" "pre @ labels ls @ 0 # post" "pointed ls"]
    by (simp add: wire_name_def nth_append)
  with assms show ?thesis by (simp add: name_ascii_from_wire_def finish_pointed)
qed

text \<open>A name that ends in a pointer to an earlier name at an offset below 256.\<close>

lemma from_wire_compressed:
  assumes ok: "list_all label_ok ls" "list_all label_ok ms" "ls @ ms \<noteq> []"
    and len: "length (pointed (ls @ ms)) < RES_MAX" and p: "length pre < 256"
  shows "name_ascii_from_wire (pre @ wire_name ms @ mid @ labels ls @ [0xC0, word_of_nat (length pre)] @ post)
      (length (pre @ wire_name ms @ mid)) = Some (Ret (map lower (dotted (ls @ ms))))"
proof -
  let ?front = "pre @ wire_name ms @ mid" and ?ptr = "[0xC0, word_of_nat (length pre)] @ post"
  let ?w = "?front @ labels ls @ ?ptr"
  let ?k = "length ?front + length (labels ls)"
  have "from_wire_loop ?w (length ?front) [] = from_wire_loop ?w ?k (pointed ls)"
    using from_wire_labels [OF ok(1), of "[]" ?front ?ptr] len by simp
  also have "\<dots> = from_wire_loop ?w (length pre) (pointed ls)"
  proof -
    have "?w ! ?k = 0xC0" "?w ! Suc ?k = word_of_nat (length pre)"
      using nth_append_length_plus [of "?front @ labels ls" ?ptr 0]
        nth_append_length_plus [of "?front @ labels ls" ?ptr 1] by (simp_all add: add.assoc)
    moreover have "Suc ?k < length ?w" by simp
    ultimately show ?thesis using from_wire_pointer [of ?k ?w "pointed ls"] p by simp
  qed
  also have "\<dots> = Some (Ret (pointed ls @ pointed ms))"
    using from_wire_labels [OF ok(2), of "pointed ls" pre "0 # mid @ labels ls @ ?ptr"] len
      from_wire_zero [of "length pre + length (labels ms)"
        "pre @ labels ms @ 0 # mid @ labels ls @ ?ptr" "pointed ls @ pointed ms"]
    by (simp add: wire_name_def nth_append)
  finally have "from_wire_loop ?w (length ?front) [] = Some (Ret (pointed (ls @ ms)))" by simp
  then show ?thesis
    using ok finish_pointed [of "ls @ ms"] by (simp add: name_ascii_from_wire_def)
qed

text \<open>A pointer to itself is followed for ever.\<close>

lemma from_wire_diverges:
  assumes "from_wire_loop wire index name = Some r"
  shows "\<not> (Suc index < length wire \<and> 0xC0 \<le> wire ! index \<and> unat (wire ! Suc index) = index)"
  using assms
proof (rule from_wire_loop.raw_induct [rotated], goal_cases)
  case (1 f wire index name r)
  then show ?case by (auto split: if_splits)
qed

section \<open>Answer records\<close>

text \<open>The records the code expects: a pointer as owner name, then an address or an alias.\<close>

datatype rr = RR_A byte byte byte byte | RR_Alias "string list"

fun rr_ok :: "rr \<Rightarrow> bool" where
  "rr_ok (RR_A a b c d) = True"
| "rr_ok (RR_Alias ls) = (list_all label_ok ls \<and> ls \<noteq> [] \<and> length (dotted ls) + 2 < RES_MAX)"

text \<open>Owner \<open>C0 p\<close>, type, class \<open>IN\<close>, four bytes \<open>ttl\<close>, length and data.\<close>

fun rr_data :: "rr \<Rightarrow> byte list" where
  "rr_data (RR_A a b c d) = [a, b, c, d]"
| "rr_data (RR_Alias ls) = wire_name ls"

fun rr_type :: "rr \<Rightarrow> byte" where
  "rr_type (RR_A a b c d) = 1"
| "rr_type (RR_Alias ls) = 5"

definition rr_bytes :: "byte \<Rightarrow> byte list \<Rightarrow> rr \<Rightarrow> byte list" where
  "rr_bytes p ttl r = [0xC0, p, 0, rr_type r, 0, 1] @ ttl @ short_bytes (length (rr_data r)) @ rr_data r"

fun rr_text :: "rr \<Rightarrow> string" where
  "rr_text (RR_A a b c d) =
     show_nat (unat a) @ ''.'' @ show_nat (unat b) @ ''.'' @ show_nat (unat c) @ ''.'' @ show_nat (unat d)"
| "rr_text (RR_Alias ls) = map lower (dotted ls)"

lemma byte_at_append: "byte_at (pre @ b # post) (length pre) = Ret b"
  by (simp add: byte_at_def)

lemma byte_at_plus: "k < length bs \<Longrightarrow> byte_at (pre @ bs @ post) (length pre + k) = Ret (bs ! k)"
  by (simp add: byte_at_def nth_append)

lemma short_at_bytes:
  "n < 65536 \<Longrightarrow> omap unat (short_at (pre @ short_bytes n @ post) (length pre)) = Ret n"
  using byte_at_plus [of 0 "short_bytes n" pre post] byte_at_plus [of 1 "short_bytes n" pre post]
  by (simp add: short_at_def short_bytes_def short_word)

lemma rr_data_length: "rr_ok r \<Longrightarrow> length (rr_data r) < 65536"
  by (cases r) (simp_all add: wire_name_def dotted_length)

lemma rr_value_text:
  assumes "rr_ok r" and "length ttl = 4"
  shows "rr_value (pre @ rr_bytes p ttl r @ post) (length pre + 12) = Some (Ret (rr_text r))"
proof -
  let ?h = "[0xC0, p, 0, rr_type r, 0, 1] @ ttl @ short_bytes (length (rr_data r))"
  have h: "length (pre @ ?h) = length pre + 12" using assms(2) by (simp add: short_bytes_def)
  have w: "pre @ rr_bytes p ttl r @ post = (pre @ ?h) @ rr_data r @ post" by (simp add: rr_bytes_def)
  have type: "byte_at (pre @ rr_bytes p ttl r @ post) (length pre + 12 - 9) = Ret (rr_type r)"
    using byte_at_plus [of 3 "rr_bytes p ttl r" pre post] by (simp add: rr_bytes_def add.commute)
  show ?thesis
  proof (cases r)
    case (RR_A a b c d)
    have "byte_at (pre @ rr_bytes p ttl r @ post) (length pre + 12 + k) = Ret (rr_data r ! k)"
      if "k < 4" for k
      unfolding w h [symmetric] using that RR_A by (intro byte_at_plus) simp
    from this [of 0] this [of 1] this [of 2] this [of 3] type RR_A show ?thesis
      by (simp add: rr_value_def get_answer_address_def)
  next
    case (RR_Alias ls)
    have "name_ascii_from_wire ((pre @ ?h) @ wire_name ls @ post) (length (pre @ ?h)) =
        Some (Ret (map lower (dotted ls)))"
      using assms(1) RR_Alias by (intro from_wire_name) auto
    then have "name_ascii_from_wire (pre @ rr_bytes p ttl r @ post) (length pre + 12) =
        Some (Ret (map lower (dotted ls)))"
      unfolding w h by (simp add: RR_Alias)
    with type RR_Alias show ?thesis by (simp add: rr_value_def)
  qed
qed

lemma answer_loop_rrs:
  assumes "list_all rr_ok rs" and "length ttl = 4"
  shows "answer_loop (pre @ concat (map (rr_bytes p ttl) rs) @ post) (length rs) (length pre) =
    Some (Ret (map rr_text rs))"
  using assms(1)
proof (induction rs arbitrary: pre)
  case Nil
  then show ?case by simp
next
  case (Cons r rs)
  let ?b = "rr_bytes p ttl r" and ?post = "concat (map (rr_bytes p ttl) rs) @ post"
  let ?w = "pre @ ?b @ ?post"
  have r: "rr_ok r" using Cons.prems by simp
  have len: "length ?b = 12 + length (rr_data r)"
    using assms(2) by (simp add: rr_bytes_def short_bytes_def)
  have name: "rr_name_len ?w (length pre) = Ret 2"
    using byte_at_plus [of 0 ?b pre ?post] by (simp add: rr_name_len_def rr_bytes_def)
  have val: "rr_value ?w (length pre + 12) = Some (Ret (rr_text r))"
    by (rule rr_value_text [OF r assms(2)])
  let ?h = "[0xC0, p, 0, rr_type r, 0, 1] @ ttl"
  have "omap unat (short_at ((pre @ ?h) @ short_bytes (length (rr_data r)) @ rr_data r @ ?post)
      (length (pre @ ?h))) = Ret (length (rr_data r))"
    by (rule short_at_bytes [OF rr_data_length [OF r]])
  moreover have eq: "(pre @ ?h) @ short_bytes (length (rr_data r)) @ rr_data r @ ?post = ?w"
    by (simp add: rr_bytes_def)
  moreover have "length (pre @ ?h) = length pre + 10" using assms(2) by simp
  ultimately have "omap unat (short_at ?w (length pre + 10)) = Ret (length (rr_data r))"
    by (simp only:)
  then obtain n where n: "short_at ?w (length pre + 10) = Ret n" "unat n = length (rr_data r)"
    by (cases "short_at ?w (length pre + 10)") auto
  have "answer_loop ?w (length rs) (length (pre @ ?b)) = Some (Ret (map rr_text rs))"
    using Cons.IH [of "pre @ ?b"] Cons.prems by simp
  moreover have "length (pre @ ?b) = length pre + 12 + unat n" using len n(2) by simp
  ultimately show ?case using name val n(1) by (simp add: Let_def ac_simps)
qed

end
