(* ===== verification/Dns_Props.thy ===== *)
theory Dns_Props
  imports Dns_Proofs
begin

text \<open>The properties of the resolver \<open>dnsresolverlab-handout/resolver.c\<close>.\<close>

section \<open>Canonical form and byte order\<close>

lemma lower_idem [simp]: "lower (lower c) = lower c"
proof (cases "65 \<le> (of_char c :: nat) \<and> (of_char c :: nat) \<le> 90")
  case True
  then have "of_char (char_of (of_char c + 32 :: nat)) = of_char c + (32 :: nat)" by simp
  with True show ?thesis by (simp add: lower_def)
next
  case False
  then have "lower c = c" by (auto simp: lower_def)
  then show ?thesis by simp
qed

text \<open>\<open>canonicalize_name\<close> does nothing to the canonical form of a proper name.\<close>

lemma canonicalize_idem:
  assumes "list_all label_ok ls" and "ls \<noteq> []"
  shows "obind (canonicalize_name (dotted ls @ ''.'')) canonicalize_name = canonicalize_name (dotted ls)"
proof -
  have dl: "dotted ls \<noteq> []" "last (dotted ls) \<noteq> CHR ''.''" using dotted_last [OF assms] by simp_all
  have low: "lower c = CHR ''.'' \<longleftrightarrow> c = CHR ''.''" for c
  proof (cases "65 \<le> (of_char c :: nat) \<and> (of_char c :: nat) \<le> 90")
    case True
    then have "of_char (lower c) = of_char c + (32 :: nat)" by (simp add: lower_def)
    then have "(of_char (lower c) :: nat) \<noteq> of_char (CHR ''.'')" using True by simp
    then have "lower c \<noteq> CHR ''.''" by metis
    moreover have "c \<noteq> CHR ''.''" using True by auto
    ultimately show ?thesis by simp
  qed (auto simp: lower_def)
  have "canonicalize_name (dotted ls @ ''.'') = Ret (map lower (dotted ls))"
    using dl by (simp add: canonicalize_name_def)
  moreover have "canonicalize_name (map lower (dotted ls)) = Ret (map lower (dotted ls))"
  proof -
    have "last (map lower (dotted ls)) \<noteq> CHR ''.''" using dl low by (simp add: last_map)
    moreover then have "map lower (dotted ls) \<noteq> ''.''" by auto
    ultimately show ?thesis using dl by (simp add: canonicalize_name_def comp_def)
  qed
  ultimately show ?thesis using canonicalize_dotted [OF assms] by simp
qed

lemma swap_bytes_involution: "swap_bytes_in_short (swap_bytes_in_short s) = s"
  unfolding swap_bytes_in_short_def
  by (rule bit_word_eqI) (auto simp: bit_simps)

section \<open>A server for the witnesses\<close>

text \<open>One address; the server sends one fixed message.\<close>

definition one_server :: "byte list \<Rightarrow> (unit, unit) dnscalls" where
  "one_server msg =
     \<lparr>dc_getaddrinfo = (\<lambda>h p x s. ((0, [()]), s)), dc_gai_strerror = (\<lambda>rc. ''''),
      dc_freeaddrinfo = (\<lambda>l s. ((), s)), dc_socket = (\<lambda>p s. (3, s)), dc_connect = (\<lambda>fd p s. (0, s)),
      dc_close = (\<lambda>fd s. (0, s)), dc_send = (\<lambda>fd d s. (int (length d), s)),
      dc_recv = (\<lambda>fd n s. ((int (length msg), msg), s))\<rparr>"

definition blank :: world where
  "blank = \<lparr>w_errno = 0, w_out = [], w_err = []\<rparr>"

definition demo_head :: "byte list" where
  "demo_head = [7, 8, 0x81, 0x80, 0, 1, 0, 2, 0, 0, 0, 0] @ wire_name [''a'', ''b''] @ [0, 1, 0, 1]"

definition demo_rrs :: "rr list" where
  "demo_rrs = [RR_Alias [''Www'', ''b''], RR_A 10 0 0 255]"

lemma demo_rrs_ok: "list_all rr_ok demo_rrs"
  by (simp add: demo_rrs_def label_ok_def)

section \<open>Properties\<close>

text \<open>C17. Names survive the wire: what \<open>name_ascii_to_wire\<close> writes for a name of proper labels (not
  empty, shorter than 192 characters, without a full stop), \<open>name_ascii_from_wire\<close> reads back in
  lower case, wherever it stands in the message; provided that none of the bytes \<open>after\<close> the
  delimiter array, which lacks its null character, occurs in the name.\<close>

theorem dns_name_roundtrip:
  assumes "list_all label_ok ls" and "ls \<noteq> []" and "length (dotted ls) + 1 < RES_MAX" and "harmless after ls"
  shows "name_ascii_from_wire (pre @ name_ascii_to_wire after (dotted ls) @ post) (length pre) =
    Some (Ret (map lower (dotted ls)))"
  using from_wire_name [OF assms(1-3)] to_wire_dotted(1) [OF assms(1,4)] by (simp add: name_ascii_to_wire_def)

theorem dns_name_roundtrip_witness:
  "name_ascii_from_wire ([1, 2] @ name_ascii_to_wire [CHR 0xC0, CHR ''!''] ''Mail.example.ORG'' @ []) 2 =
     Some (Ret ''mail.example.org'')"
proof -
  have "map lower (dotted [''Mail'', ''example'', ''ORG'']) = ''mail.example.org''"
    by code_simp
  moreover have "list_all label_ok [''Mail'', ''example'', ''ORG'']" by (simp add: label_ok_def)
  ultimately show ?thesis
    using dns_name_roundtrip [of "[''Mail'', ''example'', ''ORG'']" "[CHR 0xC0, CHR ''!'']" "[1, 2]" "[]"]
    by (simp add: numeral_2_eq_2)
qed

text \<open>Otherwise the name is split at the bytes that happen to follow the array.\<close>

lemma dns_delim_overrun:
  "name_ascii_to_wire ''x'' ''axb.c'' = wire_name [''a'', ''b'', ''c'']"
  by code_simp

text \<open>The query for a name of proper labels is the header with the two random bytes, the
  name in wire format and the footer, and no byte more.\<close>

theorem dns_query_layout:
  assumes "list_all label_ok ls" and "ls \<noteq> []" and "harmless after ls"
  shows "create_dns_query stack after r1 r2 (dotted ls) =
    Ret ([r1, r2, 1, 0, 0, 1, 0, 0, 0, 0, 0, 0] @ wire_name ls @ [0, 1, 0, 1])"
  using assms
  by (simp add: create_dns_query_def name_ascii_to_wire_def to_wire_dotted(1) wire_name_def
      dotted_length Let_def)

theorem dns_query_layout_witness:
  "create_dns_query (\<lambda>k. 99) [] 7 8 ''a.b'' =
     Ret [7, 8, 1, 0, 0, 1, 0, 0, 0, 0, 0, 0, 1, 97, 1, 98, 0, 0, 1, 0, 1]"
proof -
  have "wire_name [''a'', ''b''] = [1, 97, 1, 98, 0]" by (simp add: wire_name_def char_byte_def)
  moreover have "list_all label_ok [''a'', ''b'']" by (simp add: label_ok_def)
  ultimately show ?thesis using dns_query_layout [of "[''a'', ''b'']" "[]"] by simp
qed

text \<open>For a name with a trailing dot the query carries one uninitialised byte between the
  name and its type, and for the root two: the length is taken from the text, not from the
  bytes the conversion wrote.\<close>

theorem dns_query_junk:
  assumes "list_all label_ok ls" and "ls \<noteq> []" and "harmless after ls"
  shows "create_dns_query stack after r1 r2 (dotted ls @ ''.'') =
      Ret ([r1, r2, 1, 0, 0, 1, 0, 0, 0, 0, 0, 0] @ (wire_name ls @ [stack (length (wire_name ls))]) @ [0, 1, 0, 1]) \<and>
    create_dns_query stack after r1 r2 ''.'' =
      Ret ([r1, r2, 1, 0, 0, 1, 0, 0, 0, 0, 0, 0] @ [0, stack 1, stack 2] @ [0, 1, 0, 1])"
proof -
  have "to_wire_loop (CHR ''.'' # after) ''.'' = [0]"
    by (subst to_wire_loop.simps) (simp add: strtok_def)
  then show ?thesis using assms
    by (simp add: create_dns_query_def name_ascii_to_wire_def to_wire_dotted(2) wire_name_def
        dotted_length Let_def eval_nat_numeral)
qed

theorem dns_query_junk_witness:
  "create_dns_query (\<lambda>k. 99) [] 7 8 ''a.'' =
     Ret [7, 8, 1, 0, 0, 1, 0, 0, 0, 0, 0, 0, 1, 97, 0, 99, 0, 1, 0, 1]"
proof -
  have "wire_name [''a''] = [1, 97, 0]" by (simp add: wire_name_def char_byte_def)
  moreover have "list_all label_ok [''a'']" by (simp add: label_ok_def)
  ultimately show ?thesis using dns_query_junk [of "[''a'']" "[]" "\<lambda>k. 99" 7 8] by simp
qed

text \<open>C18. The answers: for a response with a question of \<open>sz\<close> bytes in front, the number of
  records in its header and records owned by a pointer, the resolver returns the addresses
  and the names of the aliases in order; without records it returns the null pointer.\<close>

theorem dns_answers:
  assumes "list_all rr_ok rs" and "length ttl = 4" and "length rs < 65536"
    and "length head = 6" and "length rest + 8 = sz"
  shows "read_answers ((head @ short_bytes (length rs) @ rest) @ concat (map (rr_bytes p ttl) rs) @ tail) sz =
    Some (Ret (if rs = [] then None else Some (map rr_text rs)))"
proof -
  let ?q = "head @ short_bytes (length rs) @ rest" and ?rrs = "concat (map (rr_bytes p ttl) rs) @ tail"
  have "omap unat (short_at (head @ short_bytes (length rs) @ rest @ ?rrs) (length head)) = Ret (length rs)"
    by (rule short_at_bytes [OF assms(3)])
  then have "omap unat (short_at (?q @ ?rrs) 6) = Ret (length rs)" using assms(4) by simp
  then obtain n where n: "short_at (?q @ ?rrs) 6 = Ret n" "unat n = length rs"
    by (cases "short_at (?q @ ?rrs) 6") auto
  have "length ?q = sz" using assms(4,5) by (simp add: short_bytes_def)
  then have "answer_loop (?q @ ?rrs) (length rs) sz = Some (Ret (map rr_text rs))"
    using answer_loop_rrs [OF assms(1,2), of ?q p tail] by simp
  moreover have "n = 0 \<longleftrightarrow> rs = []" using n(2) unat_eq_0 [of n] by simp
  ultimately show ?thesis using n by (simp add: read_answers_def)
qed

theorem dns_answers_witness:
  "read_answers (demo_head @ concat (map (rr_bytes 12 [0, 0, 1, 0]) demo_rrs) @ [9, 9]) 21 =
     Some (Ret (Some [''www.b'', ''10.0.0.255'']))"
proof -
  have "demo_head = [7, 8, 0x81, 0x80, 0, 1] @ short_bytes (length demo_rrs) @
      ([0, 0, 0, 0] @ wire_name [''a'', ''b''] @ [0, 1, 0, 1])"
    by (simp add: demo_head_def short_bytes_def demo_rrs_def)
  moreover have "map rr_text demo_rrs = [''www.b'', ''10.0.0.255'']" by code_simp
  ultimately show ?thesis
    using dns_answers [OF demo_rrs_ok, of "[0, 0, 1, 0]" "[7, 8, 0x81, 0x80, 0, 1]"
        "[0, 0, 0, 0] @ wire_name [''a'', ''b''] @ [0, 1, 0, 1]" 21 12 "[9, 9]"]
    by (simp add: demo_rrs_def wire_name_def)
qed

text \<open>C19. A compressed name, labels and then a pointer, is the labels followed by the name at the
  pointer's target, for targets in the first 256 bytes of the message.\<close>

theorem dns_compressed_name:
  assumes "list_all label_ok ls" and "list_all label_ok ms" and "ls @ ms \<noteq> []"
    and "length (pointed (ls @ ms)) < RES_MAX" and "length pre < 256"
  shows "name_ascii_from_wire (pre @ wire_name ms @ mid @ labels ls @ [0xC0, word_of_nat (length pre)] @ post)
      (length (pre @ wire_name ms @ mid)) = Some (Ret (map lower (dotted (ls @ ms))))"
  using assms by (rule from_wire_compressed)

theorem dns_compressed_name_witness:
  "name_ascii_from_wire ([0, 0] @ wire_name [''b''] @ [] @ labels [''a''] @ [0xC0, word_of_nat 2] @ []) 5 =
     Some (Ret ''a.b'')"
proof -
  have "length ([0, 0] @ wire_name [''b''] @ []) = 5" by (simp add: wire_name_def)
  moreover have "map lower (dotted ([''a''] @ [''b''])) = ''a.b''" by code_simp
  ultimately show ?thesis
    using dns_compressed_name [of "[''a'']" "[''b'']" "[0, 0]" "[]" "[]"]
    by (simp add: label_ok_def)
qed

text \<open>The pointer's upper six offset bits are ignored: a pointer to offset 256 and above is
  read as one to the offset modulo 256.\<close>

theorem dns_pointer_offset:
  assumes "Suc k < length wire" and "0xC0 \<le> wire ! k"
  shows "name_ascii_from_wire wire k = name_ascii_from_wire wire (unat (wire ! Suc k))"
  using assms by (simp add: name_ascii_from_wire_def from_wire_pointer)

theorem dns_pointer_offset_witness:
  "name_ascii_from_wire [1, 97, 0, 0xC1, 0] 3 = name_ascii_from_wire [1, 97, 0, 0xC1, 0] 0"
proof -
  have "(0xC0 :: byte) \<le> 0xC1" by (simp add: word_le_nat_alt)
  then show ?thesis using dns_pointer_offset [of 3 "[1, 97, 0, 0xC1, 0]"] by (simp add: nth_Cons')
qed

text \<open>C20. A pointer to itself never ends: a server can hang the resolver with one record.\<close>

theorem dns_pointer_loop:
  assumes "Suc k < length wire" and "0xC0 \<le> wire ! k" and "unat (wire ! Suc k) = k"
  shows "name_ascii_from_wire wire k = None"
proof (cases "from_wire_loop wire k []")
  case None
  then show ?thesis by (simp add: name_ascii_from_wire_def)
next
  case (Some r)
  with from_wire_diverges [OF Some] assms show ?thesis by simp
qed

theorem dns_pointer_loop_witness: "name_ascii_from_wire [0, 0xC0, 1] 1 = None"
  using dns_pointer_loop [of 1 "[0, 0xC0, 1]"] by simp

text \<open>An owner name that is not a bare pointer is measured up to the next zero byte: for labels
  that end in a pointer the record is read one byte off, and the address \<open>1.2.3.4\<close> comes out
  as \<open>2.3.4.0\<close>.\<close>

theorem dns_owner_misread:
  "answer_loop [1, 97, 0xC0, 12, 0, 1, 0, 1, 0, 0, 0, 9, 0, 4, 1, 2, 3, 4, 0, 0] 1 0 =
     Some (Ret [''2.3.4.0''])"
  by code_simp

text \<open>Every type other than \<open>CNAME\<close> is taken for an IPv4 address: the IPv6 record for \<open>::1\<close> is
  reported as \<open>0.0.0.0\<close>.\<close>

theorem dns_other_types:
  "answer_loop ([0xC0, 12, 0, 28, 0, 1, 0, 0, 0, 9, 0, 16] @ replicate 15 0 @ [1]) 1 0 =
     Some (Ret [''0.0.0.0''])"
  by code_simp

text \<open>C21. The program from the command line to its output, for a name of proper labels in which
  none of the bytes \<open>after\<close> the delimiter array occurs: when the exchange of the query with the server, at the
  given port or 53, delivers a response of which the question is as long as that of the query and the records are
  addresses and aliases with their owners as pointers, it prints one line per record and returns.\<close>

theorem dns_main_prints:
  assumes "list_all label_ok ls" and "ls \<noteq> []" and "list_all rr_ok rs" and "length ttl = 4"
    and "harmless after ls" and "length rs < 65536" and "length head = 6"
    and "length rest + 8 = 18 + length (dotted ls)"
    and "send_recv_message c
        ([r1, r2, 1, 0, 0, 1, 0, 0, 0, 0, 0, 0] @ wire_name ls @ [0, 1, 0, 1]) old server (case ports of [] \<Rightarrow> ''53'' | port # _ \<Rightarrow> port) s =
      (Ret (n, (head @ short_bytes (length rs) @ rest) @ concat (map (rr_bytes p ttl) rs) @ tail), t)"
  shows "resolver_main c stack old after (r1, r2) (prog # dotted ls # server # ports) s =
    Some (Ret (), print_out (concat (map (\<lambda>r. rr_text r @ [LF]) rs)) t)"
proof -
  have query: "create_dns_query stack after r1 r2 (dotted ls) =
      Ret ([r1, r2, 1, 0, 0, 1, 0, 0, 0, 0, 0, 0] @ wire_name ls @ [0, 1, 0, 1])"
    using assms(1,2,5)
    by (simp add: create_dns_query_def name_ascii_to_wire_def to_wire_dotted(1) wire_name_def
        dotted_length Let_def)
  let ?q = "head @ short_bytes (length rs) @ rest" and ?rrs = "concat (map (rr_bytes p ttl) rs) @ tail"
  have "omap unat (short_at (head @ short_bytes (length rs) @ rest @ ?rrs) (length head)) = Ret (length rs)"
    by (rule short_at_bytes [OF assms(6)])
  then obtain k where k: "short_at (?q @ ?rrs) 6 = Ret k" "unat k = length rs"
    using assms(7) by (cases "short_at (?q @ ?rrs) 6") auto
  have "length ?q = 18 + length (dotted ls)" using assms(7,8) by (simp add: short_bytes_def)
  then have "answer_loop (?q @ ?rrs) (length rs) (18 + length (dotted ls)) = Some (Ret (map rr_text rs))"
    using answer_loop_rrs [OF assms(3,4), of ?q p tail] by simp
  moreover have "k = 0 \<longleftrightarrow> rs = []" using k(2) by (cases rs) (auto simp: unat_eq_0)
  ultimately have "read_answers (?q @ ?rrs) (18 + length (dotted ls)) =
      Some (Ret (if rs = [] then None else Some (map rr_text rs)))"
    using k by (simp add: read_answers_def)
  then show ?thesis using query assms(9)
    by (cases ports) (auto simp: resolver_main_def resolve_def Let_def comp_def print_out_def)
qed

theorem dns_main_prints_witness:
  "resolver_main (one_server (demo_head @ concat (map (rr_bytes 12 [0, 0, 1, 0]) demo_rrs) @ []))
     (\<lambda>k. 99) [] [] (7, 8) [''resolver'', ''a.b'', ''server''] blank =
   Some (Ret (), print_out (''www.b'' @ [LF] @ ''10.0.0.255'' @ [LF]) blank)"
proof -
  let ?msg = "demo_head @ concat (map (rr_bytes 12 [0, 0, 1, 0]) demo_rrs) @ []"
  let ?head = "[7, 8, 0x81, 0x80, 0, 1] :: byte list"
  let ?rest = "[0, 0, 0, 0] @ wire_name [''a'', ''b''] @ [0, 1, 0, 1]"
  have msg: "?msg = (?head @ short_bytes (length demo_rrs) @ ?rest) @
      concat (map (rr_bytes 12 [0, 0, 1, 0]) demo_rrs) @ []"
    by (simp add: demo_head_def short_bytes_def demo_rrs_def)
  have "length ?msg \<le> RES_MAX"
    by (simp add: demo_head_def demo_rrs_def rr_bytes_def short_bytes_def wire_name_def)
  then have sr: "send_recv_message (one_server ?msg)
      ([7, 8, 1, 0, 0, 1, 0, 0, 0, 0, 0, 0] @ wire_name [''a'', ''b''] @ [0, 1, 0, 1]) [] ''server'' ''53'' blank =
      (Ret (int (length ?msg), ?msg), blank)"
    by (simp add: send_recv_message_def one_server_def)
  have "resolver_main (one_server ?msg) (\<lambda>k. 99) [] [] (7, 8)
      (''resolver'' # dotted [''a'', ''b''] # ''server'' # []) blank =
      Some (Ret (), print_out (concat (map (\<lambda>r. rr_text r @ [LF]) demo_rrs)) blank)"
  proof (rule dns_main_prints)
    show "list_all rr_ok demo_rrs" by (rule demo_rrs_ok)
    show "send_recv_message (one_server ?msg)
        ([7, 8, 1, 0, 0, 1, 0, 0, 0, 0, 0, 0] @ wire_name [''a'', ''b''] @ [0, 1, 0, 1]) [] ''server''
        (case [] of [] \<Rightarrow> ''53'' | port # _ \<Rightarrow> port) blank =
        (Ret (int (length ?msg), (?head @ short_bytes (length demo_rrs) @ ?rest) @
          concat (map (rr_bytes 12 [0, 0, 1, 0]) demo_rrs) @ []), blank)"
      using sr unfolding msg list.case .
    show "length demo_rrs < 65536" by (simp add: demo_rrs_def)
  qed (simp_all add: label_ok_def wire_name_def)
  moreover have "concat (map (\<lambda>r. rr_text r @ [LF]) demo_rrs) = ''www.b'' @ [LF] @ ''10.0.0.255'' @ [LF]"
    by code_simp
  ultimately show ?thesis by simp
qed

end
