(* ===== verification/Dns_Free.thy ===== *)
theory Dns_Free
  imports CString
begin

text \<open>
  \<open>free_answer_entries\<close> of \<open>resolver.c\<close> on a heap of the blocks that \<open>malloc\<close> returned: the list
  of answers is linked through addresses, and freeing a block that is not allocated is a fault.
\<close>

text \<open>A block is a \<open>dns_answer_entry\<close>, with its \<open>value\<close> and \<open>next\<close>, or the characters of a value.\<close>

datatype dns_block = Entry nat "nat option" | Chars string

type_synonym dns_heap = "nat \<Rightarrow> dns_block option"

definition free_block :: "nat \<Rightarrow> dns_heap \<Rightarrow> dns_heap outcome" where
  "free_block a h = (if h a = None then Fault Out_Of_Bounds else Ret (h(a := None)))"

partial_function (option) free_answer_entries :: "nat option \<Rightarrow> dns_heap \<Rightarrow> (unit outcome \<times> dns_heap) option" where
  "free_answer_entries ans h =
     (case ans of
        None \<Rightarrow> Some (Ret (), h)
      | Some a \<Rightarrow>
          (case h a of
             Some (Entry v nxt) \<Rightarrow>
               (case obind (free_block v h) (free_block a) of
                  Ret h' \<Rightarrow> free_answer_entries nxt h'
                | Exited k \<Rightarrow> Some (Exited k, h)
                | Fault f \<Rightarrow> Some (Fault f, h))
           | _ \<Rightarrow> Some (Fault Out_Of_Bounds, h)))"

declare free_answer_entries.simps [code]

text \<open>The list at \<open>ans\<close> with the addresses of its entries and their values.\<close>

fun dns_list :: "dns_heap \<Rightarrow> nat option \<Rightarrow> (nat \<times> nat) list \<Rightarrow> bool" where
  "dns_list h ans [] = (ans = None)"
| "dns_list h ans ((a, v) # ps) =
     (ans = Some a \<and> (\<exists>s. h v = Some (Chars s)) \<and> (\<exists>nxt. h a = Some (Entry v nxt) \<and> dns_list h nxt ps))"

definition addresses :: "(nat \<times> nat) list \<Rightarrow> nat list" where
  "addresses ps = concat (map (\<lambda>(a, v). [a, v]) ps)"

lemma addresses_simps [simp]:
  "addresses [] = []" "addresses ((a, v) # ps) = a # v # addresses ps"
  by (simp_all add: addresses_def)

lemma dns_list_other:
  "dns_list h ans ps \<Longrightarrow> b \<notin> set (addresses ps) \<Longrightarrow> dns_list (h(b := x)) ans ps"
  by (induction h ans ps rule: dns_list.induct) auto

text \<open>
  A list whose blocks are all different is freed completely: the function returns, no block is
  freed twice, and exactly the blocks of the list are gone.
\<close>

lemma free_answer_entries_frees:
  assumes "dns_list h ans ps" and "distinct (addresses ps)"
  shows "free_answer_entries ans h = Some (Ret (), (\<lambda>b. if b \<in> set (addresses ps) then None else h b))"
  using assms
proof (induction ps arbitrary: ans h)
  case Nil
  then show ?case by (subst free_answer_entries.simps) simp
next
  case (Cons p ps)
  obtain a v where p: "p = (a, v)" by (cases p)
  with Cons.prems obtain s nxt where h: "ans = Some a" "h v = Some (Chars s)" "h a = Some (Entry v nxt)"
    "dns_list h nxt ps" by auto
  have d: "a \<noteq> v" "a \<notin> set (addresses ps)" "v \<notin> set (addresses ps)" "distinct (addresses ps)"
    using Cons.prems(2) p by auto
  let ?h = "h(v := None, a := None)"
  have "free_answer_entries ans h = free_answer_entries nxt ?h"
    using h d(1) by (subst free_answer_entries.simps) (simp add: free_block_def)
  also have "\<dots> = Some (Ret (), (\<lambda>b. if b \<in> set (addresses ps) then None else ?h b))"
    using h(4) d by (intro Cons.IH dns_list_other) simp_all
  also have "(\<lambda>b. if b \<in> set (addresses ps) then None else ?h b) =
      (\<lambda>b. if b \<in> set (addresses (p # ps)) then None else h b)"
    using p by (simp add: fun_eq_iff)
  finally show ?case .
qed

end
