(* ===== verification/Proxy_Parse.thy ===== *)
theory Proxy_Parse
  imports Csapp_Base
begin

text \<open>
  The rewriting of a client's request, \<open>parse\<close> of \<open>proxylab-handout/proxy.c\<close> and
  \<open>parse_request\<close> of \<open>first-proxylab-handout/proxy.c\<close>, which share their code up to the way
  they return host and port, and the part of \<open>logging\<close> that finds the URL.
\<close>

abbreviation MAX_OBJECT_SIZE :: nat where "MAX_OBJECT_SIZE \<equiv> 102400"

section \<open>strcat into an array of \<open>MAX_OBJECT_SIZE\<close> bytes\<close>

definition strcat_max :: "string \<Rightarrow> string \<Rightarrow> string outcome" where
  "strcat_max dst src =
     (if MAX_OBJECT_SIZE \<le> length dst + length src then Fault Out_Of_Bounds else Ret (dst @ src))"

lemma strcat_max_exec [code]:
  "strcat_max dst src =
     (if 102400 \<le> int (length dst + length src) then Fault Out_Of_Bounds else Ret (dst @ src))"
  by (simp add: strcat_max_def)

fun strcats :: "string \<Rightarrow> string list \<Rightarrow> string outcome" where
  "strcats dst [] = Ret dst"
| "strcats dst (s # ss) = obind (strcat_max dst s) (\<lambda>d. strcats d ss)"

lemma strcats_fits:
  "length dst + length (concat ss) < MAX_OBJECT_SIZE \<Longrightarrow> strcats dst ss = Ret (dst @ concat ss)"
  by (induction ss arbitrary: dst) (simp_all add: strcat_max_def)

lemma strcats_Ret: "strcats dst ss = Ret r \<Longrightarrow> r = dst @ concat ss"
proof (induction ss arbitrary: dst)
  case (Cons a ss)
  then show ?case using Cons.IH [of "dst @ a"] by (auto simp: strcat_max_def obind_Ret_iff split: if_splits)
qed simp

lemma strcats_Ret_length:
  "strcats dst ss = Ret r \<Longrightarrow> length dst < MAX_OBJECT_SIZE \<Longrightarrow> length r < MAX_OBJECT_SIZE"
  by (induction ss arbitrary: dst) (auto simp: strcat_max_def obind_Ret_iff split: if_splits)

section \<open>The headers\<close>

definition dropped_header :: "string \<Rightarrow> bool" where
  "dropped_header name \<longleftrightarrow> name = ''Connection'' \<or> name = ''Proxy-Connection'' \<or> name = ''User-Agent''"

text \<open>The loop over the lines after the first, with the request so far and \<open>hasHostHeader\<close>.\<close>

function header_loop :: "string \<Rightarrow> string \<Rightarrow> bool \<Rightarrow> (string \<times> bool) outcome" where
  "header_loop text myRequest hasHostHeader =
     (case strtok CRLF text of
        (None, _) \<Rightarrow> Ret (myRequest, hasHostHeader)
      | (Some header, rest) \<Rightarrow>
          (case strchr header (CHR '':'') of
             None \<Rightarrow> Fault Null_Deref
           | Some i \<Rightarrow>
               (let name = take i header
                in if dropped_header name then header_loop rest myRequest hasHostHeader
                   else
                     (case strcats myRequest [header, CRLF] of
                        Ret r \<Rightarrow> header_loop rest r (hasHostHeader \<or> name = ''Host'')
                      | Exited n \<Rightarrow> Exited n
                      | Fault e \<Rightarrow> Fault e))))"
  by pat_completeness auto
termination
  by (relation "measure (\<lambda>(text, r, h). length text)") (auto dest: strtok_rest_less [OF sym])

declare header_loop.simps [simp del]

section \<open>The request\<close>

definition user_agent_hdr :: string where
  "user_agent_hdr =
     ''User-Agent: Mozilla/5.0 (X11; Linux x86_64; rv:10.0.3) Gecko/20120305 Firefox/10.0.3'' @ CRLF"

record parsed =
  p_host :: string
  p_port :: "string option"    \<comment> \<open>\<open>None\<close> is the null pointer\<close>
  p_request :: string

definition split_host :: "string \<Rightarrow> string \<times> string option" where
  "split_host host =
     (case strchr host (CHR '':'') of
        None \<Rightarrow> (host, None)
      | Some i \<Rightarrow> (take i host, Some (drop (Suc i) host)))"

text \<open>The new request out of the parts of the old one.\<close>

definition build_request :: "string \<Rightarrow> string \<Rightarrow> string \<Rightarrow> string \<Rightarrow> string outcome" where
  "build_request req_type host path text =
     obind (strcats [] [req_type, '' /'', path, '' '', ''HTTP/1.0'' @ CRLF]) (\<lambda>r1.
     obind (header_loop text r1 False) (\<lambda>(r2, hasHostHeader).
     obind (if hasHostHeader then Ret r2 else strcats r2 [host, CRLF]) (\<lambda>r3.
       strcats r3 [user_agent_hdr, ''Connection: close'', CRLF, ''Proxy-Connection: close'', CRLF, CRLF])))"

text \<open>
  Both functions up to the copies they return. A check that fails only prints a message. The
  test of \<open>path\<close> for null comes after its first use and has no effect.
\<close>

definition parse_core :: "string \<Rightarrow> ('w world_scheme, parsed) cprog" where
  "parse_core buf s =
     (case strtok '' '' buf of
        (None, _) \<Rightarrow> (Fault Null_Deref, s)
      | (Some req_type, t1) \<Rightarrow>
          (let s1 = (if req_type \<noteq> ''GET'' then print_err (''Bad req_type: '' @ req_type @ [LF]) s else s)
           in case strtok ''//'' t1 of
                (None, _) \<Rightarrow> (Fault Null_Deref, s1)
              | (Some http, t2) \<Rightarrow>
                  (let s2 = (if http \<noteq> ''http:'' then print_err (''bad http: '' @ http @ [LF]) s1 else s1)
                   in case strtok ''/'' t2 of
                        (None, _) \<Rightarrow> (Fault Null_Deref, s2)
                      | (Some host0, t3) \<Rightarrow>
                          (let s3 = (if host0 = [] then print_err (''bad host: '' @ host0 @ [LF]) s2 else s2);
                               (host, port) = split_host host0
                           in case strtok CRLF t3 of
                                (None, _) \<Rightarrow> (Fault Null_Deref, s3)
                              | (Some path0, t4) \<Rightarrow>
                                  (case strchr path0 SPC of
                                     None \<Rightarrow> (Fault Null_Deref, s3)
                                   | Some e \<Rightarrow>
                                       (omap (\<lambda>r. \<lparr>p_host = host, p_port = port, p_request = r\<rparr>)
                                          (build_request req_type host (take e path0) t4), s3))))))"

text \<open>
  \<open>parse_request\<close> returns copies, with a null port when the URL has none. \<open>parse\<close> copies into
  the arrays of the caller; for a URL without port it assigns to its own parameter, so that
  \<open>host_port\<close> keeps what it held.
\<close>

definition parse_request :: "string \<Rightarrow> ('w world_scheme, parsed) cprog" where
  "parse_request buf = parse_core buf"

definition parse :: "string \<Rightarrow> string \<Rightarrow> ('w world_scheme, string \<times> string \<times> string) cprog" where
  "parse original_req_buf host_port =
     cbind (parse_core original_req_buf)
       (\<lambda>p. creturn (p_host p, case p_port p of None \<Rightarrow> host_port | Some port \<Rightarrow> port, p_request p))"

text \<open>The URL that \<open>logging\<close> writes: the second word of the request.\<close>

definition logged_url :: "string \<Rightarrow> string option" where
  "logged_url buf = fst (strtok '' '' (snd (strtok '' '' buf)))"

section \<open>The loop over the headers\<close>

definition header_line :: "string \<times> string \<Rightarrow> string" where
  "header_line h = fst h @ '':'' @ snd h @ CRLF"

definition header_ok :: "string \<times> string \<Rightarrow> bool" where
  "header_ok h \<longleftrightarrow> CHR '':'' \<notin> set (fst h) \<and> CR \<notin> set (fst h @ snd h) \<and> LF \<notin> set (fst h @ snd h)"

definition kept_headers :: "(string \<times> string) list \<Rightarrow> (string \<times> string) list" where
  "kept_headers hs = filter (\<lambda>h. fst h \<notin> {''Connection'', ''Proxy-Connection'', ''User-Agent''}) hs"

lemma kept_headers_dropped: "kept_headers hs = filter (\<lambda>h. \<not> dropped_header (fst h)) hs"
  by (simp add: kept_headers_def dropped_header_def)

definition has_host :: "(string \<times> string) list \<Rightarrow> bool" where
  "has_host hs \<longleftrightarrow> list_ex (\<lambda>h. fst h = ''Host'') hs"

lemma not_dropped_host: "\<not> dropped_header ''Host''"
  by (simp add: dropped_header_def)

lemma has_host_kept: "has_host (kept_headers hs) = has_host hs"
  by (induction hs) (auto simp: has_host_def kept_headers_dropped not_dropped_host)

lemma strtok_line:
  assumes "header_ok h"
  shows "strtok CRLF (header_line h @ t) = (Some (fst h @ CHR '':'' # snd h), LF # t)"
  using strtok_word [of "fst h @ '':'' @ snd h" CRLF CR "LF # t"] assms
  by (auto simp: header_line_def header_ok_def)

lemma header_line_parts:
  assumes "header_ok h"
  shows "strchr (fst h @ CHR '':'' # snd h) (CHR '':'') = Some (length (fst h))"
  using strchr_append [of "CHR '':''" "fst h" "snd h"] assms by (simp add: header_ok_def)

lemma header_loop_skip: "header_loop (LF # t) r b = header_loop t r b"
  by (subst (1 2) header_loop.simps) (simp add: strtok_skip)

lemma header_loop_blank: "header_loop CRLF r b = Ret (r, b)"
  by (subst header_loop.simps) (simp add: strtok_def)

lemma header_loop_lines:
  assumes "list_all header_ok hs"
    and "length r + length (concat (map header_line (kept_headers hs))) < MAX_OBJECT_SIZE"
  shows "header_loop (concat (map header_line hs) @ CRLF) r b =
    Ret (r @ concat (map header_line (kept_headers hs)), b \<or> has_host hs)"
  using assms
proof (induction hs arbitrary: r b)
  case Nil
  then show ?case by (simp add: header_loop_blank kept_headers_dropped has_host_def)
next
  case (Cons h hs)
  let ?t = "concat (map header_line hs) @ CRLF"
  have ok: "header_ok h" using Cons.prems(1) by simp
  note tok = strtok_line [OF ok, of ?t] header_line_parts [OF ok]
  show ?case
  proof (cases "dropped_header (fst h)")
    case True
    then have "header_loop (header_line h @ ?t) r b = header_loop ?t r b"
      by (subst header_loop.simps) (simp add: tok header_loop_skip del: append_assoc)
    with True Cons.IH [of r b] Cons.prems not_dropped_host show ?thesis
      by (auto simp: kept_headers_dropped has_host_def)
  next
    case False
    have "length r + length (header_line h) < MAX_OBJECT_SIZE"
      using Cons.prems(2) False by (simp add: kept_headers_dropped)
    then have "strcats r [fst h @ CHR '':'' # snd h, CRLF] = Ret (r @ header_line h)"
      by (subst strcats_fits) (simp_all add: header_line_def)
    with False have "header_loop (header_line h @ ?t) r b =
        header_loop ?t (r @ header_line h) (b \<or> fst h = ''Host'')"
      by (subst header_loop.simps) (simp add: tok header_loop_skip del: append_assoc strcats.simps)
    with False Cons.IH [of "r @ header_line h" "b \<or> fst h = ''Host''"] Cons.prems show ?thesis
      by (simp add: kept_headers_dropped has_host_def)
  qed
qed

text \<open>Whatever the text: what the loop appends are lines whose names are not dropped.\<close>

lemma header_loop_kept:
  assumes "header_loop ls r b = Ret (r', b')"
  shows "\<exists>hs. r' = r @ concat (map header_line hs) \<and> list_all header_ok hs \<and>
    list_all (\<lambda>h. \<not> dropped_header (fst h)) hs \<and> (b' \<longleftrightarrow> b \<or> has_host hs)"
  using assms
proof (induction ls r b rule: header_loop.induct)
  case (1 ls r b)
  show ?case
  proof (cases "strtok CRLF ls")
    case (Pair tok rest)
    show ?thesis
    proof (cases tok)
      case None
      with Pair 1(3) show ?thesis
        by (subst (asm) header_loop.simps) (auto intro!: exI [of _ "[]"] simp: has_host_def)
    next
      case (Some header)
      with Pair 1(3) obtain i where i: "strchr header (CHR '':'') = Some i"
        by (subst (asm) header_loop.simps) (auto split: option.splits)
      let ?h = "(take i header, drop (Suc i) header)"
      obtain t where t: "header = take i header @ CHR '':'' # t" "CHR '':'' \<notin> set (take i header)"
        "drop (Suc i) header = t"
        using i by (rule strchr_SomeE)
      have hd: "header = fst ?h @ '':'' @ snd ?h" using t by simp
      have "set header \<inter> set CRLF = {}" using strtok_token Pair Some by blast
      then have ok: "header_ok ?h"
        using t(2) by (auto simp: header_ok_def dest: in_set_takeD in_set_dropD)
      note IH = 1(1,2) [OF Pair [symmetric] Some i refl]
      show ?thesis
      proof (cases "dropped_header (take i header)")
        case True
        with Pair Some i 1(3) have "header_loop rest r b = Ret (r', b')"
          by (subst (asm) header_loop.simps) simp
        then show ?thesis by (rule IH(1) [OF True])
      next
        case False
        with Pair Some i 1(3) obtain r1 where r1: "strcats r [header, CRLF] = Ret r1"
          and rec: "header_loop rest r1 (b \<or> take i header = ''Host'') = Ret (r', b')"
          by (subst (asm) header_loop.simps) (auto simp del: strcats.simps split: outcome.splits)
        obtain hs where hs: "r' = r1 @ concat (map header_line hs)" "list_all header_ok hs"
          "list_all (\<lambda>h. \<not> dropped_header (fst h)) hs"
          "b' \<longleftrightarrow> (b \<or> take i header = ''Host'') \<or> has_host hs"
          using IH(2) [OF False r1 rec] by blast
        have "r1 = r @ header_line ?h"
          using strcats_Ret [OF r1] hd by (simp add: header_line_def)
        with hs ok False show ?thesis
          by (intro exI [of _ "?h # hs"]) (auto simp: has_host_def)
      qed
    qed
  qed
qed

end
