(* ===== verification/Proxy_Sys.thy ===== *)
theory Proxy_Sys
  imports Proxy_Parse "HOL-Library.Word"
begin

text \<open>
  What the two proxies share besides the parser: the system calls they use, the connection to
  the server, and their buffers. A program that may block or loop for ever is a function into
  an option: \<open>None\<close> is a call that does not return.
\<close>

section \<open>System calls\<close>

text \<open>
  The hints of \<open>getaddrinfo\<close>: both programs set four fields; \<open>ph_cleared\<close> tells whether the rest
  of the structure was set to zero before.
\<close>

record proxy_hints =
  ph_family :: int
  ph_socktype :: int
  ph_flags :: int
  ph_protocol :: int
  ph_cleared :: bool

text \<open>
  \<open>read\<close> reports a length or -1, and the bytes that it stored; \<open>READ_SIZE\<close> is
  \<open>MAX_OBJECT_SIZE\<close>, the length that both programs always ask for.
\<close>

abbreviation READ_SIZE :: int where "READ_SIZE \<equiv> 102400"

record ('w, 'ai) psys =
  ps_getaddrinfo :: "string \<Rightarrow> string \<Rightarrow> proxy_hints \<Rightarrow> ('w, int \<times> 'ai list) syscall"
  ps_gai_strerror :: "int \<Rightarrow> string"
  ps_strerror :: "int \<Rightarrow> string"
  ps_freeaddrinfo :: "'ai list \<Rightarrow> ('w, unit) syscall"
  ps_socket :: "'ai \<Rightarrow> ('w, int) syscall"
  ps_connect :: "int \<Rightarrow> 'ai \<Rightarrow> ('w, int) syscall"
  ps_close :: "int \<Rightarrow> ('w, int) syscall"
  ps_read :: "int \<Rightarrow> int \<Rightarrow> ('w, int \<times> string) syscall"
  ps_write :: "int \<Rightarrow> string \<Rightarrow> ('w, int) syscall"
  ps_getfl :: "int \<Rightarrow> ('w, int) syscall"
  ps_setfl :: "int \<Rightarrow> int \<Rightarrow> ('w, int) syscall"
  ps_accept :: "int \<Rightarrow> ('w, int) syscall"
  ps_time :: "('w, int) syscall"

definition connect_hints :: "bool \<Rightarrow> proxy_hints" where
  "connect_hints cleared =
     \<lparr>ph_family = 0, ph_socktype = 1, ph_flags = 0, ph_protocol = 0, ph_cleared = cleared\<rparr>"

text \<open>\<open>perror(msg)\<close>.\<close>

definition perror :: "(int \<Rightarrow> string) \<Rightarrow> string \<Rightarrow> 'w world_scheme \<Rightarrow> 'w world_scheme" where
  "perror strerror msg s = print_err (msg @ '': '' @ strerror (w_errno s) @ [LF]) s"

section \<open>The connection\<close>

text \<open>
  The loop over the addresses, with the value of \<open>hostfd\<close> (\<open>None\<close> before any assignment): whether
  it ended at \<open>break\<close>, and the descriptor it leaves.
\<close>

fun connect_walk :: "('w, 'ai) psys \<Rightarrow> 'ai list \<Rightarrow> int option \<Rightarrow> ('w, bool \<times> int option) syscall" where
  "connect_walk c [] hostfd s = ((False, hostfd), s)"
| "connect_walk c (rp # rps) hostfd s =
     (case ps_socket c rp s of (fd, s1) \<Rightarrow>
        if fd = - 1 then connect_walk c rps (Some fd) s1
        else case ps_connect c fd rp s1 of (rc, s2) \<Rightarrow>
          if rc \<noteq> - 1 then ((True, Some fd), s2)
          else connect_walk c rps (Some fd) (snd (ps_close c fd s2)))"

text \<open>
  \<open>getaddrinfo\<close>, and the connection up to \<open>freeaddrinfo\<close>, the same in both programs but for the
  memory behind the hints and for what is printed between the two. When no address can be connected
  to a message is printed, and the last descriptor tried, closed by then, or -1 is the result.
\<close>

definition lookup_host :: "('w, 'ai) psys \<Rightarrow> bool \<Rightarrow> string \<Rightarrow> string \<Rightarrow> ('w world_scheme, 'ai list) cprog" where
  "lookup_host c cleared host port s =
     (case ps_getaddrinfo c host port (connect_hints cleared) s of ((rc, result), s1) \<Rightarrow>
        if rc \<noteq> 0 then (Exited 1, print_err (''getaddrinfo: '' @ ps_gai_strerror c rc @ [LF]) s1)
        else (Ret result, s1))"

definition connect_addrs :: "('w, 'ai) psys \<Rightarrow> 'ai list \<Rightarrow> ('w world_scheme, int) cprog" where
  "connect_addrs c result s =
     (case connect_walk c result None s of ((found, hostfd), s1) \<Rightarrow>
        let s2 = (if found then s1 else print_err (''Could not connect'' @ [LF]) s1);
            s3 = snd (ps_freeaddrinfo c result s2)
        in (case hostfd of None \<Rightarrow> (Fault Uninitialised, s3) | Some fd \<Rightarrow> (Ret fd, s3)))"

definition connect_host :: "('w, 'ai) psys \<Rightarrow> bool \<Rightarrow> string \<Rightarrow> string \<Rightarrow> ('w world_scheme, int) cprog" where
  "connect_host c cleared host port = cbind (lookup_host c cleared host port) (connect_addrs c)"

lemmas connect_host_defs = connect_host_def lookup_host_def connect_addrs_def cbind_def Let_def

section \<open>Buffers\<close>

text \<open>
  A block of \<open>MAX_OBJECT_SIZE\<close> bytes that was set to zero is represented by the bytes up to the
  last one written; the rest is zero.
\<close>

definition buf_write :: "string \<Rightarrow> int \<Rightarrow> string \<Rightarrow> string outcome" where
  "buf_write buf off d =
     (if d = [] then Ret buf
      else if off < 0 \<or> int MAX_OBJECT_SIZE < off + int (length d) then Fault Out_Of_Bounds
      else Ret (take (nat off) buf @ replicate (nat off - length buf) NUL @ d @
                drop (nat off + length d) buf))"

text \<open>The string in a buffer; without a null character it would run out of it.\<close>

definition buf_str :: "string \<Rightarrow> string outcome" where
  "buf_str buf = (if MAX_OBJECT_SIZE \<le> length (cstr buf) then Fault Out_Of_Bounds else Ret (cstr buf))"

text \<open>\<open>n\<close> bytes of a buffer from \<open>off\<close> on, as \<open>write\<close> reads them.\<close>

definition buf_bytes :: "string \<Rightarrow> int \<Rightarrow> int \<Rightarrow> string outcome" where
  "buf_bytes buf off n =
     (if off < 0 \<or> n < 0 \<or> int MAX_OBJECT_SIZE < off + n then Fault Out_Of_Bounds
      else Ret (take (nat n) (drop (nat off) buf) @
                replicate (nat n - length (drop (nat off) buf)) NUL))"

lemma buf_exec [code]:
  "buf_write buf off d =
     (if d = [] then Ret buf
      else if off < 0 \<or> 102400 < off + int (length d) then Fault Out_Of_Bounds
      else Ret (take (nat off) buf @ replicate (nat off - length buf) NUL @ d @
                drop (nat off + length d) buf))"
  "buf_str buf = (if 102400 \<le> int (length (cstr buf)) then Fault Out_Of_Bounds else Ret (cstr buf))"
  "buf_bytes buf off n =
     (if off < 0 \<or> n < 0 \<or> 102400 < off + n then Fault Out_Of_Bounds
      else Ret (take (nat n) (drop (nat off) buf) @
                replicate (nat n - length (drop (nat off) buf)) NUL))"
  by (simp_all add: buf_write_def buf_str_def buf_bytes_def)

text \<open>The test for the end of the headers.\<close>

definition headers_end :: "string \<Rightarrow> bool outcome" where
  "headers_end buf = omap (\<lambda>t. strstr t (CRLF @ CRLF) \<noteq> None) (buf_str buf)"

lemma buf_write_append:
  assumes "length buf + length d \<le> MAX_OBJECT_SIZE"
  shows "buf_write buf (int (length buf)) d = Ret (buf @ d)"
  using assms by (auto simp: buf_write_def)

lemma buf_bytes_part:
  assumes "0 \<le> n" and "n \<le> int (length buf)" and "length buf \<le> MAX_OBJECT_SIZE"
  shows "buf_bytes buf n (int (length buf) - n) = Ret (drop (nat n) buf)"
  using assms by (auto simp: buf_bytes_def nat_diff_distrib')

lemma headers_end_Ret:
  "length buf < MAX_OBJECT_SIZE \<Longrightarrow> headers_end buf = Ret (strstr (cstr buf) (CRLF @ CRLF) \<noteq> None)"
  using length_takeWhile_le [of "\<lambda>c. c \<noteq> NUL" buf] by (simp add: headers_end_def buf_str_def cstr_def)

section \<open>A connection that fails\<close>

text \<open>
  Calls at a host that cannot be reached: \<open>connect\<close> always fails. The descriptor that remains is
  the last one tried.
\<close>

lemma connect_walk_fails:
  assumes "\<And>fd rp s. fst (ps_connect c fd rp s) = - 1"
  shows "fst (fst (connect_walk c rps hostfd s)) = False"
proof (induction rps arbitrary: hostfd s)
  case (Cons rp rps)
  obtain fd s1 where 1: "ps_socket c rp s = (fd, s1)" by fastforce
  obtain rc s2 where 2: "ps_connect c fd rp s1 = (rc, s2)" by fastforce
  have "rc = - 1" using assms [of fd rp s1] 2 by simp
  with Cons 1 2 show ?case by simp
qed simp

end
