(* ===== verification/Proxy_Cache.thy ===== *)
theory Proxy_Cache
  imports CString Bounded_Buffer
begin

text \<open>
  The cache of the threaded proxy, \<open>first-proxylab-handout/cache.c\<close>: a circular array of
  objects under a readers-writer lock. As for the buffers, an operation is a sequence of
  atomic steps of one of any number of threads.
\<close>

section \<open>The cache\<close>

abbreviation MAX_CACHE_SIZE :: int where "MAX_CACHE_SIZE \<equiv> 1049000"
abbreviation CACHE_OBJECT_MAX :: int where "CACHE_OBJECT_MAX \<equiv> 102400"

text \<open>Pointers are \<open>None\<close> when null; \<open>content\<close> is the block of memory it points to.\<close>

record cache_object_t =
  co_size :: int
  co_url :: "string option"
  co_content :: "string option"

text \<open>The static variable \<open>readers\<close> of \<open>cache_find_object\<close> is a field of the state.\<close>

record cache_t =
  c_buf :: "cache_object_t list option"
  c_n :: int
  c_size :: int
  c_front :: int
  c_rear :: int
  c_mutex :: nat
  c_rw :: nat
  c_readers :: int

definition zero_object :: cache_object_t where
  "zero_object = \<lparr>co_size = 0, co_url = None, co_content = None\<rparr>"

text \<open>
  \<open>cache_init\<close> allocates \<open>n\<close> times the size of a pointer, 8 bytes, for objects of 24 bytes
  (an \<open>int\<close>, padding, two pointers): there is room for a third of \<open>n\<close>.
\<close>

definition cache_slots :: "int \<Rightarrow> nat" where
  "cache_slots n = (nat n * 8) div 24"

definition cache_init :: "bool \<Rightarrow> int \<Rightarrow> cache_t" where
  "cache_init alloc_ok n =
     \<lparr>c_buf = (if alloc_ok then Some (replicate (cache_slots n) zero_object) else None), c_n = n, c_size = 0,
      c_front = 0, c_rear = 0, c_mutex = 1, c_rw = 1, c_readers = 0\<rparr>"

definition cache_deinit :: "cache_t \<Rightarrow> cache_t" where
  "cache_deinit c = c\<lparr>c_buf := None\<rparr>"

definition cache_build_object :: "int \<Rightarrow> string option \<Rightarrow> string option \<Rightarrow> cache_object_t" where
  "cache_build_object sz url content = \<lparr>co_size = sz, co_url = url, co_content = content\<rparr>"

text \<open>The element \<open>i\<close> of the array, and \<open>i % n\<close>.\<close>

definition c_index :: "cache_t \<Rightarrow> int \<Rightarrow> nat outcome" where
  "c_index c i =
     (case c_buf c of
        None \<Rightarrow> Fault Null_Deref
      | Some xs \<Rightarrow> if 0 \<le> i \<and> nat i < length xs then Ret (nat i) else Fault Out_Of_Bounds)"

definition c_mod :: "cache_t \<Rightarrow> int \<Rightarrow> int outcome" where
  "c_mod c i = (if c_n c = 0 then Fault Div_By_Zero else Ret (i smod c_n c))"

definition c_store :: "cache_object_t \<Rightarrow> nat \<Rightarrow> cache_t \<Rightarrow> cache_t" where
  "c_store x k c = c\<lparr>c_buf := map_option (\<lambda>xs. xs[k := x]) (c_buf c)\<rparr>"

section \<open>The steps\<close>

text \<open>
  \<open>readers\<close> is only used between \<open>P(mutex)\<close> and \<open>V(mutex)\<close>; its update and the test after it
  are one step. The result of a search is the index of the object.
\<close>

datatype cpc =
    CIns0 cache_object_t      \<comment> \<open>before the tests of the size\<close>
  | CIns1 cache_object_t      \<comment> \<open>before \<open>P(rw)\<close>\<close>
  | CIns2 cache_object_t      \<comment> \<open>before \<open>++rear\<close>\<close>
  | CIns3 cache_object_t int  \<comment> \<open>before the store, with the new value of \<open>rear\<close>\<close>
  | CIns4 cache_object_t      \<comment> \<open>before the update of \<open>size\<close>\<close>
  | CIns5                     \<comment> \<open>before \<open>V(rw)\<close>\<close>
  | CFind0 string             \<comment> \<open>before \<open>P(mutex)\<close>\<close>
  | CFind1 string             \<comment> \<open>before \<open>readers++\<close>\<close>
  | CFind2 string             \<comment> \<open>the first reader, before \<open>P(rw)\<close>\<close>
  | CFind3 string             \<comment> \<open>before \<open>V(mutex)\<close>\<close>
  | CFind4 string             \<comment> \<open>before \<open>index = front\<close>\<close>
  | CFind5 string int         \<comment> \<open>at the test of the loop\<close>
  | CFind6 "int option"       \<comment> \<open>before the second \<open>P(mutex)\<close>\<close>
  | CFind7 "int option"       \<comment> \<open>before \<open>readers--\<close>\<close>
  | CFind8 "int option"       \<comment> \<open>the last reader, before \<open>V(rw)\<close>\<close>
  | CFind9 "int option"       \<comment> \<open>before the second \<open>V(mutex)\<close>\<close>
  | CRet "int option"

text \<open>One round of the search.\<close>

definition find_round :: "string \<Rightarrow> int \<Rightarrow> cache_t \<Rightarrow> cpc outcome" where
  "find_round url i c =
     (if i = c_rear c then Ret (CFind6 None)
      else obind (c_index c i) (\<lambda>k.
           case co_url (the (c_buf c) ! k) of
             None \<Rightarrow> Fault Null_Deref
           | Some u \<Rightarrow> if u = url then Ret (CFind6 (Some i)) else omap (CFind5 url) (c_mod c (i + 1))))"

fun c_step :: "cpc \<Rightarrow> cache_t \<Rightarrow> (cpc outcome \<times> cache_t) option" where
  "c_step (CIns0 x) c =
     Some (if CACHE_OBJECT_MAX < co_size x then Ret (CRet None)
           else case int_add (co_size x) (c_size c) of
               Ret k \<Rightarrow> if MAX_CACHE_SIZE < k then Ret (CRet None) else Ret (CIns1 x)
             | Exited n \<Rightarrow> Exited n | Fault e \<Rightarrow> Fault e, c)"
| "c_step (CIns1 x) c = map_option (\<lambda>v. (Ret (CIns2 x), c\<lparr>c_rw := v\<rparr>)) (sem_wait (c_rw c))"
| "c_step (CIns2 x) c =
     Some (case bb_incr (c_rear c) of
         Ret r \<Rightarrow> (Ret (CIns3 x r), c\<lparr>c_rear := r\<rparr>)
       | Exited n \<Rightarrow> (Exited n, c) | Fault e \<Rightarrow> (Fault e, c))"
| "c_step (CIns3 x r) c =
     Some (case obind (c_mod c r) (c_index c) of
         Ret k \<Rightarrow> (Ret (CIns4 x), c_store x k c)
       | Exited n \<Rightarrow> (Exited n, c) | Fault e \<Rightarrow> (Fault e, c))"
| "c_step (CIns4 x) c =
     Some (case int_add (c_size c) (co_size x) of
         Ret k \<Rightarrow> (Ret CIns5, c\<lparr>c_size := k\<rparr>)
       | Exited n \<Rightarrow> (Exited n, c) | Fault e \<Rightarrow> (Fault e, c))"
| "c_step CIns5 c = Some (Ret (CRet None), c\<lparr>c_rw := sem_post (c_rw c)\<rparr>)"
| "c_step (CFind0 u) c = map_option (\<lambda>v. (Ret (CFind1 u), c\<lparr>c_mutex := v\<rparr>)) (sem_wait (c_mutex c))"
| "c_step (CFind1 u) c =
     Some (Ret (if c_readers c + 1 = 1 then CFind2 u else CFind3 u), c\<lparr>c_readers := c_readers c + 1\<rparr>)"
| "c_step (CFind2 u) c = map_option (\<lambda>v. (Ret (CFind3 u), c\<lparr>c_rw := v\<rparr>)) (sem_wait (c_rw c))"
| "c_step (CFind3 u) c = Some (Ret (CFind4 u), c\<lparr>c_mutex := sem_post (c_mutex c)\<rparr>)"
| "c_step (CFind4 u) c = Some (Ret (CFind5 u (c_front c)), c)"
| "c_step (CFind5 u i) c = Some (find_round u i c, c)"
| "c_step (CFind6 r) c = map_option (\<lambda>v. (Ret (CFind7 r), c\<lparr>c_mutex := v\<rparr>)) (sem_wait (c_mutex c))"
| "c_step (CFind7 r) c =
     Some (Ret (if c_readers c - 1 = 0 then CFind8 r else CFind9 r), c\<lparr>c_readers := c_readers c - 1\<rparr>)"
| "c_step (CFind8 r) c = Some (Ret (CFind9 r), c\<lparr>c_rw := sem_post (c_rw c)\<rparr>)"
| "c_step (CFind9 r) c = Some (Ret (CRet r), c\<lparr>c_mutex := sem_post (c_mutex c)\<rparr>)"
| "c_step (CRet r) c = None"

section \<open>One thread alone\<close>

text \<open>
  The outer \<open>None\<close> is a thread that goes on for ever, the inner one a thread that blocks.
\<close>

partial_function (option) c_alone :: "cpc \<Rightarrow> cache_t \<Rightarrow> (int option outcome \<times> cache_t) option option" where
  "c_alone p c =
     (case p of
        CRet r \<Rightarrow> Some (Some (Ret r, c))
      | _ \<Rightarrow>
        (case c_step p c of
           None \<Rightarrow> Some None
         | Some (r, c') \<Rightarrow>
             (case r of
                Ret q \<Rightarrow> c_alone q c'
              | Exited n \<Rightarrow> Some (Some (Exited n, c'))
              | Fault e \<Rightarrow> Some (Some (Fault e, c')))))"

declare c_alone.simps [code]

lemma c_alone_ret: "c_alone (CRet r) c = Some (Some (Ret r, c))"
  by (subst c_alone.simps) simp

lemma c_alone_rec:
  assumes "\<And>r. p \<noteq> CRet r"
  shows "c_alone p c =
    (case c_step p c of
       None \<Rightarrow> Some None
     | Some (r, c') \<Rightarrow>
         (case r of
            Ret q \<Rightarrow> c_alone q c'
          | Exited n \<Rightarrow> Some (Some (Exited n, c'))
          | Fault e \<Rightarrow> Some (Some (Fault e, c'))))"
proof (cases p)
  case (CRet r)
  with assms show ?thesis by blast
qed (subst c_alone.simps, simp only: cpc.case)+

lemma c_alone_step:
  assumes "c_step p c = Some (Ret q, c')"
  shows "c_alone p c = c_alone q c'"
  using assms by (subst c_alone_rec) auto

definition cache_insert :: "cache_t \<Rightarrow> cache_object_t \<Rightarrow> (int option outcome \<times> cache_t) option option" where
  "cache_insert c x = c_alone (CIns0 x) c"

definition cache_find_object :: "cache_t \<Rightarrow> string \<Rightarrow> (int option outcome \<times> cache_t) option option" where
  "cache_find_object c url = c_alone (CFind0 url) c"

section \<open>Threads\<close>

record cache_sys =
  cs_cache :: cache_t
  cs_threads :: "cpc list"

definition cs_step :: "nat \<Rightarrow> cache_sys \<Rightarrow> cache_sys outcome option" where
  "cs_step i s =
     (if i < length (cs_threads s) then
        (case c_step (cs_threads s ! i) (cs_cache s) of
           None \<Rightarrow> None
         | Some (r, c) \<Rightarrow>
             Some (omap (\<lambda>q. s\<lparr>cs_cache := c, cs_threads := (cs_threads s)[i := q]\<rparr>) r))
      else None)"

fun c_start :: "cpc \<Rightarrow> bool" where
  "c_start (CIns0 x) = True"
| "c_start (CFind0 u) = True"
| "c_start _ = False"

definition cs_init :: "int \<Rightarrow> cpc list \<Rightarrow> cache_sys" where
  "cs_init n ps = \<lparr>cs_cache = cache_init True n, cs_threads = ps\<rparr>"

inductive cs_reach :: "int \<Rightarrow> cache_sys \<Rightarrow> bool" for n where
  cs_reach_init: "list_all c_start ps \<Longrightarrow> cs_reach n (cs_init n ps)"
| cs_reach_step: "cs_reach n s \<Longrightarrow> cs_step i s = Some (Ret t) \<Longrightarrow> cs_reach n t"
| cs_reach_spawn: "cs_reach n s \<Longrightarrow> c_start p \<Longrightarrow>
    cs_reach n (s\<lparr>cs_threads := cs_threads s @ [p]\<rparr>)"

section \<open>The readers-writer lock\<close>

text \<open>
  The threads that hold the mutex: the first reader, waiting for \<open>rw\<close>; the last one, about to
  release it; and the others.
\<close>

fun first_reader :: "cpc \<Rightarrow> bool" where
  "first_reader (CFind2 u) = True" | "first_reader _ = False"

fun last_reader :: "cpc \<Rightarrow> bool" where
  "last_reader (CFind8 r) = True" | "last_reader _ = False"

fun other_mutex :: "cpc \<Rightarrow> bool" where
  "other_mutex (CFind1 u) = True" | "other_mutex (CFind3 u) = True"
| "other_mutex (CFind7 r) = True" | "other_mutex (CFind9 r) = True"
| "other_mutex _ = False"

text \<open>The readers on whose behalf \<open>rw\<close> is held, those who search, and the writers who hold it.\<close>

fun holding :: "cpc \<Rightarrow> bool" where
  "holding (CFind3 u) = True" | "holding (CFind4 u) = True" | "holding (CFind5 u i) = True"
| "holding (CFind6 r) = True" | "holding (CFind7 r) = True" | "holding (CFind8 r) = True"
| "holding _ = False"

fun searching :: "cpc \<Rightarrow> bool" where
  "searching (CFind4 u) = True" | "searching (CFind5 u i) = True" | "searching _ = False"

fun writing :: "cpc \<Rightarrow> bool" where
  "writing (CIns2 x) = True" | "writing (CIns3 x r) = True" | "writing (CIns4 x) = True"
| "writing CIns5 = True" | "writing _ = False"

definition lock_ok :: "cache_t \<Rightarrow> nat \<Rightarrow> nat \<Rightarrow> nat \<Rightarrow> nat \<Rightarrow> nat \<Rightarrow> bool" where
  "lock_ok c f l m h w \<longleftrightarrow>
     c_mutex c + f + l + m = 1 \<and> c_readers c + int l = int f + int h \<and>
     c_rw c + w + (if 0 < h then 1 else 0) = 1 \<and>
     (0 < f \<longrightarrow> h = 0) \<and> (0 < l \<longrightarrow> h = 1)"

definition lock_inv :: "cache_t \<Rightarrow> cpc list \<Rightarrow> bool" where
  "lock_inv c ts \<longleftrightarrow>
     lock_ok c (cnt first_reader ts) (cnt last_reader ts) (cnt other_mutex ts) (cnt holding ts) (cnt writing ts)"

lemma find_round_Ret:
  assumes "find_round url i c = Ret q"
  shows "(\<exists>r. q = CFind6 r) \<or> (\<exists>k. q = CFind5 url k)"
proof (cases "i = c_rear c")
  case False
  with assms obtain k where k: "c_index c i = Ret k"
    and r: "(case co_url (the (c_buf c) ! k) of None \<Rightarrow> Fault Null_Deref
      | Some u \<Rightarrow> if u = url then Ret (CFind6 (Some i)) else omap (CFind5 url) (c_mod c (i + 1))) = Ret q"
    unfolding find_round_def by (auto simp: obind_Ret_iff)
  show ?thesis
  proof (cases "co_url (the (c_buf c) ! k)")
    case (Some u)
    with r show ?thesis by (cases "u = url"; cases "c_mod c (i + 1)") auto
  qed (use r in simp)
qed (use assms in \<open>auto simp: find_round_def\<close>)

lemma c_step_lock_inv:
  assumes "lock_inv c ts" and "i < length ts" and "c_step (ts ! i) c = Some (Ret q, c')"
  shows "lock_inv c' (ts[i := q])"
proof -
  define p where "p = ts ! i"
  note u = cnt_update [OF assms(2), of _ q, folded p_def]
  define f l m h w where "f = cnt first_reader ts" and "l = cnt last_reader ts" and "m = cnt other_mutex ts"
    and "h = cnt holding ts" and "w = cnt writing ts"
  define f' l' m' h' w' where "f' = cnt first_reader (ts[i := q])" and "l' = cnt last_reader (ts[i := q])"
    and "m' = cnt other_mutex (ts[i := q])" and "h' = cnt holding (ts[i := q])" and "w' = cnt writing (ts[i := q])"
  note defs = f_def l_def m_def h_def w_def f'_def l'_def m'_def h'_def w'_def
  have U: "f' + (if first_reader p then 1 else 0) = f + (if first_reader q then 1 else 0)"
    "l' + (if last_reader p then 1 else 0) = l + (if last_reader q then 1 else 0)"
    "m' + (if other_mutex p then 1 else 0) = m + (if other_mutex q then 1 else 0)"
    "h' + (if holding p then 1 else 0) = h + (if holding q then 1 else 0)"
    "w' + (if writing p then 1 else 0) = w + (if writing q then 1 else 0)"
    unfolding defs by (rule u)+
  have I: "lock_ok c f l m h w" using assms(1) unfolding lock_inv_def defs .
  have S: "c_step p c = Some (Ret q, c')" using assms(3) unfolding p_def .
  have "lock_ok c' f' l' m' h' w'"
  proof (cases p)
    case (CIns0 x)
    have "c' = c" "q = CRet None \<or> q = CIns1 x" using S CIns0 by (auto split: if_splits outcome.splits)
    then show ?thesis using I U CIns0 by auto
  next
    case (CIns1 x)
    then obtain v where step: "c_rw c = Suc v" "q = CIns2 x" "c' = c\<lparr>c_rw := v\<rparr>"
      using S by (cases "c_rw c") (auto simp: sem_wait_def)
    show ?thesis using I U unfolding CIns1 step(2,3) by (simp add: lock_ok_def step(1) split: if_split_asm)
  next
    case (CIns2 x)
    then obtain r where step: "q = CIns3 x r" "c' = c\<lparr>c_rear := r\<rparr>"
      using S by (auto split: outcome.splits)
    show ?thesis using I U unfolding CIns2 step by (simp add: lock_ok_def)
  next
    case (CIns3 x r)
    then obtain k where step: "q = CIns4 x" "c' = c_store x k c"
      using S by (auto split: outcome.splits)
    show ?thesis using I U unfolding CIns3 step by (simp add: lock_ok_def c_store_def)
  next
    case (CIns4 x)
    then obtain k where step: "q = CIns5" "c' = c\<lparr>c_size := k\<rparr>"
      using S by (auto split: outcome.splits)
    show ?thesis using I U unfolding CIns4 step by (simp add: lock_ok_def)
  next
    case CIns5
    then have step: "q = CRet None" "c' = c\<lparr>c_rw := sem_post (c_rw c)\<rparr>" using S by auto
    show ?thesis using I U unfolding CIns5 step by (simp add: lock_ok_def sem_post_def split: if_split_asm)
  next
    case (CFind0 u)
    then obtain v where step: "c_mutex c = Suc v" "q = CFind1 u" "c' = c\<lparr>c_mutex := v\<rparr>"
      using S by (cases "c_mutex c") (auto simp: sem_wait_def)
    show ?thesis using I U unfolding CFind0 step(2,3) by (simp add: lock_ok_def step(1) split: if_split_asm)
  next
    case (CFind1 u)
    have m: "0 < m" unfolding m_def by (rule cnt_pos [OF assms(2)]) (use CFind1 p_def in simp)
    have step: "c' = c\<lparr>c_readers := c_readers c + 1\<rparr>" using S CFind1 by auto
    show ?thesis
    proof (cases "c_readers c = 0")
      case True
      then have q: "q = CFind2 u" using S CFind1 by auto
      have "f = 0" "l = 0" "h = 0" using I m True by (auto simp: lock_ok_def)
      then show ?thesis using I U True unfolding CFind1 step q by (simp add: lock_ok_def)
    next
      case False
      then have q: "q = CFind3 u" using S CFind1 by auto
      have "f = 0" "l = 0" using I m by (auto simp: lock_ok_def)
      moreover have "0 < h" using I False calculation by (simp add: lock_ok_def)
      ultimately show ?thesis using I U unfolding CFind1 step q by (simp add: lock_ok_def)
    qed
  next
    case (CFind2 u)
    then obtain v where step: "c_rw c = Suc v" "q = CFind3 u" "c' = c\<lparr>c_rw := v\<rparr>"
      using S by (cases "c_rw c") (auto simp: sem_wait_def)
    have "0 < f" unfolding f_def by (rule cnt_pos [OF assms(2)]) (use CFind2 p_def in simp)
    then have "f = 1" "h = 0" "l = 0" "m = 0" using I by (auto simp: lock_ok_def)
    then show ?thesis using I U unfolding CFind2 step(2,3) by (simp add: lock_ok_def step(1))
  next
    case (CFind3 u)
    then have step: "q = CFind4 u" "c' = c\<lparr>c_mutex := sem_post (c_mutex c)\<rparr>" using S by auto
    show ?thesis using I U unfolding CFind3 step by (simp add: lock_ok_def sem_post_def split: if_split_asm)
  next
    case (CFind4 u)
    then have step: "q = CFind5 u (c_front c)" "c' = c" using S by auto
    show ?thesis using I U unfolding CFind4 step by (simp add: lock_ok_def sem_post_def split: if_split_asm)
  next
    case (CFind5 u k)
    have "c' = c" "(\<exists>r. q = CFind6 r) \<or> (\<exists>k. q = CFind5 u k)"
      using S CFind5 find_round_Ret [of u k c q] by auto
    then show ?thesis using I U CFind5 by auto
  next
    case (CFind6 r)
    then obtain v where step: "c_mutex c = Suc v" "q = CFind7 r" "c' = c\<lparr>c_mutex := v\<rparr>"
      using S by (cases "c_mutex c") (auto simp: sem_wait_def)
    show ?thesis using I U unfolding CFind6 step(2,3) by (simp add: lock_ok_def step(1) split: if_split_asm)
  next
    case (CFind7 r)
    have m: "0 < m" unfolding m_def by (rule cnt_pos [OF assms(2)]) (use CFind7 p_def in simp)
    have step: "c' = c\<lparr>c_readers := c_readers c - 1\<rparr>" using S CFind7 by auto
    have fl: "f = 0" "l = 0" using I m by (auto simp: lock_ok_def)
    show ?thesis
    proof (cases "c_readers c = 1")
      case True
      then have q: "q = CFind8 r" using S CFind7 by auto
      show ?thesis using I U True fl unfolding CFind7 step q by (simp add: lock_ok_def split: if_split_asm)
    next
      case False
      then have q: "q = CFind9 r" using S CFind7 by auto
      have "0 < h" unfolding h_def by (rule cnt_pos [OF assms(2)]) (use CFind7 p_def in simp)
      moreover have "h \<noteq> 1" using I False fl by (simp add: lock_ok_def)
      ultimately have "0 < h'" using U unfolding CFind7 q by simp
      with \<open>0 < h\<close> show ?thesis using I U fl unfolding CFind7 step q by (simp add: lock_ok_def)
    qed
  next
    case (CFind8 r)
    then have step: "q = CFind9 r" "c' = c\<lparr>c_rw := sem_post (c_rw c)\<rparr>" using S by auto
    have "0 < l" unfolding l_def by (rule cnt_pos [OF assms(2)]) (use CFind8 p_def in simp)
    then have "l = 1" "h = 1" "f = 0" "m = 0" using I by (auto simp: lock_ok_def)
    then show ?thesis using I U unfolding CFind8 step by (simp add: lock_ok_def sem_post_def)
  next
    case (CFind9 r)
    then have step: "q = CRet r" "c' = c\<lparr>c_mutex := sem_post (c_mutex c)\<rparr>" using S by auto
    show ?thesis using I U unfolding CFind9 step by (simp add: lock_ok_def sem_post_def split: if_split_asm)
  next
    case (CRet r)
    then show ?thesis using S by simp
  qed
  then show ?thesis unfolding lock_inv_def defs .
qed

end
