(* ===== verification/Proxy_Threads.thy ===== *)
theory Proxy_Threads
  imports Proxy_Sys Proxy_Cache
begin

text \<open>
  The threaded proxy, \<open>first-proxylab-handout/proxy.c\<close>. The operations of one thread run here
  without interruption by the others; how those on the buffers and on the cache interleave
  is the subject of \<open>Bounded_Buffer\<close>, \<open>Proxy_Cache\<close> and, for all threads, \<open>Proxy_System\<close>. \<open>malloc\<close>
  succeeds.
\<close>

section \<open>The state\<close>

text \<open>The shared buffers, the cache, and the text of \<open>log.txt\<close>, if it could be opened.\<close>

record pt = world +
  pt_sbuf :: "int bbuf"
  pt_logbuf :: logbuf_t
  pt_cache :: cache_t
  pt_log :: "string option"

abbreviation NTHREADS :: nat where "NTHREADS \<equiv> 16"
abbreviation SBUFSIZE :: int where "SBUFSIZE \<equiv> 32"
abbreviation LOGBUFSIZE :: int where "LOGBUFSIZE \<equiv> 64"

text \<open>The operations of the buffers and of the cache on the state.\<close>

definition on_buf :: "('b \<Rightarrow> ('r outcome \<times> 'b) option) \<Rightarrow> ('s \<Rightarrow> 'b) \<Rightarrow> ('b \<Rightarrow> 's \<Rightarrow> 's) \<Rightarrow> ('s, 'r) dprog" where
  "on_buf op get put s = map_option (\<lambda>(r, b). (r, put b s)) (op (get s))"

definition log_put :: "string \<Rightarrow> ('z pt_scheme, string option option) dprog" where
  "log_put url = on_buf (logbuf_insert (Some url)) pt_logbuf (\<lambda>b. pt_logbuf_update (\<lambda>_. b))"

definition log_take :: "('z pt_scheme, string option option) dprog" where
  "log_take = on_buf logbuf_remove pt_logbuf (\<lambda>b. pt_logbuf_update (\<lambda>_. b))"

definition fd_put :: "int \<Rightarrow> ('z pt_scheme, int option) dprog" where
  "fd_put fd = on_buf (psbuf_insert fd) pt_sbuf (\<lambda>b. pt_sbuf_update (\<lambda>_. b))"

definition fd_take :: "('z pt_scheme, int option) dprog" where
  "fd_take = on_buf psbuf_remove pt_sbuf (\<lambda>b. pt_sbuf_update (\<lambda>_. b))"

definition on_cache :: "(cache_t \<Rightarrow> ('r outcome \<times> cache_t) option option) \<Rightarrow> ('z pt_scheme, 'r) dprog" where
  "on_cache op s =
     (case op (pt_cache s) of
        Some (Some (r, c)) \<Rightarrow> Some (r, s\<lparr>pt_cache := c\<rparr>)
      | _ \<Rightarrow> None)"

section \<open>Loops over a socket\<close>

text \<open>
  Writing \<open>len\<close> bytes, of which \<open>n\<close> are done; \<open>report\<close> is what is printed after each \<open>write\<close>.
\<close>

partial_function (option) send_all ::
    "('w, 'ai) psys \<Rightarrow> (int \<Rightarrow> string) \<Rightarrow> int \<Rightarrow> string \<Rightarrow> int \<Rightarrow> int \<Rightarrow> 'w world_scheme \<Rightarrow>
     (unit outcome \<times> 'w world_scheme) option" where
  "send_all c report fd buf len n s =
     (if n = len then Some (Ret (), s)
      else
        (case buf_bytes buf n (len - n) of
           Ret d \<Rightarrow>
             (case ps_write c fd d s of
                (e, s1) \<Rightarrow>
                  if e = - 1 then Some (Exited 1, print_err ''write error'' s1)
                  else send_all c report fd buf len (n + e) (print_out (report (n + e)) s1))
         | Exited k \<Rightarrow> Some (Exited k, s)
         | Fault e \<Rightarrow> Some (Fault e, s)))"

text \<open>Reading the response: \<open>tot\<close> is \<open>totalbytesRead\<close>, to which a failed \<open>read\<close> adds -1.\<close>

partial_function (option) recv_all ::
    "('w, 'ai) psys \<Rightarrow> int \<Rightarrow> string \<Rightarrow> int \<Rightarrow> 'w world_scheme \<Rightarrow>
     ((int \<times> string) outcome \<times> 'w world_scheme) option" where
  "recv_all c fd buf tot s =
     (case ps_read c fd READ_SIZE s of
        ((r, d), s1) \<Rightarrow>
          (case buf_write buf tot d of
             Ret buf' \<Rightarrow>
               (case int_add tot r of
                  Ret tot' \<Rightarrow>
                    if r = 0 then Some (Ret (tot', buf'), s1) else recv_all c fd buf' tot' s1
                | Exited k \<Rightarrow> Some (Exited k, s1)
                | Fault e \<Rightarrow> Some (Fault e, s1))
           | Exited k \<Rightarrow> Some (Exited k, s1)
           | Fault e \<Rightarrow> Some (Fault e, s1)))"

text \<open>Reading the request until its headers are complete.\<close>

partial_function (option) read_request ::
    "('w, 'ai) psys \<Rightarrow> int \<Rightarrow> string \<Rightarrow> int \<Rightarrow> 'w world_scheme \<Rightarrow>
     (string outcome \<times> 'w world_scheme) option" where
  "read_request c fd buf nread s =
     (case headers_end buf of
        Ret found \<Rightarrow>
          if found then Some (Ret buf, s) else
          (case ps_read c fd READ_SIZE s of
             ((r, d), s1) \<Rightarrow>
               (case buf_write buf nread d of
                  Ret buf' \<Rightarrow> read_request c fd buf' (nread + r) s1
                | Exited k \<Rightarrow> Some (Exited k, s1)
                | Fault e \<Rightarrow> Some (Fault e, s1)))
      | Exited k \<Rightarrow> Some (Exited k, s)
      | Fault e \<Rightarrow> Some (Fault e, s))"

declare send_all.simps [code] recv_all.simps [code] read_request.simps [code]

section \<open>Serving a request\<close>

definition url_line :: "string \<Rightarrow> string" where
  "url_line url = ''size of url: '' @ show_nat (length url) @ '', url: '' @ url @ [LF]"

text \<open>
  The parts of \<open>contact_host\<close>: what it prints first, \<open>getaddrinfo\<close> with what is printed after it,
  and all up to the object it builds. They print the URL, which is \<open>None\<close> when it has been freed.
\<close>

definition announce_url :: "string option \<Rightarrow> ('w world_scheme, unit) cprog" where
  "announce_url url =
     (case url of None \<Rightarrow> cfault Out_Of_Bounds | Some u \<Rightarrow> cmodify (print_out (url_line u @ url_line u)))"

definition resolve_host ::
    "('w, 'ai) psys \<Rightarrow> parsed \<Rightarrow> string option \<Rightarrow> ('w world_scheme, 'ai list) cprog" where
  "resolve_host c req_info url =
     cbind (lookup_host c False (p_host req_info)
              (case p_port req_info of None \<Rightarrow> ''80'' | Some port \<Rightarrow> port)) (\<lambda>result.
     cbind (case url of None \<Rightarrow> cfault Out_Of_Bounds | Some u \<Rightarrow> cmodify (print_out (''url: '' @ u @ [LF]))) (\<lambda>_.
       creturn result))"

definition fetch_object ::
    "('w, 'ai) psys \<Rightarrow> parsed \<Rightarrow> string option \<Rightarrow> ('w world_scheme, cache_object_t) dprog" where
  "fetch_object c req_info url =
     dbind (dlift (resolve_host c req_info url)) (\<lambda>result.
     dbind (dlift (connect_addrs c result)) (\<lambda>hostfd.
     dbind (send_all c (\<lambda>_. []) hostfd (p_request req_info) (int (length (p_request req_info))) 0) (\<lambda>_.
     dbind (recv_all c hostfd [] 0) (\<lambda>(tot, content).
     dbind (dlift (\<lambda>s. (Ret (), snd (ps_close c hostfd s)))) (\<lambda>_.
       dreturn (cache_build_object tot url (Some content)))))))"

definition contact_host ::
    "('z pt_ext, 'ai) psys \<Rightarrow> parsed \<Rightarrow> string \<Rightarrow> ('z pt_scheme, cache_object_t) dprog" where
  "contact_host c req_info url =
     dbind (dlift (announce_url (Some url))) (\<lambda>_.
     dbind (fetch_object c req_info (Some url)) (\<lambda>cache_object.
     dbind (on_cache (\<lambda>cache. cache_insert cache cache_object)) (\<lambda>_. dreturn cache_object)))"

definition logging :: "string \<Rightarrow> ('z pt_scheme, string) dprog" where
  "logging buf =
     (case logged_url (cstr buf) of
        None \<Rightarrow> dlift (cfault Null_Deref)
      | Some url \<Rightarrow> dbind (log_put url) (\<lambda>_. dreturn url))"

definition written_line :: "int \<Rightarrow> int \<Rightarrow> string" where
  "written_line len n = ''bytesWritten: '' @ show_int n @ ''  contentLen: '' @ show_int len @ [LF]"

text \<open>
  The two branches of \<open>read_write\<close>. On a miss \<open>cache_object\<close> is null, and the object that
  \<open>contact_host\<close> returns is assigned through it.
\<close>

definition fetch_uncached :: "('z pt_ext, 'ai) psys \<Rightarrow> string \<Rightarrow> string \<Rightarrow> ('z pt_scheme, unit) dprog" where
  "fetch_uncached c buf url =
     dbind (dlift (parse_request (cstr buf))) (\<lambda>req_info.
     dbind (contact_host c req_info url) (\<lambda>_.
       dlift (cfault Null_Deref)))"

definition send_object :: "('w, 'ai) psys \<Rightarrow> int \<Rightarrow> cache_object_t \<Rightarrow> ('w world_scheme, unit) dprog" where
  "send_object c clientfd x =
     (case co_content x of
        None \<Rightarrow> dlift (cfault Null_Deref)
      | Some content \<Rightarrow>
          dbind (send_all c (written_line (co_size x)) clientfd content (co_size x) 0) (\<lambda>_.
            dlift (\<lambda>s. (Ret (), snd (ps_close c clientfd s)))))"

definition send_cached :: "('z pt_ext, 'ai) psys \<Rightarrow> int \<Rightarrow> int \<Rightarrow> ('z pt_scheme, unit) dprog" where
  "send_cached c clientfd i s =
     (case obind (c_index (pt_cache s) i) (\<lambda>k. Ret (the (c_buf (pt_cache s)) ! k)) of
        Ret x \<Rightarrow> send_object c clientfd x s
      | Exited n \<Rightarrow> Some (Exited n, s)
      | Fault e \<Rightarrow> Some (Fault e, s))"

definition read_write :: "('z pt_ext, 'ai) psys \<Rightarrow> int \<Rightarrow> ('z pt_scheme, unit) dprog" where
  "read_write c clientfd =
     dbind (read_request c clientfd [] 0) (\<lambda>buf.
     dbind (logging buf) (\<lambda>url.
     dbind (on_cache (\<lambda>cache. cache_find_object cache url)) (\<lambda>found.
       (case found of None \<Rightarrow> fetch_uncached c buf url | Some i \<Rightarrow> send_cached c clientfd i))))"

section \<open>The threads\<close>

text \<open>One round of the loop of \<open>proxy_thread\<close>, and of that of \<open>logging_thread\<close>.\<close>

definition proxy_thread_round :: "('z pt_ext, 'ai) psys \<Rightarrow> ('z pt_scheme, unit) dprog" where
  "proxy_thread_round c =
     dbind fd_take (\<lambda>r. case r of None \<Rightarrow> dlift (cfault Uninitialised) | Some clientfd \<Rightarrow> read_write c clientfd)"

definition log_line :: "int \<Rightarrow> string \<Rightarrow> string" where
  "log_line t url = show_int t @ '': '' @ url @ [LF]"

text \<open>An item of the log buffer may be null: \<open>%s\<close> of a null pointer is undefined.\<close>

definition logging_thread_round :: "('z pt_ext, 'ai) psys \<Rightarrow> ('z pt_scheme, unit) dprog" where
  "logging_thread_round c =
     dbind log_take (\<lambda>r s.
       case ps_time c s of
         (t, s1) \<Rightarrow>
           (case r of
              Some (Some url) \<Rightarrow>
                (case pt_log s1 of
                   None \<Rightarrow> Some (Fault Null_Deref, s1)
                 | Some txt \<Rightarrow>
                     Some (Ret (), s1\<lparr>pt_log := Some (txt @ log_line t url)\<rparr>))
            | _ \<Rightarrow> Some (Fault Null_Deref, s1)))"

section \<open>main\<close>

text \<open>The calls that set up the server; a socket address is the port that \<open>htons\<close> is given.\<close>

record 'w serversys =
  sv_socket :: "('w, int) syscall"
  sv_bind :: "int \<Rightarrow> int \<Rightarrow> ('w, int) syscall"
  sv_listen :: "int \<Rightarrow> int \<Rightarrow> ('w, int) syscall"

definition pt_listen :: "('w, 'ai) psys \<Rightarrow> 'w serversys \<Rightarrow> string list \<Rightarrow> ('w world_scheme, int) cprog" where
  "pt_listen c v argv s =
     (if length argv < 2 then (Exited 1, print_out (''usage: '' @ hd argv @ '' port'' @ [LF]) s)
      else case sv_socket v s of (listenfd, s1) \<Rightarrow>
        if listenfd < 0 then (Exited 1, perror (ps_strerror c) ''socket error'' s1)
        else case sv_bind v listenfd (atoi (argv ! 1)) s1 of (rc, s2) \<Rightarrow>
          if rc < 0 then (Exited 1, perror (ps_strerror c) ''bind error'' (snd (ps_close c listenfd s2)))
          else case sv_listen v listenfd 100 s2 of (rc', s3) \<Rightarrow>
            if rc' < 0 then (Exited 1, perror (ps_strerror c) ''listen error'' (snd (ps_close c listenfd s3)))
            else (Ret listenfd, s3))"

text \<open>Up to the accept loop, where \<open>NTHREADS\<close> proxy threads and one logging thread run.\<close>

definition pt_main_init ::
    "('z pt_ext, 'ai) psys \<Rightarrow> 'z pt_ext serversys \<Rightarrow> bool \<Rightarrow> string option \<Rightarrow> string list \<Rightarrow> ('z pt_scheme, int) cprog" where
  "pt_main_init c v alloc_ok logfile argv =
     cbind (pt_listen c v argv) (\<lambda>listenfd s.
       (Ret listenfd,
        s\<lparr>pt_cache := cache_init alloc_ok (MAX_CACHE_SIZE div 100), pt_logbuf := logbuf_init alloc_ok LOGBUFSIZE,
          pt_sbuf := psbuf_init alloc_ok SBUFSIZE, pt_log := logfile\<rparr>))"

text \<open>One round of the accept loop: the result of \<open>accept\<close> is handed on unchecked.\<close>

definition pt_accept_round :: "('z pt_ext, 'ai) psys \<Rightarrow> int \<Rightarrow> ('z pt_scheme, int option) dprog" where
  "pt_accept_round c listenfd =
     dbind (dlift (\<lambda>s. case ps_accept c listenfd s of (fd, t) \<Rightarrow> (Ret fd, t))) fd_put"

end
