(* ===== verification/Proxy_Cache_Props.thy ===== *)
theory Proxy_Cache_Props
  imports Proxy_Cache
begin

text \<open>
  What the cache guarantees and what it does not: the readers-writer lock works for any number
  of threads; the search fails as soon as there is an object; the array is too small; and the
  bound on the total size is not kept, because it is tested outside the lock.
\<close>

section \<open>Mutual exclusion\<close>

lemma lock_inv_init:
  assumes "list_all c_start ps"
  shows "lock_inv (cache_init True n) ps"
proof -
  have none: "\<not> first_reader p \<and> \<not> last_reader p \<and> \<not> other_mutex p \<and> \<not> holding p \<and> \<not> writing p"
    if "p \<in> set ps" for p
    using assms that by (cases p) (auto simp: list_all_iff)
  then have "cnt first_reader ps = 0" "cnt last_reader ps = 0" "cnt other_mutex ps = 0"
    "cnt holding ps = 0" "cnt writing ps = 0"
    by (auto intro: cnt_none)
  then show ?thesis by (simp add: lock_inv_def lock_ok_def cache_init_def)
qed

lemma lock_inv_spawn:
  assumes "lock_inv c ts" and "c_start p"
  shows "lock_inv c (ts @ [p])"
proof -
  have "\<not> first_reader p \<and> \<not> last_reader p \<and> \<not> other_mutex p \<and> \<not> holding p \<and> \<not> writing p"
    using assms(2) by (cases p) auto
  with assms(1) show ?thesis by (simp add: lock_inv_def)
qed

lemma cs_stepD:
  assumes "cs_step i s = Some (Ret t)"
  obtains q c where "i < length (cs_threads s)"
    and "c_step (cs_threads s ! i) (cs_cache s) = Some (Ret q, c)"
    and "t = s\<lparr>cs_cache := c, cs_threads := (cs_threads s)[i := q]\<rparr>"
proof -
  have i: "i < length (cs_threads s)" using assms by (auto simp: cs_step_def split: if_splits)
  with assms obtain r c where r: "c_step (cs_threads s ! i) (cs_cache s) = Some (r, c)"
    and t: "omap (\<lambda>q. s\<lparr>cs_cache := c, cs_threads := (cs_threads s)[i := q]\<rparr>) r = Ret t"
    by (auto simp: cs_step_def split: option.splits prod.splits)
  from t obtain q where "r = Ret q" "t = s\<lparr>cs_cache := c, cs_threads := (cs_threads s)[i := q]\<rparr>"
    by (cases r) auto
  with i r that show thesis by simp
qed

lemma cs_reach_lock: "cs_reach n s \<Longrightarrow> lock_inv (cs_cache s) (cs_threads s)"
proof (induction rule: cs_reach.induct)
  case (cs_reach_init ps)
  then show ?case by (simp add: cs_init_def lock_inv_init)
next
  case (cs_reach_step s i t)
  from cs_reach_step.hyps(2) show ?case
    by (rule cs_stepD) (simp add: c_step_lock_inv [OF cs_reach_step.IH])
next
  case (cs_reach_spawn s p)
  then show ?case by (simp add: lock_inv_spawn)
qed

text \<open>C24. In every interleaving of insertions and searches of any number of threads, at most
  one thread writes, and none writes while another searches.\<close>

theorem cache_exclusion:
  assumes "cs_reach n s"
  shows "cnt writing (cs_threads s) \<le> 1 \<and>
    (cnt searching (cs_threads s) = 0 \<or> cnt writing (cs_threads s) = 0)"
proof -
  let ?ts = "cs_threads s"
  have inv: "c_rw (cs_cache s) + cnt writing ?ts + (if 0 < cnt holding ?ts then 1 else 0) = 1"
    using cs_reach_lock [OF assms] by (simp add: lock_inv_def lock_ok_def)
  have "cnt searching ?ts \<le> cnt holding ?ts"
  proof (rule cnt_mono)
    show "holding p" if "searching p" for p using that by (cases p) simp_all
  qed
  with inv show ?thesis by (cases "cnt holding ?ts = 0") auto
qed

interpretation cache: interleaving cs_step "cs_reach n" for n
  by unfold_locales (rule cs_reach_step)

definition demo_object :: cache_object_t where
  "demo_object = cache_build_object 5 (Some ''u'') (Some ''hello'')"

definition two_cache_threads :: cache_sys where
  "two_cache_threads = cs_init 60 [CFind0 ''u'', CIns0 demo_object]"

theorem cache_exclusion_witness:
  "let s = the (schedule cs_step [0, 0, 0, 0, 0, 1] two_cache_threads)
   in cnt searching (cs_threads s) = 1 \<and> cnt writing (cs_threads s) = 0"
proof -
  define s where "s = the (schedule cs_step [0, 0, 0, 0, 0, 1] two_cache_threads)"
  have "schedule cs_step [0, 0, 0, 0, 0, 1] two_cache_threads = Some s" unfolding s_def by code_simp
  moreover have "cs_reach 60 two_cache_threads"
    unfolding two_cache_threads_def by (rule cs_reach_init) simp
  ultimately have "cs_reach 60 s" by (rule cache.run_reach)
  moreover have "cnt searching (cs_threads s) = 1" unfolding s_def by code_simp
  ultimately show ?thesis using cache_exclusion [of 60 s] unfolding s_def [symmetric] Let_def by simp
qed

section \<open>The bound on the size\<close>

definition big_object :: cache_object_t where
  "big_object = cache_build_object 100000 (Some ''u'') None"

definition last_object :: cache_object_t where
  "last_object = cache_build_object 40000 (Some ''v'') None"

text \<open>Ten large objects, then two threads that test the size before either of them locks.\<close>

definition race_start :: cache_sys where
  "race_start = cs_init 60 (replicate 10 (CIns0 big_object) @ replicate 2 (CIns0 last_object))"

definition race_schedule :: "nat list" where
  "race_schedule = concat (map (replicate 6) [0..<10]) @ [10, 11] @ replicate 5 10 @ replicate 5 11"

lemma race_run: "\<exists>s. schedule cs_step race_schedule race_start = Some s \<and> c_size (cs_cache s) = 1080000"
proof -
  have "map_option (\<lambda>s. c_size (cs_cache s)) (schedule cs_step race_schedule race_start) = Some 1080000"
    by code_simp
  then show ?thesis by (cases "schedule cs_step race_schedule race_start") auto
qed

text \<open>The total size can exceed \<open>MAX_CACHE_SIZE\<close>: two threads whose tests both come
  before either insertion add up to more.\<close>

theorem cache_size_race:
  "\<exists>s. cs_reach 60 s \<and> MAX_CACHE_SIZE < c_size (cs_cache s) \<and> list_all (\<lambda>p. p = CRet None) (cs_threads s)"
proof -
  obtain s where s: "schedule cs_step race_schedule race_start = Some s" "c_size (cs_cache s) = 1080000"
    using race_run by blast
  have "cs_reach 60 race_start"
    unfolding race_start_def by (rule cs_reach_init) (simp add: list_all_iff)
  then have "cs_reach 60 s" using cache.run_reach s(1) by blast
  moreover have "map_option (\<lambda>s. list_all (\<lambda>p. p = CRet None) (cs_threads s)) (schedule cs_step race_schedule race_start) = Some True"
    by code_simp
  ultimately show ?thesis using s by auto
qed

section \<open>One thread\<close>

definition cache_idle :: "cache_t \<Rightarrow> bool" where
  "cache_idle c \<longleftrightarrow> c_mutex c = 1 \<and> c_rw c = 1 \<and> c_readers c = 0"

text \<open>An insertion: refused when the object or the total is too large, stored otherwise.\<close>

lemma cache_insert_run:
  assumes "cache_idle c" and "c_buf c = Some xs" and "c_n c = int n" and "0 < n"
    and "0 \<le> c_rear c" and "c_rear c + 1 < int (length xs)" and "length xs \<le> n" and "int n \<le> INT_MAX"
    and "0 \<le> co_size x" and "0 \<le> c_size c" and "c_size c \<le> MAX_CACHE_SIZE"
  shows "cache_insert c x =
    Some (Some (Ret None,
      if co_size x \<le> CACHE_OBJECT_MAX \<and> co_size x + c_size c \<le> MAX_CACHE_SIZE
      then c\<lparr>c_rear := c_rear c + 1, c_buf := Some (xs[nat (c_rear c + 1) := x]),
             c_size := c_size c + co_size x\<rparr>
      else c))"
proof (cases "co_size x \<le> CACHE_OBJECT_MAX \<and> co_size x + c_size c \<le> MAX_CACHE_SIZE")
  case False
  have "int_add (co_size x) (c_size c) = Ret (co_size x + c_size c)" if "co_size x \<le> CACHE_OBJECT_MAX"
    using that assms(9-11) by (simp add: int_add_def)
  with False show ?thesis
    by (auto simp: cache_insert_def c_alone_step [where p = "CIns0 x"] c_alone_ret)
next
  case True
  have add: "int_add (co_size x) (c_size c) = Ret (co_size x + c_size c)"
    "int_add (c_size c) (co_size x) = Ret (c_size c + co_size x)"
    using True assms(9-11) by (simp_all add: int_add_def)
  let ?r = "c_rear c + 1"
  have r: "?r smod int n = ?r" using assms(5-8) by (cases "?r = 0") (simp_all add: smod_int_alt_def sgn_if)
  define c1 where "c1 = c\<lparr>c_rw := 0\<rparr>"
  define c2 where "c2 = c1\<lparr>c_rear := ?r\<rparr>"
  define c3 where "c3 = c_store x (nat ?r) c2"
  define c4 where "c4 = c3\<lparr>c_size := c_size c + co_size x\<rparr>"
  note cdefs = c4_def c3_def c2_def c1_def c_store_def
  have 0: "c_step (CIns0 x) c = Some (Ret (CIns1 x), c)" using True add by auto
  have 1: "c_step (CIns1 x) c = Some (Ret (CIns2 x), c1)"
    using assms(1) by (simp add: cache_idle_def sem_wait_def c1_def)
  have 2: "c_step (CIns2 x) c1 = Some (Ret (CIns3 x ?r), c2)"
    using assms(6-8) by (simp add: c1_def c2_def bb_incr_def)
  have 3: "c_step (CIns3 x ?r) c2 = Some (Ret (CIns4 x), c3)"
    using assms r by (simp add: c3_def c_mod_def c_index_def) (simp add: c2_def c1_def c_mod_def c_index_def)
  have 4: "c_step (CIns4 x) c3 = Some (Ret CIns5, c4)" using add(2) by (simp add: c4_def cdefs)
  have 5: "c_step CIns5 c4 = Some (Ret (CRet None), c4\<lparr>c_rw := sem_post (c_rw c4)\<rparr>)" by simp
  have "c4\<lparr>c_rw := sem_post (c_rw c4)\<rparr> =
      c\<lparr>c_rear := ?r, c_buf := Some (xs[nat ?r := x]), c_size := c_size c + co_size x\<rparr>"
    using assms(1,2) by (simp add: cdefs cache_idle_def sem_post_def)
  moreover have "cache_insert c x = c_alone (CRet None) (c4\<lparr>c_rw := sem_post (c_rw c4)\<rparr>)"
    unfolding cache_insert_def
    by (simp only: c_alone_step [OF 0] c_alone_step [OF 1] c_alone_step [OF 2] c_alone_step [OF 3]
        c_alone_step [OF 4] c_alone_step [OF 5])
  ultimately show ?thesis using True by (simp add: c_alone_ret)
qed

text \<open>A search of an empty cache returns null and leaves it as it was.\<close>

lemma cache_find_empty:
  assumes "cache_idle c" and "c_front c = c_rear c"
  shows "cache_find_object c url = Some (Some (Ret None, c))"
  using assms
  by (simp add: cache_find_object_def c_alone_rec c_alone_ret cache_idle_def sem_wait_def sem_post_def find_round_def)

text \<open>As soon as one object has been inserted every search dereferences a null pointer: the
  search begins at the slot \<open>front\<close>, which no insertion fills before the array has been
  gone through.\<close>

theorem cache_find_crashes:
  assumes "cache_idle c" and "c_buf c = Some xs" and "c_front c = 0" and "xs \<noteq> []" and "xs ! 0 = zero_object"
    and "c_rear c \<noteq> 0"
  shows "\<exists>t. cache_find_object c url = Some (Some (Fault Null_Deref, t))"
  using assms
  by (simp add: cache_find_object_def c_alone_rec c_alone_ret cache_idle_def sem_wait_def sem_post_def find_round_def
      c_index_def zero_object_def)

text \<open>After \<open>cache_init\<close> and one insertion.\<close>

definition one_cached :: cache_t where
  "one_cached = snd (the (the (cache_insert (cache_init True 60) demo_object)))"

theorem cache_find_crashes_witness:
  "\<exists>t. cache_find_object one_cached ''u'' = Some (Some (Fault Null_Deref, t))"
proof (rule cache_find_crashes)
  show "cache_idle one_cached" by code_simp
  show "c_buf one_cached = Some (the (c_buf one_cached))" by code_simp
  show "c_front one_cached = 0" by code_simp
  show "the (c_buf one_cached) \<noteq> []" by code_simp
  show "the (c_buf one_cached) ! 0 = zero_object" by code_simp
  show "c_rear one_cached \<noteq> 0" by code_simp
qed

text \<open>The array holds a third of the objects that \<open>n\<close> announces: the next one is stored outside.\<close>

lemma cache_init_too_small:
  assumes "cache_slots n = nat r" and "0 \<le> r" and "r < n" and "n \<le> INT_MAX"
    and "c_buf c = Some xs" and "length xs = cache_slots n" and "c_n c = n"
  shows "c_step (CIns3 x r) c = Some (Fault Out_Of_Bounds, c)"
proof -
  have "r smod n = r" using assms(2-4) by (cases "r = 0") (simp_all add: smod_int_alt_def sgn_if)
  with assms show ?thesis by (simp add: c_mod_def c_index_def)
qed

lemma cache_slots_third: "cache_slots (int (3 * k)) = k"
  unfolding cache_slots_def by simp

end
