(* ===== verification/Proxy_System.thy ===== *)
theory Proxy_System
  imports Proxy_Threads Proxy_Cache_Props Buffer_Proofs
begin

text \<open>
  The threaded proxy, \<open>first-proxylab-handout/proxy.c\<close>, with all its threads: \<open>main\<close> accepts
  connections and inserts their descriptors into one bounded buffer, the workers remove them and
  insert URLs into another, from which the logging thread writes the log; the workers share the
  cache. The steps are those of \<open>Bounded_Buffer\<close> and \<open>Proxy_Cache\<close>, interleaved. Reading a
  request, fetching and sending an object are one step each: beside the thread's own memory and
  descriptors they use only the URL, which is read at one point of the step. A URL is shared by the
  worker that allocated it and the logging thread, which frees it: here it is an address.
\<close>

section \<open>The system\<close>

text \<open>Where a worker is; within the operations on the buffers and the cache its position there tells more.\<close>

datatype px_pc =
    PxTake                     \<comment> \<open>in \<open>sbuf_remove\<close>\<close>
  | PxRead int                 \<comment> \<open>before the request is read\<close>
  | PxLog int string nat       \<comment> \<open>in \<open>logbuf_insert\<close>, with request and URL\<close>
  | PxFind int string nat      \<comment> \<open>in \<open>cache_find_object\<close>\<close>
  | PxFetch string nat         \<comment> \<open>not found: before \<open>parse_request\<close>\<close>
  | PxContact parsed nat       \<comment> \<open>in \<open>contact_host\<close>, before \<open>getaddrinfo\<close>\<close>
  | PxInsert                   \<comment> \<open>in \<open>cache_insert\<close>\<close>
  | PxSend int int             \<comment> \<open>found: before the object is sent\<close>

text \<open>
  Thread 0 of the first buffer is \<open>main\<close>, thread 0 of the second the logging thread; thread
  \<open>Suc i\<close> of both and thread \<open>i\<close> of the cache are worker \<open>i\<close>. A thread that is not in an
  operation has \<open>Returned\<close> from it. \<open>px_urls\<close> are the URLs as they were allocated, an address is an
  index into it (none is used twice); \<open>px_freed\<close> are the addresses freed, in order.
\<close>

record 'w px_sys =
  px_world :: "'w world_scheme"
  px_fdq :: "int bb_sys"
  px_logq :: "nat option bb_sys"
  px_cache :: cache_sys
  px_workers :: "px_pc list"
  px_log :: "string option"
  px_urls :: "string list"
  px_freed :: "nat list"

text \<open>What is at an address, \<open>None\<close> after \<open>free\<close>.\<close>

definition px_url :: "nat \<Rightarrow> 'w px_sys \<Rightarrow> string option" where
  "px_url a s = (if a < length (px_urls s) \<and> a \<notin> set (px_freed s) then Some (px_urls s ! a) else None)"

text \<open>A thread enters an operation.\<close>

definition bs_enter :: "nat \<Rightarrow> 'a bb_pc \<Rightarrow> 'a bb_sys \<Rightarrow> 'a bb_sys" where
  "bs_enter i p q = q\<lparr>bs_threads := (bs_threads q)[i := p]\<rparr>"

definition cs_enter :: "nat \<Rightarrow> cpc \<Rightarrow> cache_sys \<Rightarrow> cache_sys" where
  "cs_enter i p q = q\<lparr>cs_threads := (cs_threads q)[i := p]\<rparr>"

definition px_goto :: "nat \<Rightarrow> px_pc \<Rightarrow> 'w px_sys \<Rightarrow> 'w px_sys" where
  "px_goto i p s = s\<lparr>px_workers := (px_workers s)[i := p]\<rparr>"

text \<open>Steps on the parts of the state.\<close>

definition px_on_fdq :: "nat \<Rightarrow> 'w px_sys \<Rightarrow> 'w px_sys outcome option" where
  "px_on_fdq i s = map_option (omap (\<lambda>q. s\<lparr>px_fdq := q\<rparr>)) (bs_step i (px_fdq s))"

definition px_on_logq :: "nat \<Rightarrow> 'w px_sys \<Rightarrow> 'w px_sys outcome option" where
  "px_on_logq i s = map_option (omap (\<lambda>q. s\<lparr>px_logq := q\<rparr>)) (bs_step i (px_logq s))"

definition px_on_cache :: "nat \<Rightarrow> 'w px_sys \<Rightarrow> 'w px_sys outcome option" where
  "px_on_cache i s = map_option (omap (\<lambda>q. s\<lparr>px_cache := q\<rparr>)) (cs_step i (px_cache s))"

definition px_io :: "('w world_scheme, 'a) dprog \<Rightarrow> ('a \<Rightarrow> 'w px_sys \<Rightarrow> 'w px_sys outcome) \<Rightarrow> 'w px_sys \<Rightarrow> 'w px_sys outcome option" where
  "px_io m k s = map_option (\<lambda>(r, w). obind r (\<lambda>a. k a (s\<lparr>px_world := w\<rparr>))) (m (px_world s))"

section \<open>The threads\<close>

text \<open>The accept loop of \<open>main\<close>: the result of \<open>accept\<close> is handed on unchecked.\<close>

definition px_main :: "('w, 'ai) psys \<Rightarrow> int \<Rightarrow> 'w px_sys \<Rightarrow> 'w px_sys outcome option" where
  "px_main c listenfd s =
     (case bs_threads (px_fdq s) ! 0 of
        Returned r \<Rightarrow>
          (case ps_accept c listenfd (px_world s) of
             (fd, w) \<Rightarrow> Some (Ret (s\<lparr>px_world := w, px_fdq := bs_enter 0 (Ins0 fd) (px_fdq s)\<rparr>)))
      | _ \<Rightarrow> px_on_fdq 0 s)"

text \<open>
  \<open>logging_thread\<close>: \<open>%s\<close> of a null pointer or of memory that is freed, and a log that could not be
  opened, are undefined.
\<close>

definition px_logger :: "('w, 'ai) psys \<Rightarrow> 'w px_sys \<Rightarrow> 'w px_sys outcome option" where
  "px_logger c s =
     (case bs_threads (px_logq s) ! 0 of
        Returned r \<Rightarrow>
          (case ps_time c (px_world s) of
             (t, w) \<Rightarrow>
               Some (case (r, px_log s) of
                   (Some (Some a), Some txt) \<Rightarrow>
                     (case px_url a s of
                        None \<Rightarrow> Fault Out_Of_Bounds
                      | Some url \<Rightarrow>
                          Ret (s\<lparr>px_world := w, px_log := Some (txt @ log_line t url), px_freed := px_freed s @ [a],
                                px_logq := bs_enter 0 Rem0 (px_logq s)\<rparr>))
                 | _ \<Rightarrow> Fault Null_Deref))
      | _ \<Rightarrow> px_on_logq 0 s)"

text \<open>
  \<open>proxy_thread\<close> with \<open>read_write\<close>, \<open>logging\<close> and \<open>contact_host\<close>. On a miss \<open>cache_object\<close> is null, and
  the object that was fetched and inserted is then assigned through it. In the search the URL is
  read only by \<open>strcmp\<close>; of an object in the cache \<open>co_url\<close> is what its URL was when it was inserted,
  and no comparison with one is reached (\<open>fill_ok\<close>, \<open>cache_ok_miss\<close>).
\<close>

fun find_compares :: "cpc \<Rightarrow> cache_t \<Rightarrow> bool" where
  "find_compares (CFind5 u k) c = (k \<noteq> c_rear c)"
| "find_compares _ c = False"

definition px_worker :: "('w, 'ai) psys \<Rightarrow> nat \<Rightarrow> 'w px_sys \<Rightarrow> 'w px_sys outcome option" where
  "px_worker c i s =
     (case px_workers s ! i of
        PxTake \<Rightarrow>
          (case bs_threads (px_fdq s) ! Suc i of
             Returned r \<Rightarrow> map_option (\<lambda>fd. Ret (px_goto i (PxRead fd) s)) r
           | _ \<Rightarrow> px_on_fdq (Suc i) s)
      | PxRead fd \<Rightarrow>
          px_io (read_request c fd [] 0)
            (\<lambda>buf t. case logged_url (cstr buf) of
                None \<Rightarrow> Fault Null_Deref
              | Some url \<Rightarrow>
                  let a = length (px_urls t)
                  in Ret (px_goto i (PxLog fd buf a)
                       (t\<lparr>px_urls := px_urls t @ [url], px_logq := bs_enter (Suc i) (Ins0 (Some a)) (px_logq t)\<rparr>))) s
      | PxLog fd buf a \<Rightarrow>
          (case bs_threads (px_logq s) ! Suc i of
             Returned r \<Rightarrow> Some (Ret (px_goto i (PxFind fd buf a) (s\<lparr>px_cache := cs_enter i (CFind0 (px_urls s ! a)) (px_cache s)\<rparr>)))
           | _ \<Rightarrow> px_on_logq (Suc i) s)
      | PxFind fd buf a \<Rightarrow>
          (case cs_threads (px_cache s) ! i of
             CRet r \<Rightarrow> Some (Ret (px_goto i (case r of None \<Rightarrow> PxFetch buf a | Some k \<Rightarrow> PxSend fd k) s))
           | p \<Rightarrow>
               if find_compares p (cs_cache (px_cache s)) \<and> px_url a s = None then Some (Fault Out_Of_Bounds)
               else px_on_cache i s)
      | PxFetch buf a \<Rightarrow>
          px_io (dlift (cbind (parse_request (cstr buf)) (\<lambda>req_info. cbind (announce_url (px_url a s)) (\<lambda>_. creturn req_info))))
            (\<lambda>req_info t. Ret (px_goto i (PxContact req_info a) t)) s
      | PxContact req_info a \<Rightarrow>
          px_io (fetch_object c req_info (px_url a s))
            (\<lambda>x t. Ret (px_goto i PxInsert (t\<lparr>px_cache := cs_enter i (CIns0 x) (px_cache t)\<rparr>))) s
      | PxInsert \<Rightarrow>
          (case cs_threads (px_cache s) ! i of
             CRet r \<Rightarrow> Some (Fault Null_Deref)
           | _ \<Rightarrow> px_on_cache i s)
      | PxSend fd k \<Rightarrow>
          (case c_index (cs_cache (px_cache s)) k of
             Ret j \<Rightarrow>
               px_io (send_object c fd (the (c_buf (cs_cache (px_cache s))) ! j))
                 (\<lambda>_ t. Ret (px_goto i PxTake (t\<lparr>px_fdq := bs_enter (Suc i) Rem0 (px_fdq t)\<rparr>))) s
           | Exited n \<Rightarrow> Some (Exited n)
           | Fault e \<Rightarrow> Some (Fault e)))"

datatype px_label = PxMain | PxLogger | PxWorker nat

fun px_step :: "('w, 'ai) psys \<Rightarrow> int \<Rightarrow> px_label \<Rightarrow> 'w px_sys \<Rightarrow> 'w px_sys outcome option" where
  "px_step c listenfd PxMain s = px_main c listenfd s"
| "px_step c listenfd PxLogger s = px_logger c s"
| "px_step c listenfd (PxWorker i) s = (if i < length (px_workers s) then px_worker c i s else None)"

text \<open>
  After the start of \<open>main\<close>, with \<open>m\<close> workers and a cache of \<open>n\<close> objects; in the program these are
  \<open>NTHREADS\<close> and \<open>MAX_CACHE_SIZE / 100\<close>. The second buffer is \<open>logbuf_init\<close>, of addresses.
\<close>

definition px_init :: "nat \<Rightarrow> int \<Rightarrow> 'w world_scheme \<Rightarrow> string option \<Rightarrow> 'w px_sys" where
  "px_init m n w logfile =
     \<lparr>px_world = w,
      px_fdq = \<lparr>bs_buf = psbuf_init True SBUFSIZE, bs_threads = Returned None # replicate m Rem0, bs_in = [], bs_out = []\<rparr>,
      px_logq = \<lparr>bs_buf = bb_init None True LOGBUFSIZE, bs_threads = Rem0 # replicate m (Returned None), bs_in = [], bs_out = []\<rparr>,
      px_cache = cs_init n (replicate m (CRet None)), px_workers = replicate m PxTake, px_log = logfile,
      px_urls = [], px_freed = []\<rparr>"

inductive px_reach :: "('w, 'ai) psys \<Rightarrow> int \<Rightarrow> 'w px_sys \<Rightarrow> 'w px_sys \<Rightarrow> bool" for c listenfd s0 where
  px_reach_init: "px_reach c listenfd s0 s0"
| px_reach_step: "px_reach c listenfd s0 s \<Longrightarrow> px_step c listenfd l s = Some (Ret t) \<Longrightarrow> px_reach c listenfd s0 t"

end
