(* ===== verification/Proxy_Threads_Props.thy ===== *)
theory Proxy_Threads_Props
  imports Proxy_Threads Proxy_Cache_Props
begin

text \<open>
  What the threaded proxy does: it relays every byte of the request and of the response, but no
  search of its cache ever succeeds and no request is ever answered.
\<close>

section \<open>No search succeeds\<close>

fun found_nothing :: "cpc \<Rightarrow> bool" where
  "found_nothing (CFind5 u i) = (i = 0)"
| "found_nothing (CFind6 r) = (r = None)"
| "found_nothing (CFind7 r) = (r = None)"
| "found_nothing (CFind8 r) = (r = None)"
| "found_nothing (CFind9 r) = (r = None)"
| "found_nothing (CRet r) = (r = None)"
| "found_nothing _ = True"

definition cache_virgin :: "cache_t \<Rightarrow> bool" where
  "cache_virgin c \<longleftrightarrow>
     c_front c = 0 \<and> (c_rear c = 0 \<or> (\<exists>xs. c_buf c = Some xs \<and> xs \<noteq> [] \<and> xs ! 0 = zero_object))"

lemma find_round_virgin:
  assumes "cache_virgin c" and "find_round url 0 c = Ret q"
  shows "q = CFind6 None"
proof (cases "c_rear c = 0")
  case False
  with assms(1) obtain xs where "c_buf c = Some xs" "xs \<noteq> []" "xs ! 0 = zero_object"
    by (auto simp: cache_virgin_def)
  with assms(2) False show ?thesis by (simp add: find_round_def c_index_def zero_object_def)
qed (use assms(2) in \<open>auto simp: find_round_def\<close>)

lemma c_step_found_nothing:
  assumes "cache_virgin c" and "found_nothing p" and "c_step p c = Some (Ret q, c')"
  shows "found_nothing q"
proof (cases p)
  case (CFind5 u i)
  with assms find_round_virgin [of c u q] show ?thesis by auto
qed (use assms in \<open>auto simp: cache_virgin_def split: outcome.splits if_splits\<close>)

text \<open>The steps of a search leave the array and its indices alone.\<close>

fun finding :: "cpc \<Rightarrow> bool" where
  "finding (CIns0 x) = False" | "finding (CIns1 x) = False" | "finding (CIns2 x) = False"
| "finding (CIns3 x r) = False" | "finding (CIns4 x) = False" | "finding CIns5 = False"
| "finding _ = True"

lemma find_round_finding: "find_round u i c = Ret q \<Longrightarrow> finding q"
  using find_round_Ret [of u i c q] by auto

lemma c_step_finding:
  assumes "finding p" and "c_step p c = Some (Ret q, c')"
  shows "finding q" and "c_front c' = c_front c" and "c_rear c' = c_rear c" and "c_buf c' = c_buf c"
  using assms by (cases p; auto dest: find_round_finding split: if_splits)+

lemma virgin_same:
  "c_front c' = c_front c \<Longrightarrow> c_rear c' = c_rear c \<Longrightarrow> c_buf c' = c_buf c \<Longrightarrow>
   cache_virgin c' = cache_virgin c"
  by (simp add: cache_virgin_def)

definition finds_none :: "cpc \<Rightarrow> cache_t \<Rightarrow> (int option outcome \<times> cache_t) option \<Rightarrow> bool" where
  "finds_none p c y \<longleftrightarrow>
     (finding p \<and> found_nothing p \<and> cache_virgin c \<longrightarrow> (\<forall>r c'. y = Some (Ret r, c') \<longrightarrow> r = None))"

lemma find_alone_finds_none: "c_alone p c = Some y \<Longrightarrow> finds_none p c y"
proof (rule c_alone.raw_induct [of finds_none])
  fix f :: "cpc \<Rightarrow> cache_t \<Rightarrow> (int option outcome \<times> cache_t) option option" and p c y
  let ?rec = "(case c_step p c of None \<Rightarrow> Some None
    | Some (r, c') \<Rightarrow>
        (case r of Ret q \<Rightarrow> f q c' | Exited n \<Rightarrow> Some (Some (Exited n, c'))
         | Fault e \<Rightarrow> Some (Some (Fault e, c'))))"
  assume IH: "\<And>p c y. f p c = Some y \<Longrightarrow> finds_none p c y"
    and body: "(case p of CRet r \<Rightarrow> Some (Some (Ret r, c)) | _ \<Rightarrow> ?rec) = Some y"
  show "finds_none p c y"
  proof (cases "\<exists>r. p = CRet r")
    case True
    with body show ?thesis by (auto simp: finds_none_def)
  next
    case False
    with body have y: "?rec = Some y" by (cases p) (simp_all del: c_step.simps)
    show ?thesis
    proof (cases "\<exists>q c'. c_step p c = Some (Ret q, c')")
      case True
      then obtain q c' where q: "c_step p c = Some (Ret q, c')" by blast
      with y have rec: "f q c' = Some y" by simp
      have "finding q \<and> found_nothing q \<and> cache_virgin c'" if a: "finding p \<and> found_nothing p \<and> cache_virgin c"
        using c_step_finding [OF conjunct1 [OF a] q] virgin_same c_step_found_nothing q a by blast
      with IH [OF rec] show ?thesis by (auto simp: finds_none_def)
    next
      case False
      with y show ?thesis by (auto simp: finds_none_def split: option.splits outcome.splits)
    qed
  qed
qed

lemma cache_find_virgin:
  assumes "cache_virgin c" and "cache_find_object c url = Some (Some (Ret r, c'))"
  shows "r = None"
  using assms find_alone_finds_none [of "CFind0 url" c] by (auto simp: cache_find_object_def finds_none_def)

section \<open>The cache in every interleaving\<close>

text \<open>
  The array is filled from index 1, and a thread that would go beyond its end faults, before
  the index wraps to 0.
\<close>

definition fill_ok :: "nat \<Rightarrow> cache_t \<Rightarrow> cpc list \<Rightarrow> bool" where
  "fill_ok k c ts \<longleftrightarrow>
     c_front c = 0 \<and> 0 \<le> c_rear c \<and> c_rear c \<le> int k \<and>
     (\<exists>xs. c_buf c = Some xs \<and> length xs = k \<and> xs ! 0 = zero_object) \<and>
     (\<forall>p \<in> set ts. found_nothing p \<and> (\<forall>x r. p = CIns3 x r \<longrightarrow> r = c_rear c \<and> 1 \<le> r)) \<and>
     (c_rear c = int k \<longrightarrow> (\<exists>x. CIns3 x (int k) \<in> set ts))"

lemma fill_virgin: "fill_ok k c ts \<Longrightarrow> 0 < k \<Longrightarrow> cache_virgin c"
  by (auto simp: fill_ok_def cache_virgin_def)

lemma set_update_other:
  assumes "p \<in> set ts" and "p \<noteq> ts ! i"
  shows "p \<in> set (ts[i := q])"
proof -
  obtain j where "j < length ts" "ts ! j = p" using assms(1) by (auto simp: in_set_conv_nth)
  moreover from this assms(2) have "ts[i := q] ! j = p" by (metis nth_list_update_neq)
  ultimately show ?thesis by (metis length_list_update nth_mem)
qed

text \<open>A step that touches neither the array nor \<open>rear\<close>, nor begins a store.\<close>

lemma fill_keep:
  assumes "fill_ok k c ts" and "c_front c' = c_front c" "c_rear c' = c_rear c" "c_buf c' = c_buf c"
    and "found_nothing q" and "\<And>x r. q \<noteq> CIns3 x r" and "\<And>x r. ts ! i \<noteq> CIns3 x r"
  shows "fill_ok k c' (ts[i := q])"
proof -
  have "p = q \<or> p \<in> set ts" if "p \<in> set (ts[i := q])" for p
    using that set_update_subset_insert by fastforce
  moreover have "CIns3 x r \<in> set (ts[i := q])" if "CIns3 x r \<in> set ts" for x r
    using that by (rule set_update_other) (use assms(7) in metis)
  ultimately show ?thesis
    using assms unfolding fill_ok_def by metis
qed

lemma no_other_store:
  assumes "lock_inv c ts" and "i < length ts" and "writing (ts ! i)" and "CIns3 x r \<in> set ts"
  shows "ts ! i = CIns3 x r"
proof -
  have "cnt writing ts \<le> 1"
    using assms(1) by (auto simp: lock_inv_def lock_ok_def)
  moreover obtain j where j: "j < length ts" "ts ! j = CIns3 x r"
    using assms(4) by (auto simp: in_set_conv_nth)
  ultimately have "i = j" using cnt_unique [of writing ts i j] assms(2,3) by simp
  with j show ?thesis by simp
qed

lemma fill_incr:
  assumes "fill_ok k c ts" and "lock_inv c ts" and "i < length ts" and "ts ! i = CIns2 x"
  shows "fill_ok k (c\<lparr>c_rear := c_rear c + 1\<rparr>) (ts[i := CIns3 x (c_rear c + 1)])"
proof -
  let ?p = "CIns3 x (c_rear c + 1)" and ?c = "c\<lparr>c_rear := c_rear c + 1\<rparr>"
  have none: "CIns3 y r \<notin> set ts" for y r
    using no_other_store [OF assms(2,3), of y r] assms(4) by auto
  have rear: "0 \<le> c_rear c" "c_rear c < int k" using assms(1) none by (force simp: fill_ok_def)+
  have "found_nothing p \<and> (\<forall>y r. p = CIns3 y r \<longrightarrow> r = c_rear ?c \<and> 1 \<le> r)" if "p \<in> set (ts[i := ?p])" for p
  proof -
    have "p = ?p \<or> p \<in> set ts" using that set_update_subset_insert by fastforce
    with assms(1) none rear show ?thesis by (auto simp: fill_ok_def)
  qed
  then have 1: "\<forall>p \<in> set (ts[i := ?p]). found_nothing p \<and> (\<forall>y r. p = CIns3 y r \<longrightarrow> r = c_rear ?c \<and> 1 \<le> r)"
    by blast
  have "?p \<in> set (ts[i := ?p])" using assms(3) by (rule set_update_memI)
  then have 2: "c_rear ?c = int k \<longrightarrow> (\<exists>x. CIns3 x (int k) \<in> set (ts[i := ?p]))" by auto
  have "c_front ?c = 0 \<and> 0 \<le> c_rear ?c \<and> c_rear ?c \<le> int k \<and>
      (\<exists>xs. c_buf ?c = Some xs \<and> length xs = k \<and> xs ! 0 = zero_object)"
    using assms(1) rear by (simp add: fill_ok_def)
  with 1 2 show ?thesis unfolding fill_ok_def by blast
qed

lemma fill_store:
  assumes "fill_ok k c ts" and "lock_inv c ts" and "i < length ts" and "ts ! i = CIns3 x r" and "r < int k"
  shows "fill_ok k (c_store x (nat r) c) (ts[i := CIns4 x])"
proof -
  have r: "r = c_rear c" "1 \<le> r"
    using assms(1) nth_mem [OF assms(3)] assms(4) by (auto simp: fill_ok_def)
  have "CIns3 y r' \<notin> set (ts[i := CIns4 x])" for y r'
  proof
    assume "CIns3 y r' \<in> set (ts[i := CIns4 x])"
    then obtain j where j: "j < length ts" "ts[i := CIns4 x] ! j = CIns3 y r'"
      by (auto simp: in_set_conv_nth)
    from j assms(3) have "j \<noteq> i" by auto
    with j have "ts ! j = CIns3 y r'" by simp
    have "cnt writing ts \<le> 1" using assms(2) by (auto simp: lock_inv_def lock_ok_def)
    with cnt_unique [of writing ts i j] j(1) \<open>ts ! j = CIns3 y r'\<close> \<open>j \<noteq> i\<close> assms(3,4) show False by simp
  qed
  moreover have "found_nothing p" if "p \<in> set (ts[i := CIns4 x])" for p
  proof -
    have "p = CIns4 x \<or> p \<in> set ts" using that set_update_subset_insert by fastforce
    with assms(1) show ?thesis by (auto simp: fill_ok_def)
  qed
  moreover have "\<exists>xs. c_buf (c_store x (nat r) c) = Some xs \<and> length xs = k \<and> xs ! 0 = zero_object"
    using assms(1) r(2) by (auto simp: fill_ok_def c_store_def)
  ultimately show ?thesis
    using assms(1,5) r unfolding fill_ok_def by (auto simp: c_store_def)
qed

lemma c_index_Ret: "c_index c i = Ret k \<longleftrightarrow> (\<exists>xs. c_buf c = Some xs \<and> 0 \<le> i \<and> nat i < length xs \<and> k = nat i)"
  by (auto simp: c_index_def split: option.splits)

lemma fill_step:
  assumes "fill_ok k c ts" and "lock_inv c ts" and "i < length ts" and "0 < k" and "int k < c_n c"
    and "c_step (ts ! i) c = Some (Ret q, c')"
  shows "fill_ok k c' (ts[i := q])"
proof -
  have fn: "found_nothing (ts ! i)" using assms(1) nth_mem [OF assms(3)] by (auto simp: fill_ok_def)
  have q: "found_nothing q"
    by (rule c_step_found_nothing [OF fill_virgin [OF assms(1,4)] fn assms(6)])
  show ?thesis
  proof (cases "ts ! i")
    case (CIns2 x)
    with assms(6) have "q = CIns3 x (c_rear c + 1)" "c' = c\<lparr>c_rear := c_rear c + 1\<rparr>"
      by (auto simp: bb_incr_def split: if_splits)
    with fill_incr [OF assms(1-3) CIns2] show ?thesis by simp
  next
    case (CIns3 x r)
    have r: "1 \<le> r" "r \<le> int k"
      using assms(1) nth_mem [OF assms(3)] CIns3 by (auto simp: fill_ok_def)
    with assms(5) have "r smod c_n c = r" by (simp add: smod_int_alt_def)
    with assms(6) CIns3 r assms(5) obtain j where j: "c_index c r = Ret j" "q = CIns4 x" "c' = c_store x j c"
      by (auto simp: c_mod_def split: outcome.splits)
    with assms(1) have "r < int k" "j = nat r" by (auto simp: c_index_Ret fill_ok_def)
    with fill_store [OF assms(1-3) CIns3] j show ?thesis by simp
  next
    case (CIns0 x)
    with assms(6) show ?thesis
      by (intro fill_keep [OF assms(1) _ _ _ q]) (auto split: if_splits outcome.splits)
  next
    case (CIns4 x)
    with assms(6) show ?thesis
      by (intro fill_keep [OF assms(1) _ _ _ q]) (auto split: outcome.splits)
  next
    case (CFind5 u m)
    with assms(6) find_round_Ret [of u m c q] show ?thesis
      by (intro fill_keep [OF assms(1) _ _ _ q]) auto
  qed (intro fill_keep [OF assms(1) _ _ _ q]; use assms(6) in \<open>auto split: if_splits\<close>)+
qed

lemma c_step_n: "c_step p c = Some (r, c') \<Longrightarrow> c_n c' = c_n c"
  by (cases p) (auto simp: c_store_def split: outcome.splits)

lemma cs_reach_fill:
  assumes "cs_reach n s" and "3 \<le> n"
  shows "fill_ok (cache_slots n) (cs_cache s) (cs_threads s) \<and> c_n (cs_cache s) = n"
  using assms(1)
proof (induction rule: cs_reach.induct)
  case (cs_reach_init ps)
  have "found_nothing p \<and> (\<forall>x r. p \<noteq> CIns3 x r)" if "p \<in> set ps" for p
    using cs_reach_init that by (cases p) (auto simp: list_all_iff)
  moreover have "0 < cache_slots n" using assms(2) by (simp add: cache_slots_def)
  ultimately show ?case by (auto simp: fill_ok_def cs_init_def cache_init_def)
next
  case (cs_reach_step s i t)
  have "0 < cache_slots n" "int (cache_slots n) < n" using assms(2) by (simp_all add: cache_slots_def)
  with cs_reach_step.IH cs_reach_lock [OF cs_reach_step.hyps(1)] cs_reach_step.hyps(2) show ?case
    by (elim cs_stepD) (auto intro: fill_step dest: c_step_n)
next
  case (cs_reach_spawn s p)
  have "found_nothing p \<and> (\<forall>x r. p \<noteq> CIns3 x r)" using cs_reach_spawn.hyps(2) by (cases p) auto
  with cs_reach_spawn.IH show ?case by (auto simp: fill_ok_def)
qed

text \<open>However insertions and searches interleave: no search ever finds an object.\<close>

theorem cache_never_hits:
  assumes "cs_reach n s" and "3 \<le> n"
  shows "list_all found_nothing (cs_threads s)"
  using cs_reach_fill [OF assms] by (auto simp: fill_ok_def list_all_iff)

theorem cache_never_hits_witness:
  "list_all found_nothing (cs_threads (the (schedule cs_step [0, 0, 0, 0, 0, 1] two_cache_threads)))"
proof (rule cache_never_hits)
  have "cs_reach 60 two_cache_threads"
    unfolding two_cache_threads_def by (rule cs_reach_init) simp
  moreover have "schedule cs_step [0, 0, 0, 0, 0, 1] two_cache_threads =
      Some (the (schedule cs_step [0, 0, 0, 0, 0, 1] two_cache_threads))" by code_simp
  ultimately show "cs_reach 60 (the (schedule cs_step [0, 0, 0, 0, 0, 1] two_cache_threads))"
    using cache.run_reach by blast
qed simp

section \<open>Serving a request\<close>

text \<open>The system calls do not touch the cache.\<close>

definition keeps_cache :: "('z pt_ext, 'ai) psys \<Rightarrow> bool" where
  "keeps_cache c \<longleftrightarrow> (\<forall>fd n s. pt_cache (snd (ps_read c fd n s)) = pt_cache s)"

definition reads_keep :: "'z pt_scheme \<Rightarrow> (string outcome \<times> 'z pt_scheme) \<Rightarrow> bool" where
  "reads_keep s y \<longleftrightarrow> pt_cache (snd y) = pt_cache s"

lemma read_request_cache:
  assumes "keeps_cache c" and "read_request c fd buf n s = Some y"
  shows "pt_cache (snd y) = pt_cache s"
proof -
  have "keeps_cache c \<longrightarrow> reads_keep s y"
    using assms(2)
  proof (rule read_request.raw_induct [of "\<lambda>c fd buf n s y. keeps_cache c \<longrightarrow> reads_keep s y", rotated])
    fix f :: "('z pt_ext, 'ai) psys \<Rightarrow> int \<Rightarrow> string \<Rightarrow> int \<Rightarrow> 'z pt_scheme \<Rightarrow> (string outcome \<times> 'z pt_scheme) option"
      and c :: "('z pt_ext, 'ai) psys" and fd buf n and s :: "'z pt_scheme" and y
    assume IH: "\<And>c fd buf n s y. f c fd buf n s = Some y \<Longrightarrow> keeps_cache c \<longrightarrow> reads_keep s y"
      and body: "(case headers_end buf of
        Ret found \<Rightarrow>
          if found then Some (Ret buf, s) else
          (case ps_read c fd READ_SIZE s of
             ((r, d), s1) \<Rightarrow>
               (case buf_write buf n d of
                  Ret buf' \<Rightarrow> f c fd buf' (n + r) s1
                | Exited k \<Rightarrow> Some (Exited k, s1)
                | Fault e \<Rightarrow> Some (Fault e, s1)))
      | Exited k \<Rightarrow> Some (Exited k, s)
      | Fault e \<Rightarrow> Some (Fault e, s)) = Some y"
    show "keeps_cache c \<longrightarrow> reads_keep s y"
    proof
      assume k: "keeps_cache c"
      obtain r d s1 where rd: "ps_read c fd READ_SIZE s = ((r, d), s1)" by (metis prod.exhaust)
      with k have keep: "pt_cache s1 = pt_cache s" by (metis keeps_cache_def snd_conv)
      show "reads_keep s y"
      proof (cases "headers_end buf = Ret False \<and> (\<exists>b. buf_write buf n d = Ret b)")
        case True
        then obtain b where "buf_write buf n d = Ret b" "headers_end buf = Ret False" by blast
        with body rd have "f c fd b (n + r) s1 = Some y" by simp
        from IH [OF this] k keep show ?thesis by (simp add: reads_keep_def)
      next
        case False
        with body rd keep show ?thesis
          by (auto simp: reads_keep_def split: outcome.splits if_splits)
      qed
    qed
  qed
  with assms(1) show ?thesis by (simp add: reads_keep_def)
qed

text \<open>No request is ever answered: whatever the client and the servers send, \<open>read_write\<close> does
  not return. The object is not in the cache, and the one fetched from the server is
  stored through a null pointer.\<close>

theorem threaded_proxy_never_replies:
  assumes "keeps_cache c" and "cache_virgin (pt_cache s)"
  shows "read_write c clientfd s \<noteq> Some (Ret (), t)"
proof
  assume "read_write c clientfd s = Some (Ret (), t)"
  then obtain buf s1 url s2 found s3
    where 1: "read_request c clientfd [] 0 s = Some (Ret buf, s1)"
      and 2: "logging buf s1 = Some (Ret url, s2)"
      and 3: "on_cache (\<lambda>cache. cache_find_object cache url) s2 = Some (Ret found, s3)"
      and 4: "(case found of None \<Rightarrow> fetch_uncached c buf url | Some i \<Rightarrow> send_cached c clientfd i) s3 = Some (Ret (), t)"
    unfolding read_write_def by (auto simp: dbind_Ret_iff)
  have "pt_cache s1 = pt_cache s" using read_request_cache [OF assms(1) 1] by simp
  moreover have "pt_cache s2 = pt_cache s1"
    using 2 by (auto simp: logging_def dbind_Ret_iff log_put_def on_buf_def c_simps split: option.splits)
  ultimately have virgin: "cache_virgin (pt_cache s2)" using assms(2) by simp
  from 3 obtain c' where "cache_find_object (pt_cache s2) url = Some (Some (Ret found, c'))"
    by (auto simp: on_cache_def split: option.splits)
  with virgin have "found = None" by (rule cache_find_virgin)
  with 4 show False by (auto simp: fetch_uncached_def dbind_Ret_iff c_simps)
qed

definition demo_sys :: "(unit pt_ext, unit) psys" where
  "demo_sys =
     \<lparr>ps_getaddrinfo = (\<lambda>h p x s. ((0, [()]), s)), ps_gai_strerror = (\<lambda>e. []), ps_strerror = (\<lambda>e. []),
      ps_freeaddrinfo = (\<lambda>l s. ((), s)), ps_socket = (\<lambda>a s. (5, s)), ps_connect = (\<lambda>fd a s. (0, s)),
      ps_close = (\<lambda>fd s. (0, s)),
      ps_read = (\<lambda>fd n s. if fd = 4 then ((20, ''GET http://a/b c'' @ CRLF @ CRLF), s)
          else if w_errno s = 0 then ((5, ''hello''), s\<lparr>w_errno := 1\<rparr>) else ((0, []), s)),
      ps_write = (\<lambda>fd d s. (int (length d), s)), ps_getfl = (\<lambda>fd s. (0, s)), ps_setfl = (\<lambda>fd f s. (0, s)),
      ps_accept = (\<lambda>fd s. (4, s)), ps_time = (\<lambda>s. (0, s))\<rparr>"

definition demo_state :: pt where
  "demo_state = \<lparr>w_errno = 0, w_out = [], w_err = [], pt_sbuf = psbuf_init True 2, pt_logbuf = logbuf_init True 2,
     pt_cache = cache_init True 6, pt_log = Some []\<rparr>"

theorem threaded_proxy_never_replies_witness:
  "read_write demo_sys 4 demo_state \<noteq> Some (Ret (), demo_state) \<and>
   map_option fst (read_write demo_sys 4 demo_state) = Some (Fault Null_Deref)"
proof
  have "keeps_cache demo_sys" by (auto simp: keeps_cache_def demo_sys_def)
  moreover have "cache_virgin (pt_cache demo_state)"
    by (simp add: demo_state_def cache_virgin_def cache_init_def)
  ultimately show "read_write demo_sys 4 demo_state \<noteq> Some (Ret (), demo_state)"
    by (rule threaded_proxy_never_replies)
  show "map_option fst (read_write demo_sys 4 demo_state) = Some (Fault Null_Deref)" by code_simp
qed

section \<open>The relay\<close>

text \<open>
  A descriptor to which \<open>write\<close> takes at least one byte each time, in order; \<open>sent\<close> is what has
  gone out.
\<close>

definition takes_bytes :: "('w, 'ai) psys \<Rightarrow> int \<Rightarrow> ('w world_scheme \<Rightarrow> string) \<Rightarrow> bool" where
  "takes_bytes c fd sent \<longleftrightarrow>
     (\<forall>d s. d \<noteq> [] \<longrightarrow>
        (case ps_write c fd d s of (e, t) \<Rightarrow>
           1 \<le> e \<and> e \<le> int (length d) \<and> sent t = sent s @ take (nat e) d)) \<and>
     (\<forall>m s. sent (print_out m s) = sent s)"

lemma takes_bytesD:
  assumes "takes_bytes c fd sent" and "d \<noteq> []" and "ps_write c fd d s = (e, t)"
  shows "1 \<le> e" and "e \<le> int (length d)" and "sent t = sent s @ take (nat e) d"
  using assms unfolding takes_bytes_def by (metis (mono_tags, lifting) case_prod_conv)+

lemma takes_bytes_print: "takes_bytes c fd sent \<Longrightarrow> sent (print_out m s) = sent s"
  by (simp add: takes_bytes_def)

lemma send_all_rest:
  assumes "takes_bytes c fd sent" and "length buf \<le> MAX_OBJECT_SIZE" and "n \<le> length buf"
  shows "\<exists>t. send_all c report fd buf (int (length buf)) (int n) s = Some (Ret (), t) \<and>
    sent t = sent s @ drop n buf"
  using assms(3)
proof (induction "length buf - n" arbitrary: n s rule: less_induct)
  case less
  show ?case
  proof (cases "n = length buf")
    case True
    then show ?thesis by (subst send_all.simps) simp
  next
    case False
    let ?d = "drop n buf"
    have d: "buf_bytes buf (int n) (int (length buf) - int n) = Ret ?d"
      using buf_bytes_part [of "int n" buf] less.prems assms(2) by simp
    have ne: "?d \<noteq> []" using False less.prems by simp
    obtain e s1 where w: "ps_write c fd ?d s = (e, s1)" by fastforce
    note e = takes_bytesD [OF assms(1) ne w]
    define m where "m = n + nat e"
    have m: "m \<le> length buf" "length buf - m < length buf - n" "int n + e = int m"
      using e(1,2) False less.prems by (simp_all add: m_def)
    obtain t where t: "send_all c report fd buf (int (length buf)) (int m) (print_out (report (int n + e)) s1) = Some (Ret (), t)"
      "sent t = sent (print_out (report (int n + e)) s1) @ drop m buf"
      using less.hyps [OF m(2,1)] by blast
    have "sent t = sent s @ ?d"
      unfolding t(2) takes_bytes_print [OF assms(1)] e(3) m_def
      by (metis append.assoc append_take_drop_id drop_drop add.commute)
    moreover have "send_all c report fd buf (int (length buf)) (int n) s = Some (Ret (), t)"
      using False d w e(1) t(1) m(3) by (subst send_all.simps) simp
    ultimately show ?thesis by blast
  qed
qed

text \<open>The whole request goes to the server, once and in order, whatever part of it each
  \<open>write\<close> takes; and so would the response go to the client.\<close>

theorem threaded_proxy_sends_all:
  assumes "takes_bytes c fd sent" and "length buf \<le> MAX_OBJECT_SIZE"
  shows "\<exists>t. send_all c report fd buf (int (length buf)) 0 s = Some (Ret (), t) \<and> sent t = sent s @ buf"
  using send_all_rest [OF assms, of 0] by simp

text \<open>A socket that takes three bytes at a time.\<close>

definition slow_sys :: "(unit, unit) psys" where
  "slow_sys =
     \<lparr>ps_getaddrinfo = (\<lambda>h p x s. ((0, [()]), s)), ps_gai_strerror = (\<lambda>e. []), ps_strerror = (\<lambda>e. []),
      ps_freeaddrinfo = (\<lambda>l s. ((), s)), ps_socket = (\<lambda>a s. (5, s)), ps_connect = (\<lambda>fd a s. (0, s)),
      ps_close = (\<lambda>fd s. (0, s)), ps_read = (\<lambda>fd n s. ((0, []), s)),
      ps_write = (\<lambda>fd d s. (int (min 3 (length d)), s\<lparr>w_err := w_err s @ take 3 d\<rparr>)),
      ps_getfl = (\<lambda>fd s. (0, s)), ps_setfl = (\<lambda>fd f s. (0, s)), ps_accept = (\<lambda>fd s. (4, s)), ps_time = (\<lambda>s. (0, s))\<rparr>"

theorem threaded_proxy_sends_all_witness:
  "\<exists>t. send_all slow_sys (\<lambda>_. []) 5 ''hello'' 5 0 \<lparr>w_errno = 0, w_out = [], w_err = []\<rparr> = Some (Ret (), t) \<and>
     w_err t = ''hello''"
proof -
  have "takes_bytes slow_sys 5 w_err"
    by (auto simp: takes_bytes_def slow_sys_def min_def Suc_le_eq)
  from threaded_proxy_sends_all [OF this, of "''hello''" "\<lambda>_. []" "\<lparr>w_errno = 0, w_out = [], w_err = []\<rparr>"]
  show ?thesis by simp
qed

end
