(* ===== verification/Proxy_System_Proofs.thy ===== *)
theory Proxy_System_Proofs
  imports Proxy_System Proxy_Threads_Props
begin

text \<open>
  The invariant of the whole threaded proxy: those of the two buffers and of the cache, and
  where each worker is in them.
\<close>

section \<open>The parts\<close>

definition fdq_ok :: "nat \<Rightarrow> int bb_sys \<Rightarrow> bool" where
  "fdq_ok m q \<longleftrightarrow> bs_inv (nat SBUFSIZE) q \<and> length (bs_threads q) = Suc m \<and> inserting (bs_threads q ! 0) \<and>
     (\<forall>i < m. removing (bs_threads q ! Suc i)) \<and>
     length (bs_out q) = cnt (\<lambda>p. carried p \<noteq> []) (bs_threads q)"

definition logq_ok :: "nat \<Rightarrow> nat option bb_sys \<Rightarrow> bool" where
  "logq_ok m q \<longleftrightarrow> bs_inv (nat LOGBUFSIZE) q \<and> length (bs_threads q) = Suc m \<and> removing (bs_threads q ! 0) \<and>
     (\<forall>i < m. inserting (bs_threads q ! Suc i))"

definition cache_ok :: "nat \<Rightarrow> int \<Rightarrow> cache_sys \<Rightarrow> bool" where
  "cache_ok m n q \<longleftrightarrow> lock_inv (cs_cache q) (cs_threads q) \<and> fill_ok (cache_slots n) (cs_cache q) (cs_threads q) \<and>
     c_n (cs_cache q) = n \<and> length (cs_threads q) = m"

lemma bs_step_role:
  assumes "bs_step i q = Some (Ret q')"
  shows "length (bs_threads q') = length (bs_threads q)"
    and "j \<noteq> i \<Longrightarrow> bs_threads q' ! j = bs_threads q ! j"
    and "inserting (bs_threads q ! j) \<Longrightarrow> inserting (bs_threads q' ! j)"
    and "removing (bs_threads q ! j) \<Longrightarrow> removing (bs_threads q' ! j)"
proof -
  obtain p b where i: "i < length (bs_threads q)" and st: "bb_step (bs_threads q ! i) (bs_buf q) = Some (Ret p, b)"
    and t: "bs_threads q' = (bs_threads q)[i := p]"
    by (rule bs_stepE [OF assms]) (use that in \<open>simp add: bs_observe_sel\<close>)
  show "length (bs_threads q') = length (bs_threads q)" by (simp add: t)
  show "j \<noteq> i \<Longrightarrow> bs_threads q' ! j = bs_threads q ! j" by (simp add: t)
  show "inserting (bs_threads q ! j) \<Longrightarrow> inserting (bs_threads q' ! j)"
    using bb_step_role(1) [OF st] i by (cases "j = i") (simp_all add: t)
  show "removing (bs_threads q ! j) \<Longrightarrow> removing (bs_threads q' ! j)"
    using bb_step_role(2) [OF st] i by (cases "j = i") (simp_all add: t)
qed

lemma fdq_ok_step: "fdq_ok m q \<Longrightarrow> bs_step i q = Some (Ret q') \<Longrightarrow> fdq_ok m q'"
  using bs_step_role [of i q q'] bs_step_inv [of "nat SBUFSIZE" q i q'] bs_step_taken [of i q q']
  by (simp add: fdq_ok_def)

lemma logq_ok_step: "logq_ok m q \<Longrightarrow> bs_step i q = Some (Ret q') \<Longrightarrow> logq_ok m q'"
  using bs_step_role [of i q q'] bs_step_inv [of "nat LOGBUFSIZE" q i q'] by (simp add: logq_ok_def)

lemma bs_enter_sel [simp]:
  "bs_threads (bs_enter i p q) = (bs_threads q)[i := p]" "bs_buf (bs_enter i p q) = bs_buf q"
  "bs_in (bs_enter i p q) = bs_in q" "bs_out (bs_enter i p q) = bs_out q"
  by (simp_all add: bs_enter_def)

text \<open>Each URL that was allocated is inserted into the buffer exactly once.\<close>

definition urls_ok :: "'w px_sys \<Rightarrow> bool" where
  "urls_ok s \<longleftrightarrow> (\<forall>x. inserts_of x (px_logq s) = of_bool (\<exists>a < length (px_urls s). x = Some a))"

lemma urls_ok_same: "urls_ok s \<Longrightarrow> px_logq t = px_logq s \<Longrightarrow> px_urls t = px_urls s \<Longrightarrow> urls_ok t"
  by (simp add: urls_ok_def)

lemma inserts_of_enter:
  assumes "i < length (bs_threads q)" and "bs_threads q ! i = Returned r"
  shows "inserts_of x (bs_enter i p q) = inserts_of x q + of_bool (pending p = [x])"
  using cnt_update [OF assms(1), of "\<lambda>p. pending p = [x]" p] assms(2) by (simp add: inserts_of_def split: if_splits)

lemma fdq_ok_accept:
  assumes "fdq_ok m q" and "bs_threads q ! 0 = Returned r"
  shows "fdq_ok m (bs_enter 0 (Ins0 fd) q)"
proof -
  have len: "0 < length (bs_threads q)" using assms(1) by (simp add: fdq_ok_def)
  have "bs_inv (nat SBUFSIZE) (bs_enter 0 (Ins0 fd) q)"
    unfolding bs_enter_def using assms len by (intro bs_inv_restart) (simp_all add: fdq_ok_def)
  moreover have "carried (bs_threads q ! 0) = []" using assms(1) by (simp add: fdq_ok_def)
  then have "cnt (\<lambda>p. carried p \<noteq> []) ((bs_threads q)[0 := Ins0 fd]) = cnt (\<lambda>p. carried p \<noteq> []) (bs_threads q)"
    using cnt_update [OF len, of "\<lambda>p. carried p \<noteq> []" "Ins0 fd"] by simp
  ultimately show ?thesis using assms(1) by (simp add: fdq_ok_def)
qed

lemma logq_ok_insert:
  assumes "logq_ok m q" and "i < m" and "bs_threads q ! Suc i = Returned r"
  shows "logq_ok m (bs_enter (Suc i) (Ins0 x) q)"
proof -
  have "bs_inv (nat LOGBUFSIZE) (bs_enter (Suc i) (Ins0 x) q)"
    unfolding bs_enter_def using assms by (intro bs_inv_restart) (simp_all add: logq_ok_def)
  with assms show ?thesis by (auto simp: logq_ok_def nth_list_update)
qed

lemma logq_ok_logged:
  assumes "logq_ok m q" and "bs_threads q ! 0 = Returned r"
  shows "logq_ok m (bs_enter 0 Rem0 q)"
proof -
  have "bs_inv (nat LOGBUFSIZE) (bs_enter 0 Rem0 q)"
    unfolding bs_enter_def using assms by (intro bs_inv_restart) (simp_all add: logq_ok_def)
  with assms show ?thesis by (simp add: logq_ok_def)
qed

lemma cache_slots_bounds:
  assumes "3 \<le> n"
  shows "0 < cache_slots n \<and> int (cache_slots n) < n"
proof -
  have "int (cache_slots n) = n div 3" using assms by (simp add: cache_slots_def zdiv_int)
  moreover have "0 < n div 3 \<and> n div 3 < n" using assms by presburger
  ultimately show ?thesis by simp
qed

lemma cache_ok_step:
  assumes "cache_ok m n q" and "3 \<le> n" and "cs_step i q = Some (Ret q')"
  shows "cache_ok m n q'"
proof (rule cs_stepD [OF assms(3)])
  fix p c
  assume i: "i < length (cs_threads q)" and st: "c_step (cs_threads q ! i) (cs_cache q) = Some (Ret p, c)"
    and q': "q' = q\<lparr>cs_cache := c, cs_threads := (cs_threads q)[i := p]\<rparr>"
  have lock: "lock_inv (cs_cache q) (cs_threads q)" and fill: "fill_ok (cache_slots n) (cs_cache q) (cs_threads q)"
    and n: "c_n (cs_cache q) = n" using assms(1) by (simp_all add: cache_ok_def)
  have "fill_ok (cache_slots n) c ((cs_threads q)[i := p])"
    using cache_slots_bounds [OF assms(2)] n by (intro fill_step [OF fill lock i _ _ st]) simp_all
  with c_step_lock_inv [OF lock i st] c_step_n [OF st] assms(1) show ?thesis by (simp add: cache_ok_def q')
qed

lemma cache_ok_enter:
  assumes "cache_ok m n q" and "i < m" and "cs_threads q ! i = CRet r" and "c_start p"
  shows "cache_ok m n (cs_enter i p q)"
proof -
  have i: "i < length (cs_threads q)" using assms(1,2) by (simp add: cache_ok_def)
  have p: "\<not> first_reader p \<and> \<not> last_reader p \<and> \<not> other_mutex p \<and> \<not> holding p \<and> \<not> writing p \<and> found_nothing p \<and>
      (\<forall>x k. p \<noteq> CIns3 x k)"
    using assms(4) by (cases p) auto
  have same: "cnt P ((cs_threads q)[i := p]) = cnt P (cs_threads q)" if "\<not> P p" "\<not> P (CRet r)" for P
    using cnt_update [OF i, of P p] that assms(3) by simp
  have "lock_inv (cs_cache q) ((cs_threads q)[i := p])"
    using assms(1) p by (simp add: cache_ok_def lock_inv_def same)
  moreover have "fill_ok (cache_slots n) (cs_cache q) ((cs_threads q)[i := p])"
    using assms(1,3) p by (intro fill_keep [of _ "cs_cache q"]) (simp_all add: cache_ok_def)
  ultimately show ?thesis using assms(1) by (simp add: cache_ok_def cs_enter_def)
qed

lemma cache_ok_miss: "cache_ok m n q \<Longrightarrow> i < m \<Longrightarrow> cs_threads q ! i = CRet r \<Longrightarrow> r = None"
  using nth_mem [of i "cs_threads q"] by (force simp: cache_ok_def fill_ok_def)

section \<open>The workers\<close>

fun worker_ok :: "px_pc \<Rightarrow> int bb_pc \<Rightarrow> nat option bb_pc \<Rightarrow> cpc \<Rightarrow> bool" where
  "worker_ok PxTake a b q \<longleftrightarrow> b = Returned None \<and> q = CRet None"
| "worker_ok (PxRead fd) a b q \<longleftrightarrow> a = Returned (Some fd) \<and> b = Returned None \<and> q = CRet None"
| "worker_ok (PxLog fd buf url) a b q \<longleftrightarrow> a = Returned (Some fd) \<and> q = CRet None"
| "worker_ok (PxFind fd buf url) a b q \<longleftrightarrow> a = Returned (Some fd) \<and> b = Returned None"
| "worker_ok (PxFetch buf url) a b q \<longleftrightarrow> (\<exists>fd. a = Returned (Some fd)) \<and> b = Returned None \<and> q = CRet None"
| "worker_ok (PxContact req url) a b q \<longleftrightarrow> (\<exists>fd. a = Returned (Some fd)) \<and> b = Returned None \<and> q = CRet None"
| "worker_ok PxInsert a b q \<longleftrightarrow> (\<exists>fd. a = Returned (Some fd)) \<and> b = Returned None"
| "worker_ok (PxSend fd k) a b q \<longleftrightarrow> False"

definition roles_ok :: "px_pc list \<Rightarrow> int bb_pc list \<Rightarrow> nat option bb_pc list \<Rightarrow> cpc list \<Rightarrow> bool" where
  "roles_ok ws ps bs cs \<longleftrightarrow> (\<forall>i < length ws. worker_ok (ws ! i) (ps ! Suc i) (bs ! Suc i) (cs ! i))"

definition px_ok :: "nat \<Rightarrow> int \<Rightarrow> 'w px_sys \<Rightarrow> bool" where
  "px_ok m n s \<longleftrightarrow> fdq_ok m (px_fdq s) \<and> logq_ok m (px_logq s) \<and> cache_ok m n (px_cache s) \<and>
     length (px_workers s) = m \<and> urls_ok s \<and>
     roles_ok (px_workers s) (bs_threads (px_fdq s)) (bs_threads (px_logq s)) (cs_threads (px_cache s))"

lemma px_ok_world [simp]: "px_ok m n (s\<lparr>px_world := w\<rparr>) = px_ok m n s" "px_ok m n (s\<lparr>px_log := l\<rparr>) = px_ok m n s"
  by (simp_all add: px_ok_def urls_ok_def)

text \<open>Only worker \<open>i\<close> has moved.\<close>

lemma roles_ok_move:
  assumes "roles_ok ws ps bs cs" and "length ws' = length ws"
    and "\<And>j. j < length ws \<Longrightarrow> j \<noteq> i \<Longrightarrow> ws' ! j = ws ! j \<and> ps' ! Suc j = ps ! Suc j \<and> bs' ! Suc j = bs ! Suc j \<and> cs' ! j = cs ! j"
    and "i < length ws \<Longrightarrow> worker_ok (ws' ! i) (ps' ! Suc i) (bs' ! Suc i) (cs' ! i)"
  shows "roles_ok ws' ps' bs' cs'"
  unfolding roles_ok_def
proof (intro allI impI)
  fix j
  assume "j < length ws'"
  with assms show "worker_ok (ws' ! j) (ps' ! Suc j) (bs' ! Suc j) (cs' ! j)"
    by (cases "j = i") (simp_all add: roles_ok_def)
qed

lemma px_ok_worker:
  assumes "px_ok m n s" and "i < m"
  shows "worker_ok (px_workers s ! i) (bs_threads (px_fdq s) ! Suc i) (bs_threads (px_logq s) ! Suc i) (cs_threads (px_cache s) ! i)"
  using assms by (simp add: px_ok_def roles_ok_def)

section \<open>Every step keeps the invariant\<close>

lemma px_on_fdq_ok:
  assumes ok: "px_ok m n s" and step: "px_on_fdq i s = Some (Ret t)"
    and take: "\<And>j. i = Suc j \<Longrightarrow> px_workers s ! j = PxTake"
  shows "px_ok m n t"
proof -
  obtain q where q: "bs_step i (px_fdq s) = Some (Ret q)" "t = s\<lparr>px_fdq := q\<rparr>"
    using step by (auto simp: px_on_fdq_def omap_Ret_iff)
  have "worker_ok (px_workers s ! j) (bs_threads q ! Suc j) (bs_threads (px_logq s) ! Suc j) (cs_threads (px_cache s) ! j)"
    if "j < m" for j
    using px_ok_worker [OF ok that] bs_step_role(2) [OF q(1), of "Suc j"] take [of j] by (cases "i = Suc j") auto
  with ok fdq_ok_step [OF _ q(1)] show ?thesis by (simp add: px_ok_def q(2) roles_ok_def urls_ok_def)
qed

lemma px_on_logq_ok:
  assumes ok: "px_ok m n s" and step: "px_on_logq i s = Some (Ret t)"
    and log: "\<And>j. i = Suc j \<Longrightarrow> \<exists>fd buf url. px_workers s ! j = PxLog fd buf url"
  shows "px_ok m n t"
proof -
  obtain q where q: "bs_step i (px_logq s) = Some (Ret q)" "t = s\<lparr>px_logq := q\<rparr>"
    using step by (auto simp: px_on_logq_def omap_Ret_iff)
  have "worker_ok (px_workers s ! j) (bs_threads (px_fdq s) ! Suc j) (bs_threads q ! Suc j) (cs_threads (px_cache s) ! j)"
    if "j < m" for j
    using px_ok_worker [OF ok that] bs_step_role(2) [OF q(1), of "Suc j"] log [of j] by (cases "i = Suc j") auto
  with ok logq_ok_step [OF _ q(1)] bs_step_inserts [OF q(1)] show ?thesis
    by (simp add: px_ok_def q(2) roles_ok_def urls_ok_def)
qed

lemma px_on_cache_ok:
  assumes ok: "px_ok m n s" and n: "3 \<le> n" and step: "px_on_cache i s = Some (Ret t)"
    and use: "(\<exists>fd buf url. px_workers s ! i = PxFind fd buf url) \<or> px_workers s ! i = PxInsert"
  shows "px_ok m n t"
proof -
  obtain q where q: "cs_step i (px_cache s) = Some (Ret q)" "t = s\<lparr>px_cache := q\<rparr>"
    using step by (auto simp: px_on_cache_def omap_Ret_iff)
  then have other: "cs_threads q ! j = cs_threads (px_cache s) ! j" if "j \<noteq> i" for j
    using that by (auto elim!: cs_stepD)
  have "worker_ok (px_workers s ! j) (bs_threads (px_fdq s) ! Suc j) (bs_threads (px_logq s) ! Suc j) (cs_threads q ! j)"
    if "j < m" for j
    using px_ok_worker [OF ok that] other [of j] use by (cases "j = i") auto
  with ok cache_ok_step [OF _ n q(1)] show ?thesis by (simp add: px_ok_def q(2) roles_ok_def urls_ok_def)
qed

lemma px_main_ok:
  assumes ok: "px_ok m n s" and step: "px_main c listenfd s = Some (Ret t)"
  shows "px_ok m n t"
proof (cases "\<exists>r. bs_threads (px_fdq s) ! 0 = Returned r")
  case True
  then obtain r fd w where r: "bs_threads (px_fdq s) ! 0 = Returned r"
    and t: "t = s\<lparr>px_world := w, px_fdq := bs_enter 0 (Ins0 fd) (px_fdq s)\<rparr>"
    using step by (auto simp: px_main_def split: prod.splits)
  with ok fdq_ok_accept [OF _ r, of m fd] show ?thesis by (simp add: px_ok_def roles_ok_def urls_ok_def)
next
  case False
  then have "px_on_fdq 0 s = Some (Ret t)"
    using step by (cases "bs_threads (px_fdq s) ! 0") (auto simp: px_main_def)
  with ok show ?thesis by (rule px_on_fdq_ok) simp
qed

lemma px_loggerE:
  assumes "px_logger c s = Some (Ret t)"
  obtains (queue) "px_on_logq 0 s = Some (Ret t)"
  | (entry) a url l tm w where "bs_threads (px_logq s) ! 0 = Returned (Some (Some a))" and "px_url a s = Some url"
      and "px_log s = Some l" and "t = s\<lparr>px_world := w, px_log := Some (l @ log_line tm url), px_freed := px_freed s @ [a],
        px_logq := bs_enter 0 Rem0 (px_logq s)\<rparr>"
proof (cases "\<exists>r. bs_threads (px_logq s) ! 0 = Returned r")
  case True
  then obtain r where r: "bs_threads (px_logq s) ! 0 = Returned r" by blast
  obtain tm w where tm: "ps_time c (px_world s) = (tm, w)" by fastforce
  from assms r tm obtain a url l where "r = Some (Some a)" "px_url a s = Some url" "px_log s = Some l"
    by (auto simp: px_logger_def split: option.splits)
  with assms r tm have "bs_threads (px_logq s) ! 0 = Returned (Some (Some a)) \<and> px_url a s = Some url \<and> px_log s = Some l \<and>
      t = s\<lparr>px_world := w, px_log := Some (l @ log_line tm url), px_freed := px_freed s @ [a],
        px_logq := bs_enter 0 Rem0 (px_logq s)\<rparr>"
    by (simp add: px_logger_def)
  then show thesis by (elim conjE) (rule entry)
next
  case False
  with assms queue show thesis by (cases "bs_threads (px_logq s) ! 0") (auto simp: px_logger_def)
qed

lemma px_logger_ok:
  assumes ok: "px_ok m n s" and step: "px_logger c s = Some (Ret t)"
  shows "px_ok m n t"
  using step
proof (cases rule: px_loggerE)
  case queue
  with ok show ?thesis by (rule px_on_logq_ok) simp
next
  case (entry a url l tm w)
  have "0 < length (bs_threads (px_logq s))" using ok by (simp add: px_ok_def logq_ok_def)
  note inserts_of_enter [OF this entry(1), of _ Rem0]
  with ok logq_ok_logged [OF _ entry(1), of m] show ?thesis
    unfolding entry(4) by (simp add: px_ok_def roles_ok_def urls_ok_def)
qed

text \<open>What a worker can do.\<close>

lemma px_ioE:
  assumes "px_io p k s = Some (Ret t)"
  obtains a w where "p (px_world s) = Some (Ret a, w)" and "k a (s\<lparr>px_world := w\<rparr>) = Ret t"
  using assms by (auto simp: px_io_def obind_Ret_iff)

lemma px_workerE:
  assumes "px_worker c i s = Some (Ret t)"
  obtains (taking) "px_workers s ! i = PxTake" and "px_on_fdq (Suc i) s = Some (Ret t)"
  | (took) fd where "px_workers s ! i = PxTake" and "bs_threads (px_fdq s) ! Suc i = Returned (Some fd)"
      and "t = px_goto i (PxRead fd) s"
  | (request) fd buf url v where "px_workers s ! i = PxRead fd"
      and "t = px_goto i (PxLog fd buf (length (px_urls s))) (s\<lparr>px_world := v, px_urls := px_urls s @ [url],
        px_logq := bs_enter (Suc i) (Ins0 (Some (length (px_urls s)))) (px_logq s)\<rparr>)"
  | (logging) fd buf a where "px_workers s ! i = PxLog fd buf a" and "px_on_logq (Suc i) s = Some (Ret t)"
  | (logged) fd buf a r where "px_workers s ! i = PxLog fd buf a" and "bs_threads (px_logq s) ! Suc i = Returned r"
      and "t = px_goto i (PxFind fd buf a) (s\<lparr>px_cache := cs_enter i (CFind0 (px_urls s ! a)) (px_cache s)\<rparr>)"
  | (caching) "(\<exists>fd buf url. px_workers s ! i = PxFind fd buf url) \<or> px_workers s ! i = PxInsert"
      and "px_on_cache i s = Some (Ret t)"
  | (searched) fd buf a r where "px_workers s ! i = PxFind fd buf a" and "cs_threads (px_cache s) ! i = CRet r"
      and "t = px_goto i (case r of None \<Rightarrow> PxFetch buf a | Some k \<Rightarrow> PxSend fd k) s"
  | (parsed) buf a req v where "px_workers s ! i = PxFetch buf a"
      and "t = px_goto i (PxContact req a) (s\<lparr>px_world := v\<rparr>)"
  | (fetched) req a x v where "px_workers s ! i = PxContact req a"
      and "t = px_goto i PxInsert (s\<lparr>px_world := v, px_cache := cs_enter i (CIns0 x) (px_cache s)\<rparr>)"
  | (sent) fd k where "px_workers s ! i = PxSend fd k"
proof (cases "px_workers s ! i")
  case PxTake
  show thesis
  proof (cases "\<exists>r. bs_threads (px_fdq s) ! Suc i = Returned r")
    case True
    with assms PxTake took show thesis by (auto simp: px_worker_def)
  next
    case False
    with assms PxTake taking show thesis by (cases "bs_threads (px_fdq s) ! Suc i") (auto simp: px_worker_def)
  qed
next
  case (PxRead fd)
  with assms request show thesis by (auto simp: px_worker_def Let_def elim!: px_ioE split: option.splits)
next
  case (PxLog fd buf a)
  show thesis
  proof (cases "\<exists>r. bs_threads (px_logq s) ! Suc i = Returned r")
    case True
    with assms PxLog logged show thesis by (auto simp: px_worker_def)
  next
    case False
    with assms PxLog logging show thesis by (cases "bs_threads (px_logq s) ! Suc i") (auto simp: px_worker_def)
  qed
next
  case (PxFind fd buf a)
  show thesis
  proof (cases "\<exists>r. cs_threads (px_cache s) ! i = CRet r")
    case True
    with assms PxFind searched show thesis by (auto simp: px_worker_def)
  next
    case False
    with assms PxFind caching show thesis by (cases "cs_threads (px_cache s) ! i") (auto simp: px_worker_def split: if_splits)
  qed
next
  case (PxFetch buf a)
  with assms parsed show thesis by (auto simp: px_worker_def elim!: px_ioE)
next
  case (PxContact req a)
  with assms fetched show thesis by (auto simp: px_worker_def elim!: px_ioE)
next
  case PxInsert
  with assms caching show thesis by (cases "cs_threads (px_cache s) ! i") (auto simp: px_worker_def)
next
  case (PxSend fd k)
  then show thesis by (rule sent)
qed

text \<open>Worker \<open>i\<close> moves on.\<close>

lemma px_goto_ok:
  assumes ok: "px_ok m n s" and i: "i < m"
    and parts: "fdq_ok m (px_fdq s')" "logq_ok m (px_logq s')" "cache_ok m n (px_cache s')" "px_workers s' = px_workers s" "urls_ok s'"
    and other: "\<And>j. j \<noteq> i \<Longrightarrow> bs_threads (px_fdq s') ! Suc j = bs_threads (px_fdq s) ! Suc j \<and>
        bs_threads (px_logq s') ! Suc j = bs_threads (px_logq s) ! Suc j \<and> cs_threads (px_cache s') ! j = cs_threads (px_cache s) ! j"
    and self: "worker_ok p (bs_threads (px_fdq s') ! Suc i) (bs_threads (px_logq s') ! Suc i) (cs_threads (px_cache s') ! i)"
  shows "px_ok m n (px_goto i p s')"
proof -
  have roles: "roles_ok (px_workers s) (bs_threads (px_fdq s)) (bs_threads (px_logq s)) (cs_threads (px_cache s))"
    and m: "length (px_workers s) = m" using ok by (simp_all add: px_ok_def)
  have "roles_ok ((px_workers s)[i := p]) (bs_threads (px_fdq s')) (bs_threads (px_logq s')) (cs_threads (px_cache s'))"
    by (rule roles_ok_move [OF roles, of _ i]) (use i m other self in auto)
  with parts m show ?thesis by (simp add: px_ok_def px_goto_def urls_ok_def)
qed

lemma px_worker_ok:
  assumes ok: "px_ok m n s" and n: "3 \<le> n" and i: "i < m" and step: "px_worker c i s = Some (Ret t)"
  shows "px_ok m n t"
proof -
  note w = px_ok_worker [OF ok i] and goto = px_goto_ok [OF ok i]
  have parts: "fdq_ok m (px_fdq s)" "logq_ok m (px_logq s)" "cache_ok m n (px_cache s)" "urls_ok s" using ok by (simp_all add: px_ok_def)
  then have len: "Suc i < length (bs_threads (px_logq s))" "i < length (cs_threads (px_cache s))"
    using i by (simp_all add: logq_ok_def cache_ok_def)
  from step show ?thesis
  proof (cases rule: px_workerE)
    case taking
    show ?thesis by (rule px_on_fdq_ok [OF ok taking(2)]) (use taking(1) in simp)
  next
    case (took fd)
    with w parts show ?thesis unfolding took(3) by (intro goto) simp_all
  next
    case (request fd buf url v)
    let ?x = "Some (length (px_urls s))"
    have idle: "bs_threads (px_logq s) ! Suc i = Returned None" using w request(1) by simp
    then have "urls_ok (s\<lparr>px_world := v, px_urls := px_urls s @ [url], px_logq := bs_enter (Suc i) (Ins0 ?x) (px_logq s)\<rparr>)"
      using parts(4) by (auto simp: urls_ok_def inserts_of_enter [OF len(1) idle] of_bool_def less_Suc_eq)
    moreover have "logq_ok m (bs_enter (Suc i) (Ins0 ?x) (px_logq s))"
      by (rule logq_ok_insert [OF parts(2) i idle])
    ultimately show ?thesis
      using parts w request(1) len unfolding request(2) by (intro goto) simp_all
  next
    case (logging fd buf a)
    show ?thesis by (rule px_on_logq_ok [OF ok logging(2)]) (use logging(1) in simp)
  next
    case (logged fd buf a r)
    have "inserting (bs_threads (px_logq s) ! Suc i)" using parts(2) i by (simp add: logq_ok_def)
    with logged(2) have "r = None" by (cases r) simp_all
    moreover have "cache_ok m n (cs_enter i (CFind0 (px_urls s ! a)) (px_cache s))"
      by (rule cache_ok_enter [OF parts(3) i]) (use w logged(1) in simp_all)
    ultimately show ?thesis
      using parts w logged(1,2) unfolding logged(3) by (intro goto) (simp_all add: cs_enter_def urls_ok_def)
  next
    case caching
    with px_on_cache_ok [OF ok n] show ?thesis by blast
  next
    case (searched fd buf a r)
    with cache_ok_miss [OF parts(3) i] have "r = None" by blast
    with w parts searched(1,2) show ?thesis unfolding searched(3) by (intro goto) simp_all
  next
    case (parsed buf a req v)
    with w parts show ?thesis unfolding parsed(2) by (intro goto) (simp_all add: urls_ok_def)
  next
    case (fetched req a x v)
    have "cache_ok m n (cs_enter i (CIns0 x) (px_cache s))"
      by (rule cache_ok_enter [OF parts(3) i]) (use w fetched(1) in simp_all)
    with parts w fetched(1) len show ?thesis unfolding fetched(2) by (intro goto) (simp_all add: cs_enter_def urls_ok_def)
  next
    case (sent fd k)
    with w show ?thesis by simp
  qed
qed

lemma px_step_ok:
  assumes "px_ok m n s" and "3 \<le> n" and "px_step c listenfd l s = Some (Ret t)"
  shows "px_ok m n t"
proof (cases l)
  case (PxWorker i)
  with assms(3) have "i < length (px_workers s)" "px_worker c i s = Some (Ret t)" by (auto split: if_splits)
  with assms(1) show ?thesis by (intro px_worker_ok [OF assms(1,2)]) (simp_all add: px_ok_def)
qed (use assms px_main_ok px_logger_ok in auto)

lemma px_init_ok:
  assumes "3 \<le> n"
  shows "px_ok m n (px_init m n w logfile)"
proof -
  have "cnt P (replicate m (CRet None)) = 0" if "\<not> P (CRet None)" for P
    using that by (intro cnt_none) auto
  then have "cache_ok m n (cs_init n (replicate m (CRet None)))"
    using cache_slots_bounds [OF assms]
    by (simp add: cache_ok_def cs_init_def lock_inv_def lock_ok_def fill_ok_def cache_init_def)
  moreover have "fdq_ok m (px_fdq (px_init m n w logfile))"
    unfolding fdq_ok_def px_init_def psbuf_init_def px_sys.simps
    by (intro conjI bs_inv_idle) (auto simp: cnt_def)
  moreover have "logq_ok m (px_logq (px_init m n w logfile))"
    unfolding logq_ok_def px_init_def px_sys.simps
    by (intro conjI bs_inv_idle) auto
  moreover have "urls_ok (px_init m n w logfile)"
    by (auto simp: urls_ok_def px_init_def inserts_of_def cnt_def)
  ultimately show ?thesis by (simp add: px_ok_def roles_ok_def) (simp add: px_init_def cs_init_def)
qed

lemma px_reach_ok:
  assumes "px_reach c listenfd (px_init m n w logfile) s" and "3 \<le> n"
  shows "px_ok m n s"
  using assms(1) by (induction rule: px_reach.induct) (auto intro: px_init_ok px_step_ok assms(2))

end
