(* ===== verification/Proxy_System_Props.thy ===== *)
theory Proxy_System_Props
  imports Proxy_System_Proofs "HOL-Library.Code_Target_Nat"
begin

text \<open>
  The properties of the whole threaded proxy: no client is ever answered, so that no worker
  serves more than one connection; the log is what the workers logged, in their order; and a
  worker may read its URL after the logging thread has freed it.
\<close>

interpretation threaded_proxy: interleaving "px_step c listenfd" "px_reach c listenfd s0" for c listenfd s0
  by unfold_locales (rule px_reach_step)

section \<open>The log\<close>

lemma carried_one: "carried p = [] \<or> (\<exists>x. carried p = [x])"
  by (cases p rule: carried.cases) simp_all

text \<open>What thread 0 has taken, when the others only insert.\<close>

lemma bs_step_carried:
  assumes "bs_step i q = Some (Ret q')" and "i \<noteq> 0 \<Longrightarrow> inserting (bs_threads q ! i)"
  obtains d where "bs_out q' = bs_out q @ d" and "carried (bs_threads q' ! 0) = carried (bs_threads q ! 0) @ d"
proof -
  obtain p b where i: "i < length (bs_threads q)" and st: "bb_step (bs_threads q ! i) (bs_buf q) = Some (Ret p, b)"
    and q': "q' = bs_observe (bs_threads q ! i) p (q\<lparr>bs_buf := b, bs_threads := (bs_threads q)[i := p]\<rparr>)"
    by (rule bs_stepE [OF assms(1)])
  obtain d where d: "outs_after (bs_threads q ! i) p (bs_out q) = bs_out q @ d" "carried p = carried (bs_threads q ! i) @ d"
    by (rule bb_step_carried [OF st])
  show thesis
  proof (cases "i = 0")
    case True
    with d i that show thesis by (simp add: q' bs_observe_sel)
  next
    case False
    with assms(2) bb_step_role(1) [OF st] d(2) have "d = []" by simp
    with d False that show thesis by (simp add: q' bs_observe_sel)
  qed
qed

definition log_ok :: "string \<Rightarrow> 'w px_sys \<Rightarrow> bool" where
  "log_ok l s \<longleftrightarrow>
     list_all (\<lambda>a. a < length (px_urls s)) (px_freed s) \<and>
     (\<exists>tms. length tms = length (px_freed s) \<and>
        px_log s = Some (l @ concat (map2 log_line tms (map ((!) (px_urls s)) (px_freed s))))) \<and>
     bs_out (px_logq s) = map Some (px_freed s) @ carried (bs_threads (px_logq s) ! 0)"

lemma log_ok_same:
  assumes "log_ok l s" and "px_log t = px_log s" and "bs_out (px_logq t) = bs_out (px_logq s)"
    and "bs_threads (px_logq t) ! 0 = bs_threads (px_logq s) ! 0"
    and "px_freed t = px_freed s" and urls: "px_urls t = px_urls s @ us"
  shows "log_ok l t"
proof -
  have "list_all (\<lambda>a. a < length (px_urls s)) (px_freed s)" using assms(1) by (simp add: log_ok_def)
  then have same: "map ((!) (px_urls t)) (px_freed s) = map ((!) (px_urls s)) (px_freed s)"
    and "list_all (\<lambda>a. a < length (px_urls t)) (px_freed s)"
    by (auto simp: urls nth_append list_all_iff)
  with assms(1-5) show ?thesis unfolding log_ok_def assms(2-5) same by blast
qed

lemma log_ok_logq:
  assumes log: "log_ok l s" and ok: "px_ok m n s" and step: "px_on_logq i s = Some (Ret t)" and i: "i \<le> m"
  shows "log_ok l t"
proof -
  obtain q where q: "bs_step i (px_logq s) = Some (Ret q)" "t = s\<lparr>px_logq := q\<rparr>"
    using step by (auto simp: px_on_logq_def omap_Ret_iff)
  have "inserting (bs_threads (px_logq s) ! i)" if "i \<noteq> 0"
    using that i ok by (cases i) (auto simp: px_ok_def logq_ok_def)
  then obtain d where "bs_out q = bs_out (px_logq s) @ d" "carried (bs_threads q ! 0) = carried (bs_threads (px_logq s) ! 0) @ d"
    by (rule bs_step_carried [OF q(1)])
  with log show ?thesis by (auto simp: log_ok_def q(2))
qed

lemma log_ok_logger:
  assumes log: "log_ok l s" and ok: "px_ok m n s" and step: "px_logger c s = Some (Ret t)"
  shows "log_ok l t"
  using step
proof (cases rule: px_loggerE)
  case queue
  with log_ok_logq [OF log ok queue] show ?thesis by simp
next
  case (entry a url l' tm w)
  obtain tms where tms: "length tms = length (px_freed s)"
    "px_log s = Some (l @ concat (map2 log_line tms (map ((!) (px_urls s)) (px_freed s))))"
    using log by (auto simp: log_ok_def)
  have url: "a < length (px_urls s)" "px_urls s ! a = url" using entry(2) by (simp_all add: px_url_def split: if_splits)
  have "px_log t = Some (l @ concat (map2 log_line (tms @ [tm]) (map ((!) (px_urls s)) (px_freed s @ [a]))))"
    using tms entry(3,4) url by simp
  moreover have "length (tms @ [tm]) = length (px_freed t)" using tms entry(4) by simp
  moreover have "0 < length (bs_threads (px_logq s))" using ok by (simp add: px_ok_def logq_ok_def)
  then have "bs_out (px_logq t) = map Some (px_freed t) @ carried (bs_threads (px_logq t) ! 0)"
    using log entry(1,4) by (simp add: log_ok_def)
  ultimately show ?thesis using log url(1) unfolding log_ok_def entry(4) by (intro conjI exI [of _ "tms @ [tm]"]) simp_all
qed

lemma log_ok_worker:
  assumes log: "log_ok l s" and ok: "px_ok m n s" and i: "i < m" and step: "px_worker c i s = Some (Ret t)"
  shows "log_ok l t"
  using step
proof (cases rule: px_workerE)
  case taking
  with log show ?thesis by (auto simp: px_on_fdq_def omap_Ret_iff intro: log_ok_same [where us = "[]"])
next
  case (logging fd buf a)
  with log_ok_logq [OF log ok logging(2)] i show ?thesis by simp
next
  case caching
  with log show ?thesis by (auto simp: px_on_cache_def omap_Ret_iff intro: log_ok_same [where us = "[]"])
next
  case (sent fd k)
  with px_ok_worker [OF ok i] show ?thesis by simp
qed (rule log_ok_same [OF log]; simp add: px_goto_def)+

text \<open>The logging thread has what was allocated, and what it has not freed yet.\<close>

lemma logger_has_url:
  assumes log: "log_ok l s" and ok: "px_ok m n s" and r: "bs_threads (px_logq s) ! 0 = Returned r"
  obtains a url where "r = Some (Some a)" and "px_url a s = Some url"
proof -
  let ?q = "px_logq s"
  have q: "logq_ok m ?q" and urls: "urls_ok s" using ok by (simp_all add: px_ok_def)
  have "removing (Returned r)" using q by (simp add: logq_ok_def flip: r)
  then obtain y where y: "r = Some y" by (cases r) simp_all
  have out: "bs_out ?q = map Some (px_freed s) @ [y]" using log r y by (simp add: log_ok_def)
  have pre: "bs_out ?q = take (length (bs_out ?q)) (bs_in ?q)" using q by (simp add: logq_ok_def bs_inv_def ring_ok_def)
  have "bs_in ?q = take (length (bs_out ?q)) (bs_in ?q) @ drop (length (bs_out ?q)) (bs_in ?q)" by simp
  then obtain rest where "bs_in ?q = bs_out ?q @ rest" unfolding pre [symmetric] by blast
  then have cnt: "count_list (map Some (px_freed s)) y + 1 \<le> inserts_of y ?q" by (simp add: inserts_of_def out)
  also have "inserts_of y ?q = of_bool (\<exists>a < length (px_urls s). y = Some a)" using urls by (simp add: urls_ok_def)
  finally obtain a where "a < length (px_urls s)" "y = Some a" "count_list (map Some (px_freed s)) y = 0"
    by (auto split: if_splits simp: of_bool_def)
  then have "a \<notin> set (px_freed s)" by (auto simp: count_list_0_iff)
  with \<open>a < _\<close> have "px_url a s = Some (px_urls s ! a)" by (simp add: px_url_def)
  with that y \<open>y = Some a\<close> show thesis by blast
qed

lemma px_reach_log:
  assumes "px_reach c listenfd (px_init m n w (Some l)) s" and "3 \<le> n"
  shows "log_ok l s"
  using assms(1)
proof (induction rule: px_reach.induct)
  case px_reach_init
  then show ?case by (simp add: log_ok_def px_init_def)
next
  case (px_reach_step s k t)
  note ok = px_reach_ok [OF px_reach_step.hyps(1) assms(2)]
  show ?case
  proof (cases k)
    case PxMain
    with px_reach_step show ?thesis
      by (cases "bs_threads (px_fdq s) ! 0")
        (auto simp: px_main_def px_on_fdq_def omap_Ret_iff split: prod.splits intro: log_ok_same [where us = "[]"])
  next
    case PxLogger
    with px_reach_step log_ok_logger [OF _ ok] show ?thesis by simp
  next
    case (PxWorker i)
    with px_reach_step.hyps(2) have "i < m" "px_worker c i s = Some (Ret t)"
      using ok by (auto simp: px_ok_def split: if_splits)
    with log_ok_worker [OF px_reach_step.IH ok] show ?thesis by blast
  qed
qed

section \<open>Properties\<close>

text \<open>The descriptors that \<open>main\<close> has accepted: those stored, and the one it waits to store.\<close>

definition px_accepted :: "'w px_sys \<Rightarrow> int list" where
  "px_accepted s = bs_in (px_fdq s) @ pending (bs_threads (px_fdq s) ! 0)"

lemma bs_step_pending:
  assumes "bs_step i q = Some (Ret q')" and "i \<noteq> 0 \<Longrightarrow> removing (bs_threads q ! i)"
  shows "bs_in q' @ pending (bs_threads q' ! 0) = bs_in q @ pending (bs_threads q ! 0)"
proof -
  obtain p b where i: "i < length (bs_threads q)" and st: "bb_step (bs_threads q ! i) (bs_buf q) = Some (Ret p, b)"
    and q': "q' = bs_observe (bs_threads q ! i) p (q\<lparr>bs_buf := b, bs_threads := (bs_threads q)[i := p]\<rparr>)"
    by (rule bs_stepE [OF assms(1)])
  show ?thesis
  proof (cases "i = 0")
    case True
    have "ins_after (bs_threads q ! 0) p (bs_in q) @ pending p = bs_in q @ pending (bs_threads q ! 0)"
      using st True by (cases "bs_threads q ! 0") (auto simp: ins_after_def split: outcome.splits)
    with True i show ?thesis by (simp add: q' bs_observe_sel)
  next
    case False
    with assms(2) have "ins_after (bs_threads q ! i) p (bs_in q) = bs_in q"
      by (cases "bs_threads q ! i") (simp_all add: ins_after_def)
    with False show ?thesis by (simp add: q' bs_observe_sel)
  qed
qed

text \<open>Only \<open>main\<close>'s \<open>accept\<close> adds to them; and no step lets a worker that has taken a descriptor
  take another.\<close>

lemma px_on_fdq_taken:
  assumes ok: "px_ok m n s" and i: "i \<le> m" and step: "px_on_fdq i s = Some (Ret t)"
  shows "px_accepted t = px_accepted s"
    and "bs_threads (px_fdq s) ! Suc j = Returned r \<Longrightarrow> bs_threads (px_fdq t) ! Suc j = Returned r"
proof -
  obtain q where q: "bs_step i (px_fdq s) = Some (Ret q)" and t: "t = s\<lparr>px_fdq := q\<rparr>"
    using step by (auto simp: px_on_fdq_def omap_Ret_iff)
  have "removing (bs_threads (px_fdq s) ! i)" if "i \<noteq> 0"
    using ok i that by (cases i) (simp_all add: px_ok_def fdq_ok_def)
  with bs_step_pending [OF q] show "px_accepted t = px_accepted s" by (simp add: px_accepted_def t)
  assume r: "bs_threads (px_fdq s) ! Suc j = Returned r"
  then have "i \<noteq> Suc j" using bs_stepE [OF q] by force
  with bs_step_role(2) [OF q, of "Suc j"] r show "bs_threads (px_fdq t) ! Suc j = Returned r" by (simp add: t)
qed

lemma px_step_taken:
  assumes ok: "px_ok m n s" and step: "px_step c listenfd l s = Some (Ret t)"
  shows "px_accepted t = px_accepted s @ (if l = PxMain \<and> (\<exists>r. bs_threads (px_fdq s) ! 0 = Returned r)
      then [fst (ps_accept c listenfd (px_world s))] else [])" (is ?acc)
    and "bs_threads (px_fdq s) ! Suc j = Returned r \<Longrightarrow> bs_threads (px_fdq t) ! Suc j = Returned r"
proof -
  have len: "0 < length (bs_threads (px_fdq s))" using ok by (simp add: px_ok_def fdq_ok_def)
  note fdq = px_on_fdq_taken [OF ok]
  have "?acc \<and> (bs_threads (px_fdq s) ! Suc j = Returned r \<longrightarrow> bs_threads (px_fdq t) ! Suc j = Returned r)"
  proof (cases l)
    case PxMain
    with step have step: "px_main c listenfd s = Some (Ret t)" by simp
    show ?thesis
    proof (cases "\<exists>r. bs_threads (px_fdq s) ! 0 = Returned r")
      case True
      moreover then obtain fd w where "ps_accept c listenfd (px_world s) = (fd, w)"
        and "t = s\<lparr>px_world := w, px_fdq := bs_enter 0 (Ins0 fd) (px_fdq s)\<rparr>"
        using step by (auto simp: px_main_def split: prod.splits)
      ultimately show ?thesis using PxMain len by (auto simp: px_accepted_def)
    next
      case False
      then have "px_on_fdq 0 s = Some (Ret t)"
        using step by (cases "bs_threads (px_fdq s) ! 0") (auto simp: px_main_def)
      with False fdq [of 0 t] show ?thesis by auto
    qed
  next
    case PxLogger
    with step have "px_logger c s = Some (Ret t)" by simp
    then have "px_fdq t = px_fdq s" by (cases rule: px_loggerE) (auto simp: px_on_logq_def omap_Ret_iff)
    with PxLogger show ?thesis by (simp add: px_accepted_def)
  next
    case (PxWorker i)
    with step ok have i: "i < m" and step: "px_worker c i s = Some (Ret t)"
      by (auto simp: px_ok_def split: if_splits)
    from step show ?thesis
    proof (cases rule: px_workerE)
      case taking
      with fdq [of "Suc i" t] i PxWorker show ?thesis by auto
    next
      case sent
      with px_ok_worker [OF ok i] show ?thesis by simp
    qed (use PxWorker in \<open>auto simp: px_accepted_def px_goto_def px_on_logq_def px_on_cache_def omap_Ret_iff\<close>)
  qed
  then show ?acc and "bs_threads (px_fdq s) ! Suc j = Returned r \<Longrightarrow> bs_threads (px_fdq t) ! Suc j = Returned r"
    by blast+
qed

lemma px_reach_taken:
  assumes "px_reach c listenfd s t" and "px_ok m n s" and "3 \<le> n"
    and "bs_threads (px_fdq s) ! Suc i = Returned r"
  shows "px_ok m n t \<and> bs_threads (px_fdq t) ! Suc i = Returned r"
  using assms(1)
proof (induction rule: px_reach.induct)
  case px_reach_init
  then show ?case using assms(2,4) ..
next
  case (px_reach_step s l t)
  then show ?case using px_step_ok [OF _ assms(3)] px_step_taken(2) by blast
qed

text \<open>C25. Nobody is answered: whatever clients and servers send and however the threads of the whole
  proxy interleave, no worker ever gets to send a response. A worker that has taken a
  connection never takes another, and with \<open>m\<close> workers \<open>main\<close> accepts at most \<open>m + 33\<close>
  connections: those the workers took, the 32 that fit into the buffer and the one that it then
  waits to store.\<close>

theorem proxy_answers_nobody:
  assumes "px_reach c listenfd (px_init m n w logfile) s" and "3 \<le> n"
  shows "(\<forall>i < m. \<forall>fd k. px_workers s ! i \<noteq> PxSend fd k) \<and>
    (\<forall>i fd t. bs_threads (px_fdq s) ! Suc i = Returned (Some fd) \<and> px_reach c listenfd s t \<longrightarrow>
       bs_threads (px_fdq t) ! Suc i = Returned (Some fd)) \<and>
    length (px_accepted s) \<le> m + 33"
proof (intro conjI allI impI)
  note ok = px_reach_ok [OF assms]
  show "px_workers s ! i \<noteq> PxSend fd k" if "i < m" for i fd k
    using px_ok_worker [OF ok that] by auto
  show "bs_threads (px_fdq t) ! Suc i = Returned (Some fd)"
    if "bs_threads (px_fdq s) ! Suc i = Returned (Some fd) \<and> px_reach c listenfd s t" for i fd t
    using px_reach_taken [OF _ ok assms(2)] that by blast
  let ?q = "px_fdq s"
  have q: "fdq_ok m ?q" using ok by (simp add: px_ok_def)
  then obtain p ps where ps: "bs_threads ?q = p # ps" "length ps = m" "inserting p"
    by (cases "bs_threads ?q") (auto simp: fdq_ok_def)
  then have "cnt (\<lambda>p. carried p \<noteq> []) (bs_threads ?q) \<le> m"
    using length_filter_le [of "\<lambda>p. carried p \<noteq> []" ps] by (simp add: cnt_def)
  then have out: "length (bs_out ?q) \<le> m" using q by (simp add: fdq_ok_def)
  have "bs_inv (nat SBUFSIZE) ?q" using q by (simp only: fdq_ok_def)
  then have "counts_ok (nat SBUFSIZE) (bs_buf ?q) (bs_threads ?q) (length (bs_in ?q)) (length (bs_out ?q))"
    by (simp only: bs_inv_def)
  then have "length (bs_in ?q) - length (bs_out ?q) \<le> nat SBUFSIZE"
    by (rule order_trans [OF le_add1 counts_bound])
  moreover have "length (pending p) \<le> 1" by (cases p rule: pending.cases) simp_all
  ultimately show "length (px_accepted s) \<le> m + 33" using out ps(1) by (simp add: px_accepted_def)
qed

text \<open>Two workers and a small cache; a client with a complete request.\<close>

definition px_demo_world :: world where
  "px_demo_world = \<lparr>w_errno = 0, w_out = [], w_err = []\<rparr>"

definition px_demo_sys :: "(unit, unit) psys" where
  "px_demo_sys =
     \<lparr>ps_getaddrinfo = (\<lambda>h p x s. ((0, [()]), s)), ps_gai_strerror = (\<lambda>e. []), ps_strerror = (\<lambda>e. []),
      ps_freeaddrinfo = (\<lambda>l s. ((), s)), ps_socket = (\<lambda>a s. (5, s)), ps_connect = (\<lambda>fd a s. (0, s)),
      ps_close = (\<lambda>fd s. (0, s)),
      ps_read = (\<lambda>fd n s. if fd = 4 then ((20, ''GET http://a/b c'' @ CRLF @ CRLF), s)
          else if w_errno s = 0 then ((5, ''hello''), s\<lparr>w_errno := 1\<rparr>) else ((0, []), s)),
      ps_write = (\<lambda>fd d s. (int (length d), s)), ps_getfl = (\<lambda>fd s. (0, s)), ps_setfl = (\<lambda>fd f s. (0, s)),
      ps_accept = (\<lambda>fd s. (4, s)), ps_time = (\<lambda>s. (9, s))\<rparr>"

text \<open>The bound is reached, here without workers.\<close>

lemma main_accepts_33:
  "map_option (\<lambda>s. length (px_accepted s))
     (schedule (px_step px_demo_sys 3) (replicate (32 * 7 + 1) PxMain) (px_init 0 6 px_demo_world None)) = Some 33"
  by code_simp

text \<open>\<open>main\<close> accepts, a worker serves up to the insertion into the cache, the URL is logged.\<close>

definition px_demo_labels :: "px_label list" where
  "px_demo_labels = replicate 7 PxMain @ replicate 34 (PxWorker 0) @ replicate 7 PxLogger"

definition px_demo :: "unit px_sys" where
  "px_demo = (case schedule (px_step px_demo_sys 3) px_demo_labels (px_init 2 6 px_demo_world (Some [])) of
     Some t \<Rightarrow> t | None \<Rightarrow> px_init 2 6 px_demo_world (Some []))"

lemma px_demo_reach: "px_reach px_demo_sys 3 (px_init 2 6 px_demo_world (Some [])) px_demo"
  using threaded_proxy.run_reach [OF _ px_reach_init] px_reach_init by (auto simp: px_demo_def split: option.split)

theorem proxy_answers_nobody_witness:
  "length (px_accepted px_demo) \<le> 35 \<and> px_workers px_demo ! 0 = PxInsert \<and>
   \<not> (\<exists>t. px_reach px_demo_sys 3 px_demo t \<and> bs_threads (px_fdq t) ! 1 \<noteq> Returned (Some 4)) \<and>
   px_step px_demo_sys 3 (PxWorker 0) px_demo = Some (Fault Null_Deref)"
proof -
  have n: "(3 :: int) \<le> 6" by simp
  note nobody = proxy_answers_nobody [OF px_demo_reach n]
  note kept = nobody [THEN conjunct2, THEN conjunct1, rule_format, OF conjI]
  have "length (px_accepted px_demo) \<le> 35" using nobody [THEN conjunct2, THEN conjunct2] by simp
  moreover have w: "px_workers px_demo = [PxInsert, PxTake]" by code_simp
  moreover have "bs_threads (px_fdq px_demo) ! Suc 0 = Returned (Some 4)" by code_simp
  then have "\<not> (\<exists>t. px_reach px_demo_sys 3 px_demo t \<and> bs_threads (px_fdq t) ! 1 \<noteq> Returned (Some 4))"
    unfolding One_nat_def by (blast intro: kept)
  moreover have "cs_threads (px_cache px_demo) = [CRet None, CRet None]" by code_simp
  then have "px_step px_demo_sys 3 (PxWorker 0) px_demo = Some (Fault Null_Deref)"
    using w by (simp add: px_worker_def)
  ultimately show ?thesis by simp
qed

text \<open>C26. The log is complete and in order: it consists of one line for each URL that was removed from
  the buffer, in the order in which the workers inserted them, and these are the ones that are
  freed; when the logging thread waits and no thread can move in the buffer, every URL inserted is in the
  log. The thread never finds a null pointer or a URL that is freed.\<close>

theorem proxy_log_in_order:
  assumes "px_reach c listenfd (px_init m n w (Some l)) s" and "3 \<le> n"
  shows "(\<exists>tms. length tms = length (px_freed s) \<and>
      px_log s = Some (l @ concat (map2 log_line tms (map ((!) (px_urls s)) (px_freed s))))) \<and>
    map Some (px_freed s) = take (length (px_freed s)) (bs_in (px_logq s)) \<and>
    (px_logger c s = None \<and> (\<forall>i. bs_step i (px_logq s) = None) \<longrightarrow> map Some (px_freed s) = bs_in (px_logq s)) \<and>
    (\<forall>r. bs_threads (px_logq s) ! 0 = Returned r \<longrightarrow> (\<exists>t. px_logger c s = Some (Ret t)))"
proof (intro conjI impI allI)
  let ?q = "px_logq s" and ?p = "bs_threads (px_logq s) ! 0"
  note ok = px_reach_ok [OF assms] and log = px_reach_log [OF assms]
  have q: "logq_ok m ?q" using ok by (simp add: px_ok_def)
  then have inv: "bs_inv (nat LOGBUFSIZE) ?q" by (simp add: logq_ok_def)
  show lines: "\<exists>tms. length tms = length (px_freed s) \<and>
      px_log s = Some (l @ concat (map2 log_line tms (map ((!) (px_urls s)) (px_freed s))))"
    using log by (simp add: log_ok_def)
  have freed: "bs_out ?q = map Some (px_freed s) @ carried ?p" using log by (simp add: log_ok_def)
  have out: "bs_out ?q = take (length (bs_out ?q)) (bs_in ?q)" using inv by (simp add: bs_inv_def ring_ok_def)
  have "map Some (px_freed s) = take (length (px_freed s)) (bs_out ?q)" by (simp add: freed)
  also have "\<dots> = take (length (px_freed s)) (bs_in ?q)"
    by (subst out) (simp add: freed min_absorb1)
  finally show "map Some (px_freed s) = take (length (px_freed s)) (bs_in ?q)" .
  show step: "\<exists>t. px_logger c s = Some (Ret t)" if r: "?p = Returned r" for r
  proof -
    obtain a url where "r = Some (Some a)" "px_url a s = Some url" by (rule logger_has_url [OF log ok r])
    with lines r show ?thesis by (auto simp: px_logger_def split: prod.split)
  qed
  show "map Some (px_freed s) = bs_in ?q" if rest: "px_logger c s = None \<and> (\<forall>i. bs_step i ?q = None)"
  proof -
    note stuck = bs_stuck [OF inv conjunct2 [OF rest, rule_format]]
    have "?p \<noteq> Returned r" for r using step [of r] rest by auto
    moreover have "?p \<in> set (bs_threads ?q)" using q by (intro nth_mem) (simp add: logq_ok_def)
    moreover have "removing ?p" using q by (simp add: logq_ok_def)
    ultimately have "?p = Rem0" "bb_items (bs_buf ?q) = 0" using stuck(4) [of ?p] by auto
    with stuck(3) freed show ?thesis by simp
  qed
qed

theorem proxy_log_in_order_witness:
  "\<exists>tms. px_log px_demo = Some (concat (map2 log_line tms [''http://a/b''])) \<and> map Some [0] = bs_in (px_logq px_demo)"
proof -
  have q: "bs_threads (px_logq px_demo) = [Rem0, Returned None, Returned None]" "px_urls px_demo = [''http://a/b'']"
    "px_freed px_demo = [0]"
    by code_simp+
  have "Option.is_none (px_logger px_demo_sys px_demo)" "Option.is_none (bs_step 0 (px_logq px_demo))" by code_simp+
  with q have "px_logger px_demo_sys px_demo = None \<and> (\<forall>i. bs_step i (px_logq px_demo) = None)"
    by (auto simp: bs_step_def Option.is_none_def nth_Cons split: nat.split)
  with proxy_log_in_order [OF px_demo_reach] have "map Some [0] = bs_in (px_logq px_demo)"
    and "\<exists>tms. px_log px_demo = Some ([] @ concat (map2 log_line tms (map ((!) [''http://a/b'']) [0])))"
    unfolding q by fastforce+
  then show ?thesis by simp
qed

section \<open>The race for the URL\<close>

text \<open>
  If the logging thread is fast, it has freed the URL before the worker is done with it: the worker
  then reads freed memory when it prints the URL in \<open>contact_host\<close>.
\<close>

definition px_race :: "unit px_sys outcome option" where
  "px_race = (case schedule (px_step px_demo_sys 3)
       (replicate 7 PxMain @ replicate 15 (PxWorker 0) @ replicate 7 PxLogger @ replicate 11 (PxWorker 0))
       (px_init 2 6 px_demo_world (Some [])) of
     Some s \<Rightarrow> px_step px_demo_sys 3 (PxWorker 0) s | None \<Rightarrow> None)"

lemma worker_reads_freed_url: "map_option (map_outcome (\<lambda>_. ())) px_race = Some (Fault Out_Of_Bounds)"
  by code_simp

end
