(* ===== verification/Proxy_Epoll.thy ===== *)
theory Proxy_Epoll
  imports Proxy_Sys Csapp_Net
begin

text \<open>
  The event-driven proxy, \<open>proxylab-handout/proxy.c\<close>: a request moves through four states, each
  with a handler that goes as far as its non-blocking socket allows. The system calls are
  parameters; the array of requests and the log file are state.
\<close>

section \<open>Requests\<close>

abbreviation MAXEVENTS :: nat where "MAXEVENTS \<equiv> 64"
abbreviation REQ_ARRAY_SIZE :: nat where "REQ_ARRAY_SIZE \<equiv> 512"

text \<open>\<open>enum states\<close>, in which -1 is stored at the end.\<close>

abbreviation READ_CLIENT :: int where "READ_CLIENT \<equiv> 0"
abbreviation WRITE_SERVER :: int where "WRITE_SERVER \<equiv> 1"
abbreviation READ_SERVER :: int where "READ_SERVER \<equiv> 2"
abbreviation WRITE_CLIENT :: int where "WRITE_CLIENT \<equiv> 3"
abbreviation DONE :: int where "DONE \<equiv> - 1"

text \<open>The three arrays are buffers as in \<open>Proxy_Sys\<close>.\<close>

record req_info =
  rq_client_fd :: int
  rq_server_fd :: int
  rq_state :: int
  rq_original :: string
  rq_modified :: string
  rq_response :: string
  rq_client_read :: int
  rq_server_written :: int
  rq_server_read :: int
  rq_client_written :: int

definition req_info_constructor :: req_info where
  "req_info_constructor =
     \<lparr>rq_client_fd = - 1, rq_server_fd = - 1, rq_state = READ_CLIENT, rq_original = [], rq_modified = [],
      rq_response = [], rq_client_read = 0, rq_server_written = 0, rq_server_read = 0, rq_client_written = 0\<rparr>"

text \<open>\<open>find_fd\<close>: the index of the first request with the descriptor.\<close>

definition find_fd :: "int \<Rightarrow> req_info list \<Rightarrow> nat option" where
  "find_fd fd reqs = first_index (\<lambda>r. fd = rq_client_fd r \<or> fd = rq_server_fd r) reqs"

section \<open>The state and the calls\<close>

datatype ev = EPOLLIN | EPOLLOUT | EPOLLET | EPOLLERR | EPOLLHUP | EPOLLRDHUP

datatype ctl = CTL_ADD | CTL_MOD

text \<open>
  \<open>ep_reqs\<close> are the first \<open>req_info_array_size\<close> elements of the array; \<open>ep_events\<close> is the array for
  \<open>epoll_wait\<close>.
\<close>

record ep = world +
  ep_reqs :: "req_info list"
  ep_log :: "string option"
  ep_efd :: int
  ep_events :: "(int \<times> ev list) list"

record 'w epsys =
  es_create :: "('w, int) syscall"
  es_ctl :: "int \<Rightarrow> ctl \<Rightarrow> int \<Rightarrow> ev list \<Rightarrow> ('w, int) syscall"
  es_wait :: "int \<Rightarrow> ('w, int \<times> (int \<times> ev list) list) syscall"

definition EAGAIN :: int where "EAGAIN = 11"
definition O_NONBLOCK :: int where "O_NONBLOCK = 2048"

definition the_req :: "nat \<Rightarrow> 'z ep_scheme \<Rightarrow> req_info" where
  "the_req k s = ep_reqs s ! k"

definition set_req :: "nat \<Rightarrow> (req_info \<Rightarrow> req_info) \<Rightarrow> 'z ep_scheme \<Rightarrow> 'z ep_scheme" where
  "set_req k f s = s\<lparr>ep_reqs := (ep_reqs s)[k := f (ep_reqs s ! k)]\<rparr>"

unbundle bit_operations_syntax

text \<open>\<open>fcntl(fd, F_SETFL, fcntl(fd, F_GETFL, 0) | O_NONBLOCK)\<close> and its check.\<close>

definition set_nonblock :: "('w, 'ai) psys \<Rightarrow> int \<Rightarrow> ('w world_scheme, unit) cprog" where
  "set_nonblock c fd s =
     (case ps_getfl c fd s of (fl, s1) \<Rightarrow>
      case ps_setfl c fd (fl OR O_NONBLOCK) s1 of (rc, s2) \<Rightarrow>
        if rc < 0 then (Exited 1, print_err (''error setting socket option'' @ [LF]) s2) else (Ret (), s2))"

definition epoll_ctl :: "'z ep_ext epsys \<Rightarrow> ctl \<Rightarrow> int \<Rightarrow> ev list \<Rightarrow> ('z ep_scheme, unit) cprog" where
  "epoll_ctl es op fd evs s =
     (case es_ctl es (ep_efd s) op fd evs s of (rc, t) \<Rightarrow>
        if rc < 0 then (Exited 1, print_err (''error adding event'' @ [LF]) t) else (Ret (), t))"

section \<open>Non-blocking loops\<close>

text \<open>
  What a loop has reached when it ends: the counter, and whether the loop ended by its condition
  or because the call would block.
\<close>

text \<open>What a result of -1 does: return for \<open>EAGAIN\<close>, otherwise \<open>exit(errno)\<close>.\<close>

definition would_block :: "('w, 'ai) psys \<Rightarrow> string \<Rightarrow> 'a \<Rightarrow> ('w world_scheme, 'a) cprog" where
  "would_block c msg a s =
     (if w_errno s = EAGAIN then (Ret a, s)
      else (Exited (w_errno s), perror (ps_strerror c) msg s))"

text \<open>\<open>len\<close> bytes of a buffer, \<open>n\<close> of them written.\<close>

partial_function (option) ep_send ::
    "('w, 'ai) psys \<Rightarrow> int \<Rightarrow> string \<Rightarrow> int \<Rightarrow> int \<Rightarrow> 'w world_scheme \<Rightarrow>
     ((int \<times> bool) outcome \<times> 'w world_scheme) option" where
  "ep_send c fd buf len n s =
     (if n = len then Some (Ret (n, True), s)
      else
        (case buf_bytes buf n (len - n) of
           Ret d \<Rightarrow>
             (case ps_write c fd d s of
                (e, s1) \<Rightarrow>
                  if e = - 1 then Some (would_block c ''error writting'' (n, False) s1)
                  else ep_send c fd buf len (n + e) s1)
         | Exited k \<Rightarrow> Some (Exited k, s)
         | Fault e \<Rightarrow> Some (Fault e, s)))"

text \<open>The loop of \<open>read_client\<close>, until the end of the headers; that of \<open>read_server\<close>, until \<open>read\<close>
  returns 0.\<close>

partial_function (option) ep_recv_headers ::
    "('w, 'ai) psys \<Rightarrow> int \<Rightarrow> string \<Rightarrow> int \<Rightarrow> 'w world_scheme \<Rightarrow>
     ((string \<times> int \<times> bool) outcome \<times> 'w world_scheme) option" where
  "ep_recv_headers c fd buf n s =
     (case headers_end buf of
        Ret found \<Rightarrow>
          if found then Some (Ret (buf, n, True), s) else
          (case ps_read c fd READ_SIZE s of
             ((r, d), s1) \<Rightarrow>
               if r = - 1 then Some (would_block c ''error reading'' (buf, n, False) s1)
               else
                 (case buf_write buf n d of
                    Ret buf' \<Rightarrow> ep_recv_headers c fd buf' (n + r) s1
                  | Exited k \<Rightarrow> Some (Exited k, s1)
                  | Fault e \<Rightarrow> Some (Fault e, s1)))
      | Exited k \<Rightarrow> Some (Exited k, s)
      | Fault e \<Rightarrow> Some (Fault e, s))"

partial_function (option) ep_recv_all ::
    "('w, 'ai) psys \<Rightarrow> int \<Rightarrow> string \<Rightarrow> int \<Rightarrow> 'w world_scheme \<Rightarrow>
     ((string \<times> int \<times> bool) outcome \<times> 'w world_scheme) option" where
  "ep_recv_all c fd buf n s =
     (case ps_read c fd READ_SIZE s of
        ((r, d), s1) \<Rightarrow>
          if r = - 1 then Some (would_block c ''error reading'' (buf, n, False) s1)
          else
            (case buf_write buf n d of
               Ret buf' \<Rightarrow>
                 if r = 0 then Some (Ret (buf', n + r, True), s1) else ep_recv_all c fd buf' (n + r) s1
             | Exited k \<Rightarrow> Some (Exited k, s1)
             | Fault e \<Rightarrow> Some (Fault e, s1)))"

declare ep_send.simps [code] ep_recv_headers.simps [code] ep_recv_all.simps [code]

section \<open>read_client\<close>

text \<open>\<open>logging\<close>: \<open>%s\<close> of a null pointer, and a log file that could not be opened, are undefined.\<close>

definition ep_logging :: "('z ep_ext, 'ai) psys \<Rightarrow> string \<Rightarrow> ('z ep_scheme, unit) cprog" where
  "ep_logging c buf s =
     (case ps_time c s of (t, s1) \<Rightarrow>
        (case (logged_url buf, ep_log s1) of
           (Some url, Some txt) \<Rightarrow>
             (Ret (), s1\<lparr>ep_log := Some (txt @ show_int t @ '': '' @ url @ [LF])\<rparr>)
         | _ \<Rightarrow> (Fault Null_Deref, s1)))"

definition connect_to_server :: "('w, 'ai) psys \<Rightarrow> string \<Rightarrow> string option \<Rightarrow> ('w world_scheme, int) cprog" where
  "connect_to_server c host port =
     cbind (connect_host c True host (case port of None \<Rightarrow> ''80'' | Some p \<Rightarrow> p)) (\<lambda>hostfd.
     cbind (set_nonblock c hostfd) (\<lambda>_. creturn hostfd))"

text \<open>
  After the loop: \<open>host_url\<close> and \<open>host_port\<close> are arrays of zeros, so that \<open>connect_to_server\<close> never
  gets a null pointer as port.
\<close>

definition start_request ::
    "('z ep_ext, 'ai) psys \<Rightarrow> 'z ep_ext epsys \<Rightarrow> nat \<Rightarrow> ('z ep_scheme, unit) cprog" where
  "start_request c es k s =
     (let original = cstr (rq_original (the_req k s)) in
      cbind (parse original []) (\<lambda>(host_url, host_port, modified).
      cbind (cmodify (set_req k (rq_modified_update (\<lambda>_. modified)))) (\<lambda>_.
      cbind (ep_logging c original) (\<lambda>_.
      cbind (cmodify (print_out (''after logging'' @ [LF]))) (\<lambda>_.
      cbind (connect_to_server c host_url (Some host_port)) (\<lambda>fd.
      cbind (cmodify (set_req k (rq_server_fd_update (\<lambda>_. fd)))) (\<lambda>_.
      cbind (cmodify (print_out (''fd: '' @ show_int fd @ [LF]))) (\<lambda>_.
      cbind (epoll_ctl es CTL_ADD fd [EPOLLOUT, EPOLLET]) (\<lambda>_.
        cmodify (set_req k (rq_state_update (\<lambda>_. WRITE_SERVER))))))))))) s)"

definition read_client ::
    "('z ep_ext, 'ai) psys \<Rightarrow> 'z ep_ext epsys \<Rightarrow> nat \<Rightarrow> ('z ep_scheme, unit) dprog" where
  "read_client c es k =
     dbind (dlift (cmodify (print_out (''read_client'' @ [LF])))) (\<lambda>_ s.
     dbind (ep_recv_headers c (rq_client_fd (the_req k s)) (rq_original (the_req k s)) (rq_client_read (the_req k s)))
       (\<lambda>(buf, n, found).
          dbind (dlift (cmodify (set_req k (\<lambda>r. r\<lparr>rq_original := buf, rq_client_read := n\<rparr>)))) (\<lambda>_.
            if found then dlift (start_request c es k) else dreturn ())) s)"

section \<open>The other handlers\<close>

definition write_server ::
    "('z ep_ext, 'ai) psys \<Rightarrow> 'z ep_ext epsys \<Rightarrow> nat \<Rightarrow> ('z ep_scheme, unit) dprog" where
  "write_server c es k s =
     (let r = the_req k s in
      case buf_str (rq_modified r) of
        Ret req \<Rightarrow>
          dbind (ep_send c (rq_server_fd r) (rq_modified r) (int (length req)) (rq_server_written r)) (\<lambda>(n, fin).
          dbind (dlift (cmodify (set_req k (rq_server_written_update (\<lambda>_. n))))) (\<lambda>_.
            if fin then
              dlift (cbind (epoll_ctl es CTL_MOD (rq_server_fd r) [EPOLLIN, EPOLLET]) (\<lambda>_.
                cmodify (set_req k (rq_state_update (\<lambda>_. READ_SERVER)))))
            else dreturn ())) s
      | Exited m \<Rightarrow> Some (Exited m, s)
      | Fault e \<Rightarrow> Some (Fault e, s))"

definition read_server ::
    "('z ep_ext, 'ai) psys \<Rightarrow> 'z ep_ext epsys \<Rightarrow> nat \<Rightarrow> ('z ep_scheme, unit) dprog" where
  "read_server c es k s =
     (let r = the_req k s in
      dbind (ep_recv_all c (rq_server_fd r) (rq_response r) (rq_server_read r)) (\<lambda>(buf, n, fin).
      dbind (dlift (cmodify (set_req k (\<lambda>r. r\<lparr>rq_response := buf, rq_server_read := n\<rparr>)))) (\<lambda>_.
        if fin then
          dlift (cbind (epoll_ctl es CTL_MOD (rq_client_fd r) [EPOLLOUT, EPOLLET]) (\<lambda>_.
            cbind (cmodify (set_req k (rq_state_update (\<lambda>_. WRITE_CLIENT)))) (\<lambda>_.
            cbind (\<lambda>s. (Ret (), snd (ps_close c (rq_server_fd r) s))) (\<lambda>_.
              cmodify (set_req k (rq_server_fd_update (\<lambda>_. - 1)))))))
        else dreturn ())) s)"

definition write_client ::
    "('z ep_ext, 'ai) psys \<Rightarrow> nat \<Rightarrow> ('z ep_scheme, unit) dprog" where
  "write_client c k s =
     (let r = the_req k s in
      dbind (ep_send c (rq_client_fd r) (rq_response r) (rq_server_read r) (rq_client_written r)) (\<lambda>(n, fin).
      dbind (dlift (cmodify (set_req k (rq_client_written_update (\<lambda>_. n))))) (\<lambda>_.
        if fin then
          dlift (cbind (cmodify (set_req k (rq_state_update (\<lambda>_. DONE)))) (\<lambda>_.
            cbind (\<lambda>s. (Ret (), snd (ps_close c (rq_client_fd r) s))) (\<lambda>_.
              cmodify (set_req k (rq_client_fd_update (\<lambda>_. - 1))))))
        else dreturn ())) s)"

section \<open>main\<close>

text \<open>A new connection: the request goes to the end of the array, whose size is not checked.\<close>

definition add_client ::
    "('z ep_ext, 'ai) psys \<Rightarrow> 'z ep_ext epsys \<Rightarrow> int \<Rightarrow> ('z ep_scheme, unit) cprog" where
  "add_client c es connfd =
     cbind (set_nonblock c connfd) (\<lambda>_.
     cbind (epoll_ctl es CTL_ADD connfd [EPOLLIN, EPOLLET]) (\<lambda>_ s.
       if REQ_ARRAY_SIZE \<le> length (ep_reqs s) then (Fault Out_Of_Bounds, s)
       else (Ret (), s\<lparr>ep_reqs := ep_reqs s @ [req_info_constructor\<lparr>rq_client_fd := connfd\<rparr>]\<rparr>)))"

partial_function (option) accept_loop ::
    "('z ep_ext, 'ai) psys \<Rightarrow> 'z ep_ext epsys \<Rightarrow> int \<Rightarrow> 'z ep_scheme \<Rightarrow> (unit outcome \<times> 'z ep_scheme) option" where
  "accept_loop c es listenfd s =
     (case ps_accept c listenfd s of
        (connfd, s1) \<Rightarrow>
          if 0 < connfd then
            (case add_client c es connfd s1 of
               (r, s2) \<Rightarrow>
                 (case r of
                    Ret u \<Rightarrow> accept_loop c es listenfd s2
                  | Exited k \<Rightarrow> Some (Exited k, s2)
                  | Fault e \<Rightarrow> Some (Fault e, s2)))
          else
            Some (Ret (), if w_errno s1 = EAGAIN then s1 else perror (ps_strerror c) ''error accepting'' s1))"

declare accept_loop.simps [code]

definition dispatch ::
    "('z ep_ext, 'ai) psys \<Rightarrow> 'z ep_ext epsys \<Rightarrow> nat \<Rightarrow> ('z ep_scheme, unit) dprog" where
  "dispatch c es k s =
     (let st = rq_state (the_req k s) in
      if st = READ_CLIENT then read_client c es k s
      else if st = WRITE_SERVER then write_server c es k s
      else if st = READ_SERVER then read_server c es k s
      else if st = WRITE_CLIENT then write_client c k s
      else Some (Ret (), print_err (''The state doesn'' @ [QUOTE] @ ''t match! state: '' @ show_int st @ [LF]) s))"

definition handle_event ::
    "('z ep_ext, 'ai) psys \<Rightarrow> 'z ep_ext epsys \<Rightarrow> int \<Rightarrow> int \<times> ev list \<Rightarrow> ('z ep_scheme, unit) dprog" where
  "handle_event c es listenfd e s =
     (let fd = fst e in
      if list_ex (\<lambda>x. x = EPOLLERR \<or> x = EPOLLHUP \<or> x = EPOLLRDHUP) (snd e) then
        Some (Ret (), snd (ps_close c fd (print_err (''epoll error on fd '' @ show_int fd @ [LF]) s)))
      else if fd = listenfd then accept_loop c es listenfd s
      else
        (case find_fd fd (ep_reqs s) of
           None \<Rightarrow> Some (Exited 1, print_err (''NULL pointer exception!'' @ [LF]) s)
         | Some k \<Rightarrow> dispatch c es k s))"

fun handle_events ::
    "('z ep_ext, 'ai) psys \<Rightarrow> 'z ep_ext epsys \<Rightarrow> int \<Rightarrow> (int \<times> ev list) list \<Rightarrow> ('z ep_scheme, unit) dprog" where
  "handle_events c es listenfd [] = dreturn ()"
| "handle_events c es listenfd (e # evs) =
     dbind (handle_event c es listenfd e) (\<lambda>_. handle_events c es listenfd evs)"

text \<open>
  One round of the main loop. The result of \<open>epoll_wait\<close> goes into an unsigned variable: after an
  error the loop goes through the whole array of events and beyond it.
\<close>

definition main_round ::
    "('z ep_ext, 'ai) psys \<Rightarrow> 'z ep_ext epsys \<Rightarrow> int \<Rightarrow> ('z ep_scheme, unit) dprog" where
  "main_round c es listenfd s =
     (case es_wait es (ep_efd s) s of ((n, evs), s1) \<Rightarrow>
        let s2 = s1\<lparr>ep_events := evs @ drop (length evs) (ep_events s1)\<rparr>
        in if n < 0 then
             dbind (handle_events c es listenfd (ep_events s2)) (\<lambda>_. dlift (cfault Out_Of_Bounds)) s2
           else handle_events c es listenfd (take (nat n) (ep_events s2)) s2)"

definition ep_main_init ::
    "('z ep_ext, 'ai) psys \<Rightarrow> 'z ep_ext epsys \<Rightarrow> ('z ep_ext, 'ai) netcalls \<Rightarrow> string option \<Rightarrow> string list \<Rightarrow>
     ('z ep_scheme, int) cprog" where
  "ep_main_init c es nc logfile argv =
     cbind (cmodify (\<lambda>s. s\<lparr>ep_log := logfile\<rparr>)) (\<lambda>_.
       if length argv \<noteq> 2 then
         cbind (cmodify (print_err (''usage: '' @ hd argv @ '' <port>'' @ [LF]))) (\<lambda>_. cexit 0)
       else
         cbind (Open_listenfd nc (argv ! 1)) (\<lambda>listenfd.
         cbind (set_nonblock c listenfd) (\<lambda>_.
         cbind (\<lambda>s. case es_create es s of (efd, t) \<Rightarrow>
                  if efd < 0 then (Exited 1, print_err (''error creating epoll fd'' @ [LF]) t)
                  else (Ret (), t\<lparr>ep_efd := efd\<rparr>)) (\<lambda>_.
         cbind (epoll_ctl es CTL_ADD listenfd [EPOLLIN, EPOLLET]) (\<lambda>_.
         cbind (cmodify (\<lambda>s. s\<lparr>ep_events := replicate MAXEVENTS (0, [])\<rparr>)) (\<lambda>_.
           creturn listenfd))))))"

text \<open>The proxy after any number of rounds, as long as they return.\<close>

inductive ep_reach ::
    "('z ep_ext, 'ai) psys \<Rightarrow> 'z ep_ext epsys \<Rightarrow> int \<Rightarrow> 'z ep_scheme \<Rightarrow> bool" for c es listenfd where
  ep_reach_init: "ep_reqs s = [] \<Longrightarrow> ep_reach c es listenfd s"
| ep_reach_event: "ep_reach c es listenfd s \<Longrightarrow> handle_event c es listenfd e s = Some (Ret (), t) \<Longrightarrow>
    ep_reach c es listenfd t"

end
