(* ===== verification/Proxy_Epoll_Proofs.thy ===== *)
theory Proxy_Epoll_Proofs
  imports Proxy_Epoll
begin

text \<open>
  The lemmas behind the properties of the event-driven proxy: what the system calls do, the
  programs that leave the requests alone, the loops of the handlers, and the invariant that
  every handler keeps.
\<close>

section \<open>The calls\<close>

text \<open>
  What \<open>read\<close> and \<open>write\<close> return, and that no call touches the array of requests.
\<close>

definition calls_ok :: "('z ep_ext, 'ai) psys \<Rightarrow> 'z ep_ext epsys \<Rightarrow> bool" where
  "calls_ok c es \<longleftrightarrow>
     (\<forall>fd n s. case ps_read c fd n s of ((r, d), t) \<Rightarrow>
        (r = - 1 \<or> r = int (length d)) \<and> ep_reqs t = ep_reqs s) \<and>
     (\<forall>fd d s. case ps_write c fd d s of (e, t) \<Rightarrow>
        (e = - 1 \<or> 0 \<le> e \<and> e \<le> int (length d)) \<and> ep_reqs t = ep_reqs s) \<and>
     (\<forall>fd s. ep_reqs (snd (ps_close c fd s)) = ep_reqs s) \<and>
     (\<forall>fd s. ep_reqs (snd (ps_getfl c fd s)) = ep_reqs s) \<and>
     (\<forall>fd f s. ep_reqs (snd (ps_setfl c fd f s)) = ep_reqs s) \<and>
     (\<forall>fd s. ep_reqs (snd (ps_accept c fd s)) = ep_reqs s) \<and>
     (\<forall>s. ep_reqs (snd (ps_time c s)) = ep_reqs s) \<and>
     (\<forall>h p x s. ep_reqs (snd (ps_getaddrinfo c h p x s)) = ep_reqs s) \<and>
     (\<forall>l s. ep_reqs (snd (ps_freeaddrinfo c l s)) = ep_reqs s) \<and>
     (\<forall>a s. ep_reqs (snd (ps_socket c a s)) = ep_reqs s) \<and>
     (\<forall>fd a s. ep_reqs (snd (ps_connect c fd a s)) = ep_reqs s) \<and>
     (\<forall>efd op fd evs s. ep_reqs (snd (es_ctl es efd op fd evs s)) = ep_reqs s)"

lemma calls_okD:
  assumes "calls_ok c es"
  shows "ps_read c fd m s = ((r, d), t) \<Longrightarrow> (r = - 1 \<or> r = int (length d)) \<and> ep_reqs t = ep_reqs s"
    and "ps_write c fd d s = (e, t) \<Longrightarrow> (e = - 1 \<or> 0 \<le> e \<and> e \<le> int (length d)) \<and> ep_reqs t = ep_reqs s"
    and "ps_getfl c fd s = (e, t) \<Longrightarrow> ep_reqs t = ep_reqs s"
    and "ps_setfl c fd fl s = (e, t) \<Longrightarrow> ep_reqs t = ep_reqs s"
    and "ps_accept c fd s = (e, t) \<Longrightarrow> ep_reqs t = ep_reqs s"
    and "ps_time c s = (e, t) \<Longrightarrow> ep_reqs t = ep_reqs s"
    and "ps_getaddrinfo c h p x s = (res, t) \<Longrightarrow> ep_reqs t = ep_reqs s"
    and "ps_socket c a s = (e, t) \<Longrightarrow> ep_reqs t = ep_reqs s"
    and "ps_connect c fd a s = (e, t) \<Longrightarrow> ep_reqs t = ep_reqs s"
    and "es_ctl es efd opn fd evs s = (e, t) \<Longrightarrow> ep_reqs t = ep_reqs s"
    and "ep_reqs (snd (ps_close c fd s)) = ep_reqs s"
    and "ep_reqs (snd (ps_freeaddrinfo c l s)) = ep_reqs s"
  using assms unfolding calls_ok_def by (metis (mono_tags, lifting) case_prod_conv snd_conv)+

lemma print_reqs [simp]:
  fixes s :: "'z ep_scheme"
  shows "ep_reqs (print_out m s) = ep_reqs s" and "ep_reqs (print_err m s) = ep_reqs s"
  by (simp_all add: print_out_def print_err_def)

lemma perror_reqs [simp]: "ep_reqs (perror f m s) = ep_reqs (s :: 'z ep_scheme)"
  by (simp add: perror_def)

text \<open>Programs that leave the requests alone.\<close>

definition quiet_prog :: "('z ep_scheme, 'a) cprog \<Rightarrow> bool" where
  "quiet_prog m \<longleftrightarrow> (\<forall>s. ep_reqs (snd (m s)) = ep_reqs s)"

named_theorems quiets \<open>programs that leave the requests alone\<close>

lemma quiet_progD: "quiet_prog m \<Longrightarrow> m s = (r, t) \<Longrightarrow> ep_reqs t = ep_reqs s"
  unfolding quiet_prog_def by (metis snd_conv)

lemma quiet_cbind [quiets]:
  assumes "quiet_prog m" and "\<And>a. quiet_prog (g a)"
  shows "quiet_prog (cbind m g)"
  using assms unfolding quiet_prog_def cbind_def
  by (auto split: prod.splits outcome.splits) (metis snd_conv)+

lemma quiet_basic [quiets]:
  "quiet_prog (creturn a)" "quiet_prog (cmodify (print_out m))" "quiet_prog (would_block c msg b)"
  by (simp_all add: quiet_prog_def c_simps would_block_def)

lemma quiet_nonblock [quiets]: "calls_ok c es \<Longrightarrow> quiet_prog (set_nonblock c fd)"
  unfolding quiet_prog_def
proof
  fix s
  assume ok: "calls_ok c es"
  obtain fl s1 where 1: "ps_getfl c fd s = (fl, s1)" by fastforce
  obtain rc s2 where 2: "ps_setfl c fd (fl OR O_NONBLOCK) s1 = (rc, s2)" by fastforce
  show "ep_reqs (snd (set_nonblock c fd s)) = ep_reqs s"
    using 1 2 calls_okD(3) [OF ok 1] calls_okD(4) [OF ok 2] by (simp add: set_nonblock_def)
qed

lemma quiet_epoll_ctl [quiets]: "calls_ok c es \<Longrightarrow> quiet_prog (epoll_ctl es op fd evs)"
  unfolding quiet_prog_def epoll_ctl_def
  by (auto split: prod.splits dest: calls_okD(10))

lemma connect_walk_reqs:
  assumes "calls_ok c es"
  shows "ep_reqs (snd (connect_walk c rps h s)) = ep_reqs s"
proof (induction rps arbitrary: h s)
  case (Cons rp rps)
  obtain fd s1 where 1: "ps_socket c rp s = (fd, s1)" by fastforce
  obtain rc s2 where 2: "ps_connect c fd rp s1 = (rc, s2)" by fastforce
  show ?case
    using 1 2 calls_okD(8) [OF assms 1] calls_okD(9) [OF assms 2] calls_okD(11) [OF assms] Cons
    by simp
qed simp

lemma quiet_connect_host [quiets]:
  assumes "calls_ok c es"
  shows "quiet_prog (connect_host c cleared host port)"
  unfolding quiet_prog_def
proof
  fix s
  obtain rc l s1 where 1: "ps_getaddrinfo c host port (connect_hints cleared) s = ((rc, l), s1)"
    by (metis prod.exhaust)
  obtain f h s2 where 2: "connect_walk c l None s1 = ((f, h), s2)" by (metis prod.exhaust)
  have "ep_reqs s2 = ep_reqs s1" using connect_walk_reqs [OF assms, of l None s1] 2 by simp
  with 1 2 calls_okD(7) [OF assms 1] calls_okD(12) [OF assms]
  show "ep_reqs (snd (connect_host c cleared host port s)) = ep_reqs s"
    by (auto simp: connect_host_defs split: option.split)
qed

lemma quiet_connect [quiets]: "calls_ok c es \<Longrightarrow> quiet_prog (connect_to_server c host port)"
  unfolding connect_to_server_def by (intro quiets; assumption)

lemma quiet_logging [quiets]: "calls_ok c es \<Longrightarrow> quiet_prog (ep_logging c buf)"
  unfolding quiet_prog_def ep_logging_def
  by (auto split: prod.splits option.splits dest: calls_okD(6))

lemma quiet_parse [quiets]: "quiet_prog (parse buf p)"
proof -
  have "quiet_prog (parse_core buf)"
    unfolding quiet_prog_def parse_core_def Let_def
    by (auto split: prod.splits option.splits)
  then show ?thesis unfolding parse_def by (intro quiets)
qed

section \<open>The loops\<close>

lemma would_block_Ret: "would_block c m a s = (Ret b, t) \<Longrightarrow> b = a \<and> t = s"
  by (auto simp: would_block_def split: if_splits)

text \<open>
  Rules for the three loops: what holds at the start and is kept by each call holds when the
  loop returns.
\<close>

lemma ep_send_rule:
  fixes c :: "('w, 'ai) psys"
  assumes "ep_send c fd buf len n s = Some (Ret (m, fin), t)" and "I n s"
    and step: "\<And>n s d e s1. I n s \<Longrightarrow> n \<noteq> len \<Longrightarrow> buf_bytes buf n (len - n) = Ret d \<Longrightarrow>
      ps_write c fd d s = (e, s1) \<Longrightarrow> I (if e = - 1 then n else n + e) s1"
  shows "I m t" and "fin \<longleftrightarrow> m = len"
proof -
  let ?P = "\<lambda>c' fd' buf' len' n s y. c' = c \<and> fd' = fd \<and> buf' = buf \<and> len' = len \<and> I n s \<longrightarrow>
    (\<forall>m fin t. y = (Ret (m, fin), t) \<longrightarrow> I m t \<and> (fin \<longleftrightarrow> m = len))"
  have "?P c fd buf len n s (Ret (m, fin), t)"
    using assms(1)
  proof (rule ep_send.raw_induct [of ?P, rotated])
    fix f :: "('w, 'ai) psys \<Rightarrow> int \<Rightarrow> string \<Rightarrow> int \<Rightarrow> int \<Rightarrow> 'w world_scheme \<Rightarrow> ((int \<times> bool) outcome \<times> 'w world_scheme) option"
      and c' :: "('w, 'ai) psys" and fd' buf' len' n and s :: "'w world_scheme" and y
    assume IH: "\<And>c' fd' buf' len' n s y. f c' fd' buf' len' n s = Some y \<Longrightarrow> ?P c' fd' buf' len' n s y"
      and body: "(if n = len' then Some (Ret (n, True), s)
        else (case buf_bytes buf' n (len' - n) of
           Ret d \<Rightarrow>
             (case ps_write c' fd' d s of
                (e, s1) \<Rightarrow>
                  if e = - 1 then Some (would_block c' ''error writting'' (n, False) s1)
                  else f c' fd' buf' len' (n + e) s1)
         | Exited k \<Rightarrow> Some (Exited k, s)
         | Fault e \<Rightarrow> Some (Fault e, s))) = Some y"
    show "?P c' fd' buf' len' n s y"
    proof
      assume pre: "c' = c \<and> fd' = fd \<and> buf' = buf \<and> len' = len \<and> I n s"
      show "\<forall>m fin t. y = (Ret (m, fin), t) \<longrightarrow> I m t \<and> (fin \<longleftrightarrow> m = len)"
      proof (cases "n \<noteq> len \<and> (\<exists>d. buf_bytes buf n (len - n) = Ret d)")
        case False
        with body pre show ?thesis by (auto split: if_splits outcome.splits)
      next
        case True
        then obtain d where d: "n \<noteq> len" "buf_bytes buf n (len - n) = Ret d" by blast
        obtain e s1 where w: "ps_write c fd d s = (e, s1)" by fastforce
        have I: "I (if e = - 1 then n else n + e) s1" using step [OF _ d w] pre by blast
        show ?thesis
        proof (cases "e = - 1")
          case True
          with I d body pre w show ?thesis by (auto dest: would_block_Ret)
        next
          case False
          with d body pre w have "f c fd buf len (n + e) s1 = Some y" by simp
          from IH [OF this] I False show ?thesis by simp
        qed
      qed
    qed
  qed
  with assms(2) show "I m t" "fin \<longleftrightarrow> m = len" by blast+
qed

lemma ep_recv_headers_rule:
  fixes c :: "('w, 'ai) psys"
  assumes "ep_recv_headers c fd buf n s = Some (Ret (buf', n', found), t)" and "I buf n s"
    and step: "\<And>buf n s r d s1. I buf n s \<Longrightarrow> ps_read c fd READ_SIZE s = ((r, d), s1) \<Longrightarrow>
      if r = - 1 then I buf n s1 else (\<forall>b. buf_write buf n d = Ret b \<longrightarrow> I b (n + r) s1)"
  shows "I buf' n' t"
proof -
  let ?P = "\<lambda>c' fd' buf n s y. c' = c \<and> fd' = fd \<and> I buf n s \<longrightarrow>
    (\<forall>buf' n' found t. y = (Ret (buf', n', found), t) \<longrightarrow> I buf' n' t)"
  have "?P c fd buf n s (Ret (buf', n', found), t)"
    using assms(1)
  proof (rule ep_recv_headers.raw_induct [of ?P, rotated])
    fix f :: "('w, 'ai) psys \<Rightarrow> int \<Rightarrow> string \<Rightarrow> int \<Rightarrow> 'w world_scheme \<Rightarrow>
        ((string \<times> int \<times> bool) outcome \<times> 'w world_scheme) option"
      and c' :: "('w, 'ai) psys" and fd' buf n and s :: "'w world_scheme" and y
    assume IH: "\<And>c' fd' buf n s y. f c' fd' buf n s = Some y \<Longrightarrow> ?P c' fd' buf n s y"
      and body: "(case headers_end buf of
        Ret found \<Rightarrow>
          if found then Some (Ret (buf, n, True), s) else
          (case ps_read c' fd' READ_SIZE s of
             ((r, d), s1) \<Rightarrow>
               if r = - 1 then Some (would_block c' ''error reading'' (buf, n, False) s1)
               else
                 (case buf_write buf n d of
                    Ret buf' \<Rightarrow> f c' fd' buf' (n + r) s1
                  | Exited k \<Rightarrow> Some (Exited k, s1)
                  | Fault e \<Rightarrow> Some (Fault e, s1)))
      | Exited k \<Rightarrow> Some (Exited k, s)
      | Fault e \<Rightarrow> Some (Fault e, s)) = Some y"
    show "?P c' fd' buf n s y"
    proof
      assume pre: "c' = c \<and> fd' = fd \<and> I buf n s"
      obtain r d s1 where rd: "ps_read c fd READ_SIZE s = ((r, d), s1)" by (metis prod.exhaust)
      note stp = step [OF conjunct2 [OF conjunct2 [OF pre]] rd]
      show "\<forall>buf' n' found t. y = (Ret (buf', n', found), t) \<longrightarrow> I buf' n' t"
      proof (cases "headers_end buf = Ret False \<and> r \<noteq> - 1 \<and> (\<exists>b. buf_write buf n d = Ret b)")
        case True
        then obtain b where b: "headers_end buf = Ret False" "r \<noteq> - 1" "buf_write buf n d = Ret b" by blast
        with body pre rd have "f c fd b (n + r) s1 = Some y" by simp
        from IH [OF this] stp b show ?thesis by simp
      next
        case False
        with body pre rd stp show ?thesis
          by (auto dest: would_block_Ret split: if_splits outcome.splits)
      qed
    qed
  qed
  with assms(2) show ?thesis by blast
qed

lemma ep_recv_all_rule:
  fixes c :: "('w, 'ai) psys"
  assumes "ep_recv_all c fd buf n s = Some (Ret (buf', n', fin), t)" and "I buf n s"
    and step: "\<And>buf n s r d s1. I buf n s \<Longrightarrow> ps_read c fd READ_SIZE s = ((r, d), s1) \<Longrightarrow>
      if r = - 1 then I buf n s1 else (\<forall>b. buf_write buf n d = Ret b \<longrightarrow> I b (n + r) s1)"
  shows "I buf' n' t"
proof -
  let ?P = "\<lambda>c' fd' buf n s y. c' = c \<and> fd' = fd \<and> I buf n s \<longrightarrow>
    (\<forall>buf' n' fin t. y = (Ret (buf', n', fin), t) \<longrightarrow> I buf' n' t)"
  have "?P c fd buf n s (Ret (buf', n', fin), t)"
    using assms(1)
  proof (rule ep_recv_all.raw_induct [of ?P, rotated])
    fix f :: "('w, 'ai) psys \<Rightarrow> int \<Rightarrow> string \<Rightarrow> int \<Rightarrow> 'w world_scheme \<Rightarrow>
        ((string \<times> int \<times> bool) outcome \<times> 'w world_scheme) option"
      and c' :: "('w, 'ai) psys" and fd' buf n and s :: "'w world_scheme" and y
    assume IH: "\<And>c' fd' buf n s y. f c' fd' buf n s = Some y \<Longrightarrow> ?P c' fd' buf n s y"
      and body: "(case ps_read c' fd' READ_SIZE s of
        ((r, d), s1) \<Rightarrow>
          if r = - 1 then Some (would_block c' ''error reading'' (buf, n, False) s1)
          else
            (case buf_write buf n d of
               Ret buf' \<Rightarrow>
                 if r = 0 then Some (Ret (buf', n + r, True), s1) else f c' fd' buf' (n + r) s1
             | Exited k \<Rightarrow> Some (Exited k, s1)
             | Fault e \<Rightarrow> Some (Fault e, s1))) = Some y"
    show "?P c' fd' buf n s y"
    proof
      assume pre: "c' = c \<and> fd' = fd \<and> I buf n s"
      obtain r d s1 where rd: "ps_read c fd READ_SIZE s = ((r, d), s1)" by (metis prod.exhaust)
      note stp = step [OF conjunct2 [OF conjunct2 [OF pre]] rd]
      show "\<forall>buf' n' fin t. y = (Ret (buf', n', fin), t) \<longrightarrow> I buf' n' t"
      proof (cases "r \<noteq> - 1 \<and> r \<noteq> 0 \<and> (\<exists>b. buf_write buf n d = Ret b)")
        case True
        then obtain b where b: "r \<noteq> - 1" "r \<noteq> 0" "buf_write buf n d = Ret b" by blast
        with body pre rd have "f c fd b (n + r) s1 = Some y" by simp
        from IH [OF this] stp b show ?thesis by simp
      next
        case False
        with body pre rd stp show ?thesis
          by (auto dest: would_block_Ret split: if_splits outcome.splits)
      qed
    qed
  qed
  with assms(2) show ?thesis by blast
qed

text \<open>What the loops do to the counters and to the requests.\<close>

lemma buf_bytes_length: "buf_bytes buf n k = Ret d \<Longrightarrow> int (length d) = k"
  by (auto simp: buf_bytes_def split: if_splits)

lemma buf_bytes_take:
  assumes "buf_bytes buf n (len - n) = Ret d" and "0 \<le> n" and "n \<le> len" and "len \<le> int (length buf)"
  shows "d = take (nat (len - n)) (drop (nat n) buf)"
proof -
  have "nat (len - n) \<le> length (drop (nat n) buf)" using assms(2-4) by simp
  with assms(1) show ?thesis by (auto simp: buf_bytes_def split: if_splits)
qed

lemma ep_send_ok:
  fixes c :: "('z ep_ext, 'ai) psys" and es :: "'z ep_ext epsys"
  assumes "calls_ok c es" and "n \<le> len" and "ep_send c fd buf len n s = Some (Ret (m, fin), t)"
  shows "n \<le> m \<and> m \<le> len \<and> (fin \<longrightarrow> m = len) \<and> ep_reqs t = ep_reqs s"
proof -
  let ?I = "\<lambda>m t. n \<le> m \<and> m \<le> len \<and> ep_reqs t = ep_reqs s"
  have "?I m t"
  proof (rule ep_send_rule(1) [OF assms(3), of ?I])
    fix m u d e u1
    assume I: "?I m u" and d: "buf_bytes buf m (len - m) = Ret d" and w: "ps_write c fd d u = (e, u1)"
    from calls_okD(2) [OF assms(1) w] buf_bytes_length [OF d] I show "?I (if e = - 1 then m else m + e) u1"
      by auto
  qed (use assms(2) in simp)
  with ep_send_rule(2) [OF assms(3), of "\<lambda>_ _. True"] show ?thesis by simp
qed

definition recv_ok :: "req_info list \<Rightarrow> string \<Rightarrow> int \<Rightarrow> 'z ep_scheme \<Rightarrow> bool" where
  "recv_ok reqs buf n t \<longleftrightarrow> n = int (length buf) \<and> length buf \<le> MAX_OBJECT_SIZE \<and> ep_reqs t = reqs"

lemma buf_write_end:
  assumes "n = int (length buf)" and "length buf \<le> MAX_OBJECT_SIZE" and "buf_write buf n d = Ret b"
  shows "b = buf @ d" and "length b \<le> MAX_OBJECT_SIZE"
  using assms by (auto simp: buf_write_def split: if_splits)

text \<open>One step of either reading loop.\<close>

lemma recv_step:
  assumes "calls_ok c es" and "recv_ok reqs buf n s" and "ps_read c fd READ_SIZE s = ((r, d), s1)"
  shows "if r = - 1 then recv_ok reqs buf n s1 else (\<forall>b. buf_write buf n d = Ret b \<longrightarrow> recv_ok reqs b (n + r) s1)"
  using calls_okD(1) [OF assms(1,3)] assms(2) buf_write_end [of n buf d]
  by (auto simp: recv_ok_def)

lemma ep_recv_headers_ok:
  assumes "calls_ok c es" and "recv_ok reqs buf n s" and "ep_recv_headers c fd buf n s = Some (Ret (buf', n', found), t)"
  shows "recv_ok reqs buf' n' t"
  by (rule ep_recv_headers_rule [OF assms(3), where I = "recv_ok reqs", OF assms(2) recv_step [OF assms(1)]])

lemma ep_recv_all_ok:
  assumes "calls_ok c es" and "recv_ok reqs buf n s" and "ep_recv_all c fd buf n s = Some (Ret (buf', n', fin), t)"
  shows "recv_ok reqs buf' n' t"
  by (rule ep_recv_all_rule [OF assms(3), where I = "recv_ok reqs", OF assms(2) recv_step [OF assms(1)]])

section \<open>The invariant of a request\<close>

text \<open>
  The counters count what is in the buffers, and what a request has behind it in each state.
\<close>

definition req_inv :: "req_info \<Rightarrow> bool" where
  "req_inv r \<longleftrightarrow>
     rq_client_read r = int (length (rq_original r)) \<and> length (rq_original r) \<le> MAX_OBJECT_SIZE \<and>
     rq_server_read r = int (length (rq_response r)) \<and> length (rq_response r) \<le> MAX_OBJECT_SIZE \<and>
     0 \<le> rq_server_written r \<and> rq_server_written r \<le> int (length (cstr (rq_modified r))) \<and>
     0 \<le> rq_client_written r \<and> rq_client_written r \<le> rq_server_read r \<and>
     (rq_state r = READ_CLIENT \<and> rq_server_fd r = - 1 \<and> rq_server_written r = 0 \<and> rq_response r = [] \<or>
      rq_state r = WRITE_SERVER \<and> rq_response r = [] \<or>
      rq_state r = READ_SERVER \<and> rq_server_written r = int (length (cstr (rq_modified r))) \<and> rq_client_written r = 0 \<or>
      rq_state r = WRITE_CLIENT \<and> rq_server_written r = int (length (cstr (rq_modified r))) \<and> rq_server_fd r = - 1 \<or>
      rq_state r = DONE \<and> rq_server_written r = int (length (cstr (rq_modified r))) \<and>
        rq_client_written r = rq_server_read r \<and> rq_server_fd r = - 1 \<and> rq_client_fd r = - 1)"

definition reqs_inv :: "'z ep_scheme \<Rightarrow> bool" where
  "reqs_inv s \<longleftrightarrow> list_all req_inv (ep_reqs s) \<and> length (ep_reqs s) \<le> REQ_ARRAY_SIZE"

lemma reqs_inv_same: "ep_reqs t = ep_reqs s \<Longrightarrow> reqs_inv t = reqs_inv s"
  by (simp add: reqs_inv_def)

lemma reqs_inv_nth: "reqs_inv s \<Longrightarrow> k < length (ep_reqs s) \<Longrightarrow> req_inv (ep_reqs s ! k)"
  by (simp add: reqs_inv_def list_all_length)

lemma reqs_inv_update:
  assumes "reqs_inv s" and "ep_reqs t = (ep_reqs s)[k := r]" and "req_inv r"
  shows "reqs_inv t"
proof -
  have "set ((ep_reqs s)[k := r]) \<subseteq> insert r (set (ep_reqs s))" by (rule set_update_subset_insert)
  with assms show ?thesis by (auto simp: reqs_inv_def list_all_iff)
qed

lemma set_req_reqs [simp]: "ep_reqs (set_req k f s) = (ep_reqs s)[k := f (ep_reqs s ! k)]"
  by (simp add: set_req_def)

lemma cmodify_Ret: "cmodify f s = (Ret u, t) \<longleftrightarrow> t = f s"
  by (auto simp: c_simps)

lemma dlift_Ret: "dlift m s = Some (Ret a, t) \<longleftrightarrow> m s = (Ret a, t)"
  by (simp add: c_simps)

section \<open>What the handlers do\<close>

text \<open>The steps of each handler that returns.\<close>

lemma start_requestE:
  assumes "start_request c es k s = (Ret (), t)"
  obtains h p m s1 s3 fd s5 s7 where
    "parse (cstr (rq_original (ep_reqs s ! k))) [] s = (Ret (h, p, m), s1)" and
    "ep_logging c (cstr (rq_original (ep_reqs s ! k))) (set_req k (rq_modified_update (\<lambda>_. m)) s1) = (Ret (), s3)" and
    "connect_to_server c h (Some p) (print_out (''after logging'' @ [LF]) s3) = (Ret fd, s5)" and
    "epoll_ctl es CTL_ADD fd [EPOLLOUT, EPOLLET]
       (print_out (''fd: '' @ show_int fd @ [LF]) (set_req k (rq_server_fd_update (\<lambda>_. fd)) s5)) = (Ret (), s7)" and
    "t = set_req k (rq_state_update (\<lambda>_. WRITE_SERVER)) s7"
  using assms unfolding start_request_def Let_def the_req_def
  by (auto simp: cbind_Ret_iff cmodify_Ret split: prod.splits)

lemma read_clientE:
  fixes s :: "'z ep_scheme"
  assumes "read_client c es k s = Some (Ret (), t)"
  obtains buf n found s1 where
    "ep_recv_headers c (rq_client_fd (ep_reqs s ! k)) (rq_original (ep_reqs s ! k)) (rq_client_read (ep_reqs s ! k))
       (print_out (''read_client'' @ [LF]) s) = Some (Ret (buf, n, found), s1)" and
    "if found then start_request c es k (set_req k (\<lambda>r. r\<lparr>rq_original := buf, rq_client_read := n\<rparr>) s1) = (Ret (), t)
     else t = set_req k (\<lambda>r. r\<lparr>rq_original := buf, rq_client_read := n\<rparr>) s1"
proof -
  let ?s0 = "print_out (''read_client'' @ [LF]) s" and ?r = "ep_reqs s ! k"
  have r: "the_req k ?s0 = ?r" by (simp add: the_req_def)
  obtain buf n found s1 where
    1: "ep_recv_headers c (rq_client_fd ?r) (rq_original ?r) (rq_client_read ?r) ?s0 = Some (Ret (buf, n, found), s1)" and
    2: "(if found then dlift (start_request c es k) else dreturn ())
          (set_req k (\<lambda>r. r\<lparr>rq_original := buf, rq_client_read := n\<rparr>) s1) = Some (Ret (), t)"
    using assms r unfolding read_client_def by (auto simp: dbind_Ret_iff dlift_Ret cmodify_Ret)
  show thesis by (rule that [OF 1]) (use 2 in \<open>auto simp: dlift_Ret c_simps split: if_splits\<close>)
qed

lemma write_serverE:
  assumes "write_server c es k s = Some (Ret (), t)"
  obtains n fin s1 where
    "ep_send c (rq_server_fd (ep_reqs s ! k)) (rq_modified (ep_reqs s ! k)) (int (length (cstr (rq_modified (ep_reqs s ! k)))))
       (rq_server_written (ep_reqs s ! k)) s = Some (Ret (n, fin), s1)" and
    "if fin then
       \<exists>s3. epoll_ctl es CTL_MOD (rq_server_fd (ep_reqs s ! k)) [EPOLLIN, EPOLLET]
              (set_req k (rq_server_written_update (\<lambda>_. n)) s1) = (Ret (), s3) \<and>
            t = set_req k (rq_state_update (\<lambda>_. READ_SERVER)) s3
     else t = set_req k (rq_server_written_update (\<lambda>_. n)) s1"
proof -
  let ?r = "ep_reqs s ! k" and ?req = "cstr (rq_modified (ep_reqs s ! k))"
  have req: "buf_str (rq_modified ?r) = Ret ?req"
    using assms by (auto simp: write_server_def the_req_def buf_str_def split: if_splits)
  obtain n fin s1 where
    1: "ep_send c (rq_server_fd ?r) (rq_modified ?r) (int (length ?req)) (rq_server_written ?r) s = Some (Ret (n, fin), s1)" and
    2: "(if fin then
           dlift (cbind (epoll_ctl es CTL_MOD (rq_server_fd ?r) [EPOLLIN, EPOLLET]) (\<lambda>_.
             cmodify (set_req k (rq_state_update (\<lambda>_. READ_SERVER)))))
         else dreturn ()) (set_req k (rq_server_written_update (\<lambda>_. n)) s1) = Some (Ret (), t)"
    using assms req unfolding write_server_def Let_def the_req_def
    by (auto simp: dbind_Ret_iff dlift_Ret cmodify_Ret)
  show thesis
    by (rule that [OF 1]) (use 2 in \<open>auto simp: dlift_Ret cbind_Ret_iff cmodify_Ret dreturn_def split: if_splits\<close>)
qed

lemma read_serverE:
  assumes "read_server c es k s = Some (Ret (), t)"
  obtains buf n fin s1 where
    "ep_recv_all c (rq_server_fd (ep_reqs s ! k)) (rq_response (ep_reqs s ! k)) (rq_server_read (ep_reqs s ! k)) s =
       Some (Ret (buf, n, fin), s1)" and
    "if fin then
       \<exists>s3. epoll_ctl es CTL_MOD (rq_client_fd (ep_reqs s ! k)) [EPOLLOUT, EPOLLET]
              (set_req k (\<lambda>r. r\<lparr>rq_response := buf, rq_server_read := n\<rparr>) s1) = (Ret (), s3) \<and>
            t = set_req k (rq_server_fd_update (\<lambda>_. - 1))
              (snd (ps_close c (rq_server_fd (ep_reqs s ! k)) (set_req k (rq_state_update (\<lambda>_. WRITE_CLIENT)) s3)))
     else t = set_req k (\<lambda>r. r\<lparr>rq_response := buf, rq_server_read := n\<rparr>) s1"
proof -
  let ?r = "ep_reqs s ! k"
  obtain buf n fin s1 where
    1: "ep_recv_all c (rq_server_fd ?r) (rq_response ?r) (rq_server_read ?r) s = Some (Ret (buf, n, fin), s1)" and
    2: "(if fin then
          dlift (cbind (epoll_ctl es CTL_MOD (rq_client_fd ?r) [EPOLLOUT, EPOLLET]) (\<lambda>_.
            cbind (cmodify (set_req k (rq_state_update (\<lambda>_. WRITE_CLIENT)))) (\<lambda>_.
            cbind (\<lambda>s. (Ret (), snd (ps_close c (rq_server_fd ?r) s))) (\<lambda>_.
              cmodify (set_req k (rq_server_fd_update (\<lambda>_. - 1)))))))
        else dreturn ()) (set_req k (\<lambda>r. r\<lparr>rq_response := buf, rq_server_read := n\<rparr>) s1) = Some (Ret (), t)"
    using assms unfolding read_server_def Let_def the_req_def
    by (auto simp: dbind_Ret_iff dlift_Ret cmodify_Ret)
  show thesis
    by (rule that [OF 1]) (use 2 in \<open>auto simp: dlift_Ret cbind_Ret_iff cmodify_Ret dreturn_def split: if_splits\<close>)
qed

lemma write_clientE:
  assumes "write_client c k s = Some (Ret (), t)"
  obtains n fin s1 where
    "ep_send c (rq_client_fd (ep_reqs s ! k)) (rq_response (ep_reqs s ! k)) (rq_server_read (ep_reqs s ! k))
       (rq_client_written (ep_reqs s ! k)) s = Some (Ret (n, fin), s1)" and
    "t = (if fin then set_req k (rq_client_fd_update (\<lambda>_. - 1))
            (snd (ps_close c (rq_client_fd (ep_reqs s ! k))
              (set_req k (rq_state_update (\<lambda>_. DONE)) (set_req k (rq_client_written_update (\<lambda>_. n)) s1))))
          else set_req k (rq_client_written_update (\<lambda>_. n)) s1)"
proof -
  let ?r = "ep_reqs s ! k"
  obtain n fin s1 where
    1: "ep_send c (rq_client_fd ?r) (rq_response ?r) (rq_server_read ?r) (rq_client_written ?r) s = Some (Ret (n, fin), s1)" and
    2: "(if fin then
          dlift (cbind (cmodify (set_req k (rq_state_update (\<lambda>_. DONE)))) (\<lambda>_.
            cbind (\<lambda>s. (Ret (), snd (ps_close c (rq_client_fd ?r) s))) (\<lambda>_.
              cmodify (set_req k (rq_client_fd_update (\<lambda>_. - 1))))))
        else dreturn ()) (set_req k (rq_client_written_update (\<lambda>_. n)) s1) = Some (Ret (), t)"
    using assms unfolding write_client_def Let_def the_req_def
    by (auto simp: dbind_Ret_iff dlift_Ret cmodify_Ret)
  show thesis
    by (rule that [OF 1]) (use 2 in \<open>auto simp: dlift_Ret cbind_Ret_iff cmodify_Ret dreturn_def split: if_splits\<close>)
qed

lemma add_clientE:
  fixes s :: "'z ep_scheme"
  assumes "add_client c es fd s = (Ret (), t)"
  obtains s1 s2 where "set_nonblock c fd s = (Ret (), s1)" and "epoll_ctl es CTL_ADD fd [EPOLLIN, EPOLLET] s1 = (Ret (), s2)"
    and "length (ep_reqs s2) < REQ_ARRAY_SIZE"
    and "t = s2\<lparr>ep_reqs := ep_reqs s2 @ [req_info_constructor\<lparr>rq_client_fd := fd\<rparr>]\<rparr>"
  using assms unfolding add_client_def by (auto simp: cbind_Ret_iff split: if_splits)

lemma start_request_inv:
  fixes c :: "('z ep_ext, 'ai) psys" and es :: "'z ep_ext epsys"
  assumes "calls_ok c es" and "start_request c es k s = (Ret (), t)" and "k < length (ep_reqs s)"
    and "req_inv (ep_reqs s ! k)" and "rq_state (ep_reqs s ! k) = READ_CLIENT"
  shows "\<exists>r. ep_reqs t = (ep_reqs s)[k := r] \<and> req_inv r \<and> rq_state r = WRITE_SERVER"
proof -
  let ?r = "ep_reqs s ! k"
  obtain h p m s1 s3 fd s5 s7 where
    1: "parse (cstr (rq_original ?r)) [] s = (Ret (h, p, m), s1)" and
    2: "ep_logging c (cstr (rq_original ?r)) (set_req k (rq_modified_update (\<lambda>_. m)) s1) = (Ret (), s3)" and
    4: "connect_to_server c h (Some p) (print_out (''after logging'' @ [LF]) s3) = (Ret fd, s5)" and
    6: "epoll_ctl es CTL_ADD fd [EPOLLOUT, EPOLLET]
          (print_out (''fd: '' @ show_int fd @ [LF]) (set_req k (rq_server_fd_update (\<lambda>_. fd)) s5)) = (Ret (), s7)" and
    7: "t = set_req k (rq_state_update (\<lambda>_. WRITE_SERVER)) s7"
    by (rule start_requestE [OF assms(2)])
  note Q = quiet_progD [OF quiet_parse 1] quiet_progD [OF quiet_logging [OF assms(1)] 2]
    quiet_progD [OF quiet_connect [OF assms(1)] 4] quiet_progD [OF quiet_epoll_ctl [OF assms(1)] 6]
  have "ep_reqs t = (ep_reqs s)[k := ?r\<lparr>rq_modified := m, rq_server_fd := fd, rq_state := WRITE_SERVER\<rparr>]"
    using assms(3) Q by (simp add: 7)
  moreover have "req_inv (?r\<lparr>rq_modified := m, rq_server_fd := fd, rq_state := WRITE_SERVER\<rparr>)"
    using assms(4,5) by (auto simp: req_inv_def)
  ultimately show ?thesis by auto
qed

text \<open>What a handler does to the request it is called for.\<close>

definition handler_ok :: "nat \<Rightarrow> 'z ep_scheme \<Rightarrow> 'z ep_scheme \<Rightarrow> bool" where
  "handler_ok k s t \<longleftrightarrow> (\<exists>r. ep_reqs t = (ep_reqs s)[k := r] \<and> req_inv r)"

lemma read_client_ok:
  fixes c :: "('z ep_ext, 'ai) psys" and es :: "'z ep_ext epsys"
  assumes "calls_ok c es" and "read_client c es k s = Some (Ret (), t)" and "k < length (ep_reqs s)"
    and "req_inv (ep_reqs s ! k)" and "rq_state (ep_reqs s ! k) = READ_CLIENT"
  shows "handler_ok k s t"
proof -
  let ?r = "ep_reqs s ! k"
  obtain buf n fin s1 where
    1: "ep_recv_headers c (rq_client_fd ?r) (rq_original ?r) (rq_client_read ?r) (print_out (''read_client'' @ [LF]) s) =
      Some (Ret (buf, n, fin), s1)" and
    2: "if fin then start_request c es k (set_req k (\<lambda>r. r\<lparr>rq_original := buf, rq_client_read := n\<rparr>) s1) = (Ret (), t)
      else t = set_req k (\<lambda>r. r\<lparr>rq_original := buf, rq_client_read := n\<rparr>) s1"
    by (rule read_clientE [OF assms(2)])
  have ok: "n = int (length buf)" "length buf \<le> MAX_OBJECT_SIZE" "ep_reqs s1 = ep_reqs s"
    using ep_recv_headers_ok [OF assms(1) _ 1, of "ep_reqs s"] assms(4) by (auto simp: req_inv_def recv_ok_def)
  define s2 where "s2 = set_req k (\<lambda>r. r\<lparr>rq_original := buf, rq_client_read := n\<rparr>) s1"
  have s2: "ep_reqs s2 = (ep_reqs s)[k := ?r\<lparr>rq_original := buf, rq_client_read := n\<rparr>]"
    using ok by (simp add: s2_def)
  have inv: "req_inv (?r\<lparr>rq_original := buf, rq_client_read := n\<rparr>)"
    using assms(4,5) ok by (auto simp: req_inv_def)
  show ?thesis
  proof (cases fin)
    case True
    with 2 have "start_request c es k s2 = (Ret (), t)" by (simp add: s2_def)
    from start_request_inv [OF assms(1) this] s2 assms(3,5) inv show ?thesis
      by (auto simp: handler_ok_def)
  next
    case False
    with 2 s2 inv show ?thesis by (auto simp: handler_ok_def s2_def)
  qed
qed

lemma write_server_ok:
  fixes c :: "('z ep_ext, 'ai) psys" and es :: "'z ep_ext epsys"
  assumes "calls_ok c es" and "write_server c es k s = Some (Ret (), t)" and "k < length (ep_reqs s)"
    and "req_inv (ep_reqs s ! k)" and "rq_state (ep_reqs s ! k) = WRITE_SERVER"
  shows "handler_ok k s t"
proof -
  let ?r = "ep_reqs s ! k" and ?req = "cstr (rq_modified (ep_reqs s ! k))"
  obtain n fin s1 where
    1: "ep_send c (rq_server_fd ?r) (rq_modified ?r) (int (length ?req)) (rq_server_written ?r) s = Some (Ret (n, fin), s1)" and
    2: "if fin then
         \<exists>s3. epoll_ctl es CTL_MOD (rq_server_fd ?r) [EPOLLIN, EPOLLET] (set_req k (rq_server_written_update (\<lambda>_. n)) s1) = (Ret (), s3) \<and>
           t = set_req k (rq_state_update (\<lambda>_. READ_SERVER)) s3
       else t = set_req k (rq_server_written_update (\<lambda>_. n)) s1"
    by (rule write_serverE [OF assms(2)])
  have ok: "rq_server_written ?r \<le> n" "n \<le> int (length ?req)" "fin \<longrightarrow> n = int (length ?req)" "ep_reqs s1 = ep_reqs s"
    using ep_send_ok [OF assms(1) _ 1] assms(4) by (auto simp: req_inv_def)
  define s2 where "s2 = set_req k (rq_server_written_update (\<lambda>_. n)) s1"
  have s2: "ep_reqs s2 = (ep_reqs s)[k := ?r\<lparr>rq_server_written := n\<rparr>]" using ok by (simp add: s2_def)
  show ?thesis
  proof (cases fin)
    case True
    with 2 obtain s3 where 3: "epoll_ctl es CTL_MOD (rq_server_fd ?r) [EPOLLIN, EPOLLET] s2 = (Ret (), s3)"
      and t: "t = set_req k (rq_state_update (\<lambda>_. READ_SERVER)) s3"
      by (auto simp: s2_def)
    have "ep_reqs t = (ep_reqs s)[k := ?r\<lparr>rq_server_written := n, rq_state := READ_SERVER\<rparr>]"
      using quiet_progD [OF quiet_epoll_ctl [OF assms(1)] 3] s2 t assms(3) by simp
    moreover have "req_inv (?r\<lparr>rq_server_written := n, rq_state := READ_SERVER\<rparr>)"
      using assms(4,5) ok True by (auto simp: req_inv_def)
    ultimately show ?thesis by (auto simp: handler_ok_def)
  next
    case False
    with 2 have "t = s2" by (simp add: s2_def)
    moreover have "req_inv (?r\<lparr>rq_server_written := n\<rparr>)" using assms(4,5) ok by (auto simp: req_inv_def)
    ultimately show ?thesis using s2 by (auto simp: handler_ok_def)
  qed
qed

lemma read_server_ok:
  fixes c :: "('z ep_ext, 'ai) psys" and es :: "'z ep_ext epsys"
  assumes "calls_ok c es" and "read_server c es k s = Some (Ret (), t)" and "k < length (ep_reqs s)"
    and "req_inv (ep_reqs s ! k)" and "rq_state (ep_reqs s ! k) = READ_SERVER"
  shows "handler_ok k s t"
proof -
  let ?r = "ep_reqs s ! k"
  obtain buf n fin s1 where
    1: "ep_recv_all c (rq_server_fd ?r) (rq_response ?r) (rq_server_read ?r) s = Some (Ret (buf, n, fin), s1)" and
    2: "if fin then
         \<exists>s3. epoll_ctl es CTL_MOD (rq_client_fd ?r) [EPOLLOUT, EPOLLET]
             (set_req k (\<lambda>r. r\<lparr>rq_response := buf, rq_server_read := n\<rparr>) s1) = (Ret (), s3) \<and>
           t = set_req k (rq_server_fd_update (\<lambda>_. - 1))
             (snd (ps_close c (rq_server_fd ?r) (set_req k (rq_state_update (\<lambda>_. WRITE_CLIENT)) s3)))
       else t = set_req k (\<lambda>r. r\<lparr>rq_response := buf, rq_server_read := n\<rparr>) s1"
    by (rule read_serverE [OF assms(2)])
  have ok: "n = int (length buf)" "length buf \<le> MAX_OBJECT_SIZE" "ep_reqs s1 = ep_reqs s"
    using ep_recv_all_ok [OF assms(1) _ 1, of "ep_reqs s"] assms(4) by (auto simp: req_inv_def recv_ok_def)
  define s2 where "s2 = set_req k (\<lambda>r. r\<lparr>rq_response := buf, rq_server_read := n\<rparr>) s1"
  have s2: "ep_reqs s2 = (ep_reqs s)[k := ?r\<lparr>rq_response := buf, rq_server_read := n\<rparr>]"
    using ok by (simp add: s2_def)
  show ?thesis
  proof (cases fin)
    case True
    with 2 obtain s3 where 3: "epoll_ctl es CTL_MOD (rq_client_fd ?r) [EPOLLOUT, EPOLLET] s2 = (Ret (), s3)"
      and t: "t = set_req k (rq_server_fd_update (\<lambda>_. - 1))
        (snd (ps_close c (rq_server_fd ?r) (set_req k (rq_state_update (\<lambda>_. WRITE_CLIENT)) s3)))"
      by (auto simp: s2_def)
    have "ep_reqs t = (ep_reqs s)[k := ?r\<lparr>rq_response := buf, rq_server_read := n, rq_state := WRITE_CLIENT, rq_server_fd := - 1\<rparr>]"
      using quiet_progD [OF quiet_epoll_ctl [OF assms(1)] 3] calls_okD(11) [OF assms(1)] s2 t assms(3) by simp
    moreover have "req_inv (?r\<lparr>rq_response := buf, rq_server_read := n, rq_state := WRITE_CLIENT, rq_server_fd := - 1\<rparr>)"
      using assms(4,5) ok True by (auto simp: req_inv_def)
    ultimately show ?thesis by (auto simp: handler_ok_def)
  next
    case False
    with 2 have "t = s2" by (simp add: s2_def)
    moreover have "req_inv (?r\<lparr>rq_response := buf, rq_server_read := n\<rparr>)" using assms(4,5) ok by (auto simp: req_inv_def)
    ultimately show ?thesis using s2 by (auto simp: handler_ok_def)
  qed
qed

lemma write_client_ok:
  fixes c :: "('z ep_ext, 'ai) psys" and es :: "'z ep_ext epsys"
  assumes "calls_ok c es" and "write_client c k s = Some (Ret (), t)" and "k < length (ep_reqs s)"
    and "req_inv (ep_reqs s ! k)" and "rq_state (ep_reqs s ! k) = WRITE_CLIENT"
  shows "handler_ok k s t"
proof -
  let ?r = "ep_reqs s ! k"
  obtain n fin s1 where
    1: "ep_send c (rq_client_fd ?r) (rq_response ?r) (rq_server_read ?r) (rq_client_written ?r) s = Some (Ret (n, fin), s1)" and
    2: "t = (if fin then set_req k (rq_client_fd_update (\<lambda>_. - 1))
          (snd (ps_close c (rq_client_fd ?r) (set_req k (rq_state_update (\<lambda>_. DONE)) (set_req k (rq_client_written_update (\<lambda>_. n)) s1))))
        else set_req k (rq_client_written_update (\<lambda>_. n)) s1)"
    by (rule write_clientE [OF assms(2)])
  have ok: "rq_client_written ?r \<le> n" "n \<le> rq_server_read ?r" "fin \<longrightarrow> n = rq_server_read ?r" "ep_reqs s1 = ep_reqs s"
    using ep_send_ok [OF assms(1) _ 1] assms(4) by (auto simp: req_inv_def)
  define s2 where "s2 = set_req k (rq_client_written_update (\<lambda>_. n)) s1"
  have s2: "ep_reqs s2 = (ep_reqs s)[k := ?r\<lparr>rq_client_written := n\<rparr>]" using ok by (simp add: s2_def)
  show ?thesis
  proof (cases fin)
    case True
    with 2 have t: "t = set_req k (rq_client_fd_update (\<lambda>_. - 1))
        (snd (ps_close c (rq_client_fd ?r) (set_req k (rq_state_update (\<lambda>_. DONE)) s2)))"
      by (simp add: s2_def)
    have "ep_reqs t = (ep_reqs s)[k := ?r\<lparr>rq_client_written := n, rq_state := DONE, rq_client_fd := - 1\<rparr>]"
      using calls_okD(11) [OF assms(1)] s2 t assms(3) by simp
    moreover have "req_inv (?r\<lparr>rq_client_written := n, rq_state := DONE, rq_client_fd := - 1\<rparr>)"
      using assms(4,5) ok True by (auto simp: req_inv_def)
    ultimately show ?thesis by (auto simp: handler_ok_def)
  next
    case False
    with 2 have "t = s2" by (simp add: s2_def)
    moreover have "req_inv (?r\<lparr>rq_client_written := n\<rparr>)" using assms(4,5) ok by (auto simp: req_inv_def)
    ultimately show ?thesis using s2 by (auto simp: handler_ok_def)
  qed
qed

lemma dispatch_inv:
  fixes c :: "('z ep_ext, 'ai) psys" and es :: "'z ep_ext epsys"
  assumes "calls_ok c es" and "dispatch c es k s = Some (Ret (), t)" and "k < length (ep_reqs s)" and "reqs_inv s"
  shows "reqs_inv t"
proof -
  note inv = reqs_inv_nth [OF assms(4,3)]
  consider "rq_state (ep_reqs s ! k) = READ_CLIENT" "read_client c es k s = Some (Ret (), t)"
    | "rq_state (ep_reqs s ! k) = WRITE_SERVER" "write_server c es k s = Some (Ret (), t)"
    | "rq_state (ep_reqs s ! k) = READ_SERVER" "read_server c es k s = Some (Ret (), t)"
    | "rq_state (ep_reqs s ! k) = WRITE_CLIENT" "write_client c k s = Some (Ret (), t)"
    | "ep_reqs t = ep_reqs s"
    using assms(2) unfolding dispatch_def the_req_def Let_def by (auto split: if_splits)
  then show ?thesis
  proof cases
    case 1
    with read_client_ok [OF assms(1) _ assms(3) inv] show ?thesis
      by (auto simp: handler_ok_def intro: reqs_inv_update [OF assms(4)])
  next
    case 2
    with write_server_ok [OF assms(1) _ assms(3) inv] show ?thesis
      by (auto simp: handler_ok_def intro: reqs_inv_update [OF assms(4)])
  next
    case 3
    with read_server_ok [OF assms(1) _ assms(3) inv] show ?thesis
      by (auto simp: handler_ok_def intro: reqs_inv_update [OF assms(4)])
  next
    case 4
    with write_client_ok [OF assms(1) _ assms(3) inv] show ?thesis
      by (auto simp: handler_ok_def intro: reqs_inv_update [OF assms(4)])
  next
    case 5
    from reqs_inv_same [OF this] assms(4) show ?thesis by blast
  qed
qed

lemma add_client_inv:
  fixes c :: "('z ep_ext, 'ai) psys" and es :: "'z ep_ext epsys"
  assumes "calls_ok c es" and "add_client c es fd s = (Ret (), t)" and "reqs_inv s"
  shows "reqs_inv t"
proof -
  obtain s1 s2 where 1: "set_nonblock c fd s = (Ret (), s1)"
    and 2: "epoll_ctl es CTL_ADD fd [EPOLLIN, EPOLLET] s1 = (Ret (), s2)"
    and 3: "length (ep_reqs s2) < REQ_ARRAY_SIZE"
    and t: "t = s2\<lparr>ep_reqs := ep_reqs s2 @ [req_info_constructor\<lparr>rq_client_fd := fd\<rparr>]\<rparr>"
    by (rule add_clientE [OF assms(2)])
  have "ep_reqs s2 = ep_reqs s"
    using quiet_progD [OF quiet_nonblock [OF assms(1)] 1] quiet_progD [OF quiet_epoll_ctl [OF assms(1)] 2] by simp
  moreover have "req_inv (req_info_constructor\<lparr>rq_client_fd := fd\<rparr>)"
    by (simp add: req_inv_def req_info_constructor_def cstr_def)
  ultimately show ?thesis using assms(3) 3 t by (simp add: reqs_inv_def)
qed

lemma accept_loop_rule:
  fixes c :: "('z ep_ext, 'ai) psys" and es :: "'z ep_ext epsys"
  assumes "accept_loop c es fd s = Some (Ret (), t)" and "I s"
    and step: "\<And>s connfd s1 s2. I s \<Longrightarrow> ps_accept c fd s = (connfd, s1) \<Longrightarrow> 0 < connfd \<Longrightarrow>
      add_client c es connfd s1 = (Ret (), s2) \<Longrightarrow> I s2"
    and last: "\<And>s connfd s1. I s \<Longrightarrow> ps_accept c fd s = (connfd, s1) \<Longrightarrow> connfd \<le> 0 \<Longrightarrow>
      I s1 \<and> I (perror (ps_strerror c) ''error accepting'' s1)"
  shows "I t"
proof -
  let ?P = "\<lambda>c' es' fd' s y. c' = c \<and> es' = es \<and> fd' = fd \<and> I s \<longrightarrow> (\<forall>t. y = (Ret (), t) \<longrightarrow> I t)"
  have "?P c es fd s (Ret (), t)"
    using assms(1)
  proof (rule accept_loop.raw_induct [of ?P, rotated])
    fix f :: "('z ep_ext, 'ai) psys \<Rightarrow> 'z ep_ext epsys \<Rightarrow> int \<Rightarrow> 'z ep_scheme \<Rightarrow> (unit outcome \<times> 'z ep_scheme) option"
      and c' :: "('z ep_ext, 'ai) psys" and es' :: "'z ep_ext epsys" and fd' and s :: "'z ep_scheme" and y
    assume IH: "\<And>c' es' fd' s y. f c' es' fd' s = Some y \<Longrightarrow> ?P c' es' fd' s y"
      and body: "(case ps_accept c' fd' s of
        (connfd, s1) \<Rightarrow>
          if 0 < connfd then
            (case add_client c' es' connfd s1 of
               (r, s2) \<Rightarrow>
                 (case r of
                    Ret u \<Rightarrow> f c' es' fd' s2
                  | Exited k \<Rightarrow> Some (Exited k, s2)
                  | Fault e \<Rightarrow> Some (Fault e, s2)))
          else
            Some (Ret (), if w_errno s1 = EAGAIN then s1 else perror (ps_strerror c') ''error accepting'' s1)) = Some y"
    show "?P c' es' fd' s y"
    proof
      assume pre: "c' = c \<and> es' = es \<and> fd' = fd \<and> I s"
      obtain connfd s1 where 1: "ps_accept c fd s = (connfd, s1)" by fastforce
      obtain r s2 where 2: "add_client c es connfd s1 = (r, s2)" by fastforce
      show "\<forall>t. y = (Ret (), t) \<longrightarrow> I t"
      proof (cases "0 < connfd \<and> r = Ret ()")
        case True
        with body pre 1 2 have "f c es fd s2 = Some y" by simp
        with IH step [OF _ 1 _ 2 [unfolded conjunct2 [OF True]]] pre True show ?thesis by blast
      next
        case False
        with body pre 1 2 last [OF _ 1] show ?thesis by (auto split: if_splits outcome.splits)
      qed
    qed
  qed
  with assms(2) show ?thesis by blast
qed

lemma accept_loop_inv:
  fixes c :: "('z ep_ext, 'ai) psys" and es :: "'z ep_ext epsys"
  assumes "calls_ok c es" and "accept_loop c es fd s = Some (Ret (), t)" and "reqs_inv s"
  shows "reqs_inv t"
proof (rule accept_loop_rule [OF assms(2), of reqs_inv])
  show "reqs_inv s2" if "reqs_inv s" "ps_accept c fd s = (connfd, s1)" "add_client c es connfd s1 = (Ret (), s2)"
    for s connfd s1 and s2 :: "'z ep_scheme"
    using add_client_inv [OF assms(1) that(3)] calls_okD(5) [OF assms(1) that(2)] that(1) by (simp add: reqs_inv_def)
  show "reqs_inv s1 \<and> reqs_inv (perror (ps_strerror c) ''error accepting'' s1)"
    if "reqs_inv s" "ps_accept c fd s = (connfd, s1)" for s connfd and s1 :: "'z ep_scheme"
    using calls_okD(5) [OF assms(1) that(2)] that(1) by (simp add: reqs_inv_def)
qed (rule assms(3))

lemma handle_event_inv:
  fixes c :: "('z ep_ext, 'ai) psys" and es :: "'z ep_ext epsys"
  assumes "calls_ok c es" and "handle_event c es listenfd e s = Some (Ret (), t)" and "reqs_inv s"
  shows "reqs_inv t"
proof -
  consider "ep_reqs t = ep_reqs s"
    | "accept_loop c es listenfd s = Some (Ret (), t)"
    | k where "find_fd (fst e) (ep_reqs s) = Some k" "dispatch c es k s = Some (Ret (), t)"
    using assms(2) calls_okD(11) [OF assms(1)] unfolding handle_event_def Let_def
    by (auto split: if_splits option.splits)
  then show ?thesis
  proof cases
    case 1
    from reqs_inv_same [OF this] assms(3) show ?thesis by blast
  next
    case 2
    with accept_loop_inv [OF assms(1) _ assms(3)] show ?thesis by blast
  next
    case (3 k)
    then have "k < length (ep_reqs s)" by (auto simp: find_fd_def dest: first_index_SomeD(1))
    with dispatch_inv [OF assms(1) 3(2) _ assms(3)] show ?thesis by blast
  qed
qed

end
