(* ===== verification/Proxy_Epoll_Net.thy ===== *)
theory Proxy_Epoll_Net
  imports Proxy_Epoll_Proofs
begin

text \<open>
  The connections behind the descriptors of the event-driven proxy, the bytes that pass over
  them, and what the calls and the shared parts of the handlers do to them.
\<close>

section \<open>Connections\<close>

text \<open>
  The connections of the process, numbered as they are opened: which one a descriptor leads to,
  and what has been sent and received on each, also after it was closed.
\<close>

record net =
  nt_conn :: "int \<Rightarrow> nat option"
  nt_sent :: "nat \<Rightarrow> string"
  nt_rcvd :: "nat \<Rightarrow> string"
  nt_next :: nat

definition net_wf :: "net \<Rightarrow> bool" where
  "net_wf n \<longleftrightarrow> nt_conn n (- 1) = None \<and> (\<forall>fd x. nt_conn n fd = Some x \<longrightarrow> x < nt_next n)"

definition net_open :: "int \<Rightarrow> net \<Rightarrow> net" where
  "net_open fd n = n\<lparr>nt_conn := (nt_conn n)(fd \<mapsto> nt_next n), nt_sent := (nt_sent n)(nt_next n := []),
     nt_rcvd := (nt_rcvd n)(nt_next n := []), nt_next := Suc (nt_next n)\<rparr>"

definition net_close :: "int \<Rightarrow> net \<Rightarrow> net" where
  "net_close fd n = n\<lparr>nt_conn := (nt_conn n)(fd := None)\<rparr>"

definition net_send :: "nat \<Rightarrow> string \<Rightarrow> net \<Rightarrow> net" where
  "net_send x d n = n\<lparr>nt_sent := (nt_sent n)(x := d)\<rparr>"

definition net_recv :: "nat \<Rightarrow> string \<Rightarrow> net \<Rightarrow> net" where
  "net_recv x d n = n\<lparr>nt_rcvd := (nt_rcvd n)(x := d)\<rparr>"

lemmas net_defs = net_open_def net_close_def net_send_def net_recv_def

text \<open>
  What the calls do to the connections, which are seen through \<open>view\<close>: \<open>accept\<close> and \<open>socket\<close>
  return -1 or a descriptor that was not open; \<open>read\<close> and \<open>write\<close> move bytes of the connection
  of the descriptor, unless they return -1; \<open>fcntl\<close> fails on a descriptor that is not open;
  the other calls leave the connections alone.
\<close>

definition opens :: "int \<Rightarrow> net \<Rightarrow> net \<Rightarrow> bool" where
  "opens fd n m \<longleftrightarrow> (if fd = - 1 then m = n else nt_conn n fd = None \<and> m = net_open fd n)"

definition net_calls :: "('z \<Rightarrow> net) \<Rightarrow> ('z ep_ext, 'ai) psys \<Rightarrow> 'z ep_ext epsys \<Rightarrow> bool" where
  "net_calls view c es \<longleftrightarrow>
     (let N = (\<lambda>s. view (ep.more s)) in
     (\<forall>fd n s x. nt_conn (N s) fd = Some x \<longrightarrow> (case ps_read c fd n s of ((r, d), t) \<Rightarrow>
        N t = (if r = - 1 then N s else net_recv x (nt_rcvd (N s) x @ d) (N s)))) \<and>
     (\<forall>fd d s x. nt_conn (N s) fd = Some x \<longrightarrow> (case ps_write c fd d s of (e, t) \<Rightarrow>
        N t = (if e = - 1 then N s else net_send x (nt_sent (N s) x @ take (nat e) d) (N s)))) \<and>
     (\<forall>fd s. N (snd (ps_close c fd s)) = net_close fd (N s)) \<and>
     (\<forall>fd s. case ps_accept c fd s of (e, t) \<Rightarrow> opens e (N s) (N t)) \<and>
     (\<forall>a s. case ps_socket c a s of (e, t) \<Rightarrow> opens e (N s) (N t)) \<and>
     (\<forall>fd f s. case ps_setfl c fd f s of (e, t) \<Rightarrow>
        N t = N s \<and> (0 \<le> e \<longrightarrow> nt_conn (N s) fd \<noteq> None)) \<and>
     (\<forall>fd s. N (snd (ps_getfl c fd s)) = N s) \<and>
     (\<forall>s. N (snd (ps_time c s)) = N s) \<and>
     (\<forall>h p x s. N (snd (ps_getaddrinfo c h p x s)) = N s) \<and>
     (\<forall>l s. N (snd (ps_freeaddrinfo c l s)) = N s) \<and>
     (\<forall>fd a s. N (snd (ps_connect c fd a s)) = N s) \<and>
     (\<forall>efd op fd evs s. N (snd (es_ctl es efd op fd evs s)) = N s))"

lemma net_callsD:
  assumes "net_calls view c es"
  shows "ps_read c fd m s = ((r, d), t) \<Longrightarrow> nt_conn (view (ep.more s)) fd = Some x \<Longrightarrow>
      view (ep.more t) = (if r = - 1 then view (ep.more s)
        else net_recv x (nt_rcvd (view (ep.more s)) x @ d) (view (ep.more s)))"
    and "ps_write c fd d s = (e, t) \<Longrightarrow> nt_conn (view (ep.more s)) fd = Some x \<Longrightarrow>
      view (ep.more t) = (if e = - 1 then view (ep.more s)
        else net_send x (nt_sent (view (ep.more s)) x @ take (nat e) d) (view (ep.more s)))"
    and "view (ep.more (snd (ps_close c fd s))) = net_close fd (view (ep.more s))"
    and "ps_accept c fd s = (e, t) \<Longrightarrow> opens e (view (ep.more s)) (view (ep.more t))"
    and "ps_socket c a s = (e, t) \<Longrightarrow> opens e (view (ep.more s)) (view (ep.more t))"
    and "ps_setfl c fd f s = (e, t) \<Longrightarrow> view (ep.more t) = view (ep.more s) \<and>
      (0 \<le> e \<longrightarrow> nt_conn (view (ep.more s)) fd \<noteq> None)"
    and "ps_getfl c fd s = (e, t) \<Longrightarrow> view (ep.more t) = view (ep.more s)"
    and "ps_time c s = (e, t) \<Longrightarrow> view (ep.more t) = view (ep.more s)"
    and "ps_getaddrinfo c h p y s = (res, t) \<Longrightarrow> view (ep.more t) = view (ep.more s)"
    and "view (ep.more (snd (ps_freeaddrinfo c l s))) = view (ep.more s)"
    and "ps_connect c fd a s = (e, t) \<Longrightarrow> view (ep.more t) = view (ep.more s)"
    and "es_ctl es efd opn fd evs s = (e, t) \<Longrightarrow> view (ep.more t) = view (ep.more s)"
proof -
  let ?N = "\<lambda>s. view (ep.more s)"
  note L = assms [unfolded net_calls_def Let_def]
  note laws = L [THEN conjunct1]
    L [THEN conjunct2, THEN conjunct1]
    L [THEN conjunct2, THEN conjunct2, THEN conjunct1]
    L [THEN conjunct2, THEN conjunct2, THEN conjunct2, THEN conjunct1]
    L [THEN conjunct2, THEN conjunct2, THEN conjunct2, THEN conjunct2, THEN conjunct1]
    L [THEN conjunct2, THEN conjunct2, THEN conjunct2, THEN conjunct2, THEN conjunct2, THEN conjunct1]
    L [THEN conjunct2, THEN conjunct2, THEN conjunct2, THEN conjunct2, THEN conjunct2, THEN conjunct2, THEN conjunct1]
    L [THEN conjunct2, THEN conjunct2, THEN conjunct2, THEN conjunct2, THEN conjunct2, THEN conjunct2, THEN conjunct2, THEN conjunct1]
    L [THEN conjunct2, THEN conjunct2, THEN conjunct2, THEN conjunct2, THEN conjunct2, THEN conjunct2, THEN conjunct2, THEN conjunct2, THEN conjunct1]
    L [THEN conjunct2, THEN conjunct2, THEN conjunct2, THEN conjunct2, THEN conjunct2, THEN conjunct2, THEN conjunct2, THEN conjunct2, THEN conjunct2, THEN conjunct1]
    L [THEN conjunct2, THEN conjunct2, THEN conjunct2, THEN conjunct2, THEN conjunct2, THEN conjunct2, THEN conjunct2, THEN conjunct2, THEN conjunct2, THEN conjunct2, THEN conjunct1]
    L [THEN conjunct2, THEN conjunct2, THEN conjunct2, THEN conjunct2, THEN conjunct2, THEN conjunct2, THEN conjunct2, THEN conjunct2, THEN conjunct2, THEN conjunct2, THEN conjunct2]
  show "ps_read c fd m s = ((r, d), t) \<Longrightarrow> nt_conn (?N s) fd = Some x \<Longrightarrow>
      ?N t = (if r = - 1 then ?N s else net_recv x (nt_rcvd (?N s) x @ d) (?N s))" using laws(1) [rule_format, of s fd x m] by simp
  show "ps_write c fd d s = (e, t) \<Longrightarrow> nt_conn (?N s) fd = Some x \<Longrightarrow>
      ?N t = (if e = - 1 then ?N s else net_send x (nt_sent (?N s) x @ take (nat e) d) (?N s))" using laws(2) [rule_format, of s fd x d] by simp
  show "?N (snd (ps_close c fd s)) = net_close fd (?N s)" "?N (snd (ps_freeaddrinfo c l s)) = ?N s"
    using laws(3,10) by blast+
  show "ps_accept c fd s = (e, t) \<Longrightarrow> opens e (?N s) (?N t)" using laws(4) [rule_format, of s fd] by simp
  show "ps_socket c a s = (e, t) \<Longrightarrow> opens e (?N s) (?N t)" using laws(5) [rule_format, of s a] by simp
  show "ps_setfl c fd f s = (e, t) \<Longrightarrow> ?N t = ?N s \<and> (0 \<le> e \<longrightarrow> nt_conn (?N s) fd \<noteq> None)" using laws(6) [rule_format, of s fd f] by simp
  show "ps_getfl c fd s = (e, t) \<Longrightarrow> ?N t = ?N s" using laws(7) [rule_format, of fd s] by simp
  show "ps_time c s = (e, t) \<Longrightarrow> ?N t = ?N s" using laws(8) [rule_format, of s] by simp
  show "ps_getaddrinfo c h p y s = (res, t) \<Longrightarrow> ?N t = ?N s" using laws(9) [rule_format, of h p y s] by simp
  show "ps_connect c fd a s = (e, t) \<Longrightarrow> ?N t = ?N s" using laws(11) [rule_format, of fd a s] by simp
  show "es_ctl es efd opn fd evs s = (e, t) \<Longrightarrow> ?N t = ?N s" using laws(12) [rule_format, of efd opn fd evs s] by simp
qed

section \<open>Other connections\<close>

text \<open>The connections in \<open>A\<close> that exist are still as they were.\<close>

definition net_keeps :: "nat set \<Rightarrow> net \<Rightarrow> net \<Rightarrow> bool" where
  "net_keeps A n m \<longleftrightarrow> nt_next n \<le> nt_next m \<and> (net_wf n \<longrightarrow> net_wf m) \<and>
     (\<forall>i \<in> A. i < nt_next n \<longrightarrow> nt_sent m i = nt_sent n i \<and> nt_rcvd m i = nt_rcvd n i \<and>
        (\<forall>fd. nt_conn n fd = Some i \<longrightarrow> nt_conn m fd = Some i))"

lemma net_keeps_refl [simp]: "net_keeps A n n"
  by (simp add: net_keeps_def)

lemma net_keeps_trans:
  assumes "net_keeps A n m" and "net_keeps A m k"
  shows "net_keeps A n k"
proof -
  have "i < nt_next m" if "i < nt_next n" for i using assms(1) that by (simp add: net_keeps_def)
  with assms show ?thesis unfolding net_keeps_def by simp
qed

lemma net_keeps_below: "net_keeps {..<nt_next n} n m = net_keeps UNIV n m"
  by (auto simp: net_keeps_def)

lemma net_keeps_mono: "net_keeps B n m \<Longrightarrow> A \<subseteq> B \<Longrightarrow> net_keeps A n m"
  unfolding net_keeps_def by blast

lemma net_keeps_open:
  assumes "nt_conn n fd = None" and "fd \<noteq> - 1"
  shows "net_keeps A n (net_open fd n)"
  using assms unfolding net_keeps_def net_wf_def net_open_def by (auto simp: less_Suc_eq)

lemma net_keeps_data: "net_keeps (- {x}) n (net_send x d n)" "net_keeps (- {x}) n (net_recv x d n)"
  by (auto simp: net_keeps_def net_wf_def net_defs)

lemma net_keeps_close: "(\<And>x. nt_conn n fd = Some x \<Longrightarrow> x \<notin> A) \<Longrightarrow> net_keeps A n (net_close fd n)"
  by (auto simp: net_keeps_def net_wf_def net_close_def)

lemma opens_keeps: "opens fd n m \<Longrightarrow> net_keeps A n m"
  by (auto simp: opens_def net_keeps_open split: if_splits)

section \<open>Programs that leave the data alone\<close>

lemma more_simps [simp]:
  fixes s :: "'z ep_scheme"
  shows "ep.more (print_out m s) = ep.more s" and "ep.more (print_err m s) = ep.more s"
    and "ep.more (set_req k f s) = ep.more s" and "ep.more (perror strerror m s) = ep.more s"
  by (simp_all add: print_out_def print_err_def set_req_def perror_def)

lemma parse_more:
  fixes s :: "'z ep_scheme"
  assumes "parse buf p s = (r, t)"
  shows "ep.more t = ep.more s"
proof -
  have "ep.more (snd (parse_core buf s)) = ep.more s"
    by (auto simp: parse_core_def Let_def split: prod.split option.split)
  with assms show ?thesis
    by (auto simp: parse_def cbind_def creturn_def split: prod.splits outcome.splits)
qed

lemma epoll_ctl_net:
  assumes "net_calls view c es" and "epoll_ctl es op fd evs s = (r, t)"
  shows "view (ep.more t) = view (ep.more s)"
  using assms(2) net_callsD(12) [OF assms(1)] unfolding epoll_ctl_def
  by (auto split: prod.splits if_splits)

lemma ep_logging_net:
  assumes "net_calls view c es" and "ep_logging c buf s = (r, t)"
  shows "view (ep.more t) = view (ep.more s)"
  using assms(2) net_callsD(8) [OF assms(1)] unfolding ep_logging_def
  by (auto split: prod.splits option.splits)

lemma set_nonblock_net:
  fixes c :: "('z ep_ext, 'ai) psys" and s :: "'z ep_scheme"
  assumes "net_calls view c es" and "set_nonblock c fd s = (Ret (), t)"
  shows "view (ep.more t) = view (ep.more s)" and "nt_conn (view (ep.more s)) fd \<noteq> None"
proof -
  obtain fl s1 where 1: "ps_getfl c fd s = (fl, s1)" by fastforce
  obtain rc s2 where 2: "ps_setfl c fd (fl OR O_NONBLOCK) s1 = (rc, s2)" by fastforce
  from assms(2) 1 2 have "0 \<le> rc" "t = s2" by (auto simp: set_nonblock_def split: if_splits)
  with net_callsD(7) [OF assms(1) 1] net_callsD(6) [OF assms(1) 2]
  show "view (ep.more t) = view (ep.more s)" "nt_conn (view (ep.more s)) fd \<noteq> None" by auto
qed

section \<open>Connecting to a server\<close>

text \<open>If a descriptor is open, its connection is new since \<open>n\<close> and unused.\<close>

definition fresh_fd :: "net \<Rightarrow> net \<Rightarrow> int \<Rightarrow> bool" where
  "fresh_fd n m fd \<longleftrightarrow> (\<forall>y. nt_conn m fd = Some y \<longrightarrow> nt_next n \<le> y \<and> nt_sent m y = [] \<and> nt_rcvd m y = [])"

lemma keeps_close_new:
  assumes "net_keeps UNIV n m" and "fresh_fd n m fd"
  shows "net_keeps UNIV n (net_close fd m)"
proof -
  have "net_keeps {..<nt_next n} m (net_close fd m)"
    using assms(2) by (intro net_keeps_close) (auto simp: fresh_fd_def)
  moreover have "net_keeps {..<nt_next n} n m" using assms(1) by (simp add: net_keeps_below)
  ultimately have "net_keeps {..<nt_next n} n (net_close fd m)" by (rule net_keeps_trans [rotated])
  then show ?thesis by (simp add: net_keeps_below)
qed

lemma connect_walk_net:
  fixes c :: "('z ep_ext, 'ai) psys" and s :: "'z ep_scheme"
  assumes calls: "net_calls view c es" and wf: "net_wf n"
  shows "net_keeps UNIV n (view (ep.more s)) \<Longrightarrow> (\<And>fd. h = Some fd \<Longrightarrow> fresh_fd n (view (ep.more s)) fd) \<Longrightarrow>
    connect_walk c rps h s = ((found, h'), t) \<Longrightarrow>
    net_keeps UNIV n (view (ep.more t)) \<and> (\<forall>fd. h' = Some fd \<longrightarrow> fresh_fd n (view (ep.more t)) fd)"
proof (induction rps arbitrary: h s)
  case (Cons rp rps)
  obtain fd s1 where 1: "ps_socket c rp s = (fd, s1)" by fastforce
  obtain rc s2 where 2: "ps_connect c fd rp s1 = (rc, s2)" by fastforce
  note op = net_callsD(5) [OF calls 1] and same = net_callsD(11) [OF calls 2]
  have keeps1: "net_keeps UNIV n (view (ep.more s1))"
    using Cons.prems(1) opens_keeps [OF op] by (rule net_keeps_trans)
  then have wf1: "net_wf (view (ep.more s1))" using wf by (simp add: net_keeps_def)
  have next_le: "nt_next n \<le> nt_next (view (ep.more s))" using Cons.prems(1) by (simp add: net_keeps_def)
  have fresh: "fresh_fd n (view (ep.more s1)) fd"
  proof (cases "fd = - 1")
    case True
    with wf1 show ?thesis by (simp add: fresh_fd_def net_wf_def)
  next
    case False
    with op next_le show ?thesis by (simp add: opens_def fresh_fd_def net_open_def)
  qed
  show ?case
  proof (cases "fd = - 1")
    case True
    with Cons.prems(3) 1 have "connect_walk c rps (Some fd) s1 = ((found, h'), t)" by simp
    from Cons.IH [OF keeps1 _ this] fresh show ?thesis by simp
  next
    case False
    show ?thesis
    proof (cases "rc = - 1")
      case True
      let ?s3 = "snd (ps_close c fd s2)"
      have n3: "view (ep.more ?s3) = net_close fd (view (ep.more s1))" by (simp add: net_callsD(3) [OF calls] same)
      have "net_keeps UNIV n (view (ep.more ?s3))" unfolding n3 by (rule keeps_close_new [OF keeps1 fresh])
      moreover have "fresh_fd n (view (ep.more ?s3)) fd" by (simp add: n3 fresh_fd_def net_close_def)
      moreover have "connect_walk c rps (Some fd) ?s3 = ((found, h'), t)" using Cons.prems(3) 1 2 False True by simp
      ultimately show ?thesis using Cons.IH [of ?s3 "Some fd"] by simp
    next
      case False
      with Cons.prems(3) 1 2 \<open>fd \<noteq> - 1\<close> have "h' = Some fd" "t = s2" by auto
      with keeps1 fresh same show ?thesis by simp
    qed
  qed
qed auto

lemma connect_net:
  fixes c :: "('z ep_ext, 'ai) psys" and s :: "'z ep_scheme"
  assumes calls: "net_calls view c es" and wf: "net_wf (view (ep.more s))"
    and con: "connect_to_server c host port s = (Ret fd, t)"
  obtains y where "nt_conn (view (ep.more t)) fd = Some y" and "nt_next (view (ep.more s)) \<le> y"
    and "nt_sent (view (ep.more t)) y = []" and "nt_rcvd (view (ep.more t)) y = []"
    and "net_keeps UNIV (view (ep.more s)) (view (ep.more t))"
proof -
  obtain p u where host: "connect_host c True host p s = (Ret fd, u)" and nb: "set_nonblock c fd u = (Ret (), t)"
    using con unfolding connect_to_server_def by (auto simp: cbind_Ret_iff c_simps)
  obtain rc l s1 where 1: "ps_getaddrinfo c host p (connect_hints True) s = ((rc, l), s1)"
    by (metis prod.exhaust)
  obtain f h s2 where 2: "connect_walk c l None s1 = ((f, h), s2)" by (metis prod.exhaust)
  from host 1 2 have h: "h = Some fd" and u: "\<exists>s3. u = snd (ps_freeaddrinfo c l s3) \<and> ep.more s3 = ep.more s2"
    by (auto simp: connect_host_defs split: if_splits option.splits)
  have n1: "view (ep.more s1) = view (ep.more s)" by (rule net_callsD(9) [OF calls 1])
  have "net_keeps UNIV (view (ep.more s)) (view (ep.more s2)) \<and> fresh_fd (view (ep.more s)) (view (ep.more s2)) fd"
    using connect_walk_net [OF calls wf _ _ 2] n1 h by simp
  moreover have "view (ep.more u) = view (ep.more s2)" using u net_callsD(10) [OF calls] by auto
  moreover note set_nonblock_net [OF calls nb]
  ultimately show thesis using that by (auto simp: fresh_fd_def)
qed

end
