(* ===== verification/Proxy_Parse_Props.thy ===== *)
theory Proxy_Parse_Props
  imports Proxy_Parse
begin

text \<open>
  What the proxies make of a request: the rewriting of a well-formed one, the shape of the
  result for any input, and the inputs that bring the process down.
\<close>

section \<open>Well-formed requests\<close>

record http_req =
  hr_host :: string
  hr_port :: "string option"
  hr_path :: string
  hr_headers :: "(string \<times> string) list"

definition host_port :: "string \<Rightarrow> string option \<Rightarrow> string" where
  "host_port host port = host @ (case port of None \<Rightarrow> [] | Some p \<Rightarrow> CHR '':'' # p)"

definition req_text :: "http_req \<Rightarrow> string" where
  "req_text q =
     ''GET http://'' @ host_port (hr_host q) (hr_port q) @ ''/'' @ hr_path q @ '' HTTP/1.1'' @ CRLF @
     concat (map header_line (hr_headers q)) @ CRLF"

definition req_ok :: "http_req \<Rightarrow> bool" where
  "req_ok q \<longleftrightarrow>
     hr_host q \<noteq> [] \<and> CHR ''/'' \<notin> set (hr_host q) \<and> CHR '':'' \<notin> set (hr_host q) \<and>
     (case hr_port q of None \<Rightarrow> True | Some p \<Rightarrow> CHR ''/'' \<notin> set p) \<and>
     SPC \<notin> set (hr_path q) \<and> CR \<notin> set (hr_path q) \<and> LF \<notin> set (hr_path q) \<and>
     list_all header_ok (hr_headers q)"

text \<open>The request that the proxy sends, without the headers it adds itself.\<close>

definition first_part :: "string \<Rightarrow> string \<Rightarrow> string" where
  "first_part req_type path = req_type @ '' /'' @ path @ '' HTTP/1.0'' @ CRLF"

definition own_headers :: string where
  "own_headers = user_agent_hdr @ ''Connection: close'' @ CRLF @ ''Proxy-Connection: close'' @ CRLF @ CRLF"

definition new_request :: "string \<Rightarrow> string \<Rightarrow> string \<Rightarrow> (string \<times> string) list \<Rightarrow> string" where
  "new_request req_type host path hs =
     first_part req_type path @ concat (map header_line hs) @
     (if has_host hs then [] else host @ CRLF) @ own_headers"

lemma split_host_port:
  "CHR '':'' \<notin> set host \<Longrightarrow> split_host (host_port host port) = (host, port)"
  by (cases port) (simp_all add: split_host_def host_port_def strchr_append strchr_None [THEN iffD2])

lemma build_request_lines:
  assumes "list_all header_ok hs"
    and "length (new_request req_type host path (kept_headers hs)) < MAX_OBJECT_SIZE"
  shows "build_request req_type host path (LF # concat (map header_line hs) @ CRLF) =
    Ret (new_request req_type host path (kept_headers hs))"
proof -
  let ?ks = "concat (map header_line (kept_headers hs))" and ?r1 = "first_part req_type path"
  let ?r3 = "?r1 @ ?ks @ (if has_host hs then [] else host @ CRLF)"
  have len: "length (?r3 @ own_headers) < MAX_OBJECT_SIZE"
    using assms(2) by (simp add: new_request_def has_host_kept)
  have 1: "strcats [] [req_type, '' /'', path, '' '', ''HTTP/1.0'' @ CRLF] = Ret ?r1"
    using len by (subst strcats_fits) (simp_all add: first_part_def)
  have 2: "header_loop (LF # concat (map header_line hs) @ CRLF) ?r1 False = Ret (?r1 @ ?ks, has_host hs)"
    using len by (simp add: header_loop_skip header_loop_lines [OF assms(1)])
  have 3: "(if has_host hs then Ret (?r1 @ ?ks) else strcats (?r1 @ ?ks) [host, CRLF]) = Ret ?r3"
    using len by (cases "has_host hs") (simp, subst strcats_fits, simp_all)
  have 4: "strcats ?r3 [user_agent_hdr, ''Connection: close'', CRLF, ''Proxy-Connection: close'', CRLF, CRLF] =
      Ret (?r3 @ own_headers)"
    using len by (subst strcats_fits) (simp_all add: own_headers_def)
  show ?thesis
    unfolding build_request_def 1 obind.simps 2 prod.case 3 4 by (simp add: new_request_def has_host_kept)
qed

lemma rewrite_request:
  assumes "req_ok q"
    and "length (new_request ''GET'' (hr_host q) (hr_path q) (kept_headers (hr_headers q))) < MAX_OBJECT_SIZE"
  shows "parse_request (req_text q) s =
    (Ret \<lparr>p_host = hr_host q, p_port = hr_port q,
       p_request = new_request ''GET'' (hr_host q) (hr_path q) (kept_headers (hr_headers q))\<rparr>, s)"
proof -
  let ?hp = "host_port (hr_host q) (hr_port q)"
  let ?t4 = "LF # concat (map header_line (hr_headers q)) @ CRLF"
  let ?t3 = "hr_path q @ '' HTTP/1.1'' @ CR # ?t4"
  let ?path = "hr_path q @ '' HTTP/1.1''"
  have hp: "?hp \<noteq> []" "CHR ''/'' \<notin> set ?hp"
    using assms(1) by (auto simp: req_ok_def host_port_def split: option.splits)
  have 1: "strtok '' '' (req_text q) = (Some ''GET'', ''http://'' @ ?hp @ CHR ''/'' # ?t3)"
    using strtok_word [of "''GET''" "'' ''" SPC "''http://'' @ ?hp @ CHR ''/'' # ?t3"]
    by (simp add: req_text_def)
  have 2: "strtok ''//'' (''http://'' @ ?hp @ CHR ''/'' # ?t3) = (Some ''http:'', CHR ''/'' # ?hp @ CHR ''/'' # ?t3)"
    using strtok_word [of "''http:''" "''//''" "CHR ''/''" "CHR ''/'' # ?hp @ CHR ''/'' # ?t3"] by simp
  have 3: "strtok ''/'' (CHR ''/'' # ?hp @ CHR ''/'' # ?t3) = (Some ?hp, ?t3)"
    using strtok_word [of ?hp "''/''" "CHR ''/''" ?t3] hp by (simp add: strtok_skip)
  have 4: "strtok CRLF ?t3 = (Some ?path, ?t4)"
    using strtok_word [of ?path CRLF CR ?t4] assms(1) by (simp add: req_ok_def)
  have 5: "strchr ?path SPC = Some (length (hr_path q))"
    using strchr_append [of SPC "hr_path q" "''HTTP/1.1''"] assms(1) by (simp add: req_ok_def)
  have 6: "split_host ?hp = (hr_host q, hr_port q)"
    using assms(1) by (intro split_host_port) (simp add: req_ok_def)
  have 7: "build_request ''GET'' (hr_host q) (hr_path q) ?t4 =
      Ret (new_request ''GET'' (hr_host q) (hr_path q) (kept_headers (hr_headers q)))"
    using assms by (intro build_request_lines) (simp_all add: req_ok_def)
  show ?thesis
    unfolding parse_request_def parse_core_def 1 2 3 4 5 6 Let_def prod.case option.case
    using 7 hp(1) by simp
qed

text \<open>C22. A well-formed GET request is rewritten to HTTP/1.0 for the host: same path, the
  client's headers in their order without \<open>Connection\<close>, \<open>Proxy-Connection\<close> and
  \<open>User-Agent\<close>, then the proxy's own; host and port are those of the URL, and nothing is
  printed. A missing \<open>Host\<close> header is replaced by the bare host name.\<close>

theorem proxy_rewrites_request:
  assumes "req_ok q"
    and "length (new_request ''GET'' (hr_host q) (hr_path q) (kept_headers (hr_headers q))) < MAX_OBJECT_SIZE"
  shows "parse_request (req_text q) s =
    (Ret \<lparr>p_host = hr_host q, p_port = hr_port q,
       p_request = new_request ''GET'' (hr_host q) (hr_path q) (kept_headers (hr_headers q))\<rparr>, s)"
  using assms by (rule rewrite_request)

definition demo_req :: http_req where
  "demo_req = \<lparr>hr_host = ''localhost'', hr_port = Some ''8080'', hr_path = ''a.html'',
     hr_headers = [(''Connection'', '' keep-alive''), (''Accept'', '' */*'')]\<rparr>"

lemma demo_req_ok:
  "req_ok demo_req"
  "new_request ''GET'' (hr_host demo_req) (hr_path demo_req) (kept_headers (hr_headers demo_req)) =
     new_request ''GET'' ''localhost'' ''a.html'' [(''Accept'', '' */*'')]"
  "length (new_request ''GET'' ''localhost'' ''a.html'' [(''Accept'', '' */*'')]) < MAX_OBJECT_SIZE"
proof -
  show "req_ok demo_req" by code_simp
  have "kept_headers (hr_headers demo_req) = [(''Accept'', '' */*'')]" by code_simp
  then show "new_request ''GET'' (hr_host demo_req) (hr_path demo_req) (kept_headers (hr_headers demo_req)) =
     new_request ''GET'' ''localhost'' ''a.html'' [(''Accept'', '' */*'')]" by (simp add: demo_req_def)
  show "length (new_request ''GET'' ''localhost'' ''a.html'' [(''Accept'', '' */*'')]) < MAX_OBJECT_SIZE"
    by (simp add: new_request_def first_part_def own_headers_def user_agent_hdr_def header_line_def has_host_def)
qed

theorem proxy_rewrites_request_witness:
  "parse_request (req_text demo_req) (\<lparr>w_errno = 0, w_out = [], w_err = []\<rparr> :: world) =
     (Ret \<lparr>p_host = ''localhost'', p_port = Some ''8080'',
        p_request = new_request ''GET'' ''localhost'' ''a.html'' [(''Accept'', '' */*'')]\<rparr>,
      \<lparr>w_errno = 0, w_out = [], w_err = []\<rparr>)"
proof -
  have "hr_host demo_req = ''localhost''" "hr_port demo_req = Some ''8080''" by (simp_all add: demo_req_def)
  with proxy_rewrites_request [of demo_req] demo_req_ok show ?thesis by (simp only: demo_req_ok)
qed

section \<open>Any input\<close>

lemma build_request_shape:
  assumes "build_request req_type host path ls = Ret r"
  shows "\<exists>hs. r = new_request req_type host path hs \<and> list_all header_ok hs \<and>
    list_all (\<lambda>h. \<not> dropped_header (fst h)) hs \<and> length r < MAX_OBJECT_SIZE"
proof -
  obtain r1 r2 b r3 where 1: "strcats [] [req_type, '' /'', path, '' '', ''HTTP/1.0'' @ CRLF] = Ret r1"
    and 2: "header_loop ls r1 False = Ret (r2, b)"
    and 3: "(if b then Ret r2 else strcats r2 [host, CRLF]) = Ret r3"
    and 4: "strcats r3 [user_agent_hdr, ''Connection: close'', CRLF, ''Proxy-Connection: close'', CRLF, CRLF] = Ret r"
    using assms unfolding build_request_def by (auto simp: obind_Ret_iff simp del: strcats.simps)
  obtain hs where hs: "r2 = r1 @ concat (map header_line hs)" "list_all header_ok hs"
    "list_all (\<lambda>h. \<not> dropped_header (fst h)) hs" "b = has_host hs"
    using header_loop_kept [OF 2] by blast
  have "r1 = first_part req_type path" using strcats_Ret [OF 1] by (simp add: first_part_def)
  moreover have "r3 = r2 @ (if b then [] else host @ CRLF)"
    using 3 strcats_Ret [of r2 "[host, CRLF]" r3] by (auto simp del: strcats.simps split: if_splits)
  moreover have "r = r3 @ own_headers" using strcats_Ret [OF 4] by (simp add: own_headers_def)
  ultimately have "r = new_request req_type host path hs" using hs by (simp add: new_request_def)
  moreover have "length r < MAX_OBJECT_SIZE"
    using 4 by (auto simp: strcat_max_def obind_Ret_iff split: if_splits)
  ultimately show ?thesis using hs by blast
qed

text \<open>What the server makes of the request: the lines that CRLF ends.\<close>

fun crlf_lines :: "string \<Rightarrow> string list" where
  "crlf_lines [] = []"
| "crlf_lines (c # s) =
     (if c = CR \<and> s \<noteq> [] \<and> hd s = LF then [] # crlf_lines (tl s)
      else case crlf_lines s of [] \<Rightarrow> [[c]] | l # ls \<Rightarrow> (c # l) # ls)"

lemma crlf_lines_line: "CR \<notin> set l \<Longrightarrow> crlf_lines (l @ CR # LF # t) = l # crlf_lines t"
  by (induction l) auto

lemma crlf_lines_headers:
  "list_all header_ok hs \<Longrightarrow>
     crlf_lines (concat (map header_line hs) @ t) = map (\<lambda>h. fst h @ '':'' @ snd h) hs @ crlf_lines t"
proof (induction hs)
  case (Cons h hs)
  then have "CR \<notin> set (fst h @ '':'' @ snd h)" by (auto simp: header_ok_def)
  then have "crlf_lines ((fst h @ '':'' @ snd h) @ CR # LF # concat (map header_line hs) @ t) =
      (fst h @ '':'' @ snd h) # crlf_lines (concat (map header_line hs) @ t)"
    by (rule crlf_lines_line)
  moreover have "concat (map header_line (h # hs)) @ t =
      (fst h @ '':'' @ snd h) @ CR # LF # concat (map header_line hs) @ t"
    by (simp add: header_line_def)
  ultimately show ?case using Cons by simp
qed simp

definition own_lines :: "string list" where
  "own_lines =
     [''User-Agent: Mozilla/5.0 (X11; Linux x86_64; rv:10.0.3) Gecko/20120305 Firefox/10.0.3'',
      ''Connection: close'', ''Proxy-Connection: close'', []]"

lemma crlf_lines_own: "crlf_lines own_headers = own_lines"
  by (simp add: own_headers_def user_agent_hdr_def own_lines_def)

lemma crlf_lines_request:
  assumes "CR \<notin> set req_type" and "CR \<notin> set path" and "CR \<notin> set host" and "list_all header_ok hs"
  shows "crlf_lines (new_request req_type host path hs) =
    (req_type @ '' /'' @ path @ '' HTTP/1.0'') # map (\<lambda>h. fst h @ '':'' @ snd h) hs @
    (if has_host hs then [] else [host]) @ own_lines"
proof -
  let ?rest = "(if has_host hs then [] else host @ CRLF) @ own_headers"
  have 1: "CR \<notin> set (req_type @ '' /'' @ path @ '' HTTP/1.0'')" using assms(1,2) by simp
  have 2: "crlf_lines ?rest = (if has_host hs then [] else [host]) @ own_lines"
    using assms(3) by (simp add: crlf_lines_line crlf_lines_own)
  have "new_request req_type host path hs =
      (req_type @ '' /'' @ path @ '' HTTP/1.0'') @ CR # LF # concat (map header_line hs) @ ?rest"
    by (simp add: new_request_def first_part_def)
  then show ?thesis
    by (simp only: crlf_lines_line [OF 1] crlf_lines_headers [OF assms(4)] 2)
qed

text \<open>The parts of the client's request that \<open>parse_core\<close> builds the new one from.\<close>

lemma parse_request_parts:
  assumes "parse_request buf s = (Ret p, t)" and "strtok '' '' buf = (Some req_type, rest)"
  obtains path ls where "build_request req_type (p_host p) path ls = Ret (p_request p)"
    and "SPC \<notin> set path" and "CR \<notin> set path" and "LF \<notin> set path"
proof -
  have path: "SPC \<notin> set (take e path0) \<and> CR \<notin> set (take e path0) \<and> LF \<notin> set (take e path0)"
    if "strtok CRLF t3 = (Some path0, t4)" and "strchr path0 SPC = Some e" for t3 path0 t4 e
    using strtok_token [OF that(1)] strchr_SomeE [OF that(2)] by (auto dest: in_set_takeD)
  have built: "build_request a host b c = Ret (p_request p) \<and> p_host p = host"
    if "omap (\<lambda>r. \<lparr>p_host = host, p_port = port, p_request = r\<rparr>) (build_request a host b c) = Ret p"
    for host port a b c
    using that by (cases "build_request a host b c") auto
  show thesis
    using assms that unfolding parse_request_def parse_core_def Let_def
    by (auto split: prod.splits option.splits dest!: path built)
qed

text \<open>C23. The request that comes out is free of injected lines: if neither the first word of the
  client's request nor the host of its URL holds a line break, then, whatever else the client
  sent, the lines of the result are the one request line of HTTP/1.0, complete header lines
  none of which is a \<open>Connection\<close>, \<open>Proxy-Connection\<close> or \<open>User-Agent\<close> header, the bare
  host when no \<open>Host\<close> header is among them, the proxy's own three and the empty line; and it
  is within the bounds of its array.\<close>

theorem proxy_request_shape:
  assumes "parse_request buf s = (Ret p, t)"
    and "strtok '' '' buf = (Some req_type, rest)"
    and "CR \<notin> set req_type" and "CR \<notin> set (p_host p)"
  shows "\<exists>path hs. crlf_lines (p_request p) =
      (req_type @ '' /'' @ path @ '' HTTP/1.0'') # map (\<lambda>h. fst h @ '':'' @ snd h) hs @
      (if has_host hs then [] else [p_host p]) @ own_lines \<and>
    SPC \<notin> set path \<and> CR \<notin> set path \<and> LF \<notin> set path \<and> list_all header_ok hs \<and>
    list_all (\<lambda>h. fst h \<notin> {''Connection'', ''Proxy-Connection'', ''User-Agent''}) hs \<and>
    length (p_request p) < MAX_OBJECT_SIZE"
proof -
  obtain path ls where b: "build_request req_type (p_host p) path ls = Ret (p_request p)"
    and path: "SPC \<notin> set path" "CR \<notin> set path" "LF \<notin> set path"
    by (rule parse_request_parts [OF assms(1,2)])
  obtain hs where hs: "p_request p = new_request req_type (p_host p) path hs" "list_all header_ok hs"
    "list_all (\<lambda>h. \<not> dropped_header (fst h)) hs" "length (p_request p) < MAX_OBJECT_SIZE"
    using build_request_shape [OF b] by blast
  then show ?thesis using crlf_lines_request [OF assms(3) path(2) assms(4) hs(2)] path
    by (intro exI [of _ path] exI [of _ hs]) (simp add: dropped_header_def)
qed

theorem proxy_request_shape_witness:
  "\<exists>path hs. crlf_lines (new_request ''GET'' ''localhost'' ''a.html'' [(''Accept'', '' */*'')]) =
      (''GET'' @ '' /'' @ path @ '' HTTP/1.0'') # map (\<lambda>h. fst h @ '':'' @ snd h) hs @
      (if has_host hs then [] else [''localhost'']) @ own_lines \<and>
     list_all (\<lambda>h. fst h \<notin> {''Connection'', ''Proxy-Connection'', ''User-Agent''}) hs"
proof -
  define s where "s = \<lparr>w_errno = 0, w_out = [], w_err = []\<rparr>"
  have "hr_host demo_req = ''localhost''" by (simp add: demo_req_def)
  with rewrite_request [of demo_req s] demo_req_ok
  have 1: "parse_request (req_text demo_req) s =
      (Ret \<lparr>p_host = ''localhost'', p_port = hr_port demo_req,
         p_request = new_request ''GET'' ''localhost'' ''a.html'' [(''Accept'', '' */*'')]\<rparr>, s)"
    by (simp only: demo_req_ok)
  obtain rest where 2: "strtok '' '' (req_text demo_req) = (Some ''GET'', rest)"
    using strtok_word [of "''GET''" "'' ''" SPC] by (simp add: req_text_def)
  have "CR \<notin> set ''GET''" and "CR \<notin> set ''localhost''" by simp_all
  from proxy_request_shape [OF 1 2, unfolded parsed.select_convs, OF this] show ?thesis by blast
qed

text \<open>Without the condition a client can have the proxy send any line: \<open>strtok\<close> with a space
  for delimiter does not stop at a line break.\<close>

lemma request_line_injection:
  "\<exists>p. parse_request (''X'' @ CRLF @ ''Connection:y http://h/p HTTP/1.1'' @ CRLF @ CRLF) s =
      (Ret p, print_err (''Bad req_type: X'' @ CRLF @ ''Connection:y'' @ [LF]) s) \<and>
    crlf_lines (p_request p) = [''X'', ''Connection:y /p HTTP/1.0'', ''h''] @ own_lines"
proof -
  let ?b = "''X'' @ CRLF @ ''Connection:y http://h/p HTTP/1.1'' @ CRLF @ CRLF"
  let ?t = "''X'' @ CRLF @ ''Connection:y''"
  have 1: "strtok '' '' ?b = (Some ?t, ''http://h/p HTTP/1.1'' @ CRLF @ CRLF)"
    and 2: "strtok ''//'' (''http://h/p HTTP/1.1'' @ CRLF @ CRLF) = (Some ''http:'', ''/h/p HTTP/1.1'' @ CRLF @ CRLF)"
    and 3: "strtok ''/'' (''/h/p HTTP/1.1'' @ CRLF @ CRLF) = (Some ''h'', ''p HTTP/1.1'' @ CRLF @ CRLF)"
    and 4: "split_host ''h'' = (''h'', None)"
    and 5: "strtok CRLF (''p HTTP/1.1'' @ CRLF @ CRLF) = (Some ''p HTTP/1.1'', LF # CRLF)"
    and 6: "strchr ''p HTTP/1.1'' SPC = Some 1" "take 1 ''p HTTP/1.1'' = ''p''"
    by code_simp+
  have l: "length (new_request ?t ''h'' ''p'' []) < MAX_OBJECT_SIZE"
    by (simp add: new_request_def first_part_def own_headers_def user_agent_hdr_def has_host_def)
  have 7: "build_request ?t ''h'' ''p'' (LF # CRLF) = Ret (new_request ?t ''h'' ''p'' [])"
    using build_request_lines [of "[]" ?t "''h''" "''p''"] l by (simp add: kept_headers_def)
  have 8: "crlf_lines (new_request ?t ''h'' ''p'' []) = [''X'', ''Connection:y /p HTTP/1.0'', ''h''] @ own_lines"
    by (simp add: new_request_def first_part_def has_host_def crlf_lines_own)
  show ?thesis
    unfolding parse_request_def parse_core_def 1 2 3 4 5 6 Let_def prod.case option.case
    using 7 8 by simp
qed

section \<open>Requests that crash the proxy\<close>

text \<open>A header line without a colon, and a request line without a space after the path,
  dereference a null pointer.\<close>

lemma header_without_colon:
  assumes "header \<noteq> []" and "CHR '':'' \<notin> set header" and "CR \<notin> set header" and "LF \<notin> set header"
  shows "header_loop (header @ CRLF @ t) r b = Fault Null_Deref"
  using strtok_word [of header CRLF CR "LF # t"] assms
  by (subst header_loop.simps) (simp add: strchr_None [THEN iffD2])

lemma request_without_version:
  "fst (parse_request (''GET http://a/b'' @ CRLF @ CRLF) s) = Fault Null_Deref"
proof -
  have "strtok '' '' (''GET http://a/b'' @ CRLF @ CRLF) = (Some ''GET'', ''http://a/b'' @ CRLF @ CRLF)"
    and "strtok ''//'' (''http://a/b'' @ CRLF @ CRLF) = (Some ''http:'', ''/a/b'' @ CRLF @ CRLF)"
    and "strtok ''/'' (''/a/b'' @ CRLF @ CRLF) = (Some ''a'', ''b'' @ CRLF @ CRLF)"
    and "split_host ''a'' = (''a'', None)"
    and "strtok CRLF (''b'' @ CRLF @ CRLF) = (Some ''b'', LF # CRLF)" and "strchr ''b'' SPC = None"
    by code_simp+
  then show ?thesis
    unfolding parse_request_def parse_core_def by simp
qed

text \<open>For a URL without a port \<open>parse\<close> leaves the caller's \<open>host_port\<close> alone.\<close>

lemma parse_no_port:
  assumes "req_ok q" and "hr_port q = None"
    and "length (new_request ''GET'' (hr_host q) (hr_path q) (kept_headers (hr_headers q))) < MAX_OBJECT_SIZE"
  shows "parse (req_text q) old s =
    (Ret (hr_host q, old, new_request ''GET'' (hr_host q) (hr_path q) (kept_headers (hr_headers q))), s)"
  using rewrite_request [OF assms(1,3), of s] assms(2)
  by (simp add: parse_def parse_request_def c_simps cbind_def)

end
