(* ===== verification/Proxy_Epoll_Relay.thy ===== *)
theory Proxy_Epoll_Relay
  imports Proxy_Epoll_Net Proxy_Parse_Props
begin

text \<open>
  The invariant that ties every request of the event-driven proxy to the connection of its
  client and to that of its server: what is in its buffers is what has passed over them.
\<close>

section \<open>A request and its connections\<close>

text \<open>What \<open>parse\<close> makes of a request; it does not depend on the state.\<close>

definition rewritten :: "string \<Rightarrow> string option" where
  "rewritten req =
     (case fst (parse req [] (\<lparr>w_errno = 0, w_out = [], w_err = []\<rparr> :: world)) of
        Ret (h, p, m) \<Rightarrow> Some m
      | Exited n \<Rightarrow> None
      | Fault e \<Rightarrow> None)"

lemma parse_state: "fst (parse req p (s :: 'w world_scheme)) = fst (parse req p (s' :: 'v world_scheme))"
proof -
  have "fst (parse_core req s) = fst (parse_core req s')"
    by (auto simp: parse_core_def Let_def split: prod.split option.split)
  then show ?thesis
    by (cases "parse_core req s"; cases "parse_core req s'") (auto simp: parse_def cbind_def creturn_def split: outcome.split)
qed

lemma rewritten_parse: "parse req [] s = (Ret (h, p, m), t) \<Longrightarrow> rewritten req = Some m"
  using parse_state [of req "[]" "\<lparr>w_errno = 0, w_out = [], w_err = []\<rparr> :: world" s] by (simp add: rewritten_def)

text \<open>
  The connection \<open>x\<close> of the client and, once there is one, \<open>y\<close> of the server. All that was read
  is in the buffers; what was written is the part of them that the counters say.
\<close>

definition relay_req :: "net \<Rightarrow> nat \<times> nat option \<Rightarrow> req_info \<Rightarrow> bool" where
  "relay_req n i r \<longleftrightarrow>
     nt_rcvd n (fst i) = rq_original r \<and>
     (rq_state r \<noteq> DONE \<longrightarrow> nt_conn n (rq_client_fd r) = Some (fst i)) \<and>
     (case snd i of
        None \<Rightarrow> rq_state r = READ_CLIENT \<and> nt_sent n (fst i) = []
      | Some y \<Rightarrow>
          rq_state r \<noteq> READ_CLIENT \<and> rewritten (cstr (rq_original r)) = Some (rq_modified r) \<and>
          nt_sent n y = take (nat (rq_server_written r)) (cstr (rq_modified r)) \<and>
          nt_rcvd n y = rq_response r \<and>
          nt_sent n (fst i) = take (nat (rq_client_written r)) (rq_response r) \<and>
          (rq_state r = WRITE_SERVER \<or> rq_state r = READ_SERVER \<longrightarrow> nt_conn n (rq_server_fd r) = Some y))"

definition conn_ids :: "nat \<times> nat option \<Rightarrow> nat set" where
  "conn_ids i = insert (fst i) (set_option (snd i))"

text \<open>No connection belongs to two requests, or is both the client's and the server's.\<close>

definition separate :: "(nat \<times> nat option) list \<Rightarrow> bool" where
  "separate ids \<longleftrightarrow> (\<forall>i \<in> set ids. snd i \<noteq> Some (fst i)) \<and>
     (\<forall>k < length ids. \<forall>l < length ids. k \<noteq> l \<longrightarrow> conn_ids (ids ! k) \<inter> conn_ids (ids ! l) = {})"

definition relay :: "net \<Rightarrow> (nat \<times> nat option) list \<Rightarrow> req_info list \<Rightarrow> bool" where
  "relay n ids reqs \<longleftrightarrow> net_wf n \<and> separate ids \<and> (\<forall>i \<in> set ids. conn_ids i \<subseteq> {..<nt_next n}) \<and>
     list_all2 (relay_req n) ids reqs"

lemma relay_req_keeps:
  assumes "relay_req n i r" and "net_keeps A n m" and "conn_ids i \<subseteq> A" and "conn_ids i \<subseteq> {..<nt_next n}"
  shows "relay_req m i r"
proof -
  have "nt_sent m z = nt_sent n z \<and> nt_rcvd m z = nt_rcvd n z \<and> (\<forall>fd. nt_conn n fd = Some z \<longrightarrow> nt_conn m fd = Some z)"
    if "z \<in> conn_ids i" for z
    using assms(2-4) that by (auto simp: net_keeps_def)
  then have "nt_sent m (fst i) = nt_sent n (fst i)" "nt_rcvd m (fst i) = nt_rcvd n (fst i)"
    "nt_conn n fd = Some (fst i) \<Longrightarrow> nt_conn m fd = Some (fst i)"
    "snd i = Some y \<Longrightarrow> nt_sent m y = nt_sent n y" "snd i = Some y \<Longrightarrow> nt_rcvd m y = nt_rcvd n y"
    "snd i = Some y \<Longrightarrow> nt_conn n fd = Some y \<Longrightarrow> nt_conn m fd = Some y" for fd y
    by (auto simp: conn_ids_def)
  with assms(1) show ?thesis unfolding relay_req_def by (auto split: option.splits)
qed

lemma relay_keeps:
  assumes "relay n ids reqs" and "net_keeps UNIV n m"
  shows "relay m ids reqs"
proof -
  have "relay_req m i r" if "relay_req n i r" "i \<in> set ids" for i r
    using relay_req_keeps [OF that(1) assms(2)] assms(1) that(2) by (auto simp: relay_def)
  then have "list_all2 (relay_req m) ids reqs"
    using assms(1) by (auto simp: relay_def list_all2_conv_all_nth)
  with assms show ?thesis unfolding relay_def net_keeps_def by fastforce
qed

text \<open>A step that changes only the connections of request \<open>k\<close>, and may give it one to a server.\<close>

lemma relay_update:
  assumes relay: "relay n ids reqs" and k: "k < length reqs" and keeps: "net_keeps (- conn_ids (ids ! k)) n m"
    and j: "j = ids ! k \<or> snd (ids ! k) = None \<and> (\<exists>y. j = (fst (ids ! k), Some y) \<and> nt_next n \<le> y \<and> y < nt_next m)"
    and r: "relay_req m j r"
  shows "relay m (ids[k := j]) (reqs[k := r])"
proof -
  have len: "length ids = length reqs" and sep: "separate ids" and below: "\<And>i. i \<in> set ids \<Longrightarrow> conn_ids i \<subseteq> {..<nt_next n}"
    and wf: "net_wf n" and all: "list_all2 (relay_req n) ids reqs"
    using relay by (auto simp: relay_def dest: list_all2_lengthD)
  have le: "nt_next n \<le> nt_next m" "net_wf m" using keeps wf by (simp_all add: net_keeps_def)
  have ik: "conn_ids (ids ! k) \<subseteq> {..<nt_next n}" using below k len by simp
  have jn: "conn_ids j \<inter> {..<nt_next n} \<subseteq> conn_ids (ids ! k)" "conn_ids j \<subseteq> {..<nt_next m}" "snd j \<noteq> Some (fst j)"
  proof -
    have "snd (ids ! k) \<noteq> Some (fst (ids ! k))" using sep k len by (simp add: separate_def)
    with j ik le(1) show "conn_ids j \<inter> {..<nt_next n} \<subseteq> conn_ids (ids ! k)" "conn_ids j \<subseteq> {..<nt_next m}" "snd j \<noteq> Some (fst j)"
      by (auto simp: conn_ids_def)
  qed
  have other: "relay_req m (ids ! l) (reqs ! l) \<and> conn_ids (ids ! l) \<inter> conn_ids j = {}" if l: "l < length ids" "l \<noteq> k" for l
  proof -
    have disj: "conn_ids (ids ! l) \<inter> conn_ids (ids ! k) = {}" using sep l k len by (simp add: separate_def)
    have b: "conn_ids (ids ! l) \<subseteq> {..<nt_next n}" using below l by simp
    have "relay_req n (ids ! l) (reqs ! l)" using all l by (simp add: list_all2_conv_all_nth)
    from relay_req_keeps [OF this keeps] disj b have "relay_req m (ids ! l) (reqs ! l)" by blast
    with disj b jn(1) show ?thesis by blast
  qed
  have "separate (ids[k := j])"
    unfolding separate_def
  proof (intro conjI ballI allI impI)
    show "snd i \<noteq> Some (fst i)" if "i \<in> set (ids[k := j])" for i
      using that jn(3) sep set_update_subset_insert [of ids k j] by (auto simp: separate_def)
    show "conn_ids (ids[k := j] ! a) \<inter> conn_ids (ids[k := j] ! b) = {}"
      if "a < length (ids[k := j])" "b < length (ids[k := j])" "a \<noteq> b" for a b
      using that sep other [of a] other [of b] by (cases "a = k"; cases "b = k") (auto simp: separate_def)
  qed
  moreover have "conn_ids i \<subseteq> {..<nt_next m}" if "i \<in> set (ids[k := j])" for i
  proof -
    have "i = j \<or> i \<in> set ids" using that set_update_subset_insert [of ids k j] by auto
    then show ?thesis using jn(2) below [of i] le(1) by fastforce
  qed
  moreover have "list_all2 (relay_req m) (ids[k := j]) (reqs[k := r])"
    using other r len k by (auto simp: list_all2_conv_all_nth nth_list_update)
  ultimately show ?thesis using le(2) by (simp add: relay_def)
qed

text \<open>The common case: a step on the connections that request \<open>k\<close> already has.\<close>

lemma relay_own:
  assumes "relay n ids reqs" and "k < length reqs" and "net_keeps (- conn_ids (ids ! k)) n m" and "relay_req m (ids ! k) r"
  shows "relay m ids (reqs[k := r])"
  using relay_update [OF assms(1-3) disjI1 [OF refl] assms(4)] by simp

lemma relay_add:
  assumes relay: "relay n ids reqs" and keeps: "net_keeps UNIV n m"
    and x: "nt_conn m fd = Some x" "nt_next n \<le> x" "nt_sent m x = []" "nt_rcvd m x = []"
  shows "relay m (ids @ [(x, None)]) (reqs @ [req_info_constructor\<lparr>rq_client_fd := fd\<rparr>])"
proof -
  have m: "relay m ids reqs" by (rule relay_keeps [OF relay keeps])
  have below: "conn_ids i \<subseteq> {..<nt_next n}" if "i \<in> set ids" for i using relay that by (simp add: relay_def)
  have new: "x < nt_next m" using m x(1) by (auto simp: relay_def net_wf_def)
  have disj: "conn_ids (ids ! l) \<inter> conn_ids (x, None) = {}" if "l < length ids" for l
    using below [OF nth_mem [OF that]] x(2) by (auto simp: conn_ids_def)
  have "conn_ids ((ids @ [(x, None)]) ! a) \<inter> conn_ids ((ids @ [(x, None)]) ! b) = {}"
    if "a < Suc (length ids)" "b < Suc (length ids)" "a \<noteq> b" for a b
    using that m disj [of a] disj [of b]
    by (cases "a < length ids"; cases "b < length ids") (auto simp: nth_append relay_def separate_def)
  then have "separate (ids @ [(x, None)])" using m by (auto simp: relay_def separate_def)
  moreover have "relay_req m (x, None) (req_info_constructor\<lparr>rq_client_fd := fd\<rparr>)"
    using x by (simp add: relay_req_def req_info_constructor_def)
  ultimately show ?thesis using m new by (auto simp: relay_def conn_ids_def intro: list_all2_appendI)
qed

section \<open>The loops\<close>

lemma net_data_simps [simp]:
  "nt_conn (net_send x d n) = nt_conn n" "nt_conn (net_recv x d n) = nt_conn n"
  "nt_sent (net_recv x d n) = nt_sent n" "nt_rcvd (net_send x d n) = nt_rcvd n"
  "nt_sent (net_send x d n) = (nt_sent n)(x := d)" "nt_rcvd (net_recv x d n) = (nt_rcvd n)(x := d)"
  "net_send x d (net_send x b n) = net_send x d n" "net_recv x d (net_recv x b n) = net_recv x d n"
  "net_send x (nt_sent n x) n = n" "net_recv x (nt_rcvd n x) n = n"
  by (simp_all add: net_defs)

definition recv_net :: "('z \<Rightarrow> net) \<Rightarrow> nat \<Rightarrow> 'z ep_scheme \<Rightarrow> string \<Rightarrow> int \<Rightarrow> 'z ep_scheme \<Rightarrow> bool" where
  "recv_net view x s buf n t \<longleftrightarrow> recv_ok (ep_reqs s) buf n t \<and>
     view (ep.more t) = net_recv x buf (view (ep.more s))"

lemma recv_net_step:
  assumes ok: "calls_ok c es" and net: "net_calls view c es" and conn: "nt_conn (view (ep.more s)) fd = Some x"
    and I: "recv_net view x s buf n u" and rd: "ps_read c fd READ_SIZE u = ((r, d), u1)"
  shows "if r = - 1 then recv_net view x s buf n u1 else (\<forall>b. buf_write buf n d = Ret b \<longrightarrow> recv_net view x s b (n + r) u1)"
proof -
  have law: "view (ep.more u1) = (if r = - 1 then view (ep.more u)
      else net_recv x (nt_rcvd (view (ep.more u)) x @ d) (view (ep.more u)))"
    by (rule net_callsD(1) [OF net rd]) (use I conn in \<open>simp add: recv_net_def\<close>)
  from recv_step [OF ok _ rd, of "ep_reqs s" buf n] I law buf_write_end(1) [of n buf d]
  show ?thesis by (auto simp: recv_net_def recv_ok_def)
qed

lemma ep_send_net:
  fixes c :: "('z ep_ext, 'ai) psys" and s :: "'z ep_scheme"
  assumes ok: "calls_ok c es" and net: "net_calls view c es" and conn: "nt_conn (view (ep.more s)) fd = Some x"
    and run: "ep_send c fd buf len n s = Some (Ret (m, fin), t)"
    and n: "0 \<le> n" "n \<le> len" "len \<le> int (length buf)" "nt_sent (view (ep.more s)) x = take (nat n) buf"
  shows "view (ep.more t) = net_send x (take (nat m) buf) (view (ep.more s))"
proof -
  let ?I = "\<lambda>m t. n \<le> m \<and> m \<le> len \<and> view (ep.more t) = net_send x (take (nat m) buf) (view (ep.more s))"
  have "?I m t"
  proof (rule ep_send_rule(1) [OF run, of ?I])
    fix m u d e u1
    assume I: "?I m u" and d: "buf_bytes buf m (len - m) = Ret d" and w: "ps_write c fd d u = (e, u1)"
    have dd: "d = take (nat (len - m)) (drop (nat m) buf)" using buf_bytes_take [OF d] I n(1,3) by simp
    have law: "view (ep.more u1) = (if e = - 1 then view (ep.more u)
        else net_send x (nt_sent (view (ep.more u)) x @ take (nat e) d) (view (ep.more u)))"
      by (rule net_callsD(2) [OF net w]) (use I conn in simp)
    show "?I (if e = - 1 then m else m + e) u1"
    proof (cases "e = - 1")
      case True
      with law I show ?thesis by simp
    next
      case False
      then have e: "0 \<le> e" "e \<le> len - m" using calls_okD(2) [OF ok w] buf_bytes_length [OF d] by auto
      have "take (nat e) d = take (nat e) (drop (nat m) buf)" using e dd by (simp add: min_absorb1)
      with e I n(1) False law show ?thesis by (simp add: nat_add_distrib take_add)
    qed
  qed (use n(1-3) in \<open>simp flip: n(4)\<close>)
  then show ?thesis by simp
qed

section \<open>Each handler keeps the invariant\<close>

abbreviation N_of :: "('z \<Rightarrow> net) \<Rightarrow> 'z ep_scheme \<Rightarrow> net" where
  "N_of view s \<equiv> view (ep.more s)"

lemma relay_nth: "relay n ids reqs \<Longrightarrow> k < length reqs \<Longrightarrow> relay_req n (ids ! k) (reqs ! k)"
  by (simp add: relay_def list_all2_conv_all_nth)

lemma relay_length: "relay n ids reqs \<Longrightarrow> length ids = length reqs"
  by (auto simp: relay_def dest: list_all2_lengthD)

lemma relay_wf: "relay n ids reqs \<Longrightarrow> net_wf n"
  by (simp add: relay_def)

lemma fst_conn_ids: "fst i \<in> conn_ids i" and snd_conn_ids: "snd i = Some y \<Longrightarrow> y \<in> conn_ids i"
  by (simp_all add: conn_ids_def)

lemma keeps_own: "x \<in> conn_ids i \<Longrightarrow> net_keeps (- conn_ids i) n (net_send x d n)"
  "x \<in> conn_ids i \<Longrightarrow> net_keeps (- conn_ids i) n (net_recv x d n)"
  by (auto intro: net_keeps_mono [OF net_keeps_data(1)] net_keeps_mono [OF net_keeps_data(2)])

lemma start_request_relay:
  fixes c :: "('z ep_ext, 'ai) psys" and s :: "'z ep_scheme"
  assumes ok: "calls_ok c es" and net: "net_calls view c es" and relay: "relay (N_of view s) ids (ep_reqs s)"
    and k: "k < length (ep_reqs s)" and inv: "req_inv (ep_reqs s ! k)" and st: "rq_state (ep_reqs s ! k) = READ_CLIENT"
    and run: "start_request c es k s = (Ret (), t)"
  shows "\<exists>ids'. relay (N_of view t) ids' (ep_reqs t)"
proof -
  let ?r = "ep_reqs s ! k" and ?i = "ids ! k"
  obtain h p m s1 s3 fd s5 s7 where
    1: "parse (cstr (rq_original ?r)) [] s = (Ret (h, p, m), s1)" and
    2: "ep_logging c (cstr (rq_original ?r)) (set_req k (rq_modified_update (\<lambda>_. m)) s1) = (Ret (), s3)" and
    4: "connect_to_server c h (Some p) (print_out (''after logging'' @ [LF]) s3) = (Ret fd, s5)" and
    6: "epoll_ctl es CTL_ADD fd [EPOLLOUT, EPOLLET]
          (print_out (''fd: '' @ show_int fd @ [LF]) (set_req k (rq_server_fd_update (\<lambda>_. fd)) s5)) = (Ret (), s7)" and
    7: "t = set_req k (rq_state_update (\<lambda>_. WRITE_SERVER)) s7"
    by (rule start_requestE [OF run])
  have n3: "N_of view s3 = N_of view s" using parse_more [OF 1] ep_logging_net [OF net 2] by simp
  have nt: "N_of view t = N_of view s5" using epoll_ctl_net [OF net 6] by (simp add: 7)
  note Q = quiet_progD [OF quiet_parse 1] quiet_progD [OF quiet_logging [OF ok] 2]
    quiet_progD [OF quiet_connect [OF ok] 4] quiet_progD [OF quiet_epoll_ctl [OF ok] 6]
  let ?r' = "?r\<lparr>rq_modified := m, rq_server_fd := fd, rq_state := WRITE_SERVER\<rparr>"
  have reqs: "ep_reqs t = (ep_reqs s)[k := ?r']" using k Q by (simp add: 7)
  have "net_wf (N_of view (print_out (''after logging'' @ [LF]) s3))" using relay_wf [OF relay] n3 by simp
  from connect_net [OF net this 4] obtain y where
    y: "nt_conn (N_of view t) fd = Some y" "nt_next (N_of view s) \<le> y" "nt_sent (N_of view t) y = []"
      "nt_rcvd (N_of view t) y = []" "net_keeps UNIV (N_of view s) (N_of view t)"
    using n3 nt by auto
  have wf: "net_wf (N_of view t)" using y(5) relay_wf [OF relay] by (simp add: net_keeps_def)
  then have new: "y < nt_next (N_of view t)" using y(1) by (auto simp: net_wf_def)
  have rel: "relay_req (N_of view s) ?i ?r" by (rule relay_nth [OF relay k])
  then have none: "snd ?i = None" using st by (auto simp: relay_req_def split: option.splits)
  have ids: "conn_ids ?i \<subseteq> {..<nt_next (N_of view s)}"
    using relay k relay_length [OF relay] by (simp add: relay_def)
  have "relay_req (N_of view t) ?i ?r" by (rule relay_req_keeps [OF rel y(5) _ ids]) simp
  then have "relay_req (N_of view t) (fst ?i, Some y) ?r'"
    using none st inv y(1,3,4) rewritten_parse [OF 1] by (auto simp: relay_req_def req_inv_def)
  from relay_update [OF relay k net_keeps_mono [OF y(5)] _ this] none y(2) new reqs
  show ?thesis by auto
qed

lemma read_client_relay:
  fixes c :: "('z ep_ext, 'ai) psys" and s :: "'z ep_scheme"
  assumes ok: "calls_ok c es" and net: "net_calls view c es" and relay: "relay (N_of view s) ids (ep_reqs s)"
    and k: "k < length (ep_reqs s)" and inv: "req_inv (ep_reqs s ! k)" and st: "rq_state (ep_reqs s ! k) = READ_CLIENT"
    and run: "read_client c es k s = Some (Ret (), t)"
  shows "\<exists>ids'. relay (N_of view t) ids' (ep_reqs t)"
proof -
  let ?r = "ep_reqs s ! k" and ?i = "ids ! k"
  obtain buf n found s1 where
    1: "ep_recv_headers c (rq_client_fd ?r) (rq_original ?r) (rq_client_read ?r) (print_out (''read_client'' @ [LF]) s) =
      Some (Ret (buf, n, found), s1)" and
    2: "if found then start_request c es k (set_req k (\<lambda>r. r\<lparr>rq_original := buf, rq_client_read := n\<rparr>) s1) = (Ret (), t)
      else t = set_req k (\<lambda>r. r\<lparr>rq_original := buf, rq_client_read := n\<rparr>) s1"
    by (rule read_clientE [OF run])
  have rel: "relay_req (N_of view s) ?i ?r" by (rule relay_nth [OF relay k])
  then have i: "nt_conn (N_of view s) (rq_client_fd ?r) = Some (fst ?i)" "nt_rcvd (N_of view s) (fst ?i) = rq_original ?r"
    "snd ?i = None" using st by (auto simp: relay_req_def split: option.splits)
  have "recv_net view (fst ?i) s buf n s1"
  proof (rule ep_recv_headers_rule [OF 1, where I = "recv_net view (fst ?i) s"])
    have "net_recv (fst ?i) (rq_original ?r) (N_of view s) = N_of view s"
      unfolding i(2) [symmetric] by simp
    then show "recv_net view (fst ?i) s (rq_original ?r) (rq_client_read ?r) (print_out (''read_client'' @ [LF]) s)"
      using inv by (simp add: recv_net_def recv_ok_def req_inv_def)
  qed (rule recv_net_step [OF ok net i(1)])
  then have s1: "recv_ok (ep_reqs s) buf n s1" "N_of view s1 = net_recv (fst ?i) buf (N_of view s)"
    by (simp_all add: recv_net_def)
  define s2 where "s2 = set_req k (\<lambda>r. r\<lparr>rq_original := buf, rq_client_read := n\<rparr>) s1"
  let ?r' = "?r\<lparr>rq_original := buf, rq_client_read := n\<rparr>"
  have s2: "N_of view s2 = net_recv (fst ?i) buf (N_of view s)" "ep_reqs s2 = (ep_reqs s)[k := ?r']"
    using s1 by (simp_all add: s2_def recv_ok_def)
  have "relay_req (N_of view s2) ?i ?r'" using rel s2(1) i(3) by (simp add: relay_req_def)
  moreover have "net_keeps (- conn_ids ?i) (N_of view s) (N_of view s2)" by (simp add: s2(1) keeps_own fst_conn_ids)
  ultimately have relay2: "relay (N_of view s2) ids (ep_reqs s2)"
    using relay_own [OF relay k] s2(2) by simp
  show ?thesis
  proof (cases found)
    case False
    with 2 relay2 show ?thesis by (auto simp: s2_def)
  next
    case True
    with 2 have "start_request c es k s2 = (Ret (), t)" by (simp add: s2_def)
    moreover have "req_inv ?r'" using inv st s1(1) by (auto simp: req_inv_def recv_ok_def)
    ultimately show ?thesis
      using start_request_relay [OF ok net relay2, of k t] s2(2) k st by simp
  qed
qed

lemma cstr_take: "n \<le> length (cstr b) \<Longrightarrow> take n (cstr b) = take n b"
proof -
  assume n: "n \<le> length (cstr b)"
  have "b = cstr b @ dropWhile (\<lambda>c. c \<noteq> NUL) b" by (simp add: cstr_def)
  then have "take n b = take n (cstr b @ dropWhile (\<lambda>c. c \<noteq> NUL) b)" by simp
  with n show ?thesis by simp
qed

text \<open>In the later states a request has both connections, and they differ.\<close>

lemma relay_both:
  assumes relay: "relay n ids reqs" and k: "k < length reqs" and st: "rq_state (reqs ! k) \<noteq> READ_CLIENT"
  obtains y where "snd (ids ! k) = Some y" and "y \<noteq> fst (ids ! k)"
proof -
  have "relay_req n (ids ! k) (reqs ! k)" by (rule relay_nth [OF relay k])
  then obtain y where y: "snd (ids ! k) = Some y" using st by (auto simp: relay_req_def split: option.splits)
  have "ids ! k \<in> set ids" using k relay_length [OF relay] by simp
  then have "snd (ids ! k) \<noteq> Some (fst (ids ! k))" using relay by (simp add: relay_def separate_def)
  with y that show thesis by simp
qed

lemma write_server_relay:
  fixes c :: "('z ep_ext, 'ai) psys" and s :: "'z ep_scheme"
  assumes ok: "calls_ok c es" and net: "net_calls view c es" and relay: "relay (N_of view s) ids (ep_reqs s)"
    and k: "k < length (ep_reqs s)" and inv: "req_inv (ep_reqs s ! k)" and st: "rq_state (ep_reqs s ! k) = WRITE_SERVER"
    and run: "write_server c es k s = Some (Ret (), t)"
  shows "relay (N_of view t) ids (ep_reqs t)"
proof -
  let ?r = "ep_reqs s ! k" and ?i = "ids ! k" and ?req = "cstr (rq_modified (ep_reqs s ! k))"
  obtain n fin s1 where
    1: "ep_send c (rq_server_fd ?r) (rq_modified ?r) (int (length ?req)) (rq_server_written ?r) s = Some (Ret (n, fin), s1)" and
    2: "if fin then
         \<exists>s3. epoll_ctl es CTL_MOD (rq_server_fd ?r) [EPOLLIN, EPOLLET] (set_req k (rq_server_written_update (\<lambda>_. n)) s1) = (Ret (), s3) \<and>
           t = set_req k (rq_state_update (\<lambda>_. READ_SERVER)) s3
       else t = set_req k (rq_server_written_update (\<lambda>_. n)) s1"
    by (rule write_serverE [OF run])
  obtain y where y: "snd ?i = Some y" "y \<noteq> fst ?i" by (rule relay_both [OF relay k]) (simp add: st)
  have rel: "relay_req (N_of view s) ?i ?r" by (rule relay_nth [OF relay k])
  have len: "length ?req \<le> length (rq_modified ?r)" by (simp add: cstr_def length_takeWhile_le)
  have w: "0 \<le> rq_server_written ?r" "rq_server_written ?r \<le> int (length ?req)" using inv by (simp_all add: req_inv_def)
  have conn: "nt_conn (N_of view s) (rq_server_fd ?r) = Some y"
    and sent: "nt_sent (N_of view s) y = take (nat (rq_server_written ?r)) (rq_modified ?r)"
    using rel y(1) st w cstr_take [of "nat (rq_server_written ?r)" "rq_modified ?r"] by (auto simp: relay_req_def)
  have send: "rq_server_written ?r \<le> n" "n \<le> int (length ?req)" "ep_reqs s1 = ep_reqs s"
    using ep_send_ok [OF ok w(2) 1] by simp_all
  have n1: "N_of view s1 = net_send y (take (nat n) ?req) (N_of view s)"
    using ep_send_net [OF ok net conn 1 w _ sent] len send(1,2) w(1) cstr_take [of "nat n" "rq_modified ?r"] by simp
  have t: "N_of view t = N_of view s1" "\<exists>st'. (st' = WRITE_SERVER \<or> st' = READ_SERVER) \<and>
      ep_reqs t = (ep_reqs s)[k := ?r\<lparr>rq_server_written := n, rq_state := st'\<rparr>]"
  proof -
    have "N_of view t = N_of view s1 \<and> (\<exists>st'. (st' = WRITE_SERVER \<or> st' = READ_SERVER) \<and>
      ep_reqs t = (ep_reqs s)[k := ?r\<lparr>rq_server_written := n, rq_state := st'\<rparr>])"
    proof (cases fin)
      case True
      with 2 obtain s3 where 3: "epoll_ctl es CTL_MOD (rq_server_fd ?r) [EPOLLIN, EPOLLET] (set_req k (rq_server_written_update (\<lambda>_. n)) s1) = (Ret (), s3)"
        and t: "t = set_req k (rq_state_update (\<lambda>_. READ_SERVER)) s3" by auto
      have "ep_reqs t = (ep_reqs s)[k := ?r\<lparr>rq_server_written := n, rq_state := READ_SERVER\<rparr>]"
        using quiet_progD [OF quiet_epoll_ctl [OF ok] 3] send(3) t k by simp
      with epoll_ctl_net [OF net 3] t show ?thesis by auto
    next
      case False
      with 2 have "t = set_req k (rq_server_written_update (\<lambda>_. n)) s1" by simp
      then have "N_of view t = N_of view s1" "ep_reqs t = (ep_reqs s)[k := ?r\<lparr>rq_server_written := n, rq_state := WRITE_SERVER\<rparr>]"
        using send(3) st by (simp_all flip: st)
      then show ?thesis by blast
    qed
    then show "N_of view t = N_of view s1" "\<exists>st'. (st' = WRITE_SERVER \<or> st' = READ_SERVER) \<and>
      ep_reqs t = (ep_reqs s)[k := ?r\<lparr>rq_server_written := n, rq_state := st'\<rparr>]" by blast+
  qed
  then obtain st' where st': "st' = WRITE_SERVER \<or> st' = READ_SERVER"
    "ep_reqs t = (ep_reqs s)[k := ?r\<lparr>rq_server_written := n, rq_state := st'\<rparr>]" by blast
  have "relay_req (N_of view t) ?i (?r\<lparr>rq_server_written := n, rq_state := st'\<rparr>)"
    using rel y st st'(1) t(1) n1 by (auto simp: relay_req_def)
  moreover have "net_keeps (- conn_ids ?i) (N_of view s) (N_of view t)"
    by (simp add: t(1) n1 keeps_own snd_conn_ids [OF y(1)])
  ultimately show ?thesis using relay_own [OF relay k] st'(2) by simp
qed

lemma read_server_relay:
  fixes c :: "('z ep_ext, 'ai) psys" and s :: "'z ep_scheme"
  assumes ok: "calls_ok c es" and net: "net_calls view c es" and relay: "relay (N_of view s) ids (ep_reqs s)"
    and k: "k < length (ep_reqs s)" and inv: "req_inv (ep_reqs s ! k)" and st: "rq_state (ep_reqs s ! k) = READ_SERVER"
    and run: "read_server c es k s = Some (Ret (), t)"
  shows "relay (N_of view t) ids (ep_reqs t)"
proof -
  let ?r = "ep_reqs s ! k" and ?i = "ids ! k"
  obtain buf n fin s1 where
    1: "ep_recv_all c (rq_server_fd ?r) (rq_response ?r) (rq_server_read ?r) s = Some (Ret (buf, n, fin), s1)" and
    2: "if fin then
         \<exists>s3. epoll_ctl es CTL_MOD (rq_client_fd ?r) [EPOLLOUT, EPOLLET]
             (set_req k (\<lambda>r. r\<lparr>rq_response := buf, rq_server_read := n\<rparr>) s1) = (Ret (), s3) \<and>
           t = set_req k (rq_server_fd_update (\<lambda>_. - 1))
             (snd (ps_close c (rq_server_fd ?r) (set_req k (rq_state_update (\<lambda>_. WRITE_CLIENT)) s3)))
       else t = set_req k (\<lambda>r. r\<lparr>rq_response := buf, rq_server_read := n\<rparr>) s1"
    by (rule read_serverE [OF run])
  obtain y where y: "snd ?i = Some y" "y \<noteq> fst ?i" by (rule relay_both [OF relay k]) (simp add: st)
  have rel: "relay_req (N_of view s) ?i ?r" by (rule relay_nth [OF relay k])
  then have conn: "nt_conn (N_of view s) (rq_server_fd ?r) = Some y" "nt_rcvd (N_of view s) y = rq_response ?r"
      "nt_conn (N_of view s) (rq_client_fd ?r) = Some (fst ?i)"
    using y(1) st by (auto simp: relay_req_def)
  have "recv_net view y s buf n s1"
  proof (rule ep_recv_all_rule [OF 1, where I = "recv_net view y s"])
    have "net_recv y (rq_response ?r) (N_of view s) = N_of view s" unfolding conn(2) [symmetric] by simp
    then show "recv_net view y s (rq_response ?r) (rq_server_read ?r) s"
      using inv by (simp add: recv_net_def recv_ok_def req_inv_def)
  qed (rule recv_net_step [OF ok net conn(1)])
  then have s1: "ep_reqs s1 = ep_reqs s" "N_of view s1 = net_recv y buf (N_of view s)"
    by (simp_all add: recv_net_def recv_ok_def)
  have zero: "rq_client_written ?r = 0" using inv st by (simp add: req_inv_def)
  show ?thesis
  proof (cases fin)
    case True
    with 2 obtain s3 where 3: "epoll_ctl es CTL_MOD (rq_client_fd ?r) [EPOLLOUT, EPOLLET]
          (set_req k (\<lambda>r. r\<lparr>rq_response := buf, rq_server_read := n\<rparr>) s1) = (Ret (), s3)"
      and t: "t = set_req k (rq_server_fd_update (\<lambda>_. - 1))
          (snd (ps_close c (rq_server_fd ?r) (set_req k (rq_state_update (\<lambda>_. WRITE_CLIENT)) s3)))" by auto
    let ?r' = "?r\<lparr>rq_response := buf, rq_server_read := n, rq_state := WRITE_CLIENT, rq_server_fd := - 1\<rparr>"
    have reqs: "ep_reqs t = (ep_reqs s)[k := ?r']"
      using quiet_progD [OF quiet_epoll_ctl [OF ok] 3] calls_okD(11) [OF ok] s1(1) t k by simp
    have nt: "N_of view t = net_close (rq_server_fd ?r) (net_recv y buf (N_of view s))"
      using epoll_ctl_net [OF net 3] s1(2) t by (simp add: net_callsD(3) [OF net])
    have "rq_client_fd ?r \<noteq> rq_server_fd ?r" using conn(1,3) y(2) by auto
    then have "relay_req (N_of view t) ?i ?r'"
      using rel y st zero conn(3) by (auto simp: relay_req_def nt net_close_def)
    moreover have "net_keeps (- conn_ids ?i) (N_of view s) (N_of view t)"
      unfolding nt
    proof (rule net_keeps_trans [OF keeps_own(2) net_keeps_close])
      show "y \<in> conn_ids ?i" by (rule snd_conn_ids [OF y(1)])
      show "x \<notin> - conn_ids ?i" if "nt_conn (net_recv y buf (N_of view s)) (rq_server_fd ?r) = Some x" for x
        using that conn(1) snd_conn_ids [OF y(1)] by simp
    qed
    ultimately show ?thesis using relay_own [OF relay k] reqs by simp
  next
    case False
    let ?r' = "?r\<lparr>rq_response := buf, rq_server_read := n\<rparr>"
    have t: "N_of view t = net_recv y buf (N_of view s)" "ep_reqs t = (ep_reqs s)[k := ?r']"
      using 2 False s1 by simp_all
    have "relay_req (N_of view t) ?i ?r'" using rel y st zero by (auto simp: relay_req_def t(1))
    moreover have "net_keeps (- conn_ids ?i) (N_of view s) (N_of view t)"
      by (simp add: t(1) keeps_own snd_conn_ids [OF y(1)])
    ultimately show ?thesis using relay_own [OF relay k] t(2) by simp
  qed
qed

lemma write_client_relay:
  fixes c :: "('z ep_ext, 'ai) psys" and s :: "'z ep_scheme"
  assumes ok: "calls_ok c es" and net: "net_calls view c es" and relay: "relay (N_of view s) ids (ep_reqs s)"
    and k: "k < length (ep_reqs s)" and inv: "req_inv (ep_reqs s ! k)" and st: "rq_state (ep_reqs s ! k) = WRITE_CLIENT"
    and run: "write_client c k s = Some (Ret (), t)"
  shows "relay (N_of view t) ids (ep_reqs t)"
proof -
  let ?r = "ep_reqs s ! k" and ?i = "ids ! k"
  obtain n fin s1 where
    1: "ep_send c (rq_client_fd ?r) (rq_response ?r) (rq_server_read ?r) (rq_client_written ?r) s = Some (Ret (n, fin), s1)" and
    2: "t = (if fin then set_req k (rq_client_fd_update (\<lambda>_. - 1))
          (snd (ps_close c (rq_client_fd ?r) (set_req k (rq_state_update (\<lambda>_. DONE)) (set_req k (rq_client_written_update (\<lambda>_. n)) s1))))
        else set_req k (rq_client_written_update (\<lambda>_. n)) s1)"
    by (rule write_clientE [OF run])
  obtain y where y: "snd ?i = Some y" "y \<noteq> fst ?i" by (rule relay_both [OF relay k]) (simp add: st)
  have rel: "relay_req (N_of view s) ?i ?r" by (rule relay_nth [OF relay k])
  then have conn: "nt_conn (N_of view s) (rq_client_fd ?r) = Some (fst ?i)"
      "nt_sent (N_of view s) (fst ?i) = take (nat (rq_client_written ?r)) (rq_response ?r)"
    using y(1) st by (auto simp: relay_req_def)
  have w: "0 \<le> rq_client_written ?r" "rq_client_written ?r \<le> rq_server_read ?r" "rq_server_read ?r \<le> int (length (rq_response ?r))"
    using inv by (simp_all add: req_inv_def)
  have send: "ep_reqs s1 = ep_reqs s" using ep_send_ok [OF ok w(2) 1] by simp
  have n1: "N_of view s1 = net_send (fst ?i) (take (nat n) (rq_response ?r)) (N_of view s)"
    by (rule ep_send_net [OF ok net conn(1) 1 w conn(2)])
  have keeps1: "net_keeps (- conn_ids ?i) (N_of view s) (N_of view s1)" by (simp add: n1 keeps_own fst_conn_ids)
  show ?thesis
  proof (cases fin)
    case True
    let ?r' = "?r\<lparr>rq_client_written := n, rq_state := DONE, rq_client_fd := - 1\<rparr>"
    have reqs: "ep_reqs t = (ep_reqs s)[k := ?r']" using 2 True calls_okD(11) [OF ok] send k by simp
    have nt: "N_of view t = net_close (rq_client_fd ?r) (N_of view s1)"
      using 2 True by (simp add: net_callsD(3) [OF net])
    have "relay_req (N_of view t) ?i ?r'" using rel y st by (auto simp: relay_req_def nt n1 net_close_def)
    moreover have "net_keeps (- conn_ids ?i) (N_of view s) (N_of view t)"
      unfolding nt
    proof (rule net_keeps_trans [OF keeps1 net_keeps_close])
      show "x \<notin> - conn_ids ?i" if "nt_conn (N_of view s1) (rq_client_fd ?r) = Some x" for x
        using that conn(1) fst_conn_ids [of ?i] by (simp add: n1)
    qed
    ultimately show ?thesis using relay_own [OF relay k] reqs by simp
  next
    case False
    let ?r' = "?r\<lparr>rq_client_written := n\<rparr>"
    have t: "N_of view t = N_of view s1" "ep_reqs t = (ep_reqs s)[k := ?r']" using 2 False send by simp_all
    have "relay_req (N_of view t) ?i ?r'" using rel y st by (auto simp: relay_req_def t(1) n1)
    with keeps1 show ?thesis using relay_own [OF relay k] t by simp
  qed
qed

section \<open>Every event keeps the invariant\<close>

lemma dispatch_relay:
  fixes c :: "('z ep_ext, 'ai) psys" and s :: "'z ep_scheme"
  assumes ok: "calls_ok c es" and net: "net_calls view c es" and relay: "relay (N_of view s) ids (ep_reqs s)"
    and k: "k < length (ep_reqs s)" and inv: "reqs_inv s" and run: "dispatch c es k s = Some (Ret (), t)"
  shows "\<exists>ids'. relay (N_of view t) ids' (ep_reqs t)"
proof -
  note r = reqs_inv_nth [OF inv k]
  consider "rq_state (ep_reqs s ! k) = READ_CLIENT" "read_client c es k s = Some (Ret (), t)"
    | "rq_state (ep_reqs s ! k) = WRITE_SERVER" "write_server c es k s = Some (Ret (), t)"
    | "rq_state (ep_reqs s ! k) = READ_SERVER" "read_server c es k s = Some (Ret (), t)"
    | "rq_state (ep_reqs s ! k) = WRITE_CLIENT" "write_client c k s = Some (Ret (), t)"
    | "ep_reqs t = ep_reqs s" "ep.more t = ep.more s"
    using run unfolding dispatch_def the_req_def Let_def by (auto split: if_splits)
  then show ?thesis
  proof cases
    case 1
    then show ?thesis by (rule read_client_relay [OF ok net relay k r])
  next
    case 2
    then show ?thesis using write_server_relay [OF ok net relay k r] by blast
  next
    case 3
    then show ?thesis using read_server_relay [OF ok net relay k r] by blast
  next
    case 4
    then show ?thesis using write_client_relay [OF ok net relay k r] by blast
  next
    case 5
    with relay show ?thesis by auto
  qed
qed

lemma accept_relay:
  fixes c :: "('z ep_ext, 'ai) psys" and s :: "'z ep_scheme"
  assumes ok: "calls_ok c es" and net: "net_calls view c es" and relay: "relay (N_of view s) ids (ep_reqs s)"
    and run: "accept_loop c es listenfd s = Some (Ret (), t)"
  shows "\<exists>ids'. relay (N_of view t) ids' (ep_reqs t)"
proof (rule accept_loop_rule [OF run, of "\<lambda>s. \<exists>ids'. relay (N_of view s) ids' (ep_reqs s)"])
  fix s u1 u2 :: "'z ep_scheme" and fd
  assume "\<exists>ids. relay (N_of view s) ids (ep_reqs s)" and acc: "ps_accept c listenfd s = (fd, u1)"
  then obtain ids where rel: "relay (N_of view s) ids (ep_reqs s)" by blast
  have opens: "opens fd (N_of view s) (N_of view u1)" and reqs: "ep_reqs u1 = ep_reqs s"
    by (rule net_callsD(4) [OF net acc], rule calls_okD(5) [OF ok acc])
  have keeps: "net_keeps UNIV (N_of view s) (N_of view u1)" by (rule opens_keeps [OF opens])
  show "(\<exists>ids'. relay (N_of view u1) ids' (ep_reqs u1)) \<and>
      (\<exists>ids'. relay (N_of view (perror (ps_strerror c) ''error accepting'' u1)) ids'
         (ep_reqs (perror (ps_strerror c) ''error accepting'' u1)))"
    using relay_keeps [OF rel keeps] reqs by auto
  assume pos: "0 < fd" and add: "add_client c es fd u1 = (Ret (), u2)"
  obtain v1 v2 where 1: "set_nonblock c fd u1 = (Ret (), v1)"
    and 2: "epoll_ctl es CTL_ADD fd [EPOLLIN, EPOLLET] v1 = (Ret (), v2)"
    and u2: "u2 = v2\<lparr>ep_reqs := ep_reqs v2 @ [req_info_constructor\<lparr>rq_client_fd := fd\<rparr>]\<rparr>"
    by (rule add_clientE [OF add])
  have n: "N_of view u2 = N_of view u1" using set_nonblock_net(1) [OF net 1] epoll_ctl_net [OF net 2] u2 by simp
  have r: "ep_reqs u2 = ep_reqs s @ [req_info_constructor\<lparr>rq_client_fd := fd\<rparr>]"
    using quiet_progD [OF quiet_nonblock [OF ok] 1] quiet_progD [OF quiet_epoll_ctl [OF ok] 2] reqs u2 by simp
  have m: "N_of view u1 = net_open fd (N_of view s)" using opens pos by (simp add: opens_def)
  have "relay (N_of view u1) (ids @ [(nt_next (N_of view s), None)]) (ep_reqs s @ [req_info_constructor\<lparr>rq_client_fd := fd\<rparr>])"
    by (rule relay_add [OF rel keeps]) (simp_all add: m net_open_def)
  with n r show "\<exists>ids'. relay (N_of view u2) ids' (ep_reqs u2)" by auto
qed (use relay in blast)

text \<open>
  The proxy after any events without an error flag. After an error the proxy closes a descriptor
  that its request still names, and another connection may get its number.
\<close>

definition calm :: "ev list \<Rightarrow> bool" where
  "calm evs \<longleftrightarrow> \<not> list_ex (\<lambda>x. x = EPOLLERR \<or> x = EPOLLHUP \<or> x = EPOLLRDHUP) evs"

inductive ep_calm ::
    "('z \<Rightarrow> net) \<Rightarrow> ('z ep_ext, 'ai) psys \<Rightarrow> 'z ep_ext epsys \<Rightarrow> int \<Rightarrow> 'z ep_scheme \<Rightarrow> bool" for view c es listenfd where
  ep_calm_init: "ep_reqs s = [] \<Longrightarrow> net_wf (view (ep.more s)) \<Longrightarrow> ep_calm view c es listenfd s"
| ep_calm_event: "ep_calm view c es listenfd s \<Longrightarrow> calm (snd e) \<Longrightarrow>
    handle_event c es listenfd e s = Some (Ret (), t) \<Longrightarrow> ep_calm view c es listenfd t"

lemma ep_calm_relay:
  assumes "ep_calm view c es listenfd s" and ok: "calls_ok c es" and net: "net_calls view c es"
  shows "reqs_inv s \<and> (\<exists>ids. relay (view (ep.more s)) ids (ep_reqs s))"
  using assms(1)
proof (induction rule: ep_calm.induct)
  case (ep_calm_init s)
  then have "relay (view (ep.more s)) [] (ep_reqs s)" by (simp add: relay_def separate_def)
  with ep_calm_init show ?case by (auto simp: reqs_inv_def)
next
  case (ep_calm_event s e t)
  then obtain ids where inv: "reqs_inv s" and rel: "relay (view (ep.more s)) ids (ep_reqs s)" by blast
  have "reqs_inv t" by (rule handle_event_inv [OF ok ep_calm_event.hyps(3) inv])
  consider "accept_loop c es listenfd s = Some (Ret (), t)"
    | k where "find_fd (fst e) (ep_reqs s) = Some k" "dispatch c es k s = Some (Ret (), t)"
    using ep_calm_event.hyps(2,3) unfolding handle_event_def Let_def calm_def
    by (auto split: if_splits option.splits)
  then have "\<exists>ids'. relay (view (ep.more t)) ids' (ep_reqs t)"
  proof cases
    case 1
    then show ?thesis by (rule accept_relay [OF ok net rel])
  next
    case (2 k)
    then have "k < length (ep_reqs s)" by (auto simp: find_fd_def dest: first_index_SomeD(1))
    from dispatch_relay [OF ok net rel this inv 2(2)] show ?thesis .
  qed
  with \<open>reqs_inv t\<close> show ?case by blast
qed

end
