(* ===== verification/Proxy_Epoll_Props.thy ===== *)
theory Proxy_Epoll_Props
  imports Proxy_Epoll_Relay
begin

text \<open>
  The requests of the event-driven proxy stay consistent through its states, and what a handler
  writes is the next part of its buffer. Then the events that stop or confuse the proxy.
\<close>

section \<open>Consistency\<close>

text \<open>C27. After any sequence of events every request is consistent with its state: the counters
  are the lengths of what was read and at most that for what was written, a request in
  \<open>READ_SERVER\<close> or later has been sent completely, one that is done has been answered
  completely, its descriptors are forgotten, and the array has at most 512 requests.\<close>

theorem epoll_requests_consistent:
  assumes "ep_reach c es listenfd s" and "calls_ok c es"
  shows "reqs_inv s"
  using assms(1)
proof (induction rule: ep_reach.induct)
  case (ep_reach_init s)
  then show ?case by (simp add: reqs_inv_def)
next
  case (ep_reach_event s e t)
  with handle_event_inv [OF assms(2)] show ?case by blast
qed

text \<open>
  A client on descriptor 4 and a server on descriptor 5; \<open>errno\<close> also counts what has happened.
\<close>

definition ep_demo_sys :: "(unit ep_ext, unit) psys" where
  "ep_demo_sys =
     \<lparr>ps_getaddrinfo = (\<lambda>h p x s. ((0, [()]), s)), ps_gai_strerror = (\<lambda>e. []), ps_strerror = (\<lambda>e. []),
      ps_freeaddrinfo = (\<lambda>l s. ((), s)), ps_socket = (\<lambda>a s. (5, s)), ps_connect = (\<lambda>fd a s. (0, s)),
      ps_close = (\<lambda>fd s. (0, s)),
      ps_read = (\<lambda>fd n s. if fd = 4 then ((20, ''GET http://a/b c'' @ CRLF @ CRLF), s)
          else if w_errno s = 11 then ((5, ''hello''), s\<lparr>w_errno := 12\<rparr>) else ((0, []), s)),
      ps_write = (\<lambda>fd d s. (int (length d), s)), ps_getfl = (\<lambda>fd s. (0, s)), ps_setfl = (\<lambda>fd f s. (0, s)),
      ps_accept = (\<lambda>fd s. if w_errno s = 0 then (4, s\<lparr>w_errno := 11\<rparr>) else (- 1, s)), ps_time = (\<lambda>s. (0, s))\<rparr>"

definition ep_demo_epoll :: "unit ep_ext epsys" where
  "ep_demo_epoll = \<lparr>es_create = (\<lambda>s. (3, s)), es_ctl = (\<lambda>efd op fd evs s. (0, s)), es_wait = (\<lambda>efd s. ((0, []), s))\<rparr>"

definition ep_demo_start :: ep where
  "ep_demo_start =
     \<lparr>w_errno = 0, w_out = [], w_err = [], ep_reqs = [], ep_log = Some [], ep_efd = 3, ep_events = []\<rparr>"

text \<open>The events of one request: a connection, then the four sockets that become ready.\<close>

definition ep_demo_events :: "(int \<times> ev list) list" where
  "ep_demo_events = [(6, [EPOLLIN]), (4, [EPOLLIN]), (5, [EPOLLOUT]), (5, [EPOLLIN]), (4, [EPOLLOUT])]"

lemma handle_events_reach:
  "handle_events c es listenfd evs s = Some (Ret (), t) \<Longrightarrow> ep_reach c es listenfd s \<Longrightarrow> ep_reach c es listenfd t"
  by (induction evs arbitrary: s) (auto simp: c_simps dbind_Ret_iff intro: ep_reach_event)

lemma ep_demo_run:
  "map_option (\<lambda>(r, t). (r, map (\<lambda>q. (rq_state q, rq_client_written q)) (ep_reqs t)))
     (handle_events ep_demo_sys ep_demo_epoll 6 ep_demo_events ep_demo_start) = Some (Ret (), [(DONE, 5)])"
  by code_simp

lemma ep_demo_calls: "calls_ok ep_demo_sys ep_demo_epoll"
  by (simp add: calls_ok_def ep_demo_sys_def ep_demo_epoll_def)

theorem epoll_requests_consistent_witness:
  "\<exists>t. handle_events ep_demo_sys ep_demo_epoll 6 ep_demo_events ep_demo_start = Some (Ret (), t) \<and>
     reqs_inv t \<and> map (\<lambda>q. (rq_state q, rq_client_written q)) (ep_reqs t) = [(DONE, 5)]"
proof -
  obtain t where t: "handle_events ep_demo_sys ep_demo_epoll 6 ep_demo_events ep_demo_start = Some (Ret (), t)"
    and m: "map (\<lambda>q. (rq_state q, rq_client_written q)) (ep_reqs t) = [(DONE, 5)]"
    using ep_demo_run
    by (cases "handle_events ep_demo_sys ep_demo_epoll 6 ep_demo_events ep_demo_start") auto
  have "ep_reach ep_demo_sys ep_demo_epoll 6 t"
    by (rule handle_events_reach [OF t]) (rule ep_reach_init, simp add: ep_demo_start_def)
  then have "reqs_inv t" using ep_demo_calls by (rule epoll_requests_consistent)
  with t m show ?thesis by (intro exI [of _ t] conjI)
qed

section \<open>Writing\<close>

text \<open>
  What goes out on a descriptor, in order; a call that fails sends nothing.
\<close>

definition writes_bytes :: "('w, 'ai) psys \<Rightarrow> int \<Rightarrow> ('w world_scheme \<Rightarrow> string) \<Rightarrow> bool" where
  "writes_bytes c fd sent \<longleftrightarrow>
     (\<forall>d s. case ps_write c fd d s of (e, t) \<Rightarrow>
        e = - 1 \<and> sent t = sent s \<or> 0 \<le> e \<and> e \<le> int (length d) \<and> sent t = sent s @ take (nat e) d)"

lemma writes_bytesD:
  assumes "writes_bytes c fd sent" and "ps_write c fd d s = (e, t)"
  shows "e = - 1 \<and> sent t = sent s \<or> 0 \<le> e \<and> e \<le> int (length d) \<and> sent t = sent s @ take (nat e) d"
  using assms unfolding writes_bytes_def by (metis (mono_tags, lifting) case_prod_conv)

text \<open>Each time a handler writes, what has gone out is the part of the buffer that its counter
  says: if \<open>n\<close> bytes had been sent before, \<open>m\<close> bytes have been sent after it, and the loop
  reports the end exactly when all \<open>len\<close> are out.\<close>

theorem epoll_writes_in_order:
  assumes "writes_bytes c fd sent" and "ep_send c fd buf len n s = Some (Ret (m, fin), t)"
    and "0 \<le> n" and "n \<le> len" and "len \<le> int (length buf)" and "sent s = base @ take (nat n) buf"
  shows "n \<le> m \<and> m \<le> len \<and> (fin \<longleftrightarrow> m = len) \<and> sent t = base @ take (nat m) buf"
proof -
  let ?I = "\<lambda>m t. n \<le> m \<and> m \<le> len \<and> sent t = base @ take (nat m) buf"
  have "?I m t"
  proof (rule ep_send_rule(1) [OF assms(2), of ?I])
    fix m u d e u1
    assume I: "?I m u" and d: "buf_bytes buf m (len - m) = Ret d" and w: "ps_write c fd d u = (e, u1)"
    have dd: "d = take (nat (len - m)) (drop (nat m) buf)" using buf_bytes_take [OF d] I assms(3,5) by simp
    show "?I (if e = - 1 then m else m + e) u1"
    proof (cases "e = - 1")
      case True
      with writes_bytesD [OF assms(1) w] I show ?thesis by simp
    next
      case False
      then have e: "0 \<le> e" "e \<le> len - m" "sent u1 = sent u @ take (nat e) d"
        using writes_bytesD [OF assms(1) w] buf_bytes_length [OF d] by auto
      have "take (nat e) d = take (nat e) (drop (nat m) buf)" using e(1,2) dd by (simp add: min_absorb1)
      with e I assms(3) False show ?thesis by (simp add: nat_add_distrib take_add)
    qed
  qed (use assms(4,6) in simp)
  with ep_send_rule(2) [OF assms(2), of "\<lambda>_ _. True"] show ?thesis by simp
qed

text \<open>A socket that takes three bytes, then would block.\<close>

definition blocking_sys :: "(unit, unit) psys" where
  "blocking_sys =
     \<lparr>ps_getaddrinfo = (\<lambda>h p x s. ((0, [()]), s)), ps_gai_strerror = (\<lambda>e. []), ps_strerror = (\<lambda>e. []),
      ps_freeaddrinfo = (\<lambda>l s. ((), s)), ps_socket = (\<lambda>a s. (5, s)), ps_connect = (\<lambda>fd a s. (0, s)),
      ps_close = (\<lambda>fd s. (0, s)), ps_read = (\<lambda>fd n s. ((0, []), s)),
      ps_write = (\<lambda>fd d s. if w_errno s = 11 then (- 1, s)
          else (int (min 3 (length d)), s\<lparr>w_errno := 11, w_err := w_err s @ take 3 d\<rparr>)),
      ps_getfl = (\<lambda>fd s. (0, s)), ps_setfl = (\<lambda>fd f s. (0, s)), ps_accept = (\<lambda>fd s. (4, s)), ps_time = (\<lambda>s. (0, s))\<rparr>"

theorem epoll_writes_in_order_witness:
  "\<exists>t. ep_send blocking_sys 5 ''hello'' 5 0 \<lparr>w_errno = 0, w_out = [], w_err = []\<rparr> = Some (Ret (3, False), t) \<and>
     w_err t = [] @ take (nat 3) ''hello''"
proof -
  have law: "writes_bytes blocking_sys 5 w_err"
    by (auto simp: writes_bytes_def blocking_sys_def min_def)
  have "map_option fst (ep_send blocking_sys 5 ''hello'' 5 0 \<lparr>w_errno = 0, w_out = [], w_err = []\<rparr>) = Some (Ret (3, False))"
    by code_simp
  then obtain t where t: "ep_send blocking_sys 5 ''hello'' 5 0 \<lparr>w_errno = 0, w_out = [], w_err = []\<rparr> = Some (Ret (3, False), t)"
    by auto
  have "w_err t = [] @ take (nat 3) ''hello''"
    using epoll_writes_in_order [OF law t, of "[]"] by simp
  with t show ?thesis by blast
qed

section \<open>Relaying\<close>

text \<open>
  What has passed over the connection \<open>x\<close> of the client of a request, and \<open>yo\<close> of its server once
  there is one. As long as the request uses a descriptor, it is that of the connection.
\<close>

definition relayed :: "net \<Rightarrow> req_info \<Rightarrow> nat \<Rightarrow> nat option \<Rightarrow> bool" where
  "relayed n r x yo \<longleftrightarrow>
     nt_rcvd n x = rq_original r \<and> (rq_state r \<noteq> DONE \<longrightarrow> nt_conn n (rq_client_fd r) = Some x) \<and>
     (case yo of
        None \<Rightarrow> rq_state r = READ_CLIENT \<and> nt_sent n x = []
      | Some y \<Rightarrow>
          (rq_state r = WRITE_SERVER \<or> rq_state r = READ_SERVER \<longrightarrow> nt_conn n (rq_server_fd r) = Some y) \<and>
          (\<exists>m. rewritten (cstr (nt_rcvd n x)) = Some m \<and>
             (\<exists>i. nt_sent n y = take i (cstr m)) \<and> (\<exists>j. nt_sent n x = take j (nt_rcvd n y)) \<and>
             (rq_state r \<noteq> READ_CLIENT \<and> rq_state r \<noteq> WRITE_SERVER \<longrightarrow> nt_sent n y = cstr m) \<and>
             (rq_state r = DONE \<longrightarrow> nt_sent n x = nt_rcvd n y)))"

text \<open>It follows from the invariant of \<open>Proxy_Epoll_Relay\<close>.\<close>

lemma relay_relayed:
  assumes rel: "relay_req n (x, yo) r" and inv: "req_inv r"
  shows "relayed n r x yo"
proof (cases yo)
  case None
  with rel show ?thesis by (auto simp: relay_req_def relayed_def)
next
  case (Some y)
  have c: "rewritten (cstr (nt_rcvd n x)) = Some (rq_modified r)" "nt_rcvd n x = rq_original r"
    "nt_sent n y = take (nat (rq_server_written r)) (cstr (rq_modified r))"
    "nt_sent n x = take (nat (rq_client_written r)) (nt_rcvd n y)" "nt_rcvd n y = rq_response r"
    "rq_state r \<noteq> DONE \<longrightarrow> nt_conn n (rq_client_fd r) = Some x"
    "rq_state r = WRITE_SERVER \<or> rq_state r = READ_SERVER \<longrightarrow> nt_conn n (rq_server_fd r) = Some y"
    using rel Some by (simp_all add: relay_req_def)
  moreover have "rq_state r \<noteq> READ_CLIENT \<and> rq_state r \<noteq> WRITE_SERVER \<longrightarrow> nt_sent n y = cstr (rq_modified r)"
    and "rq_state r = DONE \<longrightarrow> nt_sent n x = nt_rcvd n y"
    using c inv by (cases "rq_state r"; auto simp: req_inv_def)+
  ultimately show ?thesis unfolding relayed_def Some by auto
qed

lemma calm_relayed:
  assumes "ep_calm view c es listenfd s" and "calls_ok c es" and "net_calls view c es"
  shows "\<exists>ids. length ids = length (ep_reqs s) \<and> separate ids \<and>
    (\<forall>k < length (ep_reqs s). relayed (view (ep.more s)) (ep_reqs s ! k) (fst (ids ! k)) (snd (ids ! k)))"
proof -
  obtain ids where inv: "reqs_inv s" and rel: "relay (view (ep.more s)) ids (ep_reqs s)"
    using ep_calm_relay [OF assms] by blast
  have "relayed (view (ep.more s)) (ep_reqs s ! k) (fst (ids ! k)) (snd (ids ! k))" if "k < length (ep_reqs s)" for k
    using relay_relayed [OF _ reqs_inv_nth [OF inv that]] relay_nth [OF rel that] by simp
  then show ?thesis using rel relay_length [OF rel] by (intro exI [of _ ids]) (simp add: relay_def)
qed

text \<open>The rewritten request of a well-formed one.\<close>

lemma rewritten_well_formed:
  assumes "req_ok q" and "length (new_request ''GET'' (hr_host q) (hr_path q) (kept_headers (hr_headers q))) < MAX_OBJECT_SIZE"
  shows "rewritten (req_text q) = Some (new_request ''GET'' (hr_host q) (hr_path q) (kept_headers (hr_headers q)))"
proof -
  let ?w = "\<lparr>w_errno = 0, w_out = [], w_err = []\<rparr> :: world"
  have "parse_core (req_text q) ?w = (Ret \<lparr>p_host = hr_host q, p_port = hr_port q,
      p_request = new_request ''GET'' (hr_host q) (hr_path q) (kept_headers (hr_headers q))\<rparr>, ?w)"
    using rewrite_request [OF assms, of ?w] by (simp add: parse_request_def)
  then show ?thesis by (simp add: rewritten_def parse_def c_simps)
qed

lemma new_request_no_nul:
  assumes "no_nul (req_text q)"
  shows "no_nul (new_request ''GET'' (hr_host q) (hr_path q) (kept_headers (hr_headers q)))"
proof -
  have "no_nul own_headers" by (simp add: own_headers_def user_agent_hdr_def)
  moreover have "no_nul (concat (map header_line (kept_headers hs)))" if "no_nul (concat (map header_line hs))" for hs
    using that by (auto simp: no_nul_def kept_headers_def)
  ultimately show ?thesis using assms
    by (simp add: req_text_def new_request_def first_part_def host_port_def split: option.splits)
qed

text \<open>C28. As long as no event reports an error or a hang-up, the proxy relays faithfully: every
  request has a connection to its client and, once it is in \<open>WRITE_SERVER\<close>, one to its server,
  no two requests share one, and the descriptors of the request lead to them as long as it uses
  them. What the proxy has read from the client is in the request; it has written to the
  server a part from the start of that request as \<open>parse\<close> rewrites it, all of it before it reads the
  answer, and to the client a part from the start of what that server sent, all of it when the
  request is done. How the reads and writes are cut, and how the requests interleave, makes
  no difference.\<close>

theorem epoll_relays:
  assumes "ep_calm view c es listenfd s" and "calls_ok c es" and "net_calls view c es"
  shows "\<exists>ids. length ids = length (ep_reqs s) \<and> separate ids \<and>
    (\<forall>k < length (ep_reqs s). relayed (view (ep.more s)) (ep_reqs s ! k) (fst (ids ! k)) (snd (ids ! k)))"
  using assms by (rule calm_relayed)

text \<open>C29. So, as long as no event reports an error or a hang-up, every client that sends a well-formed
  GET request is answered by its server: when the request is done, the server was sent the
  request that the proxy rewrites it to, once and completely, and the client was sent all that
  the server answered, on connections that no other request shares.\<close>

theorem epoll_answers:
  assumes "ep_calm view c es listenfd s" and "calls_ok c es" and "net_calls view c es"
  shows "\<exists>ids. length ids = length (ep_reqs s) \<and> separate ids \<and>
    (\<forall>k q. k < length (ep_reqs s) \<and> rq_state (ep_reqs s ! k) = DONE \<and>
       cstr (rq_original (ep_reqs s ! k)) = req_text q \<and> req_ok q \<and>
       length (new_request ''GET'' (hr_host q) (hr_path q) (kept_headers (hr_headers q))) < MAX_OBJECT_SIZE \<longrightarrow>
       (\<exists>x y. ids ! k = (x, Some y) \<and> nt_rcvd (view (ep.more s)) x = rq_original (ep_reqs s ! k) \<and>
          nt_sent (view (ep.more s)) y = new_request ''GET'' (hr_host q) (hr_path q) (kept_headers (hr_headers q)) \<and>
          nt_sent (view (ep.more s)) x = nt_rcvd (view (ep.more s)) y))"
proof -
  obtain ids where ids: "length ids = length (ep_reqs s)" "separate ids"
    "\<forall>k < length (ep_reqs s). relayed (view (ep.more s)) (ep_reqs s ! k) (fst (ids ! k)) (snd (ids ! k))"
    using calm_relayed [OF assms] by blast
  have "\<exists>x y. ids ! k = (x, Some y) \<and> nt_rcvd (view (ep.more s)) x = rq_original (ep_reqs s ! k) \<and>
      nt_sent (view (ep.more s)) y = new_request ''GET'' (hr_host q) (hr_path q) (kept_headers (hr_headers q)) \<and>
      nt_sent (view (ep.more s)) x = nt_rcvd (view (ep.more s)) y"
    if k: "k < length (ep_reqs s)" "rq_state (ep_reqs s ! k) = DONE" and q: "req_ok q"
      "length (new_request ''GET'' (hr_host q) (hr_path q) (kept_headers (hr_headers q))) < MAX_OBJECT_SIZE"
      and orig: "cstr (rq_original (ep_reqs s ! k)) = req_text q" for k q
  proof -
    obtain x yo where x: "ids ! k = (x, yo)" by fastforce
    have "no_nul (req_text q)" unfolding orig [symmetric] by (rule no_nul_cstr)
    note new = cstr_id [OF new_request_no_nul [OF this]] rewritten_well_formed [OF q]
    have "relayed (view (ep.more s)) (ep_reqs s ! k) x yo" using ids(3) k(1) x by force
    with k(2) orig new x show ?thesis unfolding relayed_def by (cases yo) auto
  qed
  with ids show ?thesis by (intro exI [of _ ids]) blast
qed

text \<open>The network of the example: a client on descriptor 4, a server on 5 that sends \<open>hello\<close>.\<close>

definition on_net :: "(net \<Rightarrow> net) \<Rightarrow> net ep_scheme \<Rightarrow> net ep_scheme" where
  "on_net f s = ep.more_update f s"

definition relay_demo_req :: http_req where
  "relay_demo_req = \<lparr>hr_host = ''a'', hr_port = None, hr_path = ''b'', hr_headers = []\<rparr>"

definition relay_demo_sys :: "(net ep_ext, unit) psys" where
  "relay_demo_sys =
     \<lparr>ps_getaddrinfo = (\<lambda>h p x s. ((0, [()]), s)), ps_gai_strerror = (\<lambda>e. []), ps_strerror = (\<lambda>e. []),
      ps_freeaddrinfo = (\<lambda>l s. ((), s)),
      ps_socket = (\<lambda>a s. if nt_conn (ep.more s) 5 = None then (5, on_net (net_open 5) s) else (- 1, s)),
      ps_connect = (\<lambda>fd a s. (0, s)), ps_close = (\<lambda>fd s. (0, on_net (net_close fd) s)),
      ps_read = (\<lambda>fd n s.
        case nt_conn (ep.more s) fd of
          None \<Rightarrow> ((- 1, []), s)
        | Some x \<Rightarrow>
            (let d = (if nt_rcvd (ep.more s) x \<noteq> [] then []
                      else if fd = 4 then req_text relay_demo_req else ''hello'')
             in ((int (length d), d), on_net (net_recv x (nt_rcvd (ep.more s) x @ d)) s))),
      ps_write = (\<lambda>fd d s.
        case nt_conn (ep.more s) fd of
          None \<Rightarrow> (- 1, s)
        | Some x \<Rightarrow> (int (length d), on_net (net_send x (nt_sent (ep.more s) x @ d)) s)),
      ps_getfl = (\<lambda>fd s. (0, s)), ps_setfl = (\<lambda>fd f s. (if nt_conn (ep.more s) fd = None then - 1 else 0, s)),
      ps_accept = (\<lambda>fd s. if nt_next (ep.more s) = 0 \<and> nt_conn (ep.more s) 4 = None
        then (4, on_net (net_open 4) s) else (- 1, s)),
      ps_time = (\<lambda>s. (0, s))\<rparr>"

definition relay_demo_epoll :: "net ep_ext epsys" where
  "relay_demo_epoll = \<lparr>es_create = (\<lambda>s. (3, s)), es_ctl = (\<lambda>efd op fd evs s. (0, s)), es_wait = (\<lambda>efd s. ((0, []), s))\<rparr>"

definition relay_demo_start :: "net ep_scheme" where
  "relay_demo_start =
     \<lparr>w_errno = 11, w_out = [], w_err = [], ep_reqs = [], ep_log = Some [], ep_efd = 3, ep_events = [],
      \<dots> = \<lparr>nt_conn = (\<lambda>fd. None), nt_sent = (\<lambda>x. []), nt_rcvd = (\<lambda>x. []), nt_next = 0\<rparr>\<rparr>"

lemma relay_demo_calls:
  "calls_ok relay_demo_sys relay_demo_epoll" "net_calls (\<lambda>n. n) relay_demo_sys relay_demo_epoll"
  by (auto simp: calls_ok_def net_calls_def relay_demo_sys_def relay_demo_epoll_def on_net_def opens_def Let_def
      split: option.split)

lemma handle_events_calm:
  "handle_events c es listenfd evs s = Some (Ret (), t) \<Longrightarrow> list_all (\<lambda>e. calm (snd e)) evs \<Longrightarrow>
     ep_calm view c es listenfd s \<Longrightarrow> ep_calm view c es listenfd t"
  by (induction evs arbitrary: s) (auto simp: c_simps dbind_Ret_iff intro: ep_calm_event)

lemma relay_demo_run:
  obtains t q where "handle_events relay_demo_sys relay_demo_epoll 6 ep_demo_events relay_demo_start = Some (Ret (), t)"
    and "ep_calm (\<lambda>n. n) relay_demo_sys relay_demo_epoll 6 t" and "0 < length (ep_reqs t)" and "ep_reqs t ! 0 = q"
    and "rq_state q = DONE" and "rq_original q = req_text relay_demo_req"
proof -
  have "map_option (\<lambda>(r, t). (r, map (\<lambda>q. (rq_state q, rq_original q)) (ep_reqs t)))
      (handle_events relay_demo_sys relay_demo_epoll 6 ep_demo_events relay_demo_start) =
    Some (Ret (), [(DONE, req_text relay_demo_req)])" by code_simp
  then obtain t where t: "handle_events relay_demo_sys relay_demo_epoll 6 ep_demo_events relay_demo_start = Some (Ret (), t)"
    and m: "map (\<lambda>q. (rq_state q, rq_original q)) (ep_reqs t) = [(DONE, req_text relay_demo_req)]"
    by (cases "handle_events relay_demo_sys relay_demo_epoll 6 ep_demo_events relay_demo_start") auto
  have calm: "ep_calm (\<lambda>n. n) relay_demo_sys relay_demo_epoll 6 t"
    by (rule handle_events_calm [OF t])
      (simp_all add: ep_demo_events_def calm_def ep_calm_init relay_demo_start_def net_wf_def)
  obtain q where "ep_reqs t = [q]" "rq_state q = DONE" "rq_original q = req_text relay_demo_req"
    using m by (auto simp: map_eq_Cons_conv)
  with t calm that show thesis by simp
qed

theorem epoll_relays_witness:
  "\<exists>t. handle_events relay_demo_sys relay_demo_epoll 6 ep_demo_events relay_demo_start = Some (Ret (), t) \<and>
     (\<exists>x y m. nt_rcvd (ep.more t) x = req_text relay_demo_req \<and>
        rewritten (cstr (nt_rcvd (ep.more t) x)) = Some m \<and> nt_sent (ep.more t) y = cstr m \<and>
        nt_sent (ep.more t) x = nt_rcvd (ep.more t) y)"
proof (rule relay_demo_run)
  fix t q
  assume t: "handle_events relay_demo_sys relay_demo_epoll 6 ep_demo_events relay_demo_start = Some (Ret (), t)"
    and calm: "ep_calm (\<lambda>n. n) relay_demo_sys relay_demo_epoll 6 t" and k: "0 < length (ep_reqs t)"
    and q: "ep_reqs t ! 0 = q" "rq_state q = DONE" "rq_original q = req_text relay_demo_req"
  from epoll_relays [OF calm relay_demo_calls] k q(1) obtain x yo where "relayed (ep.more t) q x yo" by blast
  with q(2,3) have "\<exists>x y m. nt_rcvd (ep.more t) x = req_text relay_demo_req \<and>
      rewritten (cstr (nt_rcvd (ep.more t) x)) = Some m \<and> nt_sent (ep.more t) y = cstr m \<and>
      nt_sent (ep.more t) x = nt_rcvd (ep.more t) y"
    unfolding relayed_def by (cases yo) auto
  with t show ?thesis by (intro exI [of _ t] conjI)
qed

theorem epoll_answers_witness:
  "\<exists>t. handle_events relay_demo_sys relay_demo_epoll 6 ep_demo_events relay_demo_start = Some (Ret (), t) \<and>
     (\<exists>x y. nt_rcvd (ep.more t) x = req_text relay_demo_req \<and>
        nt_sent (ep.more t) y = new_request ''GET'' ''a'' ''b'' [] \<and> nt_sent (ep.more t) x = nt_rcvd (ep.more t) y)"
proof (rule relay_demo_run)
  fix t q
  assume t: "handle_events relay_demo_sys relay_demo_epoll 6 ep_demo_events relay_demo_start = Some (Ret (), t)"
    and calm: "ep_calm (\<lambda>n. n) relay_demo_sys relay_demo_epoll 6 t" and k: "0 < length (ep_reqs t)"
    and q: "ep_reqs t ! 0 = q" "rq_state q = DONE" "rq_original q = req_text relay_demo_req"
  have cstr: "cstr (req_text relay_demo_req) = req_text relay_demo_req" by code_simp
  have ok: "req_ok relay_demo_req" by code_simp
  have new: "new_request ''GET'' (hr_host relay_demo_req) (hr_path relay_demo_req) (kept_headers (hr_headers relay_demo_req)) =
      new_request ''GET'' ''a'' ''b'' []" by (simp add: relay_demo_req_def kept_headers_def)
  have short: "length (new_request ''GET'' ''a'' ''b'' []) < MAX_OBJECT_SIZE"
    by (simp add: new_request_def first_part_def own_headers_def user_agent_hdr_def has_host_def)
  have "\<exists>x y. nt_rcvd (ep.more t) x = rq_original (ep_reqs t ! 0) \<and>
      nt_sent (ep.more t) y = new_request ''GET'' ''a'' ''b'' [] \<and> nt_sent (ep.more t) x = nt_rcvd (ep.more t) y"
    using epoll_answers [OF calm relay_demo_calls] k q cstr ok short unfolding new [symmetric] by metis
  with t q show ?thesis by (intro exI [of _ t] conjI) simp_all
qed

section \<open>Clients that hang up\<close>

text \<open>A client that closes its connection before the end of its headers keeps the proxy in
  \<open>read_client\<close> for ever: every \<open>read\<close> returns 0, which the loop takes for progress.\<close>

theorem epoll_eof_spins:
  fixes c :: "('z ep_ext, 'ai) psys" and s :: "'z ep_scheme"
  assumes "\<And>s :: 'z ep_scheme. ps_read c (rq_client_fd (ep_reqs s ! k)) READ_SIZE s = ((0, []), s)"
    and "headers_end (rq_original (ep_reqs s ! k)) = Ret False"
  shows "read_client c es k s = None"
proof -
  let ?fd = "rq_client_fd (ep_reqs s ! k)" and ?buf = "rq_original (ep_reqs s ! k)"
  have never: "\<not> (fd = rq_client_fd (ep_reqs u ! k) \<and> headers_end buf = Ret False)"
    if "ep_recv_headers c fd buf n u = Some y" for fd buf n and u :: "'z ep_scheme" and y
    using that
  proof (rule ep_recv_headers.raw_induct [of "\<lambda>d fd buf n u y. d = c \<longrightarrow>
      \<not> (fd = rq_client_fd (ep_reqs u ! k) \<and> headers_end buf = Ret False)", rotated, THEN mp])
    fix f :: "('z ep_ext, 'ai) psys \<Rightarrow> int \<Rightarrow> string \<Rightarrow> int \<Rightarrow> 'z ep_scheme \<Rightarrow>
        ((string \<times> int \<times> bool) outcome \<times> 'z ep_scheme) option"
      and d :: "('z ep_ext, 'ai) psys" and fd buf n and u :: "'z ep_scheme" and y
    assume IH: "\<And>d fd buf n u y. f d fd buf n u = Some y \<Longrightarrow> d = c \<longrightarrow>
        \<not> (fd = rq_client_fd (ep_reqs u ! k) \<and> headers_end buf = Ret False)"
      and body: "(case headers_end buf of
        Ret found \<Rightarrow>
          if found then Some (Ret (buf, n, True), u) else
          (case ps_read d fd READ_SIZE u of
             ((r, dd), s1) \<Rightarrow>
               if r = - 1 then Some (would_block d ''error reading'' (buf, n, False) s1)
               else
                 (case buf_write buf n dd of
                    Ret buf' \<Rightarrow> f d fd buf' (n + r) s1
                  | Exited k \<Rightarrow> Some (Exited k, s1)
                  | Fault e \<Rightarrow> Some (Fault e, s1)))
      | Exited k \<Rightarrow> Some (Exited k, u)
      | Fault e \<Rightarrow> Some (Fault e, u)) = Some y"
    show "d = c \<longrightarrow> \<not> (fd = rq_client_fd (ep_reqs u ! k) \<and> headers_end buf = Ret False)"
    proof (intro impI notI)
      assume dc: "d = c" and a: "fd = rq_client_fd (ep_reqs u ! k) \<and> headers_end buf = Ret False"
      then have "ps_read d fd READ_SIZE u = ((0, []), u)" using assms(1) by simp
      with body a have "f d fd buf (n + 0) u = Some y" by (simp add: buf_write_def)
      from IH [OF this] dc a show False by simp
    qed
  qed simp
  have "ep_recv_headers c ?fd ?buf n (print_out (''read_client'' @ [LF]) s) = None" for n
  proof (rule ccontr)
    assume "ep_recv_headers c ?fd ?buf n (print_out (''read_client'' @ [LF]) s) \<noteq> None"
    then obtain y where "ep_recv_headers c ?fd ?buf n (print_out (''read_client'' @ [LF]) s) = Some y" by blast
    from never [OF this] assms(2) show False by simp
  qed
  then show ?thesis
    by (simp add: read_client_def c_simps the_req_def dbind_def)
qed

definition eof_sys :: "(unit ep_ext, unit) psys" where
  "eof_sys = ep_demo_sys\<lparr>ps_read := (\<lambda>fd n s. ((0, []), s))\<rparr>"

definition eof_state :: ep where
  "eof_state = ep_demo_start\<lparr>ep_reqs := [req_info_constructor\<lparr>rq_client_fd := 4, rq_original := ''GET /'', rq_client_read := 5\<rparr>]\<rparr>"

theorem epoll_eof_spins_witness: "read_client eof_sys ep_demo_epoll 0 eof_state = None"
proof (rule epoll_eof_spins)
  show "ps_read eof_sys (rq_client_fd (ep_reqs s ! 0)) READ_SIZE s = ((0, []), s)" for s
    by (simp add: eof_sys_def ep_demo_sys_def)
  show "headers_end (rq_original (ep_reqs eof_state ! 0)) = Ret False" by code_simp
qed

section \<open>Servers that cannot be reached\<close>

text \<open>
  When no address of a host can be connected to, the last descriptor has been closed and \<open>fcntl\<close>
  fails on it: one unreachable host ends the proxy, with all its clients.
\<close>

lemma connect_walk_some:
  "rps \<noteq> [] \<Longrightarrow> snd (fst (connect_walk c rps h s)) \<noteq> None"
proof (induction rps arbitrary: h s)
  case (Cons rp rps)
  obtain fd s1 where 1: "ps_socket c rp s = (fd, s1)" by fastforce
  obtain rc s2 where 2: "ps_connect c fd rp s1 = (rc, s2)" by fastforce
  from Cons 1 2 show ?case by (cases "rps = []") auto
qed simp

lemma epoll_unreachable_exits:
  assumes "\<And>h p x s. snd (fst (ps_getaddrinfo c h p x s)) \<noteq> []"
    and "\<And>fd fl s. fst (ps_setfl c fd fl s) < 0"
  shows "fst (connect_to_server c host port s) = Exited 1"
proof -
  define p where "p = (case port of None \<Rightarrow> ''80'' | Some p \<Rightarrow> p)"
  obtain rc l s1 where 1: "ps_getaddrinfo c host p (connect_hints True) s = ((rc, l), s1)"
    by (metis prod.exhaust)
  with assms(1) [of host p "connect_hints True" s] have l: "l \<noteq> []" by simp
  show ?thesis
  proof (cases "rc = 0")
    case False
    with 1 show ?thesis by (simp add: connect_to_server_def connect_host_defs p_def [symmetric])
  next
    case True
    obtain f h s2 where 2: "connect_walk c l None s1 = ((f, h), s2)" by (metis prod.exhaust)
    with connect_walk_some [OF l, of c None s1] obtain fd where "h = Some fd" by auto
    with 1 2 True obtain s4 where "connect_host c True host p s = (Ret fd, s4)"
      by (auto simp: connect_host_defs)
    moreover obtain fl s5 where "ps_getfl c fd s4 = (fl, s5)" by fastforce
    moreover obtain e s6 where "ps_setfl c fd (fl OR O_NONBLOCK) s5 = (e, s6)" by fastforce
    ultimately show ?thesis
      using assms(2) [of fd "fl OR O_NONBLOCK" s5]
      by (simp add: connect_to_server_def p_def [symmetric] cbind_def set_nonblock_def)
  qed
qed

text \<open>
  For a URL without a port the service name that reaches \<open>getaddrinfo\<close> is empty, not \<open>80\<close>.
\<close>

lemma epoll_port_empty:
  assumes "req_ok q" and "hr_port q = None"
    and "length (new_request ''GET'' (hr_host q) (hr_path q) (kept_headers (hr_headers q))) < MAX_OBJECT_SIZE"
  shows "cbind (parse (req_text q) []) (\<lambda>(host_url, host_port, modified). connect_to_server c host_url (Some host_port)) s =
    cbind (connect_host c True (hr_host q) []) (\<lambda>hostfd. cbind (set_nonblock c hostfd) (\<lambda>_. creturn hostfd)) s"
  using parse_no_port [OF assms, of "[]" s] by (simp add: c_simps connect_to_server_def)

section \<open>Descriptors after an error\<close>

text \<open>
  After an error on a descriptor the proxy closes it but keeps its request: a later connection
  that gets the same number is served with the old request.
\<close>

lemma epoll_stale_request:
  "map_option (\<lambda>(r, t). (r, map rq_client_fd (ep_reqs t), find_fd 4 (ep_reqs t)))
     (handle_events (ep_demo_sys\<lparr>ps_accept := (\<lambda>fd s. if w_errno s = 0 then (4, s\<lparr>w_errno := 11\<rparr>) else (- 1, s\<lparr>w_errno := 0\<rparr>))\<rparr>)
        ep_demo_epoll 6 [(6, [EPOLLIN]), (4, [EPOLLHUP]), (6, [EPOLLIN])] ep_demo_start) =
   Some (Ret (), [4, 4], Some 0)"
  by code_simp

end
