(* ===== verification/Cgi.thy ===== *)
theory Cgi
  imports Csapp_Rio Bounded_Buffer
begin

text \<open>
  The CGI programs of the Tiny server, \<open>tiny/cgi-bin/adder.c\<close> and \<open>tiny/cgi-bin/slow.c\<close>: what
  they print for a value of \<open>QUERY_STRING\<close>, after which they exit with 0.
\<close>

text \<open>
  A string in an array of \<open>MAXLINE\<close> bytes, and the idiom \<open>sprintf(buf, "%s...", buf)\<close>, which
  appends (the C standard leaves it undefined, since the arguments overlap).
\<close>

definition sprintf_max :: "string \<Rightarrow> string outcome" where
  "sprintf_max s = (if MAXLINE \<le> length s then Fault Out_Of_Bounds else Ret s)"

lemma sprintf_max_exec [code]:
  "sprintf_max s = (if 8192 \<le> int (length s) then Fault Out_Of_Bounds else Ret s)"
  by (simp add: sprintf_max_def)

fun sprintf_all :: "string \<Rightarrow> string list \<Rightarrow> string outcome" where
  "sprintf_all buf [] = Ret buf"
| "sprintf_all buf (s # ss) = obind (sprintf_max (buf @ s)) (\<lambda>b. sprintf_all b ss)"

lemma sprintf_all_fits:
  "length buf + length (concat ss) < MAXLINE \<Longrightarrow> sprintf_all buf ss = Ret (buf @ concat ss)"
  by (induction ss arbitrary: buf) (simp_all add: sprintf_max_def)

section \<open>The arguments\<close>

text \<open>
  \<open>adder\<close> takes the text before the first ampersand and all that follows it. Without an
  ampersand it writes through a null pointer.
\<close>

definition adder_args :: "string option \<Rightarrow> (int \<times> int) outcome" where
  "adder_args query =
     (case query of
        None \<Rightarrow> Ret (0, 0)
      | Some buf \<Rightarrow>
          (case strchr buf (CHR ''&'') of
             None \<Rightarrow> Fault Null_Deref
           | Some p \<Rightarrow>
               obind (sprintf_max (take p buf)) (\<lambda>arg1.
               obind (sprintf_max (drop (Suc p) buf)) (\<lambda>arg2.
                 Ret (atoi arg1, atoi arg2)))))"

text \<open>\<open>slow\<close> also cuts the second one at the next ampersand.\<close>

definition slow_args :: "string option \<Rightarrow> (int \<times> int) outcome" where
  "slow_args query =
     (case query of
        None \<Rightarrow> Ret (0, 0)
      | Some buf \<Rightarrow>
          (case strchr buf (CHR ''&'') of
             None \<Rightarrow> Fault Null_Deref
           | Some p \<Rightarrow>
               (let rest = drop (Suc p) buf;
                    rest' = (case strchr rest (CHR ''&'') of None \<Rightarrow> rest | Some q \<Rightarrow> take q rest)
                in obind (sprintf_max (take p buf)) (\<lambda>arg1.
                   obind (sprintf_max rest') (\<lambda>arg2.
                     Ret (atoi arg1, atoi arg2))))))"

section \<open>adder\<close>

definition adder_content :: "int \<Rightarrow> int \<Rightarrow> int \<Rightarrow> string" where
  "adder_content n1 n2 res =
     ''Welcome to add.com: '' @ ''THE Internet addition portal.'' @ CRLF @ ''<p>'' @
     ''The answer is: '' @ show_int n1 @ '' + '' @ show_int n2 @ '' = '' @ show_int res @ CRLF @ ''<p>'' @
     ''Thanks for visiting!'' @ CRLF"

definition cgi_headers :: "nat \<Rightarrow> string" where
  "cgi_headers len =
     ''Connection: close'' @ CRLF @ ''Content-length: '' @ show_nat len @ CRLF @
     ''Content-type: text/html'' @ CRLF @ CRLF"

definition adder_main :: "string option \<Rightarrow> string outcome" where
  "adder_main query =
     obind (adder_args query) (\<lambda>(n1, n2).
     obind (int_add n1 n2) (\<lambda>res.
       (let content = adder_content n1 n2 res in Ret (cgi_headers (length content) @ content))))"

section \<open>slow\<close>

text \<open>
  The letters of the content. \<open>n2 + 1\<close> overflows for the largest \<open>int\<close>; for a negative \<open>n2\<close> the
  terminating null character is stored before the array.
\<close>

definition slow_letter :: "nat \<Rightarrow> char" where
  "slow_letter i = char_of (97 + i mod 26)"

definition slow_content :: "int \<Rightarrow> string outcome" where
  "slow_content n2 =
     obind (int_add n2 1) (\<lambda>k.
       if n2 < 0 then Fault Out_Of_Bounds else Ret (map slow_letter [0..<nat n2]))"

text \<open>
  What is printed, and the arguments of the calls of \<open>sleep\<close>: \<open>n1\<close> in the middle of the loop,
  if it has a round, and again after the headers.
\<close>

definition slow_main :: "string option \<Rightarrow> (string \<times> int list) outcome" where
  "slow_main query =
     obind (slow_args query) (\<lambda>(n1, n2).
     obind (slow_content n2) (\<lambda>content.
       Ret (cgi_headers (length content) @ content, (if 0 < n2 then [n1] else []) @ [n1])))"

section \<open>What they answer\<close>

lemma show_nat_no_amp: "CHR ''&'' \<notin> set (show_nat n)"
  using show_nat_digits [of "CHR ''&''" n] by (auto simp: isdigit_def)

lemma show_int_no_amp: "CHR ''&'' \<notin> set (show_int i)"
  using show_nat_no_amp by (auto simp: show_int_def)

lemma show_nat_length: "n < 10 ^ k \<Longrightarrow> 0 < k \<Longrightarrow> length (show_nat n) \<le> k"
proof (induction k arbitrary: n)
  case (Suc k)
  show ?case
  proof (cases "n < 10")
    case False
    then have "0 < k" using Suc.prems by (cases k) auto
    moreover have "n div 10 < 10 ^ k" using Suc.prems by (simp add: less_mult_imp_div_less mult.commute)
    ultimately have "length (show_nat (n div 10)) \<le> k" using Suc.IH by blast
    with False show ?thesis by (subst show_nat.simps) simp
  qed (subst show_nat.simps, simp)
qed simp

lemma sprintf_max_number:
  assumes "0 \<le> i" and "i < 2 ^ 31"
  shows "sprintf_max (show_int i) = Ret (show_int i)"
proof -
  have "length (show_nat (nat i)) \<le> 10" using assms by (intro show_nat_length) simp_all
  with assms show ?thesis by (simp add: sprintf_max_def show_int_def)
qed

lemma adder_args_numbers:
  assumes "0 \<le> a" and "a < 2 ^ 31" and "0 \<le> b" and "b < 2 ^ 31"
  shows "adder_args (Some (show_int a @ CHR ''&'' # show_int b)) = Ret (a, b)"
  using sprintf_max_number [OF assms(1,2)] sprintf_max_number [OF assms(3,4)]
    atoi_show_int [OF assms(1,2)] atoi_show_int [OF assms(3,4)]
  by (simp add: adder_args_def strchr_append [OF show_int_no_amp])

lemma adder_main_adds:
  assumes "0 \<le> a" and "0 \<le> b" and "a + b \<le> INT_MAX"
  shows "adder_main (Some (show_int a @ CHR ''&'' # show_int b)) =
    Ret (cgi_headers (length (adder_content a b (a + b))) @ adder_content a b (a + b))"
proof -
  have "adder_args (Some (show_int a @ CHR ''&'' # show_int b)) = Ret (a, b)"
    using assms by (intro adder_args_numbers) simp_all
  then show ?thesis using assms by (simp add: adder_main_def int_add_def Let_def)
qed

lemma slow_main_sleeps:
  assumes "0 \<le> a" and "a < 2 ^ 31" and "0 \<le> b" and "b < INT_MAX"
  shows "\<exists>text. slow_main (Some (show_int a @ CHR ''&'' # show_int b)) =
    Ret (cgi_headers (nat b) @ text, (if 0 < b then [a, a] else [a])) \<and> length text = nat b"
proof -
  have "slow_args (Some (show_int a @ CHR ''&'' # show_int b)) = Ret (a, b)"
    using assms atoi_show_int [of a] atoi_show_int [of b] sprintf_max_number [of a] sprintf_max_number [of b]
    by (simp add: slow_args_def strchr_append [OF show_int_no_amp] strchr_None [THEN iffD2, OF show_int_no_amp] Let_def)
  then show ?thesis using assms by (simp add: slow_main_def slow_content_def int_add_def)
qed

text \<open>Without an ampersand both crash, and \<open>adder\<close> overflows when the sum does not fit.\<close>

lemma cgi_no_ampersand:
  "CHR ''&'' \<notin> set q \<Longrightarrow> adder_main (Some q) = Fault Null_Deref \<and> slow_main (Some q) = Fault Null_Deref"
  by (simp add: adder_main_def slow_main_def adder_args_def slow_args_def strchr_None [THEN iffD2])

lemma adder_overflow:
  assumes "0 \<le> a" and "a < 2 ^ 31" and "0 \<le> b" and "b < 2 ^ 31" and "INT_MAX < a + b"
  shows "adder_main (Some (show_int a @ CHR ''&'' # show_int b)) = Fault Int_Overflow"
  using adder_args_numbers [OF assms(1-4)] assms(5) by (simp add: adder_main_def int_add_def)

end
