(* ===== verification/Tiny.thy ===== *)
theory Tiny
  imports Csapp_Rio Csapp_Wrap Csapp_Net Cgi
begin

text \<open>
  The Tiny web server, \<open>proxylab-handout/tiny/tiny.c\<close>. A connection is an \<open>io\<close> of
  \<open>Csapp_Rio\<close>; the file system and the programs it runs are parameters. The idiom
  \<open>sprintf(buf, "%s...", buf)\<close> appends.
\<close>

section \<open>The environment\<close>

record stat =
  st_regular :: bool
  st_rusr :: bool
  st_xusr :: bool
  st_size :: int

text \<open>
  \<open>te_stat\<close> is \<open>None\<close> when \<open>stat\<close> fails, \<open>te_open\<close> when \<open>open\<close> does; \<open>te_mmap\<close> tells whether so
  many bytes can be mapped; \<open>te_fork\<close> is negative when \<open>fork\<close> fails; \<open>te_cgi\<close> is what a program
  prints with a query string, and \<open>None\<close> when \<open>execve\<close> fails.
\<close>

record tiny_env =
  te_strerror :: "int \<Rightarrow> string"
  te_stat :: "string \<Rightarrow> stat option"
  te_open :: "string \<Rightarrow> string option"
  te_mmap :: "int \<Rightarrow> bool"
  te_fork :: int
  te_cgi :: "string \<Rightarrow> string \<Rightarrow> string option"

text \<open>\<open>strcasecmp(a, b) == 0\<close>, and one word of \<open>sscanf\<close>, which is not stored when none is left.\<close>

definition tolower :: "char \<Rightarrow> char" where
  "tolower c = (if 65 \<le> (of_char c :: nat) \<and> (of_char c :: nat) \<le> 90 then char_of (of_char c + 32 :: nat) else c)"

definition strcaseeq :: "string \<Rightarrow> string \<Rightarrow> bool" where
  "strcaseeq a b \<longleftrightarrow> map tolower a = map tolower b"

definition scan_word :: "string \<Rightarrow> string option \<times> string" where
  "scan_word s =
     (let t = dropWhile isspace s
      in if t = [] then (None, []) else (Some (takeWhile (\<lambda>c. \<not> isspace c) t), dropWhile (\<lambda>c. \<not> isspace c) t))"

definition of_outcome :: "'a outcome \<Rightarrow> ('s, 'a) cprog" where
  "of_outcome r s = (r, s)"

section \<open>Responses\<close>

definition error_body :: "string \<Rightarrow> string \<Rightarrow> string \<Rightarrow> string \<Rightarrow> string outcome" where
  "error_body cause errnum shortmsg longmsg =
     sprintf_all [] [''<html><title>Tiny Error</title>'', ''<body bgcolor=ffffff>'' @ CRLF,
       errnum @ '': '' @ shortmsg @ CRLF, ''<p>'' @ longmsg @ '': '' @ cause @ CRLF,
       ''<hr><em>The Tiny Web server</em>'' @ CRLF]"

definition clienterror :: "tiny_env \<Rightarrow> string \<Rightarrow> string \<Rightarrow> string \<Rightarrow> string \<Rightarrow> (io, unit) cprog" where
  "clienterror e cause errnum shortmsg longmsg =
     cbind (of_outcome (error_body cause errnum shortmsg longmsg)) (\<lambda>body.
     cbind (of_outcome (sprintf_max (''HTTP/1.0 '' @ errnum @ '' '' @ shortmsg @ CRLF))) (\<lambda>buf.
     cbind (Rio_writen (te_strerror e) buf) (\<lambda>_.
     cbind (Rio_writen (te_strerror e) (''Content-type: text/html'' @ CRLF)) (\<lambda>_.
     cbind (Rio_writen (te_strerror e) (''Content-length: '' @ show_nat (length body) @ CRLF @ CRLF)) (\<lambda>_.
       Rio_writen (te_strerror e) body)))))"

definition get_filetype :: "string \<Rightarrow> string" where
  "get_filetype filename =
     (if strstr filename ''.html'' \<noteq> None then ''text/html''
      else if strstr filename ''.gif'' \<noteq> None then ''image/gif''
      else if strstr filename ''.png'' \<noteq> None then ''image/png''
      else if strstr filename ''.jpg'' \<noteq> None then ''image/jpeg''
      else ''text/plain'')"

definition static_headers :: "string \<Rightarrow> int \<Rightarrow> string outcome" where
  "static_headers filename filesize =
     sprintf_all [] [''HTTP/1.0 200 OK'' @ CRLF, ''Server: Tiny Web Server'' @ CRLF, ''Connection: close'' @ CRLF,
       ''Content-length: '' @ show_int filesize @ CRLF,
       ''Content-type: '' @ get_filetype filename @ CRLF @ CRLF]"

text \<open>A file may have become shorter or longer since \<open>stat\<close>; then the mapping is cut or padded.\<close>

definition mapped :: "int \<Rightarrow> string \<Rightarrow> string" where
  "mapped n content = take (nat n) content @ replicate (nat n - length content) NUL"

definition serve_static :: "tiny_env \<Rightarrow> string \<Rightarrow> int \<Rightarrow> (io, unit) cprog" where
  "serve_static e filename filesize =
     cbind (of_outcome (static_headers filename filesize)) (\<lambda>buf.
     cbind (Rio_writen (te_strerror e) buf) (\<lambda>_.
     cbind (cmodify (print_out (''Response headers:'' @ [LF] @ buf))) (\<lambda>_.
       (case te_open e filename of
          None \<Rightarrow> unix_error (te_strerror e) ''Open error''
        | Some content \<Rightarrow>
            if \<not> te_mmap e filesize then unix_error (te_strerror e) ''mmap error''
            else Rio_writen (te_strerror e) (mapped filesize content)))))"

text \<open>
  The child's output goes to the same connection; the parent waits for it. When \<open>execve\<close> fails
  the child prints a message and exits, and the response has no more than two lines.
\<close>

definition serve_dynamic :: "tiny_env \<Rightarrow> string \<Rightarrow> string \<Rightarrow> (io, unit) cprog" where
  "serve_dynamic e filename cgiargs =
     cbind (Rio_writen (te_strerror e) (''HTTP/1.0 200 OK'' @ CRLF)) (\<lambda>_.
     cbind (Rio_writen (te_strerror e) (''Server: Tiny Web Server'' @ CRLF)) (\<lambda>_.
       if te_fork e < 0 then unix_error (te_strerror e) ''Fork error''
       else cmodify (\<lambda>s.
         (case te_cgi e filename cgiargs of
            Some output \<Rightarrow> s\<lparr>io_sent := io_sent s @ output\<rparr>
          | None \<Rightarrow> print_err (''Execve error: '' @ te_strerror e (w_errno s) @ [LF]) s))))"

section \<open>Requests\<close>

text \<open>
  \<open>parse_uri\<close>: whether the content is static, the file name and the arguments. For an empty path
  the test of the last character reads before the array.
\<close>

definition parse_uri :: "string \<Rightarrow> (bool \<times> string \<times> string) outcome" where
  "parse_uri uri0 =
     (let (uri, cgiargs) =
            (case strchr uri0 (CHR ''?'') of
               None \<Rightarrow> (uri0, [])
             | Some i \<Rightarrow> (take i uri0, drop (Suc i) uri0))
      in obind (sprintf_max (''.'' @ uri)) (\<lambda>filename.
           if strstr uri ''cgi-bin'' = None then
             (if uri = [] then Fault Out_Of_Bounds
              else if last uri = CHR ''/'' then
                omap (\<lambda>f. (True, f, cgiargs)) (sprintf_max (filename @ ''home.html''))
              else Ret (True, filename, cgiargs))
           else Ret (False, filename, cgiargs)))"

definition rio_print :: "string \<Rightarrow> rio_t \<times> io \<Rightarrow> rio_t \<times> io" where
  "rio_print m st = (fst st, print_out m (snd st))"

text \<open>
  The loop of \<open>read_requesthdrs\<close> with the line in \<open>buf\<close>. At the end of the input
  \<open>Rio_readlineb\<close> returns 0 and leaves \<open>buf\<close> as it is, which the loop does not notice.
\<close>

partial_function (option) requesthdrs_loop ::
    "(int \<Rightarrow> string) \<Rightarrow> string \<Rightarrow> rio_t \<times> io \<Rightarrow> (unit outcome \<times> (rio_t \<times> io)) option" where
  "requesthdrs_loop strerror buf st =
     (if buf = CRLF then Some (Ret (), st)
      else
        (case Rio_readlineb strerror MAXLINE st of
           (r, st1) \<Rightarrow>
             (case r of
                Ret nd \<Rightarrow>
                  (let buf' = (if snd nd = [] then buf else cstr (snd nd))
                   in requesthdrs_loop strerror buf' (rio_print buf' st1))
              | Exited k \<Rightarrow> Some (Exited k, st1)
              | Fault f \<Rightarrow> Some (Fault f, st1))))"

declare requesthdrs_loop.simps [code]

definition read_requesthdrs :: "(int \<Rightarrow> string) \<Rightarrow> (rio_t \<times> io, unit) dprog" where
  "read_requesthdrs strerror =
     dbind (dlift (Rio_readlineb strerror MAXLINE)) (\<lambda>(n, d).
       if d = [] then dlift (cfault Uninitialised)
       else dbind (dlift (cmodify (rio_print (cstr d)))) (\<lambda>_.
         requesthdrs_loop strerror (cstr d)))"

text \<open>\<open>doit\<close> after the headers. The size of the file is cut to an \<open>int\<close>.\<close>

definition serve_uri :: "tiny_env \<Rightarrow> string \<Rightarrow> (io, unit) cprog" where
  "serve_uri e uri =
     cbind (of_outcome (parse_uri uri)) (\<lambda>(is_static, filename, cgiargs).
       (case te_stat e filename of
          None \<Rightarrow> clienterror e filename ''404'' ''Not found'' (''Tiny couldn'' @ [QUOTE] @ ''t find this file'')
        | Some sb \<Rightarrow>
            if is_static then
              (if \<not> st_regular sb \<or> \<not> st_rusr sb then
                 clienterror e filename ''403'' ''Forbidden'' (''Tiny couldn'' @ [QUOTE] @ ''t read the file'')
               else serve_static e filename (to_int32 (st_size sb)))
            else
              (if \<not> st_regular sb \<or> \<not> st_xusr sb then
                 clienterror e filename ''403'' ''Forbidden'' (''Tiny couldn'' @ [QUOTE] @ ''t run the CGI program'')
               else serve_dynamic e filename cgiargs)))"

text \<open>
  \<open>doit\<close>: the words that \<open>sscanf\<close> does not find stay uninitialised.
\<close>

definition doit_rio :: "tiny_env \<Rightarrow> (rio_t \<times> io, unit) dprog" where
  "doit_rio e =
     dbind (dlift (Rio_readlineb (te_strerror e) MAXLINE)) (\<lambda>(n, d).
       if n = 0 then dreturn ()
       else dbind (dlift (cmodify (rio_print (cstr d)))) (\<lambda>_.
         (case scan_word (cstr d) of
            (None, _) \<Rightarrow> dlift (cfault Uninitialised)
          | (Some meth, t) \<Rightarrow>
              if \<not> strcaseeq meth ''GET'' then
                dlift (on_io (clienterror e meth ''501'' ''Not Implemented'' ''Tiny does not implement this method''))
              else dbind (read_requesthdrs (te_strerror e)) (\<lambda>_.
                (case fst (scan_word t) of
                   None \<Rightarrow> dlift (cfault Uninitialised)
                 | Some uri \<Rightarrow> dlift (on_io (serve_uri e uri)))))))"

definition doit :: "tiny_env \<Rightarrow> rio_t \<Rightarrow> int \<Rightarrow> (io, unit) dprog" where
  "doit e rp fd s = map_option (\<lambda>(r, st). (r, snd st)) (doit_rio e (Rio_readinitb fd rp, s))"

section \<open>main\<close>

definition tiny_start :: "('w, 'ai) netcalls \<Rightarrow> string list \<Rightarrow> ('w world_scheme, int) cprog" where
  "tiny_start nc argv =
     (if length argv \<noteq> 2 then
        cbind (cmodify (print_err (''usage: '' @ hd argv @ '' <port>'' @ [LF]))) (\<lambda>_. cexit 1)
      else Open_listenfd nc (argv ! 1))"

text \<open>
  One round of the loop of \<open>main\<close>, seen by the process that \<open>fork\<close> returns to: the child serves the
  connection and exits, the parent closes its copy.
\<close>

record tiny_calls =
  tc_accept :: "int \<Rightarrow> (unit io_ext, int) syscall"
  tc_fork :: "(unit io_ext, int) syscall"
  tc_close :: "int \<Rightarrow> (unit io_ext, int) syscall"
  tc_nameinfo :: "(unit io_ext, int \<times> string \<times> string) syscall"
  tc_gai_strerror :: "int \<Rightarrow> string"

definition tiny_child :: "tiny_env \<Rightarrow> tiny_calls \<Rightarrow> rio_t \<Rightarrow> int \<Rightarrow> int \<Rightarrow> (io, unit) dprog" where
  "tiny_child e c rp listenfd connfd =
     dbind (dlift (Close (te_strerror e) (tc_close c) listenfd)) (\<lambda>_.
     dbind (dlift (\<lambda>s. case tc_nameinfo c s of ((rc, host, port), t) \<Rightarrow>
              if rc \<noteq> 0 then gai_error (tc_gai_strerror c) rc ''Getnameinfo error'' t
              else (Ret (host, port), t))) (\<lambda>(host, port).
     dbind (dlift (cmodify (print_out (''Accepted connection from ('' @ host @ '', '' @ port @ '')'' @ [LF])))) (\<lambda>_.
     dbind (doit e rp connfd) (\<lambda>_.
     dbind (dlift (Close (te_strerror e) (tc_close c) connfd)) (\<lambda>_.
       dlift (cexit 0))))))"

definition tiny_round :: "tiny_env \<Rightarrow> tiny_calls \<Rightarrow> rio_t \<Rightarrow> int \<Rightarrow> (io, unit) dprog" where
  "tiny_round e c rp listenfd =
     dbind (dlift (Accept (te_strerror e) (tc_accept c) listenfd)) (\<lambda>connfd.
     dbind (dlift (Fork (te_strerror e) (tc_fork c))) (\<lambda>pid.
       if pid = 0 then tiny_child e c rp listenfd connfd
       else dlift (Close (te_strerror e) (tc_close c) connfd)))"

end
