(* ===== verification/Rio_Lines.thy ===== *)
theory Rio_Lines
  imports Rio_Proofs
begin

text \<open>
  Servers that read lines with \<open>Rio_readlineb\<close> and answer with \<open>Rio_writen\<close>: reading leaves
  the output side of a connection alone, writing its input side.
\<close>

section \<open>What reading leaves alone\<close>

definition same_out :: "io \<Rightarrow> io \<Rightarrow> bool" where
  "same_out s t \<longleftrightarrow> io_sent t = io_sent s \<and> io_plan t = io_plan s \<and> w_out t = w_out s \<and> w_err t = w_err s"

lemma same_out_refl [simp]: "same_out s s"
  by (simp add: same_out_def)

lemma same_out_trans: "same_out s t \<Longrightarrow> same_out t u \<Longrightarrow> same_out s u"
  by (simp add: same_out_def)

lemma sys_read_same_out: "sys_read n s = (r, d, t) \<Longrightarrow> same_out s t"
  by (auto simp: sys_read_def same_out_def split: list.splits rd_event.splits)

lemma rio_fill_same_out: "rio_fill rp s = (go, rp', t) \<Longrightarrow> same_out s t"
proof (induction rp s rule: rio_fill.induct)
  case (1 rp s)
  obtain r d u where rd: "sys_read RIO_BUFSIZE s = (r, d, u)" by (metis prod.exhaust)
  note same = sys_read_same_out [OF rd]
  show ?case
  proof (cases "rio_cnt rp \<le> 0 \<and> r < 0 \<and> w_errno u = EINTR")
    case True
    let ?rp = "rp\<lparr>rio_cnt := r, rio_buf := overwrite d (rio_buf rp)\<rparr>"
    have "rio_fill rp s = rio_fill ?rp u" using True rd by (subst rio_fill.simps) simp
    then have "same_out u t" using "1.IH" [OF _ rd [symmetric] refl refl _ _] True "1.prems" by simp
    with same show ?thesis by (rule same_out_trans)
  next
    case False
    with "1.prems" rd same show ?thesis
      by (subst (asm) rio_fill.simps) (auto simp: Let_def split: if_splits)
  qed
qed

lemma rio_read_same_out: "rio_read n st = (r, d, st') \<Longrightarrow> same_out (snd st) (snd st')"
  by (auto simp: rio_read_def Let_def split: prod.splits if_splits dest: rio_fill_same_out)

lemma readlineb_loop_same_out:
  "readlineb_loop rio_read maxlen n buf st = (r, d, st') \<Longrightarrow> same_out (snd st) (snd st')"
proof (induction "maxlen - n" arbitrary: n buf st)
  case 0
  then show ?case by (subst (asm) readlineb_loop.simps) simp
next
  case (Suc m)
  obtain rc c u where rd: "rio_read 1 st = (rc, c, u)" by (metis prod.exhaust)
  note same = rio_read_same_out [OF rd]
  show ?case
  proof (cases "rc = 1 \<and> c \<noteq> [LF]")
    case True
    then have "readlineb_loop rio_read maxlen n buf st = readlineb_loop rio_read maxlen (Suc n) (buf @ c) u"
      using rd Suc.hyps(2) by (subst readlineb_loop.simps) (cases "n < maxlen"; simp)
    with Suc.prems Suc.hyps(1) [of "Suc n"] Suc.hyps(2) have "same_out (snd u) (snd st')" by simp
    with same show ?thesis by (rule same_out_trans)
  next
    case False
    with Suc.prems rd same show ?thesis
      by (subst (asm) readlineb_loop.simps) (auto split: if_splits)
  qed
qed

section \<open>Lines\<close>

lemma take_line_line: "LF \<notin> set l \<Longrightarrow> length l < m \<Longrightarrow> take_line m (l @ LF # r) = l @ [LF]"
proof (induction l arbitrary: m)
  case Nil
  then show ?case by (cases m) auto
next
  case (Cons c l)
  then show ?case by (cases m) auto
qed

text \<open>The result of \<open>Rio_readlineb\<close> on a quiet descriptor.\<close>

lemma Rio_readlineb_quiet:
  assumes "rio_ok st" and "1 < maxlen"
  shows "\<exists>t. Rio_readlineb strerror maxlen st =
      (Ret (let line = take_line (maxlen - 1) (rio_rest st) in
         if rio_rest st = [] then (0, []) else (int (length line), line @ [NUL])), t) \<and>
    rio_ok t \<and> take_line (maxlen - 1) (rio_rest st) @ rio_rest t = rio_rest st \<and> same_out (snd st) (snd t)"
proof -
  obtain t where t: "rio_readlineb maxlen st =
      (if rio_rest st = [] then (0, [], t)
       else (int (length (take_line (maxlen - 1) (rio_rest st))), take_line (maxlen - 1) (rio_rest st) @ [NUL], t))"
    "rio_ok t" "rio_rest t = drop (length (take_line (maxlen - 1) (rio_rest st))) (rio_rest st)"
    using rb.readlineb_loop_line [OF assms(1) order.refl, of maxlen "[]"] assms(2)
    by (auto simp: rio_readlineb_def)
  have "same_out (snd st) (snd t)"
    using t(1) readlineb_loop_same_out [of maxlen 1 "[]" st]
    by (auto simp: rio_readlineb_def split: if_splits)
  with t take_line_prefix [of "maxlen - 1" "rio_rest st"] show ?thesis
    by (intro exI [of _ t]) (auto simp: Rio_readlineb_def Let_def)
qed

lemma Rio_readlineb_line:
  assumes "rio_ok st" and "rio_rest st = l @ LF # r" and "LF \<notin> set l" and "length l + 1 < maxlen"
  obtains t where "Rio_readlineb strerror maxlen st = (Ret (int (length l + 1), l @ [LF, NUL]), t)"
    and "rio_ok t" and "rio_rest t = r" and "same_out (snd st) (snd t)"
proof -
  have "take_line (maxlen - 1) (rio_rest st) = l @ [LF]"
    unfolding assms(2) using assms(3,4) by (intro take_line_line) auto
  with Rio_readlineb_quiet [OF assms(1), of maxlen strerror] assms(2,4) that show thesis
    by (auto simp: Let_def)
qed

lemma Rio_readlineb_eof:
  assumes "rio_ok st" and "rio_rest st = []" and "1 < maxlen"
  obtains t where "Rio_readlineb strerror maxlen st = (Ret (0, []), t)"
    and "rio_ok t" and "rio_rest t = []" and "same_out (snd st) (snd t)"
  using Rio_readlineb_quiet [OF assms(1,3), of strerror] assms(2) that by (auto simp: Let_def)

section \<open>What writing leaves alone\<close>

definition wrote :: "string \<Rightarrow> io \<Rightarrow> io \<Rightarrow> bool" where
  "wrote d s t \<longleftrightarrow> io_sent t = io_sent s @ d \<and> wr_quiet (io_plan t) \<and> io_in t = io_in s"

lemma Rio_writen_quiet:
  assumes "wr_quiet (io_plan s)"
  obtains t where "Rio_writen strerror d s = (Ret (), t)" and "wrote d s t"
  using rio_writen_quiet [OF assms, of d] that by (auto simp: Rio_writen_def wrote_def)

lemma wrote_trans: "wrote a s t \<Longrightarrow> wrote b t u \<Longrightarrow> wrote (a @ b) s u"
  by (simp add: wrote_def)

text \<open>A program that writes \<open>d\<close> on a connection that takes it, and a sequence of these.\<close>

definition writes :: "string \<Rightarrow> (io, unit) cprog \<Rightarrow> bool" where
  "writes d m \<longleftrightarrow> (\<forall>s. wr_quiet (io_plan s) \<longrightarrow> (\<exists>t. m s = (Ret (), t) \<and> wrote d s t))"

lemma writes_Rio_writen [intro]: "writes d (Rio_writen strerror d)"
  unfolding writes_def by (metis Rio_writen_quiet)

lemma writes_print [intro]: "writes [] (cmodify (print_out m))"
  by (simp add: writes_def wrote_def c_simps print_out_def)

lemma writes_cbind [intro]: "writes a m \<Longrightarrow> writes b n \<Longrightarrow> writes (a @ b) (cbind m (\<lambda>_. n))"
  unfolding writes_def
proof (intro allI impI)
  fix s :: io
  assume m: "\<forall>s. wr_quiet (io_plan s) \<longrightarrow> (\<exists>t. m s = (Ret (), t) \<and> wrote a s t)"
    and n: "\<forall>s. wr_quiet (io_plan s) \<longrightarrow> (\<exists>t. n s = (Ret (), t) \<and> wrote b s t)"
    and s: "wr_quiet (io_plan s)"
  from m s obtain t where t: "m s = (Ret (), t)" "wrote a s t" by blast
  moreover from n t(2) obtain u where "n t = (Ret (), u)" "wrote b t u" by (auto simp: wrote_def)
  ultimately show "\<exists>t. cbind m (\<lambda>_. n) s = (Ret (), t) \<and> wrote (a @ b) s t"
    by (auto simp: c_simps intro: wrote_trans)
qed

end
