(* ===== verification/Tiny_Props.thy ===== *)
theory Tiny_Props
  imports Tiny Rio_Lines
begin

text \<open>
  What the Tiny server answers to a well-formed GET request, however the network cuts the
  request into reads and the response into writes; and what it does at the end of the input.
\<close>

section \<open>Requests\<close>

text \<open>A word that \<open>sscanf\<close> reads whole, and a line that fits the buffers.\<close>

definition word :: "string \<Rightarrow> bool" where
  "word w \<longleftrightarrow> w \<noteq> [] \<and> list_all (\<lambda>c. \<not> isspace c \<and> c \<noteq> NUL) w"

definition header_line :: "string \<Rightarrow> bool" where
  "header_line h \<longleftrightarrow> h \<noteq> [] \<and> LF \<notin> set h \<and> no_nul h \<and> length h + 3 < MAXLINE"

definition http_lines :: "string list \<Rightarrow> string" where
  "http_lines hs = concat (map (\<lambda>h. h @ CRLF) hs)"

definition get_request :: "string \<Rightarrow> string \<Rightarrow> string list \<Rightarrow> string" where
  "get_request uri version hs = ''GET '' @ uri @ SPC # version @ CRLF @ http_lines hs @ CRLF"

lemma word_no_space: "word w \<Longrightarrow> c \<in> set w \<Longrightarrow> \<not> isspace c"
  by (auto simp: word_def list_all_iff)

lemma word_no_LF: "word w \<Longrightarrow> LF \<notin> set w"
  using word_no_space by (force simp: isspace_def)

lemma word_no_nul: "word w \<Longrightarrow> no_nul w"
  by (auto simp: word_def list_all_iff no_nul_def)

lemma scan_word_append:
  assumes "word w" and "isspace c"
  shows "scan_word (w @ c # t) = (Some w, c # t)"
proof -
  obtain a v where w: "w = a # v" "\<not> isspace a" using assms(1) by (cases w) (auto simp: word_def)
  have "takeWhile (\<lambda>c. \<not> isspace c) (w @ c # t) = w" "dropWhile (\<lambda>c. \<not> isspace c) (w @ c # t) = c # t"
    using assms word_no_space [OF assms(1)] by (auto simp: takeWhile_append2 dropWhile_append2)
  with w show ?thesis by (simp add: scan_word_def)
qed

lemma scan_word_skip: "isspace c \<Longrightarrow> scan_word (c # t) = scan_word t"
  by (simp add: scan_word_def)

text \<open>The loop of \<open>read_requesthdrs\<close> takes the lines up to the first blank one.\<close>

lemma rio_print_simps [simp]:
  "rio_ok (rio_print m st) = rio_ok st" "rio_rest (rio_print m st) = rio_rest st"
  "io_sent (snd (rio_print m st)) = io_sent (snd st)" "io_plan (snd (rio_print m st)) = io_plan (snd st)"
  by (simp_all add: rio_print_def rio_ok_def rio_rest_def print_out_def)

definition same_net :: "io \<Rightarrow> io \<Rightarrow> bool" where
  "same_net s t \<longleftrightarrow> io_sent t = io_sent s \<and> io_plan t = io_plan s"

lemma same_out_net: "same_out s t \<Longrightarrow> same_net s t"
  by (simp add: same_out_def same_net_def)

lemma requesthdrs_loop_lines:
  assumes "rio_ok st" and "rio_rest st = http_lines hs @ CRLF @ r" and "list_all header_line hs" and "buf \<noteq> CRLF"
  shows "\<exists>t. requesthdrs_loop strerror buf st = Some (Ret (), t) \<and> rio_ok t \<and> rio_rest t = r \<and> same_net (snd st) (snd t)"
  using assms
proof (induction hs arbitrary: buf st)
  case Nil
  then have rest: "rio_rest st = [CR] @ LF # r" by (simp add: http_lines_def)
  obtain t where t: "Rio_readlineb strerror MAXLINE st = (Ret (int (length [CR] + 1), [CR] @ [LF, NUL]), t)"
    "rio_ok t" "rio_rest t = r" "same_out (snd st) (snd t)"
    by (rule Rio_readlineb_line [OF Nil.prems(1) rest, of MAXLINE strerror]) auto
  have "requesthdrs_loop strerror buf st = requesthdrs_loop strerror CRLF (rio_print CRLF t)"
    using Nil.prems(4) t(1) by (subst requesthdrs_loop.simps) (simp add: cstr_def Let_def)
  also have "\<dots> = Some (Ret (), rio_print CRLF t)" by (subst requesthdrs_loop.simps) simp
  finally show ?case using t same_out_net [OF t(4)] by (auto simp: same_net_def)
next
  case (Cons h hs)
  have h: "header_line h" "list_all header_line hs" using Cons.prems(3) by auto
  have rest: "rio_rest st = (h @ [CR]) @ LF # (http_lines hs @ CRLF @ r)"
    using Cons.prems(2) by (simp add: http_lines_def)
  obtain t where t: "Rio_readlineb strerror MAXLINE st = (Ret (int (length (h @ [CR]) + 1), (h @ [CR]) @ [LF, NUL]), t)"
    "rio_ok t" "rio_rest t = http_lines hs @ CRLF @ r" "same_out (snd st) (snd t)"
    by (rule Rio_readlineb_line [OF Cons.prems(1) rest, of MAXLINE strerror]) (use h in \<open>auto simp: header_line_def\<close>)
  have line: "cstr ((h @ [CR]) @ [LF, NUL]) = h @ CRLF"
    using h cstr_append_NUL [of "h @ CRLF" "[]"] by (simp add: header_line_def)
  have ne: "h @ CRLF \<noteq> CRLF" using h by (simp add: header_line_def)
  have step: "requesthdrs_loop strerror buf st = requesthdrs_loop strerror (h @ CRLF) (rio_print (h @ CRLF) t)"
    using Cons.prems(4) t(1) line by (subst requesthdrs_loop.simps) (simp add: Let_def)
  obtain u where "requesthdrs_loop strerror (h @ CRLF) (rio_print (h @ CRLF) t) = Some (Ret (), u)"
    "rio_ok u" "rio_rest u = r" "same_net (snd (rio_print (h @ CRLF) t)) (snd u)"
    using Cons.IH [of "rio_print (h @ CRLF) t" "h @ CRLF"] t h ne by auto
  with step same_out_net [OF t(4)] show ?case by (auto simp: same_net_def)
qed

lemma read_requesthdrs_lines:
  assumes "rio_ok st" and "rio_rest st = http_lines hs @ CRLF @ r" and "list_all header_line hs"
  shows "\<exists>t. read_requesthdrs strerror st = Some (Ret (), t) \<and> rio_ok t \<and> rio_rest t = r \<and> same_net (snd st) (snd t)"
proof (cases hs)
  case Nil
  then have rest: "rio_rest st = [CR] @ LF # r" using assms(2) by (simp add: http_lines_def)
  obtain t where t: "Rio_readlineb strerror MAXLINE st = (Ret (int (length [CR] + 1), [CR] @ [LF, NUL]), t)"
    "rio_ok t" "rio_rest t = r" "same_out (snd st) (snd t)"
    by (rule Rio_readlineb_line [OF assms(1) rest, of MAXLINE strerror]) auto
  have "requesthdrs_loop strerror CRLF (rio_print CRLF t) = Some (Ret (), rio_print CRLF t)"
    by (subst requesthdrs_loop.simps) simp
  with t same_out_net [OF t(4)] show ?thesis
    by (simp add: read_requesthdrs_def c_simps cstr_def same_net_def)
next
  case (Cons h hs')
  have h: "header_line h" "list_all header_line hs'" using assms(3) Cons by auto
  have rest: "rio_rest st = (h @ [CR]) @ LF # (http_lines hs' @ CRLF @ r)"
    using assms(2) Cons by (simp add: http_lines_def)
  obtain t where t: "Rio_readlineb strerror MAXLINE st = (Ret (int (length (h @ [CR]) + 1), (h @ [CR]) @ [LF, NUL]), t)"
    "rio_ok t" "rio_rest t = http_lines hs' @ CRLF @ r" "same_out (snd st) (snd t)"
    by (rule Rio_readlineb_line [OF assms(1) rest, of MAXLINE strerror]) (use h in \<open>auto simp: header_line_def\<close>)
  have line: "cstr ((h @ [CR]) @ [LF, NUL]) = h @ CRLF"
    using h cstr_append_NUL [of "h @ CRLF" "[]"] by (simp add: header_line_def)
  have ne: "h @ CRLF \<noteq> CRLF" using h by (simp add: header_line_def)
  obtain u where "requesthdrs_loop strerror (h @ CRLF) (rio_print (h @ CRLF) t) = Some (Ret (), u)"
    "rio_ok u" "rio_rest u = r" "same_net (snd (rio_print (h @ CRLF) t)) (snd u)"
    using requesthdrs_loop_lines [of "rio_print (h @ CRLF) t" hs' r "h @ CRLF" strerror] t h ne by auto
  with t line same_out_net [OF t(4)] show ?thesis
    by (simp add: read_requesthdrs_def c_simps same_net_def)
qed

text \<open>A well-formed request reaches \<open>serve_uri\<close> with its second word.\<close>

lemma doit_request:
  assumes "quiet (io_in s)" and "stream (io_in s) = get_request uri version hs @ r"
    and "word uri" and "word version" and "list_all header_line hs"
    and "length uri + length version + 8 < MAXLINE"
  shows "\<exists>t. doit e rp fd s = Some (serve_uri e uri t) \<and> same_net s t"
proof -
  let ?st = "(Rio_readinitb fd rp, s)"
  let ?line = "''GET '' @ uri @ SPC # version"
  have ok: "rio_ok ?st" and rest: "rio_rest ?st = (?line @ [CR]) @ LF # (http_lines hs @ CRLF @ r)"
    using rio_init [OF assms(1), of fd rp] assms(2) by (simp_all add: Rio_readinitb_def get_request_def)
  obtain t where t: "Rio_readlineb (te_strerror e) MAXLINE ?st =
      (Ret (int (length (?line @ [CR]) + 1), (?line @ [CR]) @ [LF, NUL]), t)"
    "rio_ok t" "rio_rest t = http_lines hs @ CRLF @ r" "same_out (snd ?st) (snd t)"
    by (rule Rio_readlineb_line [OF ok rest, of MAXLINE "te_strerror e"])
      (use assms word_no_LF in \<open>auto\<close>)
  have line: "cstr ((?line @ [CR]) @ [LF, NUL]) = ?line @ CRLF"
    using cstr_append_NUL [of "?line @ CRLF" "[]"] word_no_nul [OF assms(3)] word_no_nul [OF assms(4)] by simp
  have w1: "scan_word (?line @ CRLF) = (Some ''GET'', SPC # uri @ SPC # version @ CRLF)"
    using scan_word_append [of "''GET''" SPC] by (simp add: word_def isspace_def)
  have w2: "fst (scan_word (SPC # uri @ SPC # version @ CRLF)) = Some uri"
    using scan_word_append [OF assms(3), of SPC] by (simp add: scan_word_skip isspace_def)
  obtain u where u: "read_requesthdrs (te_strerror e) (rio_print (?line @ CRLF) t) = Some (Ret (), u)"
    "same_net (snd (rio_print (?line @ CRLF) t)) (snd u)"
    using read_requesthdrs_lines [of "rio_print (?line @ CRLF) t" hs r "te_strerror e"] t(2,3) assms(5) by auto
  have "doit_rio e ?st = Some (on_io (serve_uri e uri) u)"
    using t(1) line w1 w2 u(1) unfolding doit_rio_def
    by (simp add: c_simps strcaseeq_def del: append_assoc append_Cons append.simps)
  then have "doit e rp fd s = Some (serve_uri e uri (snd u))"
    by (simp add: doit_def on_io_def split: prod.split)
  moreover have "same_net s (snd u)" using u(2) same_out_net [OF t(4)] by (simp add: same_net_def)
  ultimately show ?thesis by blast
qed

section \<open>Static content\<close>

lemma get_filetype_length: "length (get_filetype f) \<le> 10"
  by (simp add: get_filetype_def)

lemma show_int_length: "0 \<le> i \<Longrightarrow> i < 2 ^ 31 \<Longrightarrow> length (show_int i) \<le> 10"
  using show_nat_length [of "nat i" 10] by (simp add: show_int_def)

definition ok_headers :: "string \<Rightarrow> int \<Rightarrow> string" where
  "ok_headers filename filesize =
     ''HTTP/1.0 200 OK'' @ CRLF @ ''Server: Tiny Web Server'' @ CRLF @ ''Connection: close'' @ CRLF @
     ''Content-length: '' @ show_int filesize @ CRLF @
     ''Content-type: '' @ get_filetype filename @ CRLF @ CRLF"

lemma static_headers_fit:
  assumes "0 \<le> n" and "n < 2 ^ 31"
  shows "static_headers f n = Ret (ok_headers f n)"
proof -
  let ?l = "[''HTTP/1.0 200 OK'' @ CRLF, ''Server: Tiny Web Server'' @ CRLF, ''Connection: close'' @ CRLF,
       ''Content-length: '' @ show_int n @ CRLF, ''Content-type: '' @ get_filetype f @ CRLF @ CRLF]"
  have "length (concat ?l) < MAXLINE"
    using get_filetype_length [of f] show_int_length [OF assms] by simp
  then have "static_headers f n = Ret (concat ?l)"
    unfolding static_headers_def using sprintf_all_fits [of "[]" ?l] by simp
  then show ?thesis by (simp add: ok_headers_def)
qed

lemma parse_uri_static:
  assumes "uri \<noteq> []" and "CHR ''?'' \<notin> set uri" and "strstr uri ''cgi-bin'' = None" and "length uri + 10 < MAXLINE"
  shows "parse_uri uri =
    Ret (True, ''.'' @ uri @ (if last uri = CHR ''/'' then ''home.html'' else []), [])"
  using assms strchr_None [of uri "CHR ''?''"] by (simp add: parse_uri_def sprintf_max_def)

lemma parse_uri_dynamic:
  assumes "CHR ''?'' \<notin> set path" and "strstr path ''cgi-bin'' \<noteq> None" and "length path + 1 < MAXLINE"
  shows "parse_uri (path @ CHR ''?'' # args) = Ret (False, ''.'' @ path, args)"
  using assms strchr_append [of "CHR ''?''" path args] by (cases path) (auto simp: parse_uri_def sprintf_max_def)

lemma serve_static_writes:
  assumes "te_open e f = Some content" and "te_mmap e (int (length content))" and "length content < 2 ^ 31"
  shows "writes (ok_headers f (int (length content)) @ content) (serve_static e f (int (length content)))"
proof -
  let ?n = "int (length content)"
  have "serve_static e f ?n =
      cbind (Rio_writen (te_strerror e) (ok_headers f ?n)) (\<lambda>_.
      cbind (cmodify (print_out (''Response headers:'' @ [LF] @ ok_headers f ?n))) (\<lambda>_.
        Rio_writen (te_strerror e) content))"
    using assms static_headers_fit [of ?n f]
    by (simp add: serve_static_def mapped_def of_outcome_def cbind_def fun_eq_iff)
  moreover have "writes (ok_headers f ?n @ [] @ content) \<dots>"
    by (intro writes_cbind writes_Rio_writen writes_print)
  ultimately show ?thesis by simp
qed

text \<open>C30. For a GET request of a file that can be read, \<open>doit\<close> sends a response with the size and the
  type of the file followed by its bytes, whatever the pieces in which the request arrives and
  the response is taken.\<close>

theorem tiny_serves_static:
  assumes "quiet (io_in s)" and "stream (io_in s) = get_request uri version hs @ r" and "wr_quiet (io_plan s)"
    and "word uri" and "word version" and "list_all header_line hs" and "length uri + length version + 10 < MAXLINE"
    and "CHR ''?'' \<notin> set uri" and "strstr uri ''cgi-bin'' = None"
    and "f = ''.'' @ uri @ (if last uri = CHR ''/'' then ''home.html'' else [])"
    and "te_stat e f = Some sb" and "st_regular sb" and "st_rusr sb" and "st_size sb = int (length content)"
    and "te_open e f = Some content" and "te_mmap e (int (length content))" and "length content < 2 ^ 31"
  shows "\<exists>t. doit e rp fd s = Some (Ret (), t) \<and> io_sent t = io_sent s @
    ''HTTP/1.0 200 OK'' @ CRLF @ ''Server: Tiny Web Server'' @ CRLF @ ''Connection: close'' @ CRLF @
    ''Content-length: '' @ show_int (int (length content)) @ CRLF @
    ''Content-type: '' @ get_filetype f @ CRLF @ CRLF @ content"
proof -
  let ?n = "int (length content)"
  obtain t where t: "doit e rp fd s = Some (serve_uri e uri t)" "same_net s t"
    using doit_request [OF assms(1,2,4,5,6), of e rp fd] assms(7) by auto
  have "uri \<noteq> []" "length uri + 10 < MAXLINE" using assms(4,7) by (auto simp: word_def)
  then have parse: "parse_uri uri = Ret (True, f, [])"
    using parse_uri_static [OF _ assms(8,9)] assms(10) by simp
  have "to_int32 ?n = ?n" using assms(17) by (intro to_int32_id) simp_all
  then have "serve_uri e uri t = serve_static e f ?n t"
    using assms(11-14) by (simp add: serve_uri_def of_outcome_def cbind_def parse)
  moreover have "wr_quiet (io_plan t)" using t(2) assms(3) by (simp add: same_net_def)
  ultimately obtain u where "serve_uri e uri t = (Ret (), u)" "wrote (ok_headers f ?n @ content) t u"
    using serve_static_writes [OF assms(15-17)] unfolding writes_def by metis
  with t show ?thesis by (auto simp: wrote_def same_net_def ok_headers_def)
qed

definition demo_request :: "string \<Rightarrow> io" where
  "demo_request req = \<lparr>w_errno = 0, w_out = [], w_err = [],
     io_in = [RdData (take 3 req), RdErr EINTR, RdData (drop 3 req)], io_plan = [WrTake 7, WrErr EINTR], io_sent = []\<rparr>"

lemma demo_request_quiet:
  "3 < length req \<Longrightarrow> quiet (io_in (demo_request req)) \<and> stream (io_in (demo_request req)) = req \<and>
     wr_quiet (io_plan (demo_request req)) \<and> io_sent (demo_request req) = []"
  by (auto simp: demo_request_def EINTR_def)

definition demo_rio :: rio_t where
  "demo_rio = \<lparr>rio_fd = 0, rio_cnt = 0, rio_bufptr = 0, rio_buf = []\<rparr>"

definition demo_env :: tiny_env where
  "demo_env = \<lparr>te_strerror = (\<lambda>e. ''error''),
     te_stat = (\<lambda>f. if f = ''./a.html'' then Some \<lparr>st_regular = True, st_rusr = True, st_xusr = False, st_size = 2\<rparr>
       else if f = ''./cgi-bin/adder'' then Some \<lparr>st_regular = True, st_rusr = True, st_xusr = True, st_size = 100\<rparr>
       else None),
     te_open = (\<lambda>f. if f = ''./a.html'' then Some ''hi'' else None), te_mmap = (\<lambda>n. 0 < n), te_fork = 1,
     te_cgi = (\<lambda>f q. if f = ''./cgi-bin/adder'' then
       (case adder_main (Some q) of Ret out \<Rightarrow> Some out | _ \<Rightarrow> Some []) else None)\<rparr>"

theorem tiny_serves_static_witness:
  "\<exists>t. doit demo_env demo_rio 4 (demo_request (get_request ''/a.html'' ''HTTP/1.1'' [''Host: x''] @ [])) = Some (Ret (), t) \<and>
     io_sent t = [] @ ''HTTP/1.0 200 OK'' @ CRLF @ ''Server: Tiny Web Server'' @ CRLF @ ''Connection: close'' @ CRLF @
       ''Content-length: '' @ show_int (int (length ''hi'')) @ CRLF @
       ''Content-type: '' @ get_filetype ''./a.html'' @ CRLF @ CRLF @ ''hi''"
proof -
  let ?req = "get_request ''/a.html'' ''HTTP/1.1'' [''Host: x''] @ []"
  have q: "quiet (io_in (demo_request ?req))" "stream (io_in (demo_request ?req)) = ?req"
    "wr_quiet (io_plan (demo_request ?req))" "io_sent (demo_request ?req) = []"
    using demo_request_quiet [of ?req] by (simp_all add: get_request_def)
  show ?thesis
    using tiny_serves_static [of "demo_request ?req" "''/a.html''" "''HTTP/1.1''" "[''Host: x'']" "[]" "''./a.html''"
        demo_env "\<lparr>st_regular = True, st_rusr = True, st_xusr = False, st_size = 2\<rparr>" "''hi''" demo_rio 4] q
    by (simp add: word_def isspace_def header_line_def demo_env_def)
qed

section \<open>Dynamic content\<close>

lemma serve_dynamic_writes:
  assumes "te_cgi e f args = Some output" and "0 \<le> te_fork e"
  shows "writes (''HTTP/1.0 200 OK'' @ CRLF @ ''Server: Tiny Web Server'' @ CRLF @ output) (serve_dynamic e f args)"
proof -
  let ?child = "cmodify (\<lambda>s. s\<lparr>io_sent := io_sent s @ output\<rparr>)"
  have "writes output ?child" by (simp add: writes_def wrote_def c_simps)
  then have "writes ((''HTTP/1.0 200 OK'' @ CRLF) @ (''Server: Tiny Web Server'' @ CRLF) @ output)
      (cbind (Rio_writen (te_strerror e) (''HTTP/1.0 200 OK'' @ CRLF)) (\<lambda>_.
       cbind (Rio_writen (te_strerror e) (''Server: Tiny Web Server'' @ CRLF)) (\<lambda>_. ?child)))"
    by (intro writes_cbind writes_Rio_writen)
  then show ?thesis using assms by (simp add: serve_dynamic_def)
qed

text \<open>C31. A GET request of \<open>/cgi-bin/adder\<close> with two non-negative numbers, whose sum does not
  overflow, is answered with the output of the program for these arguments, and so with their sum.\<close>

theorem tiny_runs_adder:
  assumes "quiet (io_in s)" and "wr_quiet (io_plan s)"
    and "stream (io_in s) =
      get_request (''/cgi-bin/adder?'' @ show_int a @ CHR ''&'' # show_int b) version hs @ r"
    and "word version" and "list_all header_line hs" and "length version < 8000"
    and "te_stat e ''./cgi-bin/adder'' = Some sb" and "st_regular sb" and "st_xusr sb" and "0 \<le> te_fork e"
    and "\<And>q output. adder_main (Some q) = Ret output \<Longrightarrow> te_cgi e ''./cgi-bin/adder'' q = Some output"
    and "0 \<le> a" and "0 \<le> b" and "a + b \<le> INT_MAX"
  shows "\<exists>t content. doit e rp fd s = Some (Ret (), t) \<and>
    io_sent t = io_sent s @ ''HTTP/1.0 200 OK'' @ CRLF @ ''Server: Tiny Web Server'' @ CRLF @
      cgi_headers (length content) @ content \<and> content = adder_content a b (a + b)"
proof -
  let ?args = "show_int a @ CHR ''&'' # show_int b"
  let ?uri = "''/cgi-bin/adder?'' @ ?args"
  let ?out = "cgi_headers (length (adder_content a b (a + b))) @ adder_content a b (a + b)"
  have len: "length (show_int a) \<le> 10" "length (show_int b) \<le> 10"
    using assms(12-14) by (auto intro!: show_int_length)
  have "\<not> isspace c \<and> c \<noteq> NUL" if "c \<in> set (show_int a) \<union> set (show_int b)" for c
  proof -
    have "isdigit c" using that assms(12,13) show_nat_digits by (auto simp: show_int_def)
    then show ?thesis by (auto simp: isdigit_def isspace_def)
  qed
  then have word: "word ?uri" by (simp add: word_def list_all_iff isspace_def)
  obtain t where t: "doit e rp fd s = Some (serve_uri e ?uri t)" "same_net s t"
    using doit_request [OF assms(1,3) word assms(4,5), of e rp fd] assms(6) len by auto
  have "?uri = ''/cgi-bin/adder'' @ CHR ''?'' # ?args" by simp
  then have "parse_uri ?uri = Ret (False, ''./cgi-bin/adder'', ?args)"
    using parse_uri_dynamic [of "''/cgi-bin/adder''" ?args] by simp
  then have "serve_uri e ?uri t = serve_dynamic e ''./cgi-bin/adder'' ?args t"
    using assms(7-9) by (simp add: serve_uri_def of_outcome_def cbind_def)
  moreover have "writes (''HTTP/1.0 200 OK'' @ CRLF @ ''Server: Tiny Web Server'' @ CRLF @ ?out)
      (serve_dynamic e ''./cgi-bin/adder'' ?args)"
    using assms(11) [OF adder_main_adds [OF assms(12-14)]] assms(10) by (rule serve_dynamic_writes)
  moreover have "wr_quiet (io_plan t)" using t(2) assms(2) by (simp add: same_net_def)
  ultimately obtain u where "serve_uri e ?uri t = (Ret (), u)"
    "wrote (''HTTP/1.0 200 OK'' @ CRLF @ ''Server: Tiny Web Server'' @ CRLF @ ?out) t u"
    unfolding writes_def by metis
  with t show ?thesis by (auto simp: wrote_def same_net_def)
qed

theorem tiny_runs_adder_witness:
  "\<exists>t. doit demo_env demo_rio 4 (demo_request
       (get_request (''/cgi-bin/adder?'' @ show_int 2 @ CHR ''&'' # show_int 3) ''HTTP/1.1'' [] @ [])) = Some (Ret (), t) \<and>
     io_sent t = [] @ ''HTTP/1.0 200 OK'' @ CRLF @ ''Server: Tiny Web Server'' @ CRLF @
       cgi_headers (length (adder_content 2 3 5)) @ adder_content 2 3 5"
proof -
  let ?req = "get_request (''/cgi-bin/adder?'' @ show_int 2 @ CHR ''&'' # show_int 3) ''HTTP/1.1'' [] @ []"
  have q: "quiet (io_in (demo_request ?req))" "stream (io_in (demo_request ?req)) = ?req"
    "wr_quiet (io_plan (demo_request ?req))" "io_sent (demo_request ?req) = []"
    using demo_request_quiet [of ?req] by (simp_all add: get_request_def)
  have "te_cgi demo_env ''./cgi-bin/adder'' u = Some res" if "adder_main (Some u) = Ret res" for u res
    using that by (simp add: demo_env_def)
  then show ?thesis
    using tiny_runs_adder [of "demo_request ?req" 2 3 "''HTTP/1.1''" "[]" "[]" demo_env
        "\<lparr>st_regular = True, st_rusr = True, st_xusr = True, st_size = 100\<rparr>" demo_rio 4] q
    by (simp add: word_def isspace_def demo_env_def)
qed

section \<open>Error pages\<close>

definition error_page :: "string \<Rightarrow> string \<Rightarrow> string \<Rightarrow> string \<Rightarrow> string" where
  "error_page cause errnum shortmsg longmsg =
     ''<html><title>Tiny Error</title>'' @ ''<body bgcolor=ffffff>'' @ CRLF @
     errnum @ '': '' @ shortmsg @ CRLF @ ''<p>'' @ longmsg @ '': '' @ cause @ CRLF @
     ''<hr><em>The Tiny Web server</em>'' @ CRLF"

lemma clienterror_writes:
  assumes "length cause + length errnum + length shortmsg + length longmsg < 8000"
  shows "writes (''HTTP/1.0 '' @ errnum @ '' '' @ shortmsg @ CRLF @ ''Content-type: text/html'' @ CRLF @
      ''Content-length: '' @ show_nat (length (error_page cause errnum shortmsg longmsg)) @ CRLF @ CRLF @
      error_page cause errnum shortmsg longmsg)
    (clienterror e cause errnum shortmsg longmsg)"
proof -
  let ?l = "[''<html><title>Tiny Error</title>'', ''<body bgcolor=ffffff>'' @ CRLF,
       errnum @ '': '' @ shortmsg @ CRLF, ''<p>'' @ longmsg @ '': '' @ cause @ CRLF,
       ''<hr><em>The Tiny Web server</em>'' @ CRLF]"
  let ?page = "error_page cause errnum shortmsg longmsg"
  let ?l1 = "''HTTP/1.0 '' @ errnum @ '' '' @ shortmsg @ CRLF"
  let ?l2 = "''Content-type: text/html'' @ CRLF"
  let ?l3 = "''Content-length: '' @ show_nat (length ?page) @ CRLF @ CRLF"
  let ?w = "Rio_writen (te_strerror e)"
  have "length (concat ?l) < MAXLINE" using assms by simp
  then have "error_body cause errnum shortmsg longmsg = Ret (concat ?l)"
    unfolding error_body_def using sprintf_all_fits [of "[]" ?l] by simp
  then have body: "error_body cause errnum shortmsg longmsg = Ret ?page" by (simp add: error_page_def)
  have "sprintf_max ?l1 = Ret ?l1" using assms by (simp add: sprintf_max_def)
  with body have "clienterror e cause errnum shortmsg longmsg =
      cbind (?w ?l1) (\<lambda>_. cbind (?w ?l2) (\<lambda>_. cbind (?w ?l3) (\<lambda>_. ?w ?page)))"
    by (simp add: clienterror_def of_outcome_def cbind_def fun_eq_iff)
  moreover have "writes (?l1 @ ?l2 @ ?l3 @ ?page) \<dots>"
    by (intro writes_cbind writes_Rio_writen)
  ultimately show ?thesis by simp
qed

text \<open>C32. A GET request of a file that does not exist is answered with status 404 and an error page
  whose size is the announced one.\<close>

theorem tiny_not_found:
  assumes "quiet (io_in s)" and "stream (io_in s) = get_request uri version hs @ r" and "wr_quiet (io_plan s)"
    and "word uri" and "word version" and "list_all header_line hs" and "length uri + length version < 7000"
    and "CHR ''?'' \<notin> set uri" and "last uri \<noteq> CHR ''/''" and "te_stat e (''.'' @ uri) = None"
  shows "\<exists>t page. doit e rp fd s = Some (Ret (), t) \<and>
    io_sent t = io_sent s @ ''HTTP/1.0 404 Not found'' @ CRLF @ ''Content-type: text/html'' @ CRLF @
      ''Content-length: '' @ show_nat (length page) @ CRLF @ CRLF @ page"
proof -
  let ?long = "''Tiny couldn'' @ [QUOTE] @ ''t find this file''"
  obtain t where t: "doit e rp fd s = Some (serve_uri e uri t)" "same_net s t"
    using doit_request [OF assms(1,2,4,5,6), of e rp fd] assms(7) by auto
  have "uri \<noteq> []" using assms(4) by (simp add: word_def)
  then obtain st where "parse_uri uri = Ret (st, ''.'' @ uri, [])"
    using assms(7-9) strchr_None [of uri "CHR ''?''"] by (cases "strstr uri ''cgi-bin''") (auto simp: parse_uri_def sprintf_max_def)
  then have "serve_uri e uri t = clienterror e (''.'' @ uri) ''404'' ''Not found'' ?long t"
    using assms(10) by (simp add: serve_uri_def of_outcome_def cbind_def)
  moreover have "writes (''HTTP/1.0 '' @ ''404'' @ '' '' @ ''Not found'' @ CRLF @ ''Content-type: text/html'' @ CRLF @
      ''Content-length: '' @ show_nat (length (error_page (''.'' @ uri) ''404'' ''Not found'' ?long)) @ CRLF @ CRLF @
      error_page (''.'' @ uri) ''404'' ''Not found'' ?long) (clienterror e (''.'' @ uri) ''404'' ''Not found'' ?long)"
    using assms(7) by (intro clienterror_writes) simp
  moreover have "wr_quiet (io_plan t)" using t(2) assms(3) by (simp add: same_net_def)
  ultimately obtain u where "serve_uri e uri t = (Ret (), u)"
    "wrote (''HTTP/1.0 '' @ ''404'' @ '' '' @ ''Not found'' @ CRLF @ ''Content-type: text/html'' @ CRLF @
      ''Content-length: '' @ show_nat (length (error_page (''.'' @ uri) ''404'' ''Not found'' ?long)) @ CRLF @ CRLF @
      error_page (''.'' @ uri) ''404'' ''Not found'' ?long) t u"
    unfolding writes_def by metis
  with t show ?thesis by (intro exI [of _ u] exI [of _ "error_page (''.'' @ uri) ''404'' ''Not found'' ?long"])
    (simp add: wrote_def same_net_def)
qed

theorem tiny_not_found_witness:
  "\<exists>t page. doit demo_env demo_rio 4 (demo_request (get_request ''/b'' ''HTTP/1.1'' [] @ [])) = Some (Ret (), t) \<and>
     io_sent t = [] @ ''HTTP/1.0 404 Not found'' @ CRLF @ ''Content-type: text/html'' @ CRLF @
      ''Content-length: '' @ show_nat (length page) @ CRLF @ CRLF @ page"
proof -
  let ?req = "get_request ''/b'' ''HTTP/1.1'' [] @ []"
  have q: "quiet (io_in (demo_request ?req))" "stream (io_in (demo_request ?req)) = ?req"
    "wr_quiet (io_plan (demo_request ?req))" "io_sent (demo_request ?req) = []"
    using demo_request_quiet [of ?req] by (simp_all add: get_request_def)
  show ?thesis
    using tiny_not_found [of "demo_request ?req" "''/b''" "''HTTP/1.1''" "[]" "[]" demo_env demo_rio 4] q
    by (simp add: word_def isspace_def demo_env_def)
qed

section \<open>The end of the input\<close>

lemma requesthdrs_loop_eof:
  assumes "requesthdrs_loop strerror buf st = Some y"
  shows "buf \<noteq> CRLF \<longrightarrow> rio_ok st \<longrightarrow> rio_rest st \<noteq> []"
proof -
  let ?P = "\<lambda>(strerror :: int \<Rightarrow> string) buf st (y :: unit outcome \<times> rio_t \<times> io). buf \<noteq> CRLF \<longrightarrow> rio_ok st \<longrightarrow> rio_rest st \<noteq> []"
  show ?thesis using assms
  proof (rule requesthdrs_loop.raw_induct [of ?P, rotated])
    fix f :: "(int \<Rightarrow> string) \<Rightarrow> string \<Rightarrow> rio_t \<times> io \<Rightarrow> (unit outcome \<times> (rio_t \<times> io)) option"
      and strerror buf st y
    assume IH: "\<And>strerror buf st y. f strerror buf st = Some y \<Longrightarrow> ?P strerror buf st y"
      and body: "(if buf = CRLF then Some (Ret (), st)
        else
          (case Rio_readlineb strerror MAXLINE st of
             (r, st1) \<Rightarrow>
               (case r of
                  Ret nd \<Rightarrow>
                    (let buf' = (if snd nd = [] then buf else cstr (snd nd))
                     in f strerror buf' (rio_print buf' st1))
                | Exited k \<Rightarrow> Some (Exited k, st1)
                | Fault f \<Rightarrow> Some (Fault f, st1)))) = Some y"
    show "?P strerror buf st y"
    proof (intro impI notI)
      assume ne: "buf \<noteq> CRLF" and ok: "rio_ok st" and e: "rio_rest st = []"
      obtain t where t: "Rio_readlineb strerror MAXLINE st = (Ret (0, []), t)" "rio_ok t" "rio_rest t = []"
        by (rule Rio_readlineb_eof [OF ok e, of MAXLINE strerror]) auto
      with body ne have "f strerror buf (rio_print buf t) = Some y" by (simp add: Let_def)
      from IH [OF this] ne t show False by simp
    qed
  qed
qed

text \<open>A client that closes its connection before the blank line that ends the headers keeps
  \<open>read_requesthdrs\<close>, and the process of the server, in its loop for ever.\<close>

theorem tiny_eof_spins:
  assumes "rio_ok st" and "rio_rest st = h @ CRLF" and "header_line h"
  shows "read_requesthdrs strerror st = None"
proof -
  have rest: "rio_rest st = (h @ [CR]) @ LF # []" using assms(2) by simp
  obtain t where t: "Rio_readlineb strerror MAXLINE st = (Ret (int (length (h @ [CR]) + 1), (h @ [CR]) @ [LF, NUL]), t)"
    "rio_ok t" "rio_rest t = []"
    by (rule Rio_readlineb_line [OF assms(1) rest, of MAXLINE strerror]) (use assms(3) in \<open>auto simp: header_line_def\<close>)
  have line: "cstr ((h @ [CR]) @ [LF, NUL]) = h @ CRLF"
    using assms(3) cstr_append_NUL [of "h @ CRLF" "[]"] by (simp add: header_line_def)
  have "h @ CRLF \<noteq> CRLF" using assms(3) by (simp add: header_line_def)
  then have "requesthdrs_loop strerror (h @ CRLF) (rio_print (h @ CRLF) t) = None"
    using requesthdrs_loop_eof [of strerror "h @ CRLF" "rio_print (h @ CRLF) t"] t
    by (cases "requesthdrs_loop strerror (h @ CRLF) (rio_print (h @ CRLF) t)") auto
  with t line show ?thesis by (simp add: read_requesthdrs_def c_simps)
qed

theorem tiny_eof_spins_witness:
  "read_requesthdrs (\<lambda>e. []) (rio_readinitb 4 demo_rio,
     demo_request (''Host: x'' @ CRLF)) = None"
proof (rule tiny_eof_spins)
  have q: "quiet (io_in (demo_request (''Host: x'' @ CRLF)))"
    "stream (io_in (demo_request (''Host: x'' @ CRLF))) = ''Host: x'' @ CRLF"
    using demo_request_quiet [of "''Host: x'' @ CRLF"] by simp_all
  note init = rio_init [OF q(1), of 4 demo_rio]
  show "rio_ok (rio_readinitb 4 demo_rio, demo_request (''Host: x'' @ CRLF))"
    using init by simp
  show "rio_rest (rio_readinitb 4 demo_rio,
      demo_request (''Host: x'' @ CRLF)) = ''Host: x'' @ CRLF"
    using init q by simp
  show "header_line ''Host: x''" by (simp add: header_line_def)
qed

end
