(* ===== verification/Echo.thy ===== *)
theory Echo
  imports Csapp_Wrap Csapp_Net Rio_Lines Bounded_Buffer
begin

text \<open>
  The echo servers of \<open>hw6\<close>: \<open>echo.c\<close>, \<open>echo_cnt.c\<close> and the four servers around them, one
  client at a time, a process per client, a thread per client, and a pool of threads.
\<close>

section \<open>echo\<close>

partial_function (option) echo_loop ::
    "(int \<Rightarrow> string) \<Rightarrow> rio_t \<times> io \<Rightarrow> (unit outcome \<times> (rio_t \<times> io)) option" where
  "echo_loop strerror st =
     (case Rio_readlineb strerror MAXLINE st of
        (r, st1) \<Rightarrow>
          (case r of
             Ret nd \<Rightarrow>
               (if fst nd = 0 then Some (Ret (), st1)
                else
                  (case on_io (cbind (cmodify (print_out (''server received '' @ show_int (fst nd) @ '' bytes'' @ [LF])))
                          (\<lambda>_. Rio_writen strerror (take (nat (fst nd)) (snd nd)))) st1 of
                     (w, st2) \<Rightarrow>
                       (case w of
                          Ret u \<Rightarrow> echo_loop strerror st2
                        | Exited k \<Rightarrow> Some (Exited k, st2)
                        | Fault f \<Rightarrow> Some (Fault f, st2))))
           | Exited k \<Rightarrow> Some (Exited k, st1)
           | Fault f \<Rightarrow> Some (Fault f, st1)))"

declare echo_loop.simps [code]

definition echo :: "(int \<Rightarrow> string) \<Rightarrow> rio_t \<Rightarrow> int \<Rightarrow> (io, unit) dprog" where
  "echo strerror rp connfd s =
     map_option (\<lambda>(r, st). (r, snd st)) (echo_loop strerror (Rio_readinitb connfd rp, s))"

section \<open>The servers\<close>

text \<open>
  The system calls of the servers; \<open>ec_nameinfo\<close> is \<open>getnameinfo\<close> for the client accepted last,
  and the state of a round is that of its connection.
\<close>

record echo_calls =
  ec_strerror :: "int \<Rightarrow> string"
  ec_gai_strerror :: "int \<Rightarrow> string"
  ec_accept :: "int \<Rightarrow> (unit io_ext, int) syscall"
  ec_close :: "int \<Rightarrow> (unit io_ext, int) syscall"
  ec_fork :: "(unit io_ext, int) syscall"
  ec_nameinfo :: "(unit io_ext, int \<times> string \<times> string) syscall"
  ec_malloc :: "nat \<Rightarrow> (unit io_ext, nat option) syscall"
  ec_thread :: "int \<Rightarrow> (unit io_ext, int) syscall"
  ec_detach :: "(unit io_ext, int) syscall"

text \<open>\<open>main\<close> of all four: the arguments and the listening descriptor.\<close>

definition echo_start :: "('w, 'ai) netcalls \<Rightarrow> string list \<Rightarrow> ('w world_scheme, int) cprog" where
  "echo_start nc argv =
     (if length argv \<noteq> 2 then
        cbind (cmodify (print_err (''usage: '' @ hd argv @ '' <port>'' @ [LF]))) (\<lambda>_. cexit 0)
      else Open_listenfd nc (argv ! 1))"

text \<open>\<open>echoserveri.c\<close>: one round of the loop.\<close>

definition echoi_round :: "echo_calls \<Rightarrow> rio_t \<Rightarrow> int \<Rightarrow> (io, unit) dprog" where
  "echoi_round c rp listenfd =
     dbind (dlift (Accept (ec_strerror c) (ec_accept c) listenfd)) (\<lambda>connfd.
     dbind (dlift (\<lambda>s. case ec_nameinfo c s of ((rc, host, port), t) \<Rightarrow>
              if rc \<noteq> 0 then gai_error (ec_gai_strerror c) rc ''Getnameinfo error'' t
              else (Ret (host, port), t))) (\<lambda>(host, port).
     dbind (dlift (cmodify (print_out (''Connected to ('' @ host @ '', '' @ port @ '')'' @ [LF])))) (\<lambda>_.
     dbind (echo (ec_strerror c) rp connfd) (\<lambda>_.
       dlift (Close (ec_strerror c) (ec_close c) connfd)))))"

text \<open>
  \<open>echoserverp.c\<close>: the handler of \<open>SIGCHLD\<close>, over the results of its calls of
  \<open>waitpid(-1, 0, WNOHANG)\<close>, and one round as seen by the process \<open>fork\<close> returns to.
\<close>

partial_function (option) echop_sigchld :: "('w, int) syscall \<Rightarrow> 'w world_scheme \<Rightarrow> 'w world_scheme option" where
  "echop_sigchld waitpid s =
     (case waitpid s of (pid, t) \<Rightarrow> if 0 < pid then echop_sigchld waitpid t else Some t)"

declare echop_sigchld.simps [code]

definition echop_round :: "echo_calls \<Rightarrow> rio_t \<Rightarrow> int \<Rightarrow> (io, unit) dprog" where
  "echop_round c rp listenfd =
     dbind (dlift (Accept (ec_strerror c) (ec_accept c) listenfd)) (\<lambda>connfd.
     dbind (dlift (Fork (ec_strerror c) (ec_fork c))) (\<lambda>pid.
       if pid = 0 then
         dbind (dlift (Close (ec_strerror c) (ec_close c) listenfd)) (\<lambda>_.
         dbind (echo (ec_strerror c) rp connfd) (\<lambda>_.
         dbind (dlift (Close (ec_strerror c) (ec_close c) connfd)) (\<lambda>_.
           dlift (cexit 0))))
       else dlift (Close (ec_strerror c) (ec_close c) connfd)))"

text \<open>
  \<open>echoservert.c\<close>: a round of \<open>main\<close>, which hands the descriptor to a new thread in a block of
  its own, and that thread. \<open>ec_thread\<close> is \<open>pthread_create\<close> with this descriptor; the block and
  its owners are modelled in \<open>Echo_Threads\<close>.
\<close>

definition echot_round :: "echo_calls \<Rightarrow> int \<Rightarrow> (io, unit) cprog" where
  "echot_round c listenfd =
     cbind (Malloc (ec_strerror c) (ec_malloc c) 4) (\<lambda>connfdp.
     cbind (Accept (ec_strerror c) (ec_accept c) listenfd) (\<lambda>connfd.
       check_zero (ec_strerror c) ''Pthread_create error'' (ec_thread c connfd)))"

definition echot_thread :: "echo_calls \<Rightarrow> rio_t \<Rightarrow> int \<Rightarrow> (io, unit) dprog" where
  "echot_thread c rp connfd =
     dbind (dlift (check_zero (ec_strerror c) ''Pthread_detach error'' (ec_detach c))) (\<lambda>_.
     dbind (echo (ec_strerror c) rp connfd) (\<lambda>_.
       dlift (Close (ec_strerror c) (ec_close c) connfd)))"

text \<open>
  In a server with several threads each descriptor leads to a connection. This is what a read
  or write sees on one that is not open.
\<close>

definition EBADF :: int where "EBADF = 9"

definition closed_io :: io where
  "closed_io = \<lparr>w_errno = 0, w_out = [], w_err = [], io_in = [RdErr EBADF], io_plan = [WrErr EBADF], io_sent = []\<rparr>"

text \<open>What a client sends, and a client whose calls are at most interrupted.\<close>

definition client_data :: "io \<Rightarrow> string" where
  "client_data v = stream (io_in v)"

definition good_client :: "io \<Rightarrow> bool" where
  "good_client v \<longleftrightarrow> quiet (io_in v) \<and> wr_quiet (io_plan v) \<and> io_sent v = []"

section \<open>What they do\<close>

text \<open>A byte that \<open>Rio_readlineb\<close> delivers is taken from what is left.\<close>

lemma Rio_readlineb_cases:
  assumes "rio_ok st"
  obtains t where "Rio_readlineb strerror MAXLINE st = (Ret (0, []), t)" and "rio_rest st = []"
      and "same_out (snd st) (snd t)"
  | l t where "Rio_readlineb strerror MAXLINE st = (Ret (int (length l), l @ [NUL]), t)" and "l \<noteq> []"
      and "rio_rest st = l @ rio_rest t" and "rio_ok t" and "same_out (snd st) (snd t)"
proof (cases "rio_rest st = []")
  case True
  from Rio_readlineb_eof [OF assms True, of MAXLINE strerror] that(1) True show thesis
    by (metis one_less_numeral_iff semiring_norm(76))
next
  case False
  let ?l = "take_line (MAXLINE - 1) (rio_rest st)"
  have "?l \<noteq> []" using False by (simp add: take_line_Nil_iff)
  with Rio_readlineb_quiet [OF assms, of MAXLINE strerror] False that(2) [of ?l] show thesis
    by (auto simp: Let_def)
qed

lemma echo_loop_quiet:
  assumes "rio_ok st" and "wr_quiet (io_plan (snd st))"
  shows "\<exists>t. echo_loop strerror st = Some (Ret (), t) \<and> io_sent (snd t) = io_sent (snd st) @ rio_rest st"
  using assms
proof (induction "length (rio_rest st)" arbitrary: st rule: less_induct)
  case less
  show ?case
  proof (cases rule: Rio_readlineb_cases [OF less.prems(1), of strerror])
    case (1 t)
    then show ?thesis by (subst echo_loop.simps) (simp add: same_out_def)
  next
    case (2 l t)
    let ?m = "''server received '' @ show_int (int (length l)) @ '' bytes'' @ [LF]"
    obtain u where u: "Rio_writen strerror l (print_out ?m (snd t)) = (Ret (), u)"
      "wrote l (print_out ?m (snd t)) u"
      by (rule Rio_writen_quiet [of "print_out ?m (snd t)" strerror l])
        (use 2(5) less.prems(2) in \<open>auto simp: print_out_def same_out_def\<close>)
    have ok: "rio_ok (fst t, u)" "rio_rest (fst t, u) = rio_rest t" "wr_quiet (io_plan u)"
      using 2(4) u(2) by (auto simp: rio_ok_def rio_rest_def wrote_def print_out_def)
    have "echo_loop strerror st = echo_loop strerror (fst t, u)"
      using 2(1,2) u(1) by (subst echo_loop.simps) (simp add: on_io_def c_simps)
    moreover have "length (rio_rest (fst t, u)) < length (rio_rest st)" using 2(2,3) ok(2) by simp
    ultimately obtain v where "echo_loop strerror st = Some (Ret (), v)"
      "io_sent (snd v) = io_sent u @ rio_rest (fst t, u)"
      using less.hyps [of "(fst t, u)"] ok by auto
    with ok(2) u(2) 2(3,5) show ?thesis by (auto simp: wrote_def same_out_def print_out_def)
  qed
qed

text \<open>The handler of the process-based server reaps every child that has exited.\<close>

lemma echop_sigchld_reaps:
  assumes "\<And>s z zs. zombies s = z # zs \<Longrightarrow> waitpid s = (z, drop_first s) \<and> zombies (drop_first s) = zs \<and> 0 < z"
    and "\<And>s. zombies s = [] \<Longrightarrow> waitpid s = (- 1, s)"
  shows "\<exists>t. echop_sigchld waitpid s = Some t \<and> zombies t = ([] :: int list)"
proof (induction "zombies s" arbitrary: s)
  case Nil
  then show ?case using assms(2) [of s] by (subst echop_sigchld.simps) simp
next
  case (Cons z zs)
  then have w: "waitpid s = (z, drop_first s)" "zombies (drop_first s) = zs" "0 < z"
    using assms(1) [of s z zs] by simp_all
  have "echop_sigchld waitpid s = echop_sigchld waitpid (drop_first s)"
    using w by (subst echop_sigchld.simps) simp
  with Cons.hyps(1) [of "drop_first s"] w show ?case by simp
qed

end
