(* ===== verification/Echo_Cnt.thy ===== *)
theory Echo_Cnt
  imports Echo
begin

text \<open>
  \<open>hw6/echo_cnt.c\<close>, the body of the threads of \<open>echoservert_pre.c\<close>: an echo server that counts
  the bytes of all clients under a mutex that the first thread initialises. One step of a
  thread is one access to what the threads share; each has a connection of its own.
\<close>

section \<open>The steps\<close>

datatype once = Once_New | Once_Running | Once_Done

record cn_shared =
  cn_once :: once
  cn_mutex :: nat
  cn_bytes :: int    \<comment> \<open>\<open>byte_cnt\<close>\<close>
  cn_out :: string

text \<open>The static variables before the first call.\<close>

definition cn_static :: cn_shared where
  "cn_static = \<lparr>cn_once = Once_New, cn_mutex = 0, cn_bytes = 0, cn_out = []\<rparr>"

datatype cn_pc =
    CnOnce                    \<comment> \<open>before \<open>Pthread_once\<close>\<close>
  | CnSem                     \<comment> \<open>in \<open>init_echo_cnt\<close>, before \<open>Sem_init\<close>\<close>
  | CnZero                    \<comment> \<open>before \<open>byte_cnt = 0\<close>\<close>
  | CnInitb                   \<comment> \<open>before \<open>Rio_readinitb\<close>\<close>
  | CnRead                    \<comment> \<open>before \<open>Rio_readlineb\<close>\<close>
  | CnP int string            \<comment> \<open>before \<open>P(mutex)\<close>, with the line\<close>
  | CnLoad int string         \<comment> \<open>before the load of \<open>byte_cnt\<close>\<close>
  | CnStore int string int    \<comment> \<open>before the store, with the value loaded\<close>
  | CnPrint int string        \<comment> \<open>before \<open>printf\<close>\<close>
  | CnV int string            \<comment> \<open>before \<open>V(mutex)\<close>\<close>
  | CnWrite int string        \<comment> \<open>before \<open>Rio_writen\<close>\<close>
  | CnDone

definition cnt_message :: "int \<Rightarrow> int \<Rightarrow> int \<Rightarrow> string" where
  "cnt_message n total_bytes fd =
     ''server received '' @ show_int n @ '' ('' @ show_int total_bytes @ '' total) bytes on fd '' @ show_int fd @ [LF]"

text \<open>\<open>init_echo_cnt\<close>: its two steps, which \<open>Pthread_once\<close> lets one thread make; the others wait.\<close>

fun cn_step :: "(int \<Rightarrow> string) \<Rightarrow> int \<Rightarrow> cn_pc \<Rightarrow> rio_t \<times> io \<Rightarrow> cn_shared \<Rightarrow>
    ((cn_pc \<times> (rio_t \<times> io)) outcome \<times> cn_shared) option" where
  "cn_step strerror fd CnOnce c h =
     (case cn_once h of
        Once_New \<Rightarrow> Some (Ret (CnSem, c), h\<lparr>cn_once := Once_Running\<rparr>)
      | Once_Running \<Rightarrow> None
      | Once_Done \<Rightarrow> Some (Ret (CnInitb, c), h))"
| "cn_step strerror fd CnSem c h = Some (Ret (CnZero, c), h\<lparr>cn_mutex := 1\<rparr>)"
| "cn_step strerror fd CnZero c h = Some (Ret (CnInitb, c), h\<lparr>cn_bytes := 0, cn_once := Once_Done\<rparr>)"
| "cn_step strerror fd CnInitb c h = Some (Ret (CnRead, (Rio_readinitb fd (fst c), snd c)), h)"
| "cn_step strerror fd CnRead c h =
     (case Rio_readlineb strerror MAXLINE c of
        (r, c') \<Rightarrow>
          Some (omap (\<lambda>(n, d). (if n = 0 then CnDone else CnP n (take (nat n) d), c')) r, h))"
| "cn_step strerror fd (CnP n d) c h =
     map_option (\<lambda>v. (Ret (CnLoad n d, c), h\<lparr>cn_mutex := v\<rparr>)) (sem_wait (cn_mutex h))"
| "cn_step strerror fd (CnLoad n d) c h = Some (Ret (CnStore n d (cn_bytes h), c), h)"
| "cn_step strerror fd (CnStore n d v) c h =
     Some (case int_add v n of
         Ret k \<Rightarrow> (Ret (CnPrint n d, c), h\<lparr>cn_bytes := k\<rparr>)
       | Exited e \<Rightarrow> (Exited e, h) | Fault f \<Rightarrow> (Fault f, h))"
| "cn_step strerror fd (CnPrint n d) c h =
     Some (Ret (CnV n d, c), h\<lparr>cn_out := cn_out h @ cnt_message n (cn_bytes h) fd\<rparr>)"
| "cn_step strerror fd (CnV n d) c h = Some (Ret (CnWrite n d, c), h\<lparr>cn_mutex := sem_post (cn_mutex h)\<rparr>)"
| "cn_step strerror fd (CnWrite n d) c h =
     (case on_io (Rio_writen strerror d) c of (r, c') \<Rightarrow> Some (omap (\<lambda>_. (CnRead, c')) r, h))"
| "cn_step strerror fd CnDone c h = None"

record cn_thread =
  ct_fd :: int
  ct_pc :: cn_pc
  ct_conn :: "rio_t \<times> io"

record cn_sys =
  cy_shared :: cn_shared
  cy_threads :: "cn_thread list"

definition cn_next :: "(int \<Rightarrow> string) \<Rightarrow> nat \<Rightarrow> cn_sys \<Rightarrow> cn_sys outcome option" where
  "cn_next strerror i s =
     (if i < length (cy_threads s) then
        (let t = cy_threads s ! i in
         case cn_step strerror (ct_fd t) (ct_pc t) (ct_conn t) (cy_shared s) of
           None \<Rightarrow> None
         | Some (r, h) \<Rightarrow>
             Some (omap (\<lambda>(q, c). s\<lparr>cy_shared := h, cy_threads := (cy_threads s)[i := t\<lparr>ct_pc := q, ct_conn := c\<rparr>]\<rparr>) r))
      else None)"

inductive cn_reach :: "(int \<Rightarrow> string) \<Rightarrow> cn_sys \<Rightarrow> cn_sys \<Rightarrow> bool" for strerror s0 where
  cn_reach_init: "cn_reach strerror s0 s0"
| cn_reach_step: "cn_reach strerror s0 s \<Longrightarrow> cn_next strerror i s = Some (Ret t) \<Longrightarrow> cn_reach strerror s0 t"

section \<open>The pool\<close>

text \<open>
  \<open>echo_cnt\<close> by one thread that the others do not interrupt, and the parts of
  \<open>echoservert_pre.c\<close>: the start of \<open>main\<close> with its ten threads, a round of its loop, and a
  round of a thread. \<open>None\<close> is a call that does not return, also one that blocks for ever.
\<close>

partial_function (option) cn_alone :: "(int \<Rightarrow> string) \<Rightarrow> int \<Rightarrow> cn_pc \<Rightarrow> rio_t \<times> io \<Rightarrow> cn_shared \<Rightarrow>
    (unit outcome \<times> io \<times> cn_shared) option" where
  "cn_alone strerror fd p c h =
     (if p = CnDone then Some (Ret (), snd c, h)
      else
        (case cn_step strerror fd p c h of
           None \<Rightarrow> None
         | Some (r, h') \<Rightarrow>
             (case r of
                Ret qc \<Rightarrow> cn_alone strerror fd (fst qc) (snd qc) h'
              | Exited k \<Rightarrow> Some (Exited k, snd c, h')
              | Fault f \<Rightarrow> Some (Fault f, snd c, h'))))"

declare cn_alone.simps [code]

definition echo_cnt :: "(int \<Rightarrow> string) \<Rightarrow> rio_t \<Rightarrow> int \<Rightarrow> (io \<times> cn_shared, unit) dprog" where
  "echo_cnt strerror rp connfd st = cn_alone strerror connfd CnOnce (rp, fst st) (snd st)"

definition pre_NTHREADS :: nat where "pre_NTHREADS = 10"
definition pre_SBUFSIZE :: int where "pre_SBUFSIZE = 16"

fun pool_spawn :: "echo_calls \<Rightarrow> nat \<Rightarrow> (io, unit) cprog" where
  "pool_spawn c 0 = creturn ()"
| "pool_spawn c (Suc n) =
     cbind (check_zero (ec_strerror c) ''Pthread_create error'' (ec_thread c 0)) (\<lambda>_. pool_spawn c n)"

definition pool_start :: "echo_calls \<Rightarrow> (unit io_ext, 'ai) netcalls \<Rightarrow> bool \<Rightarrow> string list \<Rightarrow> (io, int \<times> int bbuf) cprog" where
  "pool_start c nc alloc_ok argv =
     cbind (echo_start nc argv) (\<lambda>listenfd.
       (case sbuf_init alloc_ok pre_SBUFSIZE of
          Ret b \<Rightarrow> cbind (pool_spawn c pre_NTHREADS) (\<lambda>_. creturn (listenfd, b))
        | Exited k \<Rightarrow> cexit k
        | Fault f \<Rightarrow> cfault f))"

definition pool_round :: "echo_calls \<Rightarrow> int \<Rightarrow> (io \<times> int bbuf, unit) dprog" where
  "pool_round c listenfd st =
     (case Accept (ec_strerror c) (ec_accept c) listenfd (fst st) of
        (Ret connfd, t) \<Rightarrow> map_option (\<lambda>(r, b). (omap (\<lambda>_. ()) r, (t, b))) (sbuf_insert connfd (snd st))
      | (Exited k, t) \<Rightarrow> Some (Exited k, (t, snd st))
      | (Fault f, t) \<Rightarrow> Some (Fault f, (t, snd st)))"

definition pool_thread_round :: "echo_calls \<Rightarrow> rio_t \<Rightarrow> (io \<times> cn_shared \<times> int bbuf, unit) dprog" where
  "pool_thread_round c rp st =
     (case st of (s, h, b) \<Rightarrow>
        (case sbuf_remove b of
           None \<Rightarrow> None
         | Some (r, b') \<Rightarrow>
             (case r of
                Ret item \<Rightarrow>
                  (case echo_cnt (ec_strerror c) rp (the item) (s, h) of
                     None \<Rightarrow> None
                   | Some (r', t, h') \<Rightarrow>
                       (case r' of
                          Ret u \<Rightarrow> (case Close (ec_strerror c) (ec_close c) (the item) t of (q, t') \<Rightarrow> Some (q, (t', h', b')))
                        | Exited k \<Rightarrow> Some (Exited k, (t, h', b'))
                        | Fault f \<Rightarrow> Some (Fault f, (t, h', b'))))
              | Exited k \<Rightarrow> Some (Exited k, (s, h, b'))
              | Fault f \<Rightarrow> Some (Fault f, (s, h, b')))))"

section \<open>The invariant of a thread\<close>

fun initing :: "cn_pc \<Rightarrow> bool" where
  "initing CnSem = True" | "initing CnZero = True" | "initing _ = False"

fun early :: "cn_pc \<Rightarrow> bool" where
  "early CnOnce = True" | "early CnSem = True" | "early CnZero = True" | "early CnInitb = True"
| "early _ = False"

fun in_cs :: "cn_pc \<Rightarrow> bool" where
  "in_cs (CnLoad n d) = True" | "in_cs (CnStore n d v) = True" | "in_cs (CnPrint n d) = True"
| "in_cs (CnV n d) = True" | "in_cs _ = False"

fun pending :: "cn_pc \<Rightarrow> string" where
  "pending (CnP n d) = d" | "pending (CnLoad n d) = d" | "pending (CnStore n d v) = d"
| "pending (CnPrint n d) = d" | "pending (CnV n d) = d" | "pending (CnWrite n d) = d" | "pending _ = []"

fun line_ok :: "cn_pc \<Rightarrow> bool" where
  "line_ok (CnP n d) = (n = int (length d))" | "line_ok (CnLoad n d) = (n = int (length d))"
| "line_ok (CnStore n d v) = (n = int (length d))" | "line_ok (CnPrint n d) = (n = int (length d))"
| "line_ok (CnV n d) = (n = int (length d))" | "line_ok (CnWrite n d) = (n = int (length d))" | "line_ok _ = True"

text \<open>What the client sent is what it got back, the line in the thread, and what is unread.\<close>

definition conn_ok :: "string \<Rightarrow> cn_pc \<Rightarrow> rio_t \<times> io \<Rightarrow> bool" where
  "conn_ok w p c \<longleftrightarrow> wr_quiet (io_plan (snd c)) \<and> line_ok p \<and>
     (if early p then quiet (io_in (snd c)) \<and> io_sent (snd c) = [] \<and> stream (io_in (snd c)) = w
      else if p = CnDone then io_sent (snd c) = w
      else rio_ok c \<and> io_sent (snd c) @ pending p @ rio_rest c = w)"

text \<open>The bytes of a thread that are in the counter.\<close>

fun stored :: "cn_pc \<Rightarrow> int" where
  "stored (CnPrint n d) = n" | "stored (CnV n d) = n" | "stored (CnWrite n d) = n" | "stored _ = 0"

definition counted :: "cn_thread \<Rightarrow> int" where
  "counted t = int (length (io_sent (snd (ct_conn t)))) + stored (ct_pc t)"

lemma cn_step_conn:
  assumes "cn_step strerror fd p c h = Some (Ret (q, c'), h')" and "conn_ok w p c"
  shows "conn_ok w q c'"
proof (cases p)
  case CnInitb
  with assms rio_init [of "snd c" fd "fst c"] show ?thesis
    by (auto simp: conn_ok_def Rio_readinitb_def)
next
  case CnRead
  then have ok: "rio_ok c" "wr_quiet (io_plan (snd c))" "io_sent (snd c) @ rio_rest c = w"
    using assms(2) by (auto simp: conn_ok_def)
  show ?thesis
  proof (cases rule: Rio_readlineb_cases [OF ok(1), of strerror])
    case (1 t)
    then show ?thesis using assms(1) CnRead ok by (auto simp: conn_ok_def same_out_def)
  next
    case (2 l t)
    then show ?thesis using assms(1) CnRead ok by (auto simp: conn_ok_def same_out_def)
  qed
next
  case (CnWrite n d)
  then have ok: "rio_ok c" "wr_quiet (io_plan (snd c))" "io_sent (snd c) @ d @ rio_rest c = w"
    using assms(2) by (auto simp: conn_ok_def)
  obtain u where u: "Rio_writen strerror d (snd c) = (Ret (), u)" "wrote d (snd c) u"
    by (rule Rio_writen_quiet [OF ok(2)])
  then have "q = CnRead" "c' = (fst c, u)" using assms(1) CnWrite by (auto simp: on_io_def)
  with ok u(2) show ?thesis by (auto simp: conn_ok_def wrote_def rio_ok_def rio_rest_def)
qed (use assms in \<open>auto simp: conn_ok_def split: once.splits outcome.splits\<close>)

section \<open>The invariant of the shared variables\<close>

definition load_ok :: "int \<Rightarrow> cn_pc \<Rightarrow> bool" where
  "load_ok v p \<longleftrightarrow> (case p of CnStore n d u \<Rightarrow> u = v | _ \<Rightarrow> True)"

definition done_inv :: "cn_shared \<Rightarrow> cn_thread list \<Rightarrow> bool" where
  "done_inv h ts \<longleftrightarrow> cnt (\<lambda>t. initing (ct_pc t)) ts = 0 \<and> cn_mutex h + cnt (\<lambda>t. in_cs (ct_pc t)) ts = 1 \<and>
     list_all (\<lambda>t. load_ok (cn_bytes h) (ct_pc t)) ts \<and> cn_bytes h = sum_list (map counted ts)"

definition once_inv :: "cn_shared \<Rightarrow> cn_thread list \<Rightarrow> bool" where
  "once_inv h ts \<longleftrightarrow>
     (case cn_once h of
        Once_New \<Rightarrow> list_all (\<lambda>t. ct_pc t = CnOnce) ts
      | Once_Running \<Rightarrow>
          (\<exists>k < length ts. (ct_pc (ts ! k) = CnSem \<or> ct_pc (ts ! k) = CnZero \<and> cn_mutex h = 1) \<and>
             (\<forall>j < length ts. j \<noteq> k \<longrightarrow> ct_pc (ts ! j) = CnOnce))
      | Once_Done \<Rightarrow> done_inv h ts)"

text \<open>The mutex keeps the threads in its section apart, so that a load is still valid at the store.\<close>

lemma list_all_update: "list_all P ts \<Longrightarrow> P t \<Longrightarrow> list_all P (ts[i := t])"
  by (metis list_all_iff insertE set_update_subset_insert subset_code(1))

lemma done_inv_step:
  assumes inv: "done_inv h ts" and i: "i < length ts" and t: "t = ts ! i"
    and step: "cn_step strerror fd (ct_pc t) (ct_conn t) h = Some (Ret (q, c'), h')"
    and once: "cn_once h = Once_Done" and conn: "conn_ok w (ct_pc t) (ct_conn t)"
  shows "done_inv h' (ts[i := t\<lparr>ct_pc := q, ct_conn := c'\<rparr>]) \<and> cn_once h' = Once_Done"
proof -
  let ?t = "t\<lparr>ct_pc := q, ct_conn := c'\<rparr>"
  let ?ts = "ts[i := ?t]"
  have C: "cnt (\<lambda>t. P (ct_pc t)) ?ts + (if P (ct_pc t) then 1 else 0) =
      cnt (\<lambda>t. P (ct_pc t)) ts + (if P q then 1 else 0)" for P
    using cnt_update [OF i, of "\<lambda>t. P (ct_pc t)" ?t] t by simp
  have S: "sum_list (map counted ?ts) = sum_list (map counted ts) - counted t + counted ?t"
    using sum_list_update_int [OF i] t by simp
  have L: "list_all (\<lambda>t. load_ok v (ct_pc t)) ?ts" if "list_all (\<lambda>t. load_ok v (ct_pc t)) ts" "load_ok v q" for v
    using that by (intro list_all_update) simp_all
  have I: "cnt (\<lambda>t. initing (ct_pc t)) ts = 0" "cn_mutex h + cnt (\<lambda>t. in_cs (ct_pc t)) ts = 1"
    "list_all (\<lambda>t. load_ok (cn_bytes h) (ct_pc t)) ts" "cn_bytes h = sum_list (map counted ts)"
    using inv by (auto simp: done_inv_def)
  have not_init: "\<not> initing (ct_pc t)" using cnt_pos [OF i, of "\<lambda>t. initing (ct_pc t)"] I(1) t by auto
  have sent: "io_sent (snd c') = io_sent (snd (ct_conn t))" if "\<And>n d. ct_pc t \<noteq> CnWrite n d"
  proof (cases "ct_pc t")
    case CnRead
    then have "rio_ok (ct_conn t)" using conn by (auto simp: conn_ok_def)
    then show ?thesis
      by (cases rule: Rio_readlineb_cases [of "ct_conn t" strerror]) (use step CnRead in \<open>auto simp: same_out_def\<close>)
  qed (use step that in \<open>auto split: once.splits outcome.splits\<close>)
  note U = C [of initing] C [of in_cs] S
  have "h' = h \<and> q \<noteq> CnSem \<and> q \<noteq> CnZero \<Longrightarrow> in_cs q = in_cs (ct_pc t) \<Longrightarrow> load_ok (cn_bytes h) q \<Longrightarrow>
      counted ?t = counted t \<Longrightarrow> ?thesis"
    using U I L not_init once by (cases q) (auto simp: done_inv_def)
  note plain = this
  show ?thesis
  proof (cases "ct_pc t")
    case CnOnce
    with step once sent show ?thesis by (intro plain) (auto simp: counted_def load_ok_def)
  next
    case CnInitb
    with step sent show ?thesis by (intro plain) (auto simp: counted_def load_ok_def)
  next
    case CnRead
    then have "rio_ok (ct_conn t)" using conn by (auto simp: conn_ok_def)
    then have "h' = h \<and> (q = CnDone \<or> (\<exists>n d. q = CnP n d))"
      by (cases rule: Rio_readlineb_cases [of "ct_conn t" strerror]) (use step CnRead in auto)
    then show ?thesis using CnRead sent by (intro plain) (auto simp: counted_def load_ok_def)
  next
    case (CnP n d)
    then have "q = CnLoad n d" "cn_mutex h = Suc (cn_mutex h')" "cn_bytes h' = cn_bytes h" "cn_once h' = cn_once h"
      using step by (auto simp: sem_wait_def split: if_splits)
    with CnP sent U I L [of "cn_bytes h"] once show ?thesis by (auto simp: done_inv_def counted_def load_ok_def)
  next
    case (CnLoad n d)
    with step sent show ?thesis by (intro plain) (auto simp: counted_def load_ok_def)
  next
    case (CnStore n d v)
    then have v: "v = cn_bytes h" using I(3) i t by (auto simp: list_all_length load_ok_def split: cn_pc.splits)
    from CnStore step obtain k where k: "int_add v n = Ret k" "q = CnPrint n d" "h' = h\<lparr>cn_bytes := k\<rparr>"
      by (auto split: outcome.splits)
    then have k': "k = cn_bytes h + n" using v by (auto simp: int_add_def split: if_splits)
    have "load_ok k (ct_pc (ts ! j))" if "j < length ts" "j \<noteq> i" for j
    proof (rule ccontr)
      assume "\<not> ?thesis"
      then have "in_cs (ct_pc (ts ! j))" by (auto simp: load_ok_def split: cn_pc.splits)
      with cnt_unique [of "\<lambda>t. in_cs (ct_pc t)" ts i j] that i I(2) CnStore t show False by simp
    qed
    then have "list_all (\<lambda>t. load_ok k (ct_pc t)) ?ts"
      using k(2) i by (auto simp: list_all_length nth_list_update load_ok_def)
    with k k' CnStore sent U I once show ?thesis by (auto simp: done_inv_def counted_def)
  next
    case (CnPrint n d)
    then have h': "cn_bytes h' = cn_bytes h" "cn_mutex h' = cn_mutex h" "cn_once h' = cn_once h" "q = CnV n d"
      using step by auto
    have "load_ok (cn_bytes h) q" using h'(4) by (simp add: load_ok_def)
    with h' CnPrint sent U I L [of "cn_bytes h"] once show ?thesis by (simp add: done_inv_def counted_def)
  next
    case (CnV n d)
    then have h': "cn_bytes h' = cn_bytes h" "cn_mutex h' = Suc (cn_mutex h)" "cn_once h' = cn_once h" "q = CnWrite n d"
      using step by (auto simp: sem_post_def)
    have "load_ok (cn_bytes h) q" using h'(4) by (simp add: load_ok_def)
    with h' CnV sent U I L [of "cn_bytes h"] once show ?thesis by (simp add: done_inv_def counted_def)
  next
    case (CnWrite n d)
    then have ok: "wr_quiet (io_plan (snd (ct_conn t)))" "n = int (length d)" using conn by (auto simp: conn_ok_def)
    obtain u where u: "Rio_writen strerror d (snd (ct_conn t)) = (Ret (), u)" "wrote d (snd (ct_conn t)) u"
      by (rule Rio_writen_quiet [OF ok(1)])
    with CnWrite step ok(2) show ?thesis
      by (intro plain) (auto simp: counted_def load_ok_def on_io_def wrote_def)
  qed (use not_init step in auto)
qed

section \<open>All threads\<close>

text \<open>Before the counter is initialised nothing has been counted.\<close>

lemma once_inv_zero:
  assumes "length ws = length ts" and "\<And>j. j < length ts \<Longrightarrow> conn_ok (ws ! j) (ct_pc (ts ! j)) (ct_conn (ts ! j))"
    and "k < length ts" and "ct_pc (ts ! k) = CnZero" and "\<And>j. j < length ts \<Longrightarrow> j \<noteq> k \<Longrightarrow> ct_pc (ts ! j) = CnOnce"
    and "cn_mutex h = 1" and "t' = (ts ! k)\<lparr>ct_pc := CnInitb, ct_conn := ct_conn (ts ! k)\<rparr>"
  shows "done_inv (h\<lparr>cn_bytes := 0, cn_once := Once_Done\<rparr>) (ts[k := t'])"
proof -
  let ?ts = "ts[k := t']"
  have pc: "ct_pc t = CnOnce \<or> ct_pc t = CnInitb" "counted t = 0" if t: "t \<in> set ?ts" for t
  proof -
    obtain j where j: "j < length ts" "t = ?ts ! j" using t by (auto simp: in_set_conv_nth)
    show "ct_pc t = CnOnce \<or> ct_pc t = CnInitb" using j assms(3-5,7) by (cases "j = k") auto
    have "early (ct_pc (ts ! j))" using j assms(4,5) by (cases "j = k") auto
    then have "io_sent (snd (ct_conn (ts ! j))) = []" using assms(2) [OF j(1)] by (simp add: conn_ok_def)
    then show "counted t = 0" using j assms(3-5,7) by (cases "j = k") (auto simp: counted_def)
  qed
  have "cnt (\<lambda>t. initing (ct_pc t)) ?ts = 0" using pc(1) by (intro cnt_none) force
  moreover have "cnt (\<lambda>t. in_cs (ct_pc t)) ?ts = 0" using pc(1) by (intro cnt_none) force
  moreover have "list_all (\<lambda>t. load_ok 0 (ct_pc t)) ?ts" using pc(1) by (force simp: list_all_iff load_ok_def)
  moreover have "sum_list (map counted ?ts) = 0"
  proof -
    have "map counted ?ts = map (\<lambda>_. 0) ?ts" using pc(2) by (intro map_cong) simp_all
    then show ?thesis by (simp only: sum_list_0)
  qed
  ultimately show ?thesis using assms(6) by (simp add: done_inv_def)
qed

lemma once_inv_step:
  assumes inv: "once_inv h ts" and ok: "length ws = length ts"
      "\<And>j. j < length ts \<Longrightarrow> conn_ok (ws ! j) (ct_pc (ts ! j)) (ct_conn (ts ! j))"
    and i: "i < length ts"
    and step: "cn_step strerror fd (ct_pc (ts ! i)) (ct_conn (ts ! i)) h = Some (Ret (q, c'), h')"
  shows "once_inv h' (ts[i := (ts ! i)\<lparr>ct_pc := q, ct_conn := c'\<rparr>])"
proof (cases "cn_once h")
  case Once_New
  then have all: "ct_pc (ts ! j) = CnOnce" if "j < length ts" for j
    using inv that by (simp add: once_inv_def list_all_length)
  with Once_New step i have "q = CnSem" "h' = h\<lparr>cn_once := Once_Running\<rparr>" by auto
  with all i show ?thesis by (auto simp: once_inv_def nth_list_update)
next
  case Once_Running
  then obtain k where k: "k < length ts" "ct_pc (ts ! k) = CnSem \<or> ct_pc (ts ! k) = CnZero \<and> cn_mutex h = 1"
    "\<And>j. j < length ts \<Longrightarrow> j \<noteq> k \<Longrightarrow> ct_pc (ts ! j) = CnOnce"
    using inv by (auto simp: once_inv_def)
  have ik: "i = k"
  proof (rule ccontr)
    assume "i \<noteq> k"
    with k(3) [OF i] step Once_Running show False by simp
  qed
  show ?thesis
  proof (cases "ct_pc (ts ! k) = CnSem")
    case True
    with step ik have "q = CnZero" "h' = h\<lparr>cn_mutex := 1\<rparr>" by auto
    with Once_Running k(1,3) ik show ?thesis by (auto simp: once_inv_def)
  next
    case False
    with k(2) have z: "ct_pc (ts ! k) = CnZero" "cn_mutex h = 1" by auto
    with step ik have "q = CnInitb" "c' = ct_conn (ts ! k)" "h' = h\<lparr>cn_bytes := 0, cn_once := Once_Done\<rparr>" by auto
    with once_inv_zero [OF ok k(1) z(1) k(3) z(2) refl] ik show ?thesis by (simp add: once_inv_def)
  qed
next
  case Once_Done
  then have "done_inv h ts" using inv by (simp add: once_inv_def)
  from done_inv_step [OF this i refl step Once_Done ok(2) [OF i]] show ?thesis by (simp add: once_inv_def)
qed

text \<open>The start: clients whose connections are quiet, and no call made yet.\<close>

definition cn_start :: "string list \<Rightarrow> cn_sys \<Rightarrow> bool" where
  "cn_start ws s \<longleftrightarrow> cy_shared s = cn_static \<and>
     list_all2 (\<lambda>w t. ct_pc t = CnOnce \<and> conn_ok w CnOnce (ct_conn t)) ws (cy_threads s)"

lemma cn_nextE:
  assumes "cn_next strerror i s = Some (Ret t)"
  obtains q c h where "i < length (cy_threads s)"
    and "cn_step strerror (ct_fd (cy_threads s ! i)) (ct_pc (cy_threads s ! i)) (ct_conn (cy_threads s ! i)) (cy_shared s)
      = Some (Ret (q, c), h)"
    and "t = s\<lparr>cy_shared := h, cy_threads := (cy_threads s)[i := (cy_threads s ! i)\<lparr>ct_pc := q, ct_conn := c\<rparr>]\<rparr>"
proof -
  have i: "i < length (cy_threads s)" using assms by (auto simp: cn_next_def split: if_splits)
  obtain r h where r: "cn_step strerror (ct_fd (cy_threads s ! i)) (ct_pc (cy_threads s ! i))
      (ct_conn (cy_threads s ! i)) (cy_shared s) = Some (r, h)"
    using assms i by (auto simp: cn_next_def Let_def split: option.splits)
  with assms i obtain q c where "r = Ret (q, c)" by (cases r) (auto simp: cn_next_def Let_def)
  with assms i r that show thesis by (auto simp: cn_next_def Let_def)
qed

lemma cn_reach_inv:
  assumes "cn_reach strerror s0 s" and "cn_start ws s0"
  shows "length ws = length (cy_threads s) \<and> once_inv (cy_shared s) (cy_threads s) \<and>
    (\<forall>j < length ws. conn_ok (ws ! j) (ct_pc (cy_threads s ! j)) (ct_conn (cy_threads s ! j)))"
  using assms
proof (induction rule: cn_reach.induct)
  case cn_reach_init
  then show ?case
    by (auto simp: cn_start_def once_inv_def cn_static_def list_all2_conv_all_nth list_all_length)
next
  case (cn_reach_step s i t)
  let ?ts = "cy_threads s"
  from cn_reach_step have IH: "length ws = length ?ts" "once_inv (cy_shared s) ?ts"
    "\<And>j. j < length ?ts \<Longrightarrow> conn_ok (ws ! j) (ct_pc (?ts ! j)) (ct_conn (?ts ! j))" by auto
  from cn_reach_step.hyps(2) show ?case
  proof (rule cn_nextE)
    fix q c h
    assume i: "i < length ?ts"
      and step: "cn_step strerror (ct_fd (?ts ! i)) (ct_pc (?ts ! i)) (ct_conn (?ts ! i)) (cy_shared s) = Some (Ret (q, c), h)"
      and t: "t = s\<lparr>cy_shared := h, cy_threads := ?ts[i := (?ts ! i)\<lparr>ct_pc := q, ct_conn := c\<rparr>]\<rparr>"
    have "conn_ok (ws ! i) q c" by (rule cn_step_conn [OF step IH(3) [OF i]])
    then have "conn_ok (ws ! j) (ct_pc (cy_threads t ! j)) (ct_conn (cy_threads t ! j))" if "j < length ?ts" for j
      using IH(3) [OF that] that t by (cases "j = i") simp_all
    with IH(1) t once_inv_step [OF IH(2,1,3) i step] show ?thesis by simp
  qed
qed

lemma sum_lengths: "sum_list (map (\<lambda>x. int (length (f x))) xs) = int (length (concat (map f xs)))"
  by (induction xs) simp_all


section \<open>No overflow\<close>

text \<open>
  As long as the clients together send at most \<open>INT_MAX\<close> bytes, no step faults, and at most one
  thread is between \<open>P\<close> and \<open>V\<close>.
\<close>

lemma member_le_sum_list_int: "(x :: int) \<in> set xs \<Longrightarrow> (\<And>y. y \<in> set xs \<Longrightarrow> 0 \<le> y) \<Longrightarrow> x \<le> sum_list xs"
proof (induction xs)
  case (Cons y ys)
  then have "0 \<le> sum_list ys" by (intro sum_list_nonneg) auto
  with Cons show ?case by (cases "x = y") (auto intro: add_increasing)
qed simp

lemma stored_nonneg: "line_ok p \<Longrightarrow> 0 \<le> stored p"
  by (cases p) auto

lemma counted_bound:
  assumes "conn_ok w (ct_pc t) (ct_conn t)"
  shows "counted t + (case ct_pc t of CnStore n d v \<Rightarrow> n | _ \<Rightarrow> 0) \<le> int (length w)"
  using assms by (cases "ct_pc t") (auto simp: conn_ok_def counted_def)

lemma sum_counted_bound:
  assumes "length ws = length ts" and "\<And>j. j < length ts \<Longrightarrow> f (ts ! j) \<le> int (length (ws ! j))"
  shows "sum_list (map f ts) \<le> int (length (concat ws))"
  using assms
proof (induction ws ts rule: list_induct2)
  case (Cons w ws t ts)
  from Cons.prems [of 0] have "f t \<le> int (length w)" by simp
  moreover have "sum_list (map f ts) \<le> int (length (concat ws))"
    using Cons.prems [of "Suc _"] by (intro Cons.IH) auto
  ultimately show ?case by simp
qed simp

lemma store_fits:
  assumes ok: "length ws = length ts" "\<And>j. j < length ts \<Longrightarrow> conn_ok (ws ! j) (ct_pc (ts ! j)) (ct_conn (ts ! j))"
    and i: "i < length ts" "ct_pc (ts ! i) = CnStore n d v"
  shows "sum_list (map counted ts) + n \<le> int (length (concat ws))"
proof -
  let ?f = "\<lambda>t. counted t + (case ct_pc t of CnStore n d v \<Rightarrow> n | _ \<Rightarrow> 0)"
  have nonneg: "0 \<le> (case ct_pc (ts ! j) of CnStore n d v \<Rightarrow> n | _ \<Rightarrow> 0)" if "j < length ts" for j
    using ok(2) [OF that] by (auto simp: conn_ok_def split: cn_pc.splits)
  have "sum_list (map counted ts) + n \<le> sum_list (map ?f ts)"
  proof -
    have "sum_list (map ?f ts) = sum_list (map counted ts) +
        sum_list (map (\<lambda>t. case ct_pc t of CnStore n d v \<Rightarrow> n | _ \<Rightarrow> 0) ts)"
      by (rule sum_list_addf)
    moreover have "n \<le> sum_list (map (\<lambda>t. case ct_pc t of CnStore n d v \<Rightarrow> n | _ \<Rightarrow> 0) ts)"
    proof (rule member_le_sum_list_int)
      show "n \<in> set (map (\<lambda>t. case ct_pc t of CnStore n d v \<Rightarrow> n | _ \<Rightarrow> 0) ts)"
        using i by (force simp: in_set_conv_nth)
      show "0 \<le> x" if "x \<in> set (map (\<lambda>t. case ct_pc t of CnStore n d v \<Rightarrow> n | _ \<Rightarrow> 0) ts)" for x
        using that nonneg by (auto simp: in_set_conv_nth)
    qed
    ultimately show ?thesis by simp
  qed
  also have "\<dots> \<le> int (length (concat ws))"
    using counted_bound ok(2) by (intro sum_counted_bound [OF ok(1)]) blast
  finally show ?thesis .
qed

lemma omap_Fault_iff: "omap f m = Fault e \<longleftrightarrow> m = Fault e"
  by (cases m) simp_all

lemma cn_next_faultE:
  assumes "cn_next strerror i s = Some (Fault f)"
  obtains h where "i < length (cy_threads s)"
    and "cn_step strerror (ct_fd (cy_threads s ! i)) (ct_pc (cy_threads s ! i)) (ct_conn (cy_threads s ! i)) (cy_shared s)
      = Some (Fault f, h)"
proof -
  have i: "i < length (cy_threads s)" using assms by (auto simp: cn_next_def split: if_splits)
  obtain r h where r: "cn_step strerror (ct_fd (cy_threads s ! i)) (ct_pc (cy_threads s ! i))
      (ct_conn (cy_threads s ! i)) (cy_shared s) = Some (r, h)"
    using assms i by (auto simp: cn_next_def Let_def split: option.splits)
  with assms i have "r = Fault f" by (simp add: cn_next_def Let_def omap_Fault_iff)
  with i r that show thesis by simp
qed

text \<open>The only step that can fail is the store.\<close>

lemma cn_step_fails:
  assumes "cn_step strerror fd p c h = Some (r, h')" and "conn_ok w p c"
  shows "(\<exists>x. r = Ret x) \<or> (\<exists>n d v. p = CnStore n d v \<and> (\<forall>k. int_add v n \<noteq> Ret k))"
proof (cases p)
  case CnRead
  then have "rio_ok c" using assms(2) by (simp add: conn_ok_def)
  then show ?thesis by (cases rule: Rio_readlineb_cases [of c strerror]) (use assms(1) CnRead in auto)
next
  case (CnWrite n d)
  then have "wr_quiet (io_plan (snd c))" using assms(2) by (simp add: conn_ok_def)
  then obtain u where "Rio_writen strerror d (snd c) = (Ret (), u)" by (rule Rio_writen_quiet)
  then show ?thesis using assms(1) CnWrite by (auto simp: on_io_def)
next
  case (CnStore n d v)
  then show ?thesis using assms(1) by (cases "int_add v n") auto
next
  case CnOnce
  then show ?thesis using assms(1) by (cases "cn_once h") auto
qed (use assms(1) in auto)

lemma once_inv_store:
  assumes "once_inv h ts" and "i < length ts" and "ct_pc (ts ! i) = CnStore n d v"
  shows "done_inv h ts"
proof (cases "cn_once h")
  case Once_New
  with assms show ?thesis by (simp add: once_inv_def list_all_length)
next
  case Once_Running
  with assms(1) obtain k where "ct_pc (ts ! k) = CnSem \<or> ct_pc (ts ! k) = CnZero"
    "\<forall>j < length ts. j \<noteq> k \<longrightarrow> ct_pc (ts ! j) = CnOnce"
    unfolding once_inv_def by auto
  with assms(2,3) show ?thesis by (cases "i = k") auto
next
  case Once_Done
  with assms(1) show ?thesis by (simp add: once_inv_def)
qed

lemma cn_step_no_fail:
  assumes inv: "length ws = length ts" "once_inv h ts"
      "\<And>j. j < length ts \<Longrightarrow> conn_ok (ws ! j) (ct_pc (ts ! j)) (ct_conn (ts ! j))"
    and bound: "int (length (concat ws)) \<le> INT_MAX" and i: "i < length ts"
    and step: "cn_step strerror (ct_fd (ts ! i)) (ct_pc (ts ! i)) (ct_conn (ts ! i)) h = Some (r, h')"
  shows "\<exists>x. r = Ret x"
proof (rule ccontr)
  assume "\<not> ?thesis"
  with cn_step_fails [OF step inv(3) [OF i]] obtain n d v
    where store: "ct_pc (ts ! i) = CnStore n d v" "\<forall>k. int_add v n \<noteq> Ret k" by blast
  from once_inv_store [OF inv(2) i store(1)] have "load_ok (cn_bytes h) (ct_pc (ts ! i))"
    "cn_bytes h = sum_list (map counted ts)"
    using i by (auto simp: done_inv_def list_all_length)
  then have v: "v = sum_list (map counted ts)" using store(1) by (simp add: load_ok_def)
  have "0 \<le> counted t" if "t \<in> set ts" for t
  proof -
    from that obtain j where "j < length ts" "t = ts ! j" by (auto simp: in_set_conv_nth)
    then show ?thesis using inv(3) [of j] stored_nonneg by (simp add: counted_def conn_ok_def)
  qed
  then have "0 \<le> v" unfolding v by (intro sum_list_nonneg) auto
  moreover have "0 \<le> n" using inv(3) [OF i] store(1) by (simp add: conn_ok_def)
  moreover have "v + n \<le> INT_MAX" using store_fits [OF inv(1,3) i store(1)] bound v by simp
  ultimately show False using store(2) by (simp add: int_add_def)
qed

lemma cn_no_fault:
  assumes "cn_reach strerror s0 s" and "cn_start ws s0" and "int (length (concat ws)) \<le> INT_MAX"
  shows "cn_next strerror i s \<noteq> Some (Fault f)"
proof
  let ?ts = "cy_threads s"
  assume "cn_next strerror i s = Some (Fault f)"
  then obtain h where i: "i < length ?ts"
    and step: "cn_step strerror (ct_fd (?ts ! i)) (ct_pc (?ts ! i)) (ct_conn (?ts ! i)) (cy_shared s) = Some (Fault f, h)"
    by (rule cn_next_faultE)
  have inv: "length ws = length ?ts" "once_inv (cy_shared s) ?ts"
    "\<And>j. j < length ?ts \<Longrightarrow> conn_ok (ws ! j) (ct_pc (?ts ! j)) (ct_conn (?ts ! j))"
    using cn_reach_inv [OF assms(1,2)] by auto
  from cn_step_no_fail [OF inv assms(3) i step] show False by simp
qed

section \<open>No deadlock\<close>

lemma cn_blocked:
  assumes "cn_step strerror fd p c h = None"
  shows "p = CnDone \<or> p = CnOnce \<and> cn_once h = Once_Running \<or> (\<exists>n d. p = CnP n d) \<and> cn_mutex h = 0"
  using assms by (cases p) (auto simp: sem_wait_def split: once.splits if_splits prod.splits)

lemma cn_stuck:
  assumes inv: "once_inv h ts"
    and stuck: "\<And>j. j < length ts \<Longrightarrow> ct_pc (ts ! j) \<noteq> CnDone \<Longrightarrow>
      cn_step strerror (ct_fd (ts ! j)) (ct_pc (ts ! j)) (ct_conn (ts ! j)) h = None"
    and i: "i < length ts"
  shows "ct_pc (ts ! i) = CnDone"
proof (rule ccontr)
  assume not_done: "ct_pc (ts ! i) \<noteq> CnDone"
  have blocked: "ct_pc (ts ! j) = CnDone \<or> ct_pc (ts ! j) = CnOnce \<and> cn_once h = Once_Running \<or>
      (\<exists>n d. ct_pc (ts ! j) = CnP n d) \<and> cn_mutex h = 0" if "j < length ts" for j
    using cn_blocked [OF stuck [OF that]] by blast
  show False
  proof (cases "cn_once h")
    case Once_New
    with inv i have "ct_pc (ts ! i) = CnOnce" by (simp add: once_inv_def list_all_length)
    with Once_New blocked [OF i] show False by simp
  next
    case Once_Running
    with inv obtain k where "k < length ts" "ct_pc (ts ! k) = CnSem \<or> ct_pc (ts ! k) = CnZero"
      unfolding once_inv_def by auto
    with blocked [of k] show False by auto
  next
    case Once_Done
    with blocked [OF i] not_done have "cn_mutex h = 0" by auto
    moreover have "cn_mutex h + cnt (\<lambda>t. in_cs (ct_pc t)) ts = 1"
      using inv Once_Done by (simp add: once_inv_def done_inv_def)
    moreover have "cnt (\<lambda>t. in_cs (ct_pc t)) ts = 0"
    proof (rule cnt_none)
      fix t
      assume "t \<in> set ts"
      then obtain j where "j < length ts" "t = ts ! j" by (auto simp: in_set_conv_nth)
      with blocked [of j] show "\<not> in_cs (ct_pc t)" by auto
    qed
    ultimately show False by simp
  qed
qed

end
