(* ===== verification/Echo_Pool.thy ===== *)
theory Echo_Pool
  imports Echo_Cnt Buffer_Props "HOL-Library.Multiset"
begin

text \<open>
  The prethreaded echo server \<open>hw6/echoservert_pre.c\<close> with all its threads: \<open>main\<close> accepts
  connections and inserts their descriptors into the bounded buffer, ten workers remove them
  and run \<open>echo_cnt\<close>. The steps are those of \<open>Bounded_Buffer\<close> and \<open>Echo_Cnt\<close>, interleaved; the
  descriptor table of the process lies between them.
\<close>

section \<open>The system\<close>

text \<open>A call of \<open>echo_cnt\<close>; \<open>ca_conn\<close> records the connection its descriptor had at the call.\<close>

record pl_call =
  ca_fd :: int
  ca_conn :: nat
  ca_pc :: cn_pc
  ca_rio :: rio_t

text \<open>
  Thread 0 of the queue is \<open>main\<close>, thread \<open>Suc i\<close> worker \<open>i\<close>; \<open>Returned\<close> is a thread outside
  the operations of the buffer, with the local \<open>connfd\<close> of a worker as its value. The table
  maps the open descriptors to connections, which are numbered as they are accepted.
  \<open>pl_clients\<close> records the connections as they were accepted, \<open>pl_calls\<close> all calls, also those
  that have returned.
\<close>

record pl_sys =
  pl_queue :: "int bb_sys"
  pl_shared :: cn_shared
  pl_fds :: "int \<Rightarrow> nat option"
  pl_conns :: "io list"
  pl_clients :: "io list"
  pl_calls :: "pl_call list"
  pl_workers :: "nat option list"    \<comment> \<open>the call a worker is in\<close>

definition pl_io :: "int \<Rightarrow> pl_sys \<Rightarrow> io" where
  "pl_io fd s = (case pl_fds s fd of None \<Rightarrow> closed_io | Some c \<Rightarrow> pl_conns s ! c)"

definition pl_put_io :: "int \<Rightarrow> io \<Rightarrow> pl_sys \<Rightarrow> pl_sys" where
  "pl_put_io fd v s = (case pl_fds s fd of None \<Rightarrow> s | Some c \<Rightarrow> s\<lparr>pl_conns := (pl_conns s)[c := v]\<rparr>)"

definition pl_thread :: "nat \<Rightarrow> pl_sys \<Rightarrow> int bb_pc" where
  "pl_thread i s = bs_threads (pl_queue s) ! i"

definition pl_enter_queue :: "nat \<Rightarrow> int bb_pc \<Rightarrow> pl_sys \<Rightarrow> pl_sys" where
  "pl_enter_queue i p s = s\<lparr>pl_queue := (pl_queue s)\<lparr>bs_threads := (bs_threads (pl_queue s))[i := p]\<rparr>\<rparr>"

text \<open>
  \<open>main\<close> accepts: the descriptor is one that is not open, and \<open>v\<close> what the client will send.
  A failing \<open>accept\<close> ends the process.
\<close>

definition pl_accept :: "int \<Rightarrow> io \<Rightarrow> pl_sys \<Rightarrow> pl_sys outcome option" where
  "pl_accept fd v s =
     (case pl_thread 0 s of
        Returned r \<Rightarrow>
          if fd < 0 then Some (Exited 0)
          else if pl_fds s fd \<noteq> None then None
          else Some (Ret (pl_enter_queue 0 (Ins0 fd)
                 (s\<lparr>pl_fds := (pl_fds s)(fd \<mapsto> length (pl_conns s)),
                    pl_conns := pl_conns s @ [v], pl_clients := pl_clients s @ [v]\<rparr>)))
      | _ \<Rightarrow> None)"

text \<open>A worker calls \<open>echo_cnt\<close> with the descriptor it removed; \<open>rp\<close> is what its stack holds.\<close>

definition pl_call_echo :: "rio_t \<Rightarrow> nat \<Rightarrow> int \<Rightarrow> pl_sys \<Rightarrow> pl_sys" where
  "pl_call_echo rp i fd s =
     s\<lparr>pl_calls := pl_calls s @
         [\<lparr>ca_fd = fd, ca_conn = (case pl_fds s fd of None \<Rightarrow> 0 | Some c \<Rightarrow> c), ca_pc = CnOnce, ca_rio = rp\<rparr>],
       pl_workers := (pl_workers s)[i := Some (length (pl_calls s))]\<rparr>"

text \<open>A step of call \<open>k\<close>.\<close>

definition pl_echo :: "(int \<Rightarrow> string) \<Rightarrow> nat \<Rightarrow> pl_sys \<Rightarrow> pl_sys outcome option" where
  "pl_echo strerror k s =
     (let a = pl_calls s ! k in
      case cn_step strerror (ca_fd a) (ca_pc a) (ca_rio a, pl_io (ca_fd a) s) (pl_shared s) of
        None \<Rightarrow> None
      | Some (r, h) \<Rightarrow>
          Some (omap (\<lambda>(q, c). pl_put_io (ca_fd a) (snd c)
                    (s\<lparr>pl_shared := h, pl_calls := (pl_calls s)[k := a\<lparr>ca_pc := q, ca_rio := fst c\<rparr>]\<rparr>)) r))"

text \<open>After \<open>echo_cnt\<close>: \<open>Close\<close>, which exits on a descriptor that is not open, and the next round.\<close>

definition pl_close :: "nat \<Rightarrow> int \<Rightarrow> pl_sys \<Rightarrow> pl_sys outcome" where
  "pl_close i fd s =
     (if pl_fds s fd = None then Exited 0
      else Ret (pl_enter_queue (Suc i) Rem0
             (s\<lparr>pl_fds := (pl_fds s)(fd := None), pl_workers := (pl_workers s)[i := None]\<rparr>)))"

definition pl_worker :: "(int \<Rightarrow> string) \<Rightarrow> rio_t \<Rightarrow> nat \<Rightarrow> int option \<Rightarrow> pl_sys \<Rightarrow> pl_sys outcome option" where
  "pl_worker strerror rp i r s =
     (case pl_workers s ! i of
        None \<Rightarrow> (case r of None \<Rightarrow> None | Some fd \<Rightarrow> Some (Ret (pl_call_echo rp i fd s)))
      | Some k \<Rightarrow>
          if ca_pc (pl_calls s ! k) = CnDone then Some (pl_close i (ca_fd (pl_calls s ! k)) s)
          else pl_echo strerror k s)"

text \<open>A step of a thread. Outside the buffer \<open>main\<close> waits in \<open>accept\<close>.\<close>

definition pl_run :: "(int \<Rightarrow> string) \<Rightarrow> rio_t \<Rightarrow> nat \<Rightarrow> pl_sys \<Rightarrow> pl_sys outcome option" where
  "pl_run strerror rp i s =
     (if i < length (bs_threads (pl_queue s)) then
        (case pl_thread i s of
           Returned r \<Rightarrow> (case i of 0 \<Rightarrow> None | Suc j \<Rightarrow> pl_worker strerror rp j r s)
         | _ \<Rightarrow> map_option (omap (\<lambda>q. s\<lparr>pl_queue := q\<rparr>)) (bs_step i (pl_queue s)))
      else None)"

datatype pl_event = Accepts int io | Runs nat

fun pl_step :: "(int \<Rightarrow> string) \<Rightarrow> rio_t \<Rightarrow> pl_event \<Rightarrow> pl_sys \<Rightarrow> pl_sys outcome option" where
  "pl_step strerror rp (Accepts fd v) s = pl_accept fd v s"
| "pl_step strerror rp (Runs i) s = pl_run strerror rp i s"

text \<open>After \<open>sbuf_init\<close> and the loop of \<open>Pthread_create\<close>.\<close>

definition pl_init :: pl_sys where
  "pl_init = \<lparr>pl_queue = \<lparr>bs_buf = bb_init 0 True pre_SBUFSIZE,
       bs_threads = Returned None # replicate pre_NTHREADS Rem0, bs_in = [], bs_out = []\<rparr>,
     pl_shared = cn_static, pl_fds = (\<lambda>fd. None), pl_conns = [], pl_clients = [], pl_calls = [],
     pl_workers = replicate pre_NTHREADS None\<rparr>"

inductive pl_reach :: "(int \<Rightarrow> string) \<Rightarrow> rio_t \<Rightarrow> pl_sys \<Rightarrow> bool" for strerror rp where
  pl_reach_init: "pl_reach strerror rp pl_init"
| pl_reach_step: "pl_reach strerror rp s \<Longrightarrow> pl_step strerror rp l s = Some (Ret t) \<Longrightarrow> pl_reach strerror rp t"

section \<open>The descriptors in the queue\<close>

text \<open>Those that a thread holds, before it stores or after it has loaded, and those in the buffer.\<close>

fun held :: "'a bb_pc \<Rightarrow> 'a list" where
  "held (Ins0 x) = [x]" | "held (Ins1 x) = [x]" | "held (Ins2 x) = [x]" | "held (Ins3 x r) = [x]"
| "held (Rem4 x) = [x]" | "held (Rem5 x) = [x]" | "held (Returned (Some x)) = [x]" | "held _ = []"

definition in_flight :: "'a bb_sys \<Rightarrow> 'a list" where
  "in_flight q = concat (map held (bs_threads q)) @ drop (length (bs_out q)) (bs_in q)"

lemma mset_concat_update:
  "i < length ts \<Longrightarrow> mset (concat (map f (ts[i := q]))) + mset (f (ts ! i)) = mset (concat (map f ts)) + mset (f q)"
proof (induction ts arbitrary: i)
  case (Cons a ts)
  then show ?case by (cases i) (auto simp: ac_simps)
qed simp

lemma in_flight_thread:
  assumes "i < length (bs_threads q)"
  shows "mset (in_flight (q\<lparr>bs_threads := (bs_threads q)[i := p]\<rparr>)) + mset (held (bs_threads q ! i)) =
    mset (in_flight q) + mset (held p)"
  using mset_concat_update [OF assms, of held p] by (simp add: in_flight_def ac_simps)

lemma held_in_flight:
  "i < length (bs_threads q) \<Longrightarrow> x \<in> set (held (bs_threads q ! i)) \<Longrightarrow> x \<in> set (in_flight q)"
  by (auto simp: in_flight_def)

lemma add_exchange: "a + h = b + g \<Longrightarrow> c + g = d + h \<Longrightarrow> a + c = b + (d :: 'x multiset)"
proof -
  assume "a + h = b + g" and "c + g = d + h"
  then have "(a + h) + (c + g) = (b + g) + (d + h)" by simp
  then have "(a + c) + (h + g) = (b + d) + (h + g)" by (simp only: ac_simps)
  then show "a + c = b + d" by simp
qed

text \<open>No step of the queue creates, loses or copies a descriptor.\<close>

lemma bs_step_in_flight:
  assumes inv: "bs_inv n s" and n: "0 < n" and step: "bs_step i s = Some (Ret t)"
  shows "mset (in_flight t) = mset (in_flight s)"
proof -
  let ?p = "bs_threads s ! i" and ?ins = "bs_in s" and ?outs = "bs_out s"
  obtain q b where i: "i < length (bs_threads s)"
    and st: "bb_step ?p (bs_buf s) = Some (Ret q, b)"
    and t: "t = bs_observe ?p q (s\<lparr>bs_buf := b, bs_threads := (bs_threads s)[i := q]\<rparr>)"
    by (rule bs_stepE [OF step])
  have sel: "bs_threads t = (bs_threads s)[i := q]" "bs_in t = ins_after ?p q ?ins" "bs_out t = outs_after ?p q ?outs"
    using t by (simp_all add: bs_observe_sel)
  have le: "length ?outs \<le> length ?ins" using inv by (simp add: bs_inv_def ring_ok_def)
  have C: "mset (concat (map held (bs_threads t))) + mset (held ?p) = mset (concat (map held (bs_threads s))) + mset (held q)"
    using mset_concat_update [OF i, of held q] sel(1) by simp
  have "mset (drop (length (bs_out t)) (bs_in t)) + mset (held q) = mset (drop (length ?outs) ?ins) + mset (held ?p)"
  proof (cases ?p)
    case (Ins3 x r)
    with st have "q = Ins4" by (auto split: outcome.splits)
    with Ins3 sel le show ?thesis by (simp add: ins_after_def outs_after_def)
  next
    case (Rem3 f)
    with st obtain x where q: "q = Rem4 x" by (auto split: outcome.splits)
    have "bs_inv n t" by (rule bs_step_inv [OF inv n step])
    then have "?outs @ [x] = take (Suc (length ?outs)) ?ins" "Suc (length ?outs) \<le> length ?ins"
      using sel Rem3 q by (auto simp: bs_inv_def ring_ok_def ins_after_def outs_after_def)
    then have "x = ?ins ! length ?outs" "length ?outs < length ?ins"
      by (simp_all add: take_Suc_conv_app_nth)
    then have "drop (length ?outs) ?ins = x # drop (Suc (length ?outs)) ?ins" by (simp add: Cons_nth_drop_Suc)
    with Rem3 q sel show ?thesis by (simp add: ins_after_def outs_after_def)
  qed (use st sel in \<open>auto simp: ins_after_def outs_after_def split: if_splits outcome.splits\<close>)
  from add_exchange [OF C this] show ?thesis by (simp add: in_flight_def)
qed

end
