(* ===== verification/Echo_Pool_Proofs.thy ===== *)
theory Echo_Pool_Proofs
  imports Echo_Pool
begin

text \<open>
  The invariants of the prethreaded echo server: who holds which descriptor, and what the
  calls of \<open>echo_cnt\<close> have done to their connections and to the counter.
\<close>

section \<open>The steps\<close>

lemma pl_run_cases:
  assumes "pl_step strerror rp (Runs i) s = Some (Ret t)"
  obtains (queue) q where "i < length (bs_threads (pl_queue s))" and "bs_step i (pl_queue s) = Some (Ret q)"
      and "\<And>r. pl_thread i s \<noteq> Returned r" and "t = s\<lparr>pl_queue := q\<rparr>"
  | (call) j fd where "Suc j < length (bs_threads (pl_queue s))" and "pl_thread (Suc j) s = Returned (Some fd)"
      and "pl_workers s ! j = None" and "t = pl_call_echo rp j fd s"
  | (echo) j k where "Suc j < length (bs_threads (pl_queue s))" and "pl_workers s ! j = Some k"
      and "pl_echo strerror k s = Some (Ret t)"
  | (close) j k where "Suc j < length (bs_threads (pl_queue s))" and "pl_workers s ! j = Some k"
      and "ca_pc (pl_calls s ! k) = CnDone" and "pl_close j (ca_fd (pl_calls s ! k)) s = Ret t"
proof -
  from assms have run: "pl_run strerror rp i s = Some (Ret t)" by simp
  then have i: "i < length (bs_threads (pl_queue s))" by (auto simp: pl_run_def split: if_splits)
  show thesis
  proof (cases "\<exists>r. pl_thread i s = Returned r")
    case False
    with run i have "map_option (omap (\<lambda>q. s\<lparr>pl_queue := q\<rparr>)) (bs_step i (pl_queue s)) = Some (Ret t)"
      by (cases "pl_thread i s") (auto simp: pl_run_def)
    then obtain r where r: "bs_step i (pl_queue s) = Some r" "omap (\<lambda>q. s\<lparr>pl_queue := q\<rparr>) r = Ret t" by auto
    then obtain q where "bs_step i (pl_queue s) = Some (Ret q)" "t = s\<lparr>pl_queue := q\<rparr>" by (cases r) auto
    with i False queue show thesis by blast
  next
    case True
    then obtain r where r: "pl_thread i s = Returned r" by blast
    with run i obtain j where j: "i = Suc j" by (cases i) (auto simp: pl_run_def)
    with run i r have w: "pl_worker strerror rp j r s = Some (Ret t)" by (simp add: pl_run_def)
    show thesis
    proof (cases "pl_workers s ! j")
      case None
      with w obtain fd where "r = Some fd" by (auto simp: pl_worker_def split: option.splits)
      with None w r i j call show thesis by (simp add: pl_worker_def)
    next
      case (Some k)
      with w i j echo close show thesis by (auto simp: pl_worker_def split: if_splits)
    qed
  qed
qed

lemma pl_step_cases:
  assumes "pl_step strerror rp l s = Some (Ret t)"
  obtains (accept) fd v r where "pl_thread 0 s = Returned r" and "pl_fds s fd = None"
      and "t = pl_enter_queue 0 (Ins0 fd) (s\<lparr>pl_fds := (pl_fds s)(fd \<mapsto> length (pl_conns s)),
             pl_conns := pl_conns s @ [v], pl_clients := pl_clients s @ [v]\<rparr>)"
  | (queue) i q where "i < length (bs_threads (pl_queue s))" and "bs_step i (pl_queue s) = Some (Ret q)"
      and "\<And>r. pl_thread i s \<noteq> Returned r" and "t = s\<lparr>pl_queue := q\<rparr>"
  | (call) j fd where "Suc j < length (bs_threads (pl_queue s))" and "pl_thread (Suc j) s = Returned (Some fd)"
      and "pl_workers s ! j = None" and "t = pl_call_echo rp j fd s"
  | (echo) j k where "Suc j < length (bs_threads (pl_queue s))" and "pl_workers s ! j = Some k"
      and "pl_echo strerror k s = Some (Ret t)"
  | (close) j k where "Suc j < length (bs_threads (pl_queue s))" and "pl_workers s ! j = Some k"
      and "ca_pc (pl_calls s ! k) = CnDone" and "pl_close j (ca_fd (pl_calls s ! k)) s = Ret t"
proof (cases l)
  case (Accepts fd v)
  with assms accept show thesis
    by (cases "pl_thread 0 s") (auto simp: pl_accept_def split: if_splits)
next
  case (Runs i)
  with assms have "pl_step strerror rp (Runs i) s = Some (Ret t)" by simp
  then show thesis by (cases rule: pl_run_cases) (rule queue call echo close; assumption)+
qed

lemma pl_echoE:
  assumes "pl_echo strerror k s = Some (Ret t)"
  obtains q c h where
    "cn_step strerror (ca_fd (pl_calls s ! k)) (ca_pc (pl_calls s ! k))
       (ca_rio (pl_calls s ! k), pl_io (ca_fd (pl_calls s ! k)) s) (pl_shared s) = Some (Ret (q, c), h)"
    and "t = pl_put_io (ca_fd (pl_calls s ! k)) (snd c)
       (s\<lparr>pl_shared := h, pl_calls := (pl_calls s)[k := (pl_calls s ! k)\<lparr>ca_pc := q, ca_rio := fst c\<rparr>]\<rparr>)"
proof -
  let ?a = "pl_calls s ! k"
  obtain r h where r: "cn_step strerror (ca_fd ?a) (ca_pc ?a) (ca_rio ?a, pl_io (ca_fd ?a) s) (pl_shared s) = Some (r, h)"
    using assms by (auto simp: pl_echo_def Let_def split: option.splits)
  with assms obtain q c where "r = Ret (q, c)" by (cases r) (auto simp: pl_echo_def Let_def)
  with r assms that show thesis by (simp add: pl_echo_def Let_def)
qed

section \<open>Who holds what\<close>

definition queue_ok :: "nat \<Rightarrow> 'a bb_sys \<Rightarrow> bool" where
  "queue_ok m q \<longleftrightarrow> bs_inv (nat pre_SBUFSIZE) q \<and> length (bs_threads q) = Suc m \<and>
     inserting (bs_threads q ! 0) \<and> (\<forall>i < m. removing (bs_threads q ! Suc i))"

text \<open>The open descriptors are those in flight, and lead to different connections.\<close>

definition fds_ok :: "int bb_sys \<Rightarrow> (int \<Rightarrow> nat option) \<Rightarrow> nat \<Rightarrow> bool" where
  "fds_ok q fds nc \<longleftrightarrow> distinct (in_flight q) \<and> set (in_flight q) = dom fds \<and> inj_on fds (dom fds) \<and> ran fds \<subseteq> {..<nc}"

text \<open>
  A worker in a call holds the descriptor of the call, which still leads to its connection;
  the other calls have returned and their connections are closed; each connection is open or
  has been served, by one call.
\<close>

definition serves :: "int bb_sys \<Rightarrow> (int \<Rightarrow> nat option) \<Rightarrow> pl_call list \<Rightarrow> nat option list \<Rightarrow> bool" where
  "serves q fds calls ws \<longleftrightarrow>
     (\<forall>i < length ws. \<forall>k. ws ! i = Some k \<longrightarrow> k < length calls \<and>
        bs_threads q ! Suc i = Returned (Some (ca_fd (calls ! k))) \<and> fds (ca_fd (calls ! k)) = Some (ca_conn (calls ! k))) \<and>
     (\<forall>k < length calls. Some k \<in> set ws \<or> ca_pc (calls ! k) = CnDone \<and> ca_conn (calls ! k) \<notin> ran fds)"

definition calls_ok :: "(int \<Rightarrow> nat option) \<Rightarrow> nat \<Rightarrow> pl_call list \<Rightarrow> bool" where
  "calls_ok fds nc calls \<longleftrightarrow> distinct (map ca_conn calls) \<and> ran fds \<union> ca_conn ` set calls = {..<nc}"

definition conns_ok :: "io list \<Rightarrow> io list \<Rightarrow> pl_call list \<Rightarrow> bool" where
  "conns_ok conns clients calls \<longleftrightarrow> length conns = length clients \<and>
     (\<forall>c < length conns. c \<notin> ca_conn ` set calls \<longrightarrow> conns ! c = clients ! c)"

definition own_ok :: "pl_sys \<Rightarrow> bool" where
  "own_ok s \<longleftrightarrow> queue_ok (length (pl_workers s)) (pl_queue s) \<and>
     fds_ok (pl_queue s) (pl_fds s) (length (pl_conns s)) \<and>
     serves (pl_queue s) (pl_fds s) (pl_calls s) (pl_workers s) \<and>
     calls_ok (pl_fds s) (length (pl_conns s)) (pl_calls s) \<and>
     conns_ok (pl_conns s) (pl_clients s) (pl_calls s)"

lemma size_pos: "0 < nat pre_SBUFSIZE"
  by (simp add: pre_SBUFSIZE_def)

lemma holder_unique:
  assumes "fds_ok q fds nc" and "i < length (bs_threads q)" and "j < length (bs_threads q)"
    and "x \<in> set (held (bs_threads q ! i))" and "x \<in> set (held (bs_threads q ! j))"
  shows "i = j"
  using assms by (intro distinct_concat_nth [of held "bs_threads q"]) (auto simp: fds_ok_def in_flight_def)

text \<open>What the invariant says of the call of worker \<open>j\<close>.\<close>

lemma own_call:
  assumes "own_ok s" and "Suc j < length (bs_threads (pl_queue s))" and "pl_workers s ! j = Some k"
  shows "j < length (pl_workers s)" and "k < length (pl_calls s)"
    and "bs_threads (pl_queue s) ! Suc j = Returned (Some (ca_fd (pl_calls s ! k)))"
    and "pl_fds s (ca_fd (pl_calls s ! k)) = Some (ca_conn (pl_calls s ! k))"
    and "ca_conn (pl_calls s ! k) < length (pl_conns s)"
proof -
  show j: "j < length (pl_workers s)" using assms by (simp add: own_ok_def queue_ok_def)
  with assms show "k < length (pl_calls s)" "bs_threads (pl_queue s) ! Suc j = Returned (Some (ca_fd (pl_calls s ! k)))"
    "pl_fds s (ca_fd (pl_calls s ! k)) = Some (ca_conn (pl_calls s ! k))"
    by (auto simp: own_ok_def serves_def)
  then show "ca_conn (pl_calls s ! k) < length (pl_conns s)"
    using assms(1) by (auto simp: own_ok_def fds_ok_def intro: ranI)
qed

lemma calls_connD: "calls_ok fds nc calls \<Longrightarrow> a \<in> set calls \<Longrightarrow> ca_conn a < nc"
  unfolding calls_ok_def by blast

lemma serves_thread:
  assumes "serves q fds calls ws" and "i < length (bs_threads q)"
    and "\<And>j k. j < length ws \<Longrightarrow> ws ! j = Some k \<Longrightarrow> i \<noteq> Suc j"
    and "length (bs_threads q') = length (bs_threads q)"
    and "\<And>j. j < length (bs_threads q) \<Longrightarrow> j \<noteq> i \<Longrightarrow> bs_threads q' ! j = bs_threads q ! j"
    and "length (bs_threads q) = Suc (length ws)"
  shows "serves q' fds calls ws"
  using assms unfolding serves_def by (metis Suc_less_eq)

section \<open>Each step keeps the ownership\<close>

lemma queue_ok_thread:
  assumes "queue_ok m q" and "bs_inv (nat pre_SBUFSIZE) q'" and "bs_threads q' = (bs_threads q)[i := p]"
    and "i < length (bs_threads q)" and "i = 0 \<Longrightarrow> inserting p" and "i \<noteq> 0 \<Longrightarrow> removing p"
  shows "queue_ok m q'"
  using assms by (auto simp: queue_ok_def nth_list_update)

lemma own_queue:
  assumes ok: "own_ok s" and i: "i < length (bs_threads (pl_queue s))" and step: "bs_step i (pl_queue s) = Some (Ret q)"
    and out: "\<And>r. pl_thread i s \<noteq> Returned r"
  shows "own_ok (s\<lparr>pl_queue := q\<rparr>)"
proof -
  let ?q = "pl_queue s" and ?m = "length (pl_workers s)"
  have Q: "queue_ok ?m ?q" and S: "serves ?q (pl_fds s) (pl_calls s) (pl_workers s)"
    using ok by (simp_all add: own_ok_def)
  then have inv: "bs_inv (nat pre_SBUFSIZE) ?q" and len: "length (bs_threads ?q) = Suc ?m" by (simp_all add: queue_ok_def)
  obtain p b where st: "bb_step (bs_threads ?q ! i) (bs_buf ?q) = Some (Ret p, b)" and ts: "bs_threads q = (bs_threads ?q)[i := p]"
    by (rule bs_stepE [OF step]) (use that in \<open>simp add: bs_observe_sel\<close>)
  have mset: "mset (in_flight q) = mset (in_flight ?q)" by (rule bs_step_in_flight [OF inv size_pos step])
  have "fds_ok q (pl_fds s) (length (pl_conns s))"
    using ok mset_eq_setD [OF mset] mset_eq_imp_distinct_iff [OF mset] by (simp add: own_ok_def fds_ok_def)
  moreover have "queue_ok ?m q"
  proof (rule queue_ok_thread [OF Q bs_step_inv [OF inv size_pos step] ts i])
    show "inserting p" if "i = 0" using Q bb_step_role(1) [OF st] that by (simp add: queue_ok_def)
    show "removing p" if "i \<noteq> 0"
      using Q bb_step_role(2) [OF st] that i len by (cases i) (simp_all add: queue_ok_def)
  qed
  moreover have "serves q (pl_fds s) (pl_calls s) (pl_workers s)"
    using S out len ts i by (intro serves_thread [of ?q _ _ _ i q]) (auto simp: serves_def pl_thread_def)
  ultimately show ?thesis using ok by (simp add: own_ok_def)
qed

lemma own_accept:
  assumes ok: "own_ok s" and main: "pl_thread 0 s = Returned r" and fresh: "pl_fds s fd = None"
    and t: "t = pl_enter_queue 0 (Ins0 fd) (s\<lparr>pl_fds := (pl_fds s)(fd \<mapsto> length (pl_conns s)),
      pl_conns := pl_conns s @ [v], pl_clients := pl_clients s @ [v]\<rparr>)"
  shows "own_ok t"
proof -
  let ?q = "pl_queue s" and ?m = "length (pl_workers s)" and ?nc = "length (pl_conns s)"
  let ?q' = "?q\<lparr>bs_threads := (bs_threads ?q)[0 := Ins0 fd]\<rparr>" and ?fds = "(pl_fds s)(fd \<mapsto> ?nc)"
  have Q: "queue_ok ?m ?q" and S: "serves ?q (pl_fds s) (pl_calls s) (pl_workers s)" and F: "fds_ok ?q (pl_fds s) ?nc"
    and C: "calls_ok (pl_fds s) ?nc (pl_calls s)" and N: "conns_ok (pl_conns s) (pl_clients s) (pl_calls s)"
    using ok by (simp_all add: own_ok_def)
  then have len: "length (bs_threads ?q) = Suc ?m" and th: "bs_threads ?q ! 0 = Returned r" and r: "r = None"
    using main by (auto simp: queue_ok_def pl_thread_def elim: inserting.elims)
  have inv: "bs_inv (nat pre_SBUFSIZE) ?q'"
    using Q th len by (intro bs_inv_restart [where r = r]) (simp_all add: queue_ok_def)
  have Q': "queue_ok ?m ?q'" by (rule queue_ok_thread [OF Q inv, of 0 "Ins0 fd"]) (simp_all add: len)
  have mset: "mset (in_flight ?q') = mset (fd # in_flight ?q)"
    using in_flight_thread [of 0 ?q "Ins0 fd"] len th r by simp
  have new: "?nc \<notin> ran (pl_fds s)" using F by (auto simp: fds_ok_def)
  have ran: "ran ?fds = insert ?nc (ran (pl_fds s))" using fresh by (simp add: ran_map_upd)
  have "inj_on ?fds (dom ?fds)"
    using F new fresh by (auto simp: fds_ok_def inj_on_def ran_def dom_def)
  then have F': "fds_ok ?q' ?fds (Suc ?nc)"
    using F fresh ran mset_eq_setD [OF mset] mset_eq_imp_distinct_iff [OF mset] by (auto simp: fds_ok_def)
  have S0: "serves ?q' (pl_fds s) (pl_calls s) (pl_workers s)"
    using S len by (intro serves_thread [of ?q _ _ _ 0 ?q']) simp_all
  have "ca_conn (pl_calls s ! k) \<noteq> ?nc" if "k < length (pl_calls s)" for k
    using calls_connD [OF C nth_mem [OF that]] by simp
  then have S': "serves ?q' ?fds (pl_calls s) (pl_workers s)"
    using S0 fresh ran unfolding serves_def by (auto simp: domIff)
  have "calls_ok ?fds (Suc ?nc) (pl_calls s)" using C ran by (auto simp: calls_ok_def lessThan_Suc)
  moreover have "conns_ok (pl_conns s @ [v]) (pl_clients s @ [v]) (pl_calls s)"
    using N by (auto simp: conns_ok_def nth_append less_Suc_eq)
  ultimately show ?thesis using t Q' F' S' by (simp add: own_ok_def pl_enter_queue_def)
qed

text \<open>No earlier call was made on the connection of a descriptor that has just been removed.\<close>

lemma own_call_fresh:
  assumes ok: "own_ok s" and j: "Suc j < length (bs_threads (pl_queue s))" and th: "pl_thread (Suc j) s = Returned (Some fd)"
    and idle: "pl_workers s ! j = None" and c: "pl_fds s fd = Some c"
  shows "c \<notin> ca_conn ` set (pl_calls s)"
proof
  assume "c \<in> ca_conn ` set (pl_calls s)"
  then obtain k where k: "k < length (pl_calls s)" "ca_conn (pl_calls s ! k) = c" by (auto simp: in_set_conv_nth)
  have F: "fds_ok (pl_queue s) (pl_fds s) (length (pl_conns s))" and S: "serves (pl_queue s) (pl_fds s) (pl_calls s) (pl_workers s)"
    and len: "length (bs_threads (pl_queue s)) = Suc (length (pl_workers s))"
    using ok by (simp_all add: own_ok_def queue_ok_def)
  have "c \<in> ran (pl_fds s)" using c by (rule ranI)
  with S k obtain i where i: "i < length (pl_workers s)" "pl_workers s ! i = Some k"
    by (auto simp: serves_def in_set_conv_nth)
  note own = own_call [OF ok _ i(2)]
  have "pl_fds s (ca_fd (pl_calls s ! k)) = pl_fds s fd" using own(4) i(1) len k(2) c by simp
  moreover have "ca_fd (pl_calls s ! k) \<in> dom (pl_fds s)" "fd \<in> dom (pl_fds s)"
    using own(4) i(1) len c by auto
  ultimately have "ca_fd (pl_calls s ! k) = fd" using F by (auto simp: fds_ok_def dest: inj_onD)
  then have "Suc i = Suc j"
    using th j i(1) len own(3) by (intro holder_unique [OF F, where x = fd]) (simp_all add: pl_thread_def)
  with i(2) idle show False by simp
qed

lemma own_call_echo:
  assumes ok: "own_ok s" and j: "Suc j < length (bs_threads (pl_queue s))" and th: "pl_thread (Suc j) s = Returned (Some fd)"
    and idle: "pl_workers s ! j = None"
  shows "\<exists>c. pl_fds s fd = Some c \<and> c < length (pl_conns s) \<and> c \<notin> ca_conn ` set (pl_calls s) \<and>
    own_ok (pl_call_echo rp j fd s)"
proof -
  let ?ws = "pl_workers s" and ?cs = "pl_calls s" and ?q = "pl_queue s" and ?fds = "pl_fds s"
  have F: "fds_ok ?q ?fds (length (pl_conns s))" and S: "serves ?q ?fds ?cs ?ws"
    and C: "calls_ok ?fds (length (pl_conns s)) ?cs" and N: "conns_ok (pl_conns s) (pl_clients s) ?cs"
    and len: "length (bs_threads ?q) = Suc (length ?ws)" using ok by (simp_all add: own_ok_def queue_ok_def)
  have "fd \<in> set (in_flight ?q)" using th j by (intro held_in_flight [OF j]) (simp add: pl_thread_def)
  with F obtain c where c: "?fds fd = Some c" by (auto simp: fds_ok_def)
  with F have nc: "c < length (pl_conns s)" by (auto simp: fds_ok_def intro: ranI)
  have new: "c \<notin> ca_conn ` set ?cs" by (rule own_call_fresh [OF ok j th idle c])
  let ?a = "\<lparr>ca_fd = fd, ca_conn = c, ca_pc = CnOnce, ca_rio = rp\<rparr>" and ?ws' = "?ws[j := Some (length ?cs)]"
  have "c \<in> ran ?fds" using c by (rule ranI)
  with C new have "calls_ok ?fds (length (pl_conns s)) (?cs @ [?a])" by (auto simp: calls_ok_def)
  moreover have "conns_ok (pl_conns s) (pl_clients s) (?cs @ [?a])" using N by (auto simp: conns_ok_def)
  moreover have "serves ?q ?fds (?cs @ [?a]) ?ws'"
    unfolding serves_def
  proof (intro conjI allI impI)
    fix i k
    assume i: "i < length ?ws'" "?ws' ! i = Some k"
    have "k < length (?cs @ [?a]) \<and> bs_threads ?q ! Suc i = Returned (Some (ca_fd ((?cs @ [?a]) ! k))) \<and>
        ?fds (ca_fd ((?cs @ [?a]) ! k)) = Some (ca_conn ((?cs @ [?a]) ! k))"
    proof (cases "i = j")
      case True
      with i th c show ?thesis by (auto simp: pl_thread_def)
    next
      case False
      with i S show ?thesis by (auto simp: serves_def nth_append)
    qed
    then show "k < length (?cs @ [?a])" "bs_threads ?q ! Suc i = Returned (Some (ca_fd ((?cs @ [?a]) ! k)))"
      "?fds (ca_fd ((?cs @ [?a]) ! k)) = Some (ca_conn ((?cs @ [?a]) ! k))" by blast+
  next
    fix k
    assume k: "k < length (?cs @ [?a])"
    show "Some k \<in> set ?ws' \<or> ca_pc ((?cs @ [?a]) ! k) = CnDone \<and> ca_conn ((?cs @ [?a]) ! k) \<notin> ran ?fds"
    proof (cases "k = length ?cs")
      case True
      with j len show ?thesis by (auto intro: set_update_memI)
    next
      case False
      with k have k: "k < length ?cs" by simp
      have "Some k \<in> set ?ws'" if "Some k \<in> set ?ws"
      proof -
        from that obtain i where i: "i < length ?ws" "?ws ! i = Some k" by (auto simp: in_set_conv_nth)
        with idle have "?ws' ! i = Some k" by (cases "i = j") simp_all
        with i(1) show ?thesis by (metis length_list_update nth_mem)
      qed
      with S k show ?thesis by (auto simp: serves_def nth_append)
    qed
  qed
  ultimately show ?thesis using ok c nc new by (simp add: own_ok_def pl_call_echo_def)
qed

lemma own_echo:
  assumes ok: "own_ok s" and j: "Suc j < length (bs_threads (pl_queue s))" and k: "pl_workers s ! j = Some k"
    and t: "t = pl_put_io (ca_fd (pl_calls s ! k)) v
      (s\<lparr>pl_shared := h, pl_calls := (pl_calls s)[k := (pl_calls s ! k)\<lparr>ca_pc := q, ca_rio := rp\<rparr>]\<rparr>)"
  shows "own_ok t" and "pl_conns t = (pl_conns s)[ca_conn (pl_calls s ! k) := v]"
proof -
  let ?cs = "pl_calls s" and ?c = "ca_conn (pl_calls s ! k)"
  let ?cs' = "?cs[k := (?cs ! k)\<lparr>ca_pc := q, ca_rio := rp\<rparr>]"
  note own = own_call [OF ok j k]
  have t': "t = s\<lparr>pl_shared := h, pl_calls := ?cs', pl_conns := (pl_conns s)[?c := v]\<rparr>"
    using own(4) by (simp add: t pl_put_io_def)
  then show "pl_conns t = (pl_conns s)[?c := v]" by simp
  have conns: "map ca_conn ?cs' = map ca_conn ?cs" using own(2) by (simp add: map_update list_update_same_conv)
  then have img: "ca_conn ` set ?cs' = ca_conn ` set ?cs" by (metis set_map)
  have same: "ca_fd (?cs' ! l) = ca_fd (?cs ! l)" "ca_conn (?cs' ! l) = ca_conn (?cs ! l)" if "l < length ?cs" for l
    using that by (cases "l = k"; simp)+
  have mem: "Some k \<in> set (pl_workers s)" using own(1) k by (metis nth_mem)
  have "serves (pl_queue s) (pl_fds s) ?cs' (pl_workers s)"
    unfolding serves_def
  proof (intro conjI allI impI)
    fix i l
    assume i: "i < length (pl_workers s)" "pl_workers s ! i = Some l"
    have "l < length ?cs" "bs_threads (pl_queue s) ! Suc i = Returned (Some (ca_fd (?cs ! l)))"
      "pl_fds s (ca_fd (?cs ! l)) = Some (ca_conn (?cs ! l))"
      using ok i by (auto simp: own_ok_def serves_def)
    then show "l < length ?cs'" "bs_threads (pl_queue s) ! Suc i = Returned (Some (ca_fd (?cs' ! l)))"
      "pl_fds s (ca_fd (?cs' ! l)) = Some (ca_conn (?cs' ! l))" by (simp_all add: same)
  next
    fix l
    assume "l < length ?cs'"
    with ok mem show "Some l \<in> set (pl_workers s) \<or> ca_pc (?cs' ! l) = CnDone \<and> ca_conn (?cs' ! l) \<notin> ran (pl_fds s)"
      by (cases "l = k") (auto simp: own_ok_def serves_def)
  qed
  moreover have "?c \<in> ca_conn ` set ?cs" using own(2) by simp
  then have "(pl_conns s)[?c := v] ! c = pl_conns s ! c" if "c \<notin> ca_conn ` set ?cs" for c
    using that by (intro nth_list_update_neq) blast
  with ok img have "conns_ok ((pl_conns s)[?c := v]) (pl_clients s) ?cs'"
    by (simp add: own_ok_def conns_ok_def)
  ultimately show "own_ok t" using ok conns img by (simp add: t' own_ok_def calls_ok_def)
qed

lemma ran_remove:
  assumes "inj_on m (dom m)" and "m a = Some c"
  shows "ran (m(a := None)) = ran m - {c}"
proof (rule set_eqI)
  fix x
  have only: "b = a" if "m b = Some c" for b using inj_onD [OF assms(1), of b a] assms(2) that by auto
  show "x \<in> ran (m(a := None)) \<longleftrightarrow> x \<in> ran m - {c}"
  proof
    assume "x \<in> ran (m(a := None))"
    then obtain b where "b \<noteq> a" "m b = Some x" by (auto simp: ran_def split: if_splits)
    with only show "x \<in> ran m - {c}" by (auto intro: ranI)
  next
    assume "x \<in> ran m - {c}"
    then obtain b where "m b = Some x" "x \<noteq> c" by (auto simp: ran_def)
    with assms(2) have "(m(a := None)) b = Some x" by auto
    then show "x \<in> ran (m(a := None))" by (rule ranI)
  qed
qed

lemma own_close:
  assumes ok: "own_ok s" and j: "Suc j < length (bs_threads (pl_queue s))" and k: "pl_workers s ! j = Some k"
    and finished: "ca_pc (pl_calls s ! k) = CnDone" and t: "pl_close j (ca_fd (pl_calls s ! k)) s = Ret t"
  shows "own_ok t" and "pl_conns t = pl_conns s \<and> pl_clients t = pl_clients s \<and> pl_calls t = pl_calls s \<and> pl_shared t = pl_shared s"
proof -
  let ?q = "pl_queue s" and ?ws = "pl_workers s" and ?cs = "pl_calls s" and ?nc = "length (pl_conns s)"
  let ?fd = "ca_fd (?cs ! k)" and ?c = "ca_conn (?cs ! k)"
  let ?fds = "(pl_fds s)(?fd := None)" and ?q' = "?q\<lparr>bs_threads := (bs_threads ?q)[Suc j := Rem0]\<rparr>"
  let ?ws' = "?ws[j := None]"
  note own = own_call [OF ok j k]
  have t': "t = s\<lparr>pl_queue := ?q', pl_fds := ?fds, pl_workers := ?ws'\<rparr>"
    using t own(4) by (auto simp: pl_close_def pl_enter_queue_def)
  then show "pl_conns t = pl_conns s \<and> pl_clients t = pl_clients s \<and> pl_calls t = pl_calls s \<and> pl_shared t = pl_shared s"
    by simp
  have Q: "queue_ok (length ?ws) ?q" and F: "fds_ok ?q (pl_fds s) ?nc" and S: "serves ?q (pl_fds s) ?cs ?ws"
    and C: "calls_ok (pl_fds s) ?nc ?cs" using ok by (simp_all add: own_ok_def)
  have inv: "bs_inv (nat pre_SBUFSIZE) ?q'"
    using Q own(3) j by (intro bs_inv_restart) (simp_all add: queue_ok_def)
  have Q': "queue_ok (length ?ws') ?q'" using queue_ok_thread [OF Q inv, of "Suc j" Rem0] j by simp
  have mset: "mset (?fd # in_flight ?q') = mset (in_flight ?q)"
    using in_flight_thread [OF j, of Rem0] own(3) by simp
  have ran: "ran ?fds = ran (pl_fds s) - {?c}"
    using F own(4) by (intro ran_remove) (simp_all add: fds_ok_def)
  have F': "fds_ok ?q' ?fds ?nc"
    using F ran mset_eq_setD [OF mset] mset_eq_imp_distinct_iff [OF mset] by (auto simp: fds_ok_def inj_on_def)
  have other: "ca_fd (?cs ! l) \<noteq> ?fd" if "i < length ?ws" "i \<noteq> j" "?ws ! i = Some l" for i l
  proof
    assume "ca_fd (?cs ! l) = ?fd"
    moreover have i: "Suc i < length (bs_threads ?q)" using that Q by (simp add: queue_ok_def)
    ultimately have "Suc i = Suc j"
      using own_call(3) [OF ok i that(3)] own(3) j by (intro holder_unique [OF F, where x = ?fd]) simp_all
    with that show False by simp
  qed
  have "serves ?q' ?fds ?cs ?ws'"
    unfolding serves_def
  proof (intro conjI allI impI)
    fix i l
    assume i: "i < length ?ws'" "?ws' ! i = Some l"
    then have "i \<noteq> j" by auto
    with i other S show "l < length ?cs" "bs_threads ?q' ! Suc i = Returned (Some (ca_fd (?cs ! l)))"
      "?fds (ca_fd (?cs ! l)) = Some (ca_conn (?cs ! l))" by (auto simp: serves_def)
  next
    fix l
    assume l: "l < length ?cs"
    show "Some l \<in> set ?ws' \<or> ca_pc (?cs ! l) = CnDone \<and> ca_conn (?cs ! l) \<notin> ran ?fds"
    proof (cases "l = k")
      case True
      with finished ran show ?thesis by simp
    next
      case False
      have "Some l \<in> set ?ws'" if "Some l \<in> set ?ws"
      proof -
        from that obtain i where i: "i < length ?ws" "?ws ! i = Some l" by (auto simp: in_set_conv_nth)
        with k False have "?ws' ! i = Some l" by (cases "i = j") simp_all
        with i(1) show ?thesis by (metis length_list_update nth_mem)
      qed
      with S l ran show ?thesis by (auto simp: serves_def)
    qed
  qed
  moreover have "?c \<in> ca_conn ` set ?cs" using own(2) by simp
  then have "calls_ok ?fds ?nc ?cs" using C ran by (auto simp: calls_ok_def)
  ultimately show "own_ok t" using ok Q' F' by (simp add: t' own_ok_def)
qed

section \<open>What the calls have done\<close>

text \<open>The calls as threads of \<open>Echo_Cnt\<close>, with what their clients send.\<close>

definition call_threads :: "pl_sys \<Rightarrow> cn_thread list" where
  "call_threads s = map (\<lambda>a. \<lparr>ct_fd = ca_fd a, ct_pc = ca_pc a, ct_conn = (ca_rio a, pl_conns s ! ca_conn a)\<rparr>) (pl_calls s)"

definition call_data :: "pl_sys \<Rightarrow> string list" where
  "call_data s = map (\<lambda>a. client_data (pl_clients s ! ca_conn a)) (pl_calls s)"

definition echo_ok :: "pl_sys \<Rightarrow> bool" where
  "echo_ok s \<longleftrightarrow> once_inv (pl_shared s) (call_threads s) \<and>
     (\<forall>k < length (pl_calls s).
        conn_ok (call_data s ! k) (ct_pc (call_threads s ! k)) (ct_conn (call_threads s ! k)))"

lemma call_lengths [simp]: "length (call_threads s) = length (pl_calls s)" "length (call_data s) = length (pl_calls s)"
  by (simp_all add: call_threads_def call_data_def)

lemma call_threads_nth:
  "k < length (pl_calls s) \<Longrightarrow> call_threads s ! k = \<lparr>ct_fd = ca_fd (pl_calls s ! k), ct_pc = ca_pc (pl_calls s ! k),
     ct_conn = (ca_rio (pl_calls s ! k), pl_conns s ! ca_conn (pl_calls s ! k))\<rparr>"
  by (simp add: call_threads_def)

lemma echo_ok_cong:
  "echo_ok s \<Longrightarrow> pl_shared t = pl_shared s \<Longrightarrow> pl_calls t = pl_calls s \<Longrightarrow>
     call_threads t = call_threads s \<Longrightarrow> call_data t = call_data s \<Longrightarrow> echo_ok t"
  by (simp add: echo_ok_def)

text \<open>A call that begins.\<close>

lemma once_inv_spawn:
  assumes "once_inv h ts" and "ct_pc t = CnOnce" and "io_sent (snd (ct_conn t)) = []"
  shows "once_inv h (ts @ [t])"
proof (cases "cn_once h")
  case Once_New
  with assms show ?thesis by (simp add: once_inv_def)
next
  case Once_Running
  then obtain k where k: "k < length ts" "ct_pc (ts ! k) = CnSem \<or> ct_pc (ts ! k) = CnZero \<and> cn_mutex h = 1"
    "\<And>j. j < length ts \<Longrightarrow> j \<noteq> k \<Longrightarrow> ct_pc (ts ! j) = CnOnce"
    using assms(1) by (auto simp: once_inv_def)
  have "ct_pc ((ts @ [t]) ! j) = CnOnce" if "j < length (ts @ [t])" "j \<noteq> k" for j
    using k(3) [of j] assms(2) that by (cases "j < length ts") (auto simp: nth_append less_Suc_eq)
  moreover have "(ts @ [t]) ! k = ts ! k" using k(1) by (simp add: nth_append)
  ultimately show ?thesis using Once_Running k(1,2) by (auto simp: once_inv_def intro!: exI [of _ k])
next
  case Once_Done
  then have inv: "done_inv h ts" using assms(1) by (simp add: once_inv_def)
  have "load_ok v CnOnce" "counted t = 0" for v using assms(2,3) by (simp_all add: load_ok_def counted_def)
  with inv assms(2) have "done_inv h (ts @ [t])"
    unfolding done_inv_def by (intro conjI) (auto simp del: list_all_iff)
  with Once_Done show ?thesis by (simp add: once_inv_def)
qed

lemma echo_call_echo:
  assumes own: "own_ok s" and ok: "echo_ok s" and j: "Suc j < length (bs_threads (pl_queue s))"
    and th: "pl_thread (Suc j) s = Returned (Some fd)" and idle: "pl_workers s ! j = None"
    and good: "list_all good_client (pl_clients s)"
  shows "echo_ok (pl_call_echo rp j fd s)"
proof -
  obtain c where c: "pl_fds s fd = Some c" "c < length (pl_conns s)" "c \<notin> ca_conn ` set (pl_calls s)"
    using own_call_echo [OF own j th idle] by blast
  let ?t = "\<lparr>ct_fd = fd, ct_pc = CnOnce, ct_conn = (rp, pl_conns s ! c)\<rparr>" and ?w = "client_data (pl_clients s ! c)"
  have same: "pl_conns s ! c = pl_clients s ! c" "c < length (pl_clients s)"
    using own c(2,3) by (auto simp: own_ok_def conns_ok_def)
  then have g: "good_client (pl_conns s ! c)" using good by (simp add: list_all_length)
  have ts: "call_threads (pl_call_echo rp j fd s) = call_threads s @ [?t]"
    and ws: "call_data (pl_call_echo rp j fd s) = call_data s @ [?w]"
    using c(1) by (simp_all add: call_threads_def call_data_def pl_call_echo_def)
  have conn: "conn_ok ?w CnOnce (rp, pl_conns s ! c)"
    using g same(1) by (simp add: conn_ok_def good_client_def client_data_def)
  have "once_inv (pl_shared s) (call_threads s @ [?t])"
    using ok g by (intro once_inv_spawn) (simp_all add: echo_ok_def good_client_def)
  moreover have "conn_ok ((call_data s @ [?w]) ! k) (ct_pc ((call_threads s @ [?t]) ! k)) (ct_conn ((call_threads s @ [?t]) ! k))"
    if "k < Suc (length (pl_calls s))" for k
    using ok that conn by (cases "k = length (pl_calls s)") (auto simp: echo_ok_def nth_append)
  ultimately show ?thesis by (simp add: echo_ok_def ts ws) (simp add: pl_call_echo_def)
qed

text \<open>A step of a call is a step of its thread.\<close>

lemma echo_step:
  assumes own: "own_ok s" and j: "Suc j < length (bs_threads (pl_queue s))" and k: "pl_workers s ! j = Some k"
    and step: "pl_echo strerror k s = Some (Ret t)"
  obtains q c h where
    "cn_step strerror (ct_fd (call_threads s ! k)) (ct_pc (call_threads s ! k)) (ct_conn (call_threads s ! k)) (pl_shared s)
       = Some (Ret (q, c), h)"
    and "pl_shared t = h" and "own_ok t" and "call_data t = call_data s" and "pl_clients t = pl_clients s"
    and "call_threads t = (call_threads s)[k := (call_threads s ! k)\<lparr>ct_pc := q, ct_conn := c\<rparr>]"
proof -
  let ?a = "pl_calls s ! k"
  note o = own_call [OF own j k]
  have io: "pl_io (ca_fd ?a) s = pl_conns s ! ca_conn ?a" using o(4) by (simp add: pl_io_def)
  obtain q c h where st: "cn_step strerror (ca_fd ?a) (ca_pc ?a) (ca_rio ?a, pl_io (ca_fd ?a) s) (pl_shared s) = Some (Ret (q, c), h)"
    and t: "t = pl_put_io (ca_fd ?a) (snd c)
      (s\<lparr>pl_shared := h, pl_calls := (pl_calls s)[k := ?a\<lparr>ca_pc := q, ca_rio := fst c\<rparr>]\<rparr>)"
    by (rule pl_echoE [OF step])
  note ot = own_echo [OF own j k t]
  have sel: "pl_shared t = h" "pl_clients t = pl_clients s" "pl_calls t = (pl_calls s)[k := ?a\<lparr>ca_pc := q, ca_rio := fst c\<rparr>]"
    using o(4) by (simp_all add: t pl_put_io_def)
  have data: "call_data t = call_data s"
    using o(2) by (simp add: call_data_def sel map_update list_update_same_conv)
  have "call_threads t = (call_threads s)[k := (call_threads s ! k)\<lparr>ct_pc := q, ct_conn := c\<rparr>]"
  proof (rule nth_equalityI)
    show "length (call_threads t) = length ((call_threads s)[k := (call_threads s ! k)\<lparr>ct_pc := q, ct_conn := c\<rparr>])"
      by (simp add: sel)
    fix l
    assume "l < length (call_threads t)"
    then have l: "l < length (pl_calls s)" by (simp add: sel)
    show "call_threads t ! l = (call_threads s)[k := (call_threads s ! k)\<lparr>ct_pc := q, ct_conn := c\<rparr>] ! l"
    proof (cases "l = k")
      case True
      with o(2,5) show ?thesis by (simp add: call_threads_nth sel ot(2))
    next
      case False
      have "ca_conn (pl_calls s ! l) \<noteq> ca_conn ?a"
        using own False l o(2) by (auto simp: own_ok_def calls_ok_def distinct_conv_nth)
      with False l show ?thesis by (simp add: call_threads_nth sel ot(2))
    qed
  qed
  with st io data sel ot(1) that o(2) show thesis by (simp add: call_threads_nth)
qed

lemma echo_echo:
  assumes own: "own_ok s" and ok: "echo_ok s" and j: "Suc j < length (bs_threads (pl_queue s))"
    and k: "pl_workers s ! j = Some k" and step: "pl_echo strerror k s = Some (Ret t)"
  shows "echo_ok t"
proof -
  let ?ts = "call_threads s"
  have conn: "conn_ok (call_data s ! l) (ct_pc (?ts ! l)) (ct_conn (?ts ! l))" if "l < length ?ts" for l
    using ok that by (simp add: echo_ok_def)
  have kl: "k < length ?ts" using own_call(2) [OF own j k] by simp
  obtain q c h where st: "cn_step strerror (ct_fd (?ts ! k)) (ct_pc (?ts ! k)) (ct_conn (?ts ! k)) (pl_shared s) = Some (Ret (q, c), h)"
    and t: "pl_shared t = h" "call_data t = call_data s" "call_threads t = ?ts[k := (?ts ! k)\<lparr>ct_pc := q, ct_conn := c\<rparr>]"
    by (rule echo_step [OF own j k step]) blast
  have len: "length (pl_calls t) = length (pl_calls s)" using arg_cong [OF t(3), of length] by simp
  have "once_inv (pl_shared t) (call_threads t)"
    using once_inv_step [OF _ _ conn kl st] ok t by (simp add: echo_ok_def)
  moreover have "conn_ok (call_data t ! l) (ct_pc (call_threads t ! l)) (ct_conn (call_threads t ! l))"
    if "l < length (pl_calls t)" for l
    using cn_step_conn [OF st conn [OF kl]] conn [of l] that len kl t(2,3) by (cases "l = k") simp_all
  ultimately show ?thesis by (simp add: echo_ok_def)
qed

end
