(* ===== verification/Echo_Pool_Rest.thy ===== *)
theory Echo_Pool_Rest
  imports Echo_Pool_Proofs
begin

text \<open>
  The reachable states of the prethreaded echo server: the invariants hold in all of them, the
  states at rest are those in which every client has been served, and the threads come to rest
  after a bounded number of steps unless another client connects.
\<close>

section \<open>The reachable states\<close>

lemma pl_step_own:
  assumes "own_ok s" and "pl_step strerror rp l s = Some (Ret t)"
  shows "own_ok t"
  using assms(2)
proof (cases rule: pl_step_cases)
  case (accept fd v r)
  with own_accept [OF assms(1)] show ?thesis by blast
next
  case (queue i q)
  with own_queue [OF assms(1)] show ?thesis by simp
next
  case (call j fd)
  with own_call_echo [OF assms(1)] show ?thesis by blast
next
  case (echo j k)
  show ?thesis by (rule echo_step [OF assms(1) echo])
next
  case (close j k)
  with own_close(1) [OF assms(1)] show ?thesis by blast
qed

lemma pl_step_clients:
  assumes "own_ok s" and "pl_step strerror rp l s = Some (Ret t)"
  shows "\<exists>vs. pl_clients t = pl_clients s @ vs"
  using assms(2)
proof (cases rule: pl_step_cases)
  case (echo j k)
  show ?thesis by (rule echo_step [OF assms(1) echo]) simp
next
  case (close j k)
  with own_close(2) [OF assms(1) close] show ?thesis by simp
qed (auto simp: pl_enter_queue_def pl_call_echo_def)

lemma pl_step_echo:
  assumes own: "own_ok s" and ok: "echo_ok s" and good: "list_all good_client (pl_clients s)"
    and step: "pl_step strerror rp l s = Some (Ret t)"
  shows "echo_ok t"
  using step
proof (cases rule: pl_step_cases)
  case (accept fd v r)
  have "ca_conn a < length (pl_conns s)" "ca_conn a < length (pl_clients s)" if "a \<in> set (pl_calls s)" for a
    using own calls_connD [OF _ that] by (auto simp: own_ok_def conns_ok_def)
  then have same: "call_threads t = call_threads s" "call_data t = call_data s"
    by (auto simp: accept(3) pl_enter_queue_def call_threads_def call_data_def nth_append)
  show ?thesis by (rule echo_ok_cong [OF ok _ _ same]) (simp_all add: accept(3) pl_enter_queue_def)
next
  case (queue i q)
  with ok show ?thesis by (simp add: echo_ok_def call_threads_def call_data_def)
next
  case (call j fd)
  with echo_call_echo [OF own ok] good show ?thesis by blast
next
  case (echo j k)
  with echo_echo [OF own ok] show ?thesis by blast
next
  case (close j k)
  with own_close(2) [OF own close] ok show ?thesis
    by (simp add: echo_ok_def call_threads_def call_data_def)
qed

lemma pl_init_own: "own_ok pl_init"
proof -
  have "bs_inv (nat pre_SBUFSIZE) (pl_queue pl_init)"
    unfolding pl_init_def pl_sys.simps using size_pos by (intro bs_inv_idle) auto
  then have "queue_ok pre_NTHREADS (pl_queue pl_init)" by (simp add: queue_ok_def pl_init_def)
  moreover have "in_flight (pl_queue pl_init) = []" by (simp add: in_flight_def pl_init_def)
  ultimately show ?thesis
    by (simp add: own_ok_def fds_ok_def serves_def calls_ok_def conns_ok_def) (simp add: pl_init_def)
qed

lemma pl_reach_own: "pl_reach strerror rp s \<Longrightarrow> own_ok s"
  by (induction rule: pl_reach.induct) (auto intro: pl_init_own pl_step_own)

lemma pl_reach_echo: "pl_reach strerror rp s \<Longrightarrow> list_all good_client (pl_clients s) \<Longrightarrow> echo_ok s"
proof (induction rule: pl_reach.induct)
  case pl_reach_init
  then show ?case by (simp add: echo_ok_def call_threads_def pl_init_def once_inv_def cn_static_def)
next
  case (pl_reach_step s l t)
  note own = pl_reach_own [OF pl_reach_step.hyps(1)]
  obtain vs where "pl_clients t = pl_clients s @ vs" using pl_step_clients [OF own pl_reach_step.hyps(2)] by blast
  with pl_reach_step.prems have "list_all good_client (pl_clients s)" by simp
  with pl_reach_step.IH pl_step_echo [OF own _ _ pl_reach_step.hyps(2)] show ?case by blast
qed

lemma pl_reach_workers: "pl_reach strerror rp s \<Longrightarrow> length (pl_workers s) = pre_NTHREADS"
proof (induction rule: pl_reach.induct)
  case (pl_reach_step s l t)
  note own = pl_reach_own [OF pl_reach_step.hyps(1)]
  from pl_reach_step.hyps(2) show ?case
  proof (cases rule: pl_step_cases)
    case (echo j k)
    from own_call(4) [OF own echo(1,2)] have "pl_workers t = pl_workers s"
      by (rule_tac pl_echoE [OF echo(3)]) (simp add: pl_put_io_def)
    with pl_reach_step.IH show ?thesis by simp
  next
    case (close j k)
    then have "length (pl_workers t) = length (pl_workers s)"
      by (auto simp: pl_close_def pl_enter_queue_def split: if_splits)
    with pl_reach_step.IH show ?thesis by simp
  qed (use pl_reach_step.IH in \<open>auto simp: pl_enter_queue_def pl_call_echo_def\<close>)
qed (simp add: pl_init_def)

section \<open>Totals over the connections\<close>

text \<open>The calls are on different connections: a total over the calls is one over connections.\<close>

lemma sum_list_distinct_le:
  assumes "distinct ks" and "set ks \<subseteq> {..<n}" and "\<And>k. k < n \<Longrightarrow> 0 \<le> (f k :: int)"
  shows "sum_list (map f ks) \<le> sum_list (map f [0..<n])"
proof -
  have "sum_list (map f ks) = sum f (set ks)" using assms(1) by (rule sum_list_distinct_conv_sum_set)
  also have "\<dots> \<le> sum f {..<n}" using assms(2,3) by (intro sum_mono2) auto
  also have "\<dots> = sum_list (map f [0..<n])" by (simp add: sum_list_distinct_conv_sum_set atLeast0LessThan)
  finally show ?thesis .
qed

lemma sum_list_distinct_eq:
  assumes "distinct ks" and "set ks = {..<n}"
  shows "sum_list (map f ks) = (sum_list (map f [0..<n]) :: int)"
  using assms by (simp add: sum_list_distinct_conv_sum_set atLeast0LessThan)

lemma length_concat_map: "int (length (concat (map f xs))) = sum_list (map (\<lambda>x. int (length (f x))) xs)"
  by (rule sum_lengths [symmetric])

lemma map_nth_upt: "map (\<lambda>k. f (xs ! k)) [0..<length xs] = map f xs"
  by (rule nth_equalityI) simp_all

lemma call_data_total:
  assumes "own_ok s"
  shows "length (concat (call_data s)) \<le> length (concat (map client_data (pl_clients s)))"
proof -
  let ?f = "\<lambda>k. int (length (client_data (pl_clients s ! k)))" and ?n = "length (pl_clients s)"
  have "int (length (concat (call_data s))) = sum_list (map ?f (map ca_conn (pl_calls s)))"
    by (simp add: call_data_def length_concat_map o_def)
  also have "\<dots> \<le> sum_list (map ?f [0..<?n])"
    using assms by (intro sum_list_distinct_le) (auto simp: own_ok_def calls_ok_def conns_ok_def)
  also have "\<dots> = int (length (concat (map client_data (pl_clients s))))"
    using map_nth_upt [of "\<lambda>v. int (length (client_data v))" "pl_clients s"] by (simp add: length_concat_map)
  finally show ?thesis by simp
qed

section \<open>At rest\<close>

text \<open>When no thread can move, no worker is in a call, and all wait for a descriptor.\<close>

lemma rest_calls:
  assumes own: "own_ok s" and echo: "echo_ok s" and rest: "\<forall>i. pl_run strerror rp i s = None"
    and k: "k < length (pl_calls s)"
  shows "ca_pc (pl_calls s ! k) = CnDone"
proof -
  let ?ts = "call_threads s"
  have len: "length (bs_threads (pl_queue s)) = Suc (length (pl_workers s))" using own by (simp add: own_ok_def queue_ok_def)
  have "cn_step strerror (ct_fd (?ts ! l)) (ct_pc (?ts ! l)) (ct_conn (?ts ! l)) (pl_shared s) = None"
    if l: "l < length ?ts" "ct_pc (?ts ! l) \<noteq> CnDone" for l
  proof -
    let ?a = "pl_calls s ! l"
    from l have l': "l < length (pl_calls s)" "ca_pc ?a \<noteq> CnDone" by (simp_all add: call_threads_nth)
    with own obtain j where j: "j < length (pl_workers s)" "pl_workers s ! j = Some l"
      by (auto simp: own_ok_def serves_def in_set_conv_nth)
    have "Suc j < length (bs_threads (pl_queue s))" using j(1) len by simp
    note o = own_call [OF own this j(2)]
    have "pl_run strerror rp (Suc j) s = None" using rest by blast
    then have "pl_echo strerror l s = None"
      using o(3) j len l' by (simp add: pl_run_def pl_thread_def pl_worker_def)
    then have "cn_step strerror (ca_fd ?a) (ca_pc ?a) (ca_rio ?a, pl_conns s ! ca_conn ?a) (pl_shared s) = None"
      using o(4) by (auto simp: pl_echo_def pl_io_def Let_def split: option.splits)
    with l' show ?thesis by (simp add: call_threads_nth)
  qed
  then have "ct_pc (?ts ! k) = CnDone"
    using echo k by (intro cn_stuck [of "pl_shared s" ?ts strerror]) (simp_all add: echo_ok_def)
  with k show ?thesis by (simp add: call_threads_nth)
qed

lemma rest_queue:
  assumes own: "own_ok s" and echo: "echo_ok s" and rest: "\<forall>i. pl_run strerror rp i s = None"
    and workers: "0 < length (pl_workers s)"
  shows "in_flight (pl_queue s) = []"
proof -
  let ?q = "pl_queue s" and ?m = "length (pl_workers s)"
  let ?ts = "bs_threads ?q" and ?b = "bs_buf ?q"
  have len: "length ?ts = Suc ?m" and inv: "bs_inv (nat pre_SBUFSIZE) ?q" and main: "inserting (?ts ! 0)"
    and work: "\<And>j. j < ?m \<Longrightarrow> removing (?ts ! Suc j)" using own by (simp_all add: own_ok_def queue_ok_def)
  have idle: "pl_workers s ! j = None" if j: "j < ?m" for j
  proof (cases "pl_workers s ! j")
    case (Some k)
    note o = own_call [OF own _ Some]
    have "ca_pc (pl_calls s ! k) = CnDone" using rest_calls [OF own echo rest] o(2) j len by simp
    moreover have "pl_run strerror rp (Suc j) s = None" using rest by blast
    ultimately show ?thesis using o(3) Some j len by (simp add: pl_run_def pl_thread_def pl_worker_def)
  qed
  have out: "?ts ! Suc j \<noteq> Returned r" if j: "j < ?m" for j r
  proof
    assume r: "?ts ! Suc j = Returned r"
    with work [OF j] obtain fd where "r = Some fd" by (cases r) auto
    moreover have "pl_run strerror rp (Suc j) s = None" using rest by blast
    ultimately show False using r idle [OF j] j len by (simp add: pl_run_def pl_thread_def pl_worker_def)
  qed
  have none: "bs_step i ?q = None" if "i < length ?ts" for i
  proof (cases "?ts ! i")
    case (Returned r)
    then show ?thesis by (simp add: bs_step_def)
  qed (use rest [rule_format, of i] that in \<open>simp_all add: pl_run_def pl_thread_def\<close>)
  note stuck = bs_stuck [OF inv none]
  have rem: "?ts ! Suc j = Rem0 \<and> bb_items ?b = 0" if j: "j < ?m" for j
  proof -
    have "?ts ! Suc j \<in> set ?ts" using j len by (intro nth_mem) simp
    with stuck(4) out [OF j] work [OF j] show ?thesis by fastforce
  qed
  then have items: "bb_items ?b = 0" using workers by blast
  then have "bb_slots ?b \<noteq> 0" using stuck(1) size_pos by simp
  moreover have "?ts ! 0 \<in> set ?ts" using len by (intro nth_mem) simp
  ultimately have "\<exists>r. ?ts ! 0 = Returned r" using stuck(4) [of "?ts ! 0"] main by fastforce
  with main have main': "?ts ! 0 = Returned None" by (auto elim: inserting.elims)
  have held: "held p = []" if "p \<in> set ?ts" for p
  proof -
    from that obtain i where "i < length ?ts" "p = ?ts ! i" by (auto simp: in_set_conv_nth)
    with main' rem len show ?thesis by (cases i) simp_all
  qed
  have "bs_in ?q = bs_out ?q" by (rule stuck(3) [OF _ items])
  moreover have "concat (map held ?ts) = []" using held by simp
  ultimately show ?thesis by (simp add: in_flight_def)
qed

lemma rest_served:
  assumes own: "own_ok s" and echo: "echo_ok s" and rest: "\<forall>i. pl_run strerror rp i s = None"
    and workers: "0 < length (pl_workers s)"
  shows "pl_fds s = (\<lambda>fd. None)" and "ca_conn ` set (pl_calls s) = {..<length (pl_conns s)}"
    and "map io_sent (pl_conns s) = map client_data (pl_clients s)"
proof -
  have "dom (pl_fds s) = {}" using rest_queue [OF assms] own by (simp add: own_ok_def fds_ok_def)
  then show fds: "pl_fds s = (\<lambda>fd. None)" by auto
  then show img: "ca_conn ` set (pl_calls s) = {..<length (pl_conns s)}"
    using own by (simp add: own_ok_def calls_ok_def)
  have len: "length (pl_conns s) = length (pl_clients s)" using own by (simp add: own_ok_def conns_ok_def)
  show "map io_sent (pl_conns s) = map client_data (pl_clients s)"
  proof (rule nth_equalityI)
    fix c
    assume "c < length (map io_sent (pl_conns s))"
    then have c: "c < length (pl_conns s)" by simp
    then have "c \<in> ca_conn ` set (pl_calls s)" using img by simp
    then obtain k where k: "k < length (pl_calls s)" "ca_conn (pl_calls s ! k) = c" by (auto simp: in_set_conv_nth)
    have "conn_ok (call_data s ! k) (ct_pc (call_threads s ! k)) (ct_conn (call_threads s ! k))"
      using echo k(1) by (simp add: echo_ok_def)
    then have "io_sent (pl_conns s ! c) = call_data s ! k"
      using k rest_calls [OF own echo rest k(1)] by (simp add: call_threads_nth conn_ok_def)
    with k c len show "map io_sent (pl_conns s) ! c = map client_data (pl_clients s) ! c"
      by (simp add: call_data_def)
  qed (simp add: len)
qed

lemma rest_bytes:
  assumes own: "own_ok s" and echo: "echo_ok s" and rest: "\<forall>i. pl_run strerror rp i s = None"
    and workers: "0 < length (pl_workers s)" and some: "pl_clients s \<noteq> []"
  shows "cn_bytes (pl_shared s) = int (length (concat (map client_data (pl_clients s))))"
proof -
  let ?ts = "call_threads s" and ?h = "pl_shared s" and ?f = "\<lambda>c. int (length (io_sent (pl_conns s ! c)))"
  note served = rest_served [OF own echo rest workers]
  have inv: "once_inv ?h ?ts" using echo by (simp add: echo_ok_def)
  have all: "ct_pc (?ts ! k) = CnDone" if "k < length ?ts" for k
    using rest_calls [OF own echo rest] that by (simp add: call_threads_nth)
  have "0 < length (pl_conns s)" using some own by (simp add: own_ok_def conns_ok_def)
  with served(2) have "set (pl_calls s) \<noteq> {}" by (auto simp: lessThan_def)
  then have "0 < length ?ts" by simp
  have "cn_once ?h = Once_Done"
  proof (cases "cn_once ?h")
    case Once_New
    with inv all [OF \<open>0 < length ?ts\<close>] \<open>0 < length ?ts\<close> show ?thesis by (simp add: once_inv_def list_all_length)
  next
    case Once_Running
    with inv obtain k where "k < length ?ts" "ct_pc (?ts ! k) = CnSem \<or> ct_pc (?ts ! k) = CnZero"
      unfolding once_inv_def by auto
    with all [of k] show ?thesis by simp
  qed simp
  then have "cn_bytes ?h = sum_list (map counted ?ts)" using inv by (simp add: once_inv_def done_inv_def)
  also have "map counted ?ts = map ?f (map ca_conn (pl_calls s))"
    using all by (intro nth_equalityI) (simp_all add: counted_def call_threads_nth)
  also have "sum_list \<dots> = sum_list (map ?f [0..<length (pl_conns s)])"
    using own served(2) by (intro sum_list_distinct_eq) (simp_all add: own_ok_def calls_ok_def)
  also have "\<dots> = int (length (concat (map io_sent (pl_conns s))))"
    using map_nth_upt [of "\<lambda>v. int (length (io_sent v))" "pl_conns s"] by (simp add: length_concat_map)
  finally show ?thesis by (simp add: served(3))
qed

section \<open>Work left\<close>

text \<open>
  An upper bound of the steps the threads can still make: those of the current operation on
  the buffer, seven for each item announced, those of the calls, and those of the calls to come.
\<close>

fun queue_work :: "'a bb_pc \<Rightarrow> int" where
  "queue_work (Ins0 x) = 13" | "queue_work (Ins1 x) = 12" | "queue_work (Ins2 x) = 11" | "queue_work (Ins3 x r) = 10"
| "queue_work Ins4 = 9" | "queue_work Ins5 = 8" | "queue_work Rem0 = 0" | "queue_work Rem1 = 6" | "queue_work Rem2 = 5"
| "queue_work (Rem3 f) = 4" | "queue_work (Rem4 x) = 3" | "queue_work (Rem5 x) = 2"
| "queue_work (Returned r) = (if r = None then 0 else 1)"

fun pc_work :: "cn_pc \<Rightarrow> int" where
  "pc_work CnOnce = 6" | "pc_work CnSem = 5" | "pc_work CnZero = 4" | "pc_work CnInitb = 3" | "pc_work CnRead = 2"
| "pc_work (CnP n d) = 8" | "pc_work (CnLoad n d) = 7" | "pc_work (CnStore n d v) = 6" | "pc_work (CnPrint n d) = 5"
| "pc_work (CnV n d) = 4" | "pc_work (CnWrite n d) = 3" | "pc_work CnDone = 0"

definition unread :: "cn_pc \<Rightarrow> rio_t \<times> io \<Rightarrow> string" where
  "unread p c = (if early p then stream (io_in (snd c)) else if p = CnDone then [] else rio_rest c)"

definition call_work :: "cn_pc \<Rightarrow> rio_t \<times> io \<Rightarrow> int" where
  "call_work p c = 8 * int (length (unread p c)) + pc_work p"

definition client_work :: "io \<Rightarrow> int" where
  "client_work v = 8 * int (length (client_data v)) + 7"

definition bs_work :: "'a bb_sys \<Rightarrow> int" where
  "bs_work q = sum_list (map queue_work (bs_threads q)) + 7 * int (bb_items (bs_buf q))"

definition pl_work :: "pl_sys \<Rightarrow> int" where
  "pl_work s = bs_work (pl_queue s) + sum_list (map (\<lambda>t. call_work (ct_pc t) (ct_conn t)) (call_threads s)) +
     (sum_list (map client_work (pl_clients s)) - sum_list (map (\<lambda>a. client_work (pl_clients s ! ca_conn a)) (pl_calls s)))"

lemma bs_step_work:
  assumes "bs_step i q = Some (Ret q')"
  shows "bs_work q' < bs_work q"
proof -
  let ?p = "bs_threads q ! i"
  obtain p b where i: "i < length (bs_threads q)" and st: "bb_step ?p (bs_buf q) = Some (Ret p, b)"
    and q': "q' = bs_observe ?p p (q\<lparr>bs_buf := b, bs_threads := (bs_threads q)[i := p]\<rparr>)"
    by (rule bs_stepE [OF assms])
  have "queue_work p + 7 * int (bb_items b) < queue_work ?p + 7 * int (bb_items (bs_buf q))"
    using st by (cases ?p) (auto simp: sem_wait_def sem_post_def bb_store_def split: if_splits outcome.splits)
  then show ?thesis using sum_list_update_int [OF i, of queue_work p] by (simp add: bs_work_def q' bs_observe_sel)
qed

lemma cn_step_work:
  assumes "cn_step strerror fd p c h = Some (Ret (q, c'), h')" and "conn_ok w p c"
  shows "call_work q c' < call_work p c"
proof (cases p)
  case CnInitb
  with assms rio_init [of "snd c" fd "fst c"] show ?thesis
    by (auto simp: conn_ok_def Rio_readinitb_def call_work_def unread_def)
next
  case CnRead
  then have ok: "rio_ok c" using assms(2) by (auto simp: conn_ok_def)
  show ?thesis
  proof (cases rule: Rio_readlineb_cases [OF ok, of strerror])
    case (1 t)
    with assms(1) CnRead show ?thesis by (auto simp: call_work_def unread_def)
  next
    case (2 l t)
    have "1 \<le> int (length l)" using 2(2) by (cases l) auto
    with 2 assms(1) CnRead show ?thesis by (auto simp: call_work_def unread_def)
  qed
next
  case (CnWrite n d)
  then have "wr_quiet (io_plan (snd c))" using assms(2) by (auto simp: conn_ok_def)
  then obtain u where u: "Rio_writen strerror d (snd c) = (Ret (), u)" "wrote d (snd c) u"
    by (rule Rio_writen_quiet)
  then have "q = CnRead" "c' = (fst c, u)" using assms(1) CnWrite by (auto simp: on_io_def)
  with CnWrite u(2) show ?thesis by (auto simp: call_work_def unread_def wrote_def rio_rest_def)
qed (use assms in \<open>auto simp: call_work_def unread_def split: once.splits outcome.splits if_splits\<close>)

lemma call_work_nonneg: "0 \<le> call_work p c"
  by (cases p) (simp_all add: call_work_def)

lemma queue_work_nonneg: "0 \<le> queue_work p"
  by (cases p) simp_all

lemma pl_work_nonneg:
  assumes "own_ok s"
  shows "0 \<le> pl_work s"
proof -
  let ?f = "\<lambda>k. client_work (pl_clients s ! k)" and ?n = "length (pl_clients s)"
  have "0 \<le> bs_work (pl_queue s)"
    unfolding bs_work_def by (intro add_nonneg_nonneg sum_list_nonneg) (auto simp: queue_work_nonneg)
  moreover have "0 \<le> sum_list (map (\<lambda>t. call_work (ct_pc t) (ct_conn t)) (call_threads s))"
    by (intro sum_list_nonneg) (auto simp: call_work_nonneg)
  moreover have "sum_list (map ?f (map ca_conn (pl_calls s))) \<le> sum_list (map ?f [0..<?n])"
    using assms by (intro sum_list_distinct_le) (auto simp: own_ok_def calls_ok_def conns_ok_def client_work_def)
  then have "sum_list (map (\<lambda>a. ?f (ca_conn a)) (pl_calls s)) \<le> sum_list (map client_work (pl_clients s))"
    using map_nth_upt [of client_work "pl_clients s"] by (simp add: o_def)
  ultimately show ?thesis by (simp add: pl_work_def)
qed

lemma pl_run_work:
  assumes own: "own_ok s" and echo: "echo_ok s" and good: "list_all good_client (pl_clients s)"
    and run: "pl_step strerror rp (Runs i) s = Some (Ret t)"
  shows "pl_work t < pl_work s" and "pl_clients t = pl_clients s"
proof -
  have "pl_work t < pl_work s \<and> pl_clients t = pl_clients s"
    using run
  proof (cases rule: pl_run_cases)
    case (queue q)
    with bs_step_work [OF queue(2)] show ?thesis by (simp add: pl_work_def call_threads_def)
  next
    case (call j fd)
    obtain c where c: "pl_fds s fd = Some c" "c < length (pl_conns s)" "c \<notin> ca_conn ` set (pl_calls s)"
      using own_call_echo [OF own call(1,2,3)] by blast
    then have "pl_conns s ! c = pl_clients s ! c" using own by (auto simp: own_ok_def conns_ok_def)
    then show ?thesis using c(1)
      by (simp add: call(4) pl_work_def pl_call_echo_def call_threads_def call_work_def client_work_def client_data_def unread_def)
  next
    case (echo j k)
    note o = own_call [OF own echo(1,2)]
    have conn: "conn_ok (call_data s ! k) (ct_pc (call_threads s ! k)) (ct_conn (call_threads s ! k))"
      using \<open>echo_ok s\<close> o(2) by (simp add: echo_ok_def)
    obtain q c h where st: "cn_step strerror (ct_fd (call_threads s ! k)) (ct_pc (call_threads s ! k))
        (ct_conn (call_threads s ! k)) (pl_shared s) = Some (Ret (q, c), h)"
      and t: "pl_clients t = pl_clients s"
        "call_threads t = (call_threads s)[k := (call_threads s ! k)\<lparr>ct_pc := q, ct_conn := c\<rparr>]"
      by (rule echo_step [OF own echo]) blast
    have "pl_queue t = pl_queue s" "map ca_conn (pl_calls t) = map ca_conn (pl_calls s)"
      using o(2,4) by (rule_tac pl_echoE [OF echo(3)]; simp add: pl_put_io_def map_update list_update_same_conv)+
    moreover have "map (\<lambda>a. client_work (pl_clients s ! ca_conn a)) (pl_calls t) =
        map (\<lambda>c. client_work (pl_clients s ! c)) (map ca_conn (pl_calls t))" by simp
    ultimately show ?thesis
      using sum_list_update_int [of k "call_threads s" "\<lambda>t. call_work (ct_pc t) (ct_conn t)" "(call_threads s ! k)\<lparr>ct_pc := q, ct_conn := c\<rparr>"]
        cn_step_work [OF st conn] o(2) t by (simp add: pl_work_def o_def)
  next
    case (close j k)
    note o = own_call [OF own close(1,2)]
    have "pl_queue t = (pl_queue s)\<lparr>bs_threads := (bs_threads (pl_queue s))[Suc j := Rem0]\<rparr>"
      using close(4) o(4) by (auto simp: pl_close_def pl_enter_queue_def)
    then have "bs_work (pl_queue t) < bs_work (pl_queue s)"
      using sum_list_update_int [OF close(1), of queue_work Rem0] o(3) by (simp add: bs_work_def)
    with own_close(2) [OF own close] show ?thesis by (simp add: pl_work_def call_threads_def)
  qed
  then show "pl_work t < pl_work s" "pl_clients t = pl_clients s" by blast+
qed

lemma pl_runs_bound:
  assumes "schedule (pl_step strerror rp) (map Runs is) s = Some t"
    and "own_ok s" and "echo_ok s" and "list_all good_client (pl_clients s)"
  shows "int (length is) \<le> pl_work s"
  using assms
proof (induction "is" arbitrary: s)
  case Nil
  then show ?case by (simp add: pl_work_nonneg)
next
  case (Cons i "is")
  obtain u where u: "pl_step strerror rp (Runs i) s = Some (Ret u)" "schedule (pl_step strerror rp) (map Runs is) u = Some t"
    using Cons.prems(1) by (auto split: option.splits outcome.splits)
  note work = pl_run_work [OF Cons.prems(2-4) u(1)]
  have "int (length is) \<le> pl_work u"
    using Cons.IH [OF u(2)] pl_step_own [OF Cons.prems(2) u(1)] pl_step_echo [OF Cons.prems(2-4) u(1)] work(2) Cons.prems(4)
    by simp
  with work(1) show ?case by simp
qed

end
