(* ===== verification/Echo_Props.thy ===== *)
theory Echo_Props
  imports Echo_Cnt "HOL-Library.Code_Target_Nat"
begin

text \<open>
  The properties of the echo servers of \<open>hw6\<close>.
\<close>

text \<open>\<open>echo\<close> returns, and sends the client every byte it sent, in order, however the reads and
  writes cut them; lines that do not fit the buffer are echoed in pieces.\<close>

theorem echo_echoes:
  assumes "quiet (io_in s)" and "wr_quiet (io_plan s)"
  shows "\<exists>t. echo strerror rp connfd s = Some (Ret (), t) \<and> io_sent t = io_sent s @ stream (io_in s)"
proof -
  let ?st = "(Rio_readinitb connfd rp, s)"
  have "rio_ok ?st" "rio_rest ?st = stream (io_in s)"
    using rio_init [OF assms(1), of connfd rp] by (simp_all add: Rio_readinitb_def)
  with echo_loop_quiet [of ?st strerror] assms(2) show ?thesis by (auto simp: echo_def)
qed

definition echo_demo_io :: io where
  "echo_demo_io = \<lparr>w_errno = 0, w_out = [], w_err = [],
     io_in = [RdData ''ab'', RdErr EINTR, RdData [CHR ''c'', LF, CHR ''d'']], io_plan = [WrTake 1, WrErr EINTR], io_sent = []\<rparr>"

definition echo_demo_rio :: rio_t where
  "echo_demo_rio = \<lparr>rio_fd = 0, rio_cnt = 0, rio_bufptr = 0, rio_buf = []\<rparr>"

theorem echo_echoes_witness:
  "\<exists>t. echo (\<lambda>e. []) echo_demo_rio 4 echo_demo_io = Some (Ret (), t) \<and> io_sent t = [] @ ''abc'' @ [LF] @ ''d''"
  using echo_echoes [of echo_demo_io "\<lambda>e. []" echo_demo_rio 4] by (simp add: echo_demo_io_def EINTR_def)

text \<open>However the threads of the pool interleave, when all have finished each client has got back
  exactly the bytes it sent, and the counter is the number of bytes received from all clients.\<close>

theorem echo_cnt_counts:
  assumes "cn_reach strerror s0 s" and "cn_start ws s0" and "ws \<noteq> []"
    and "list_all (\<lambda>t. ct_pc t = CnDone) (cy_threads s)"
  shows "map (\<lambda>t. io_sent (snd (ct_conn t))) (cy_threads s) = ws \<and>
    cn_bytes (cy_shared s) = int (length (concat ws))"
proof -
  let ?ts = "cy_threads s"
  have inv: "length ws = length ?ts" "once_inv (cy_shared s) ?ts"
    "\<And>j. j < length ?ts \<Longrightarrow> conn_ok (ws ! j) (ct_pc (?ts ! j)) (ct_conn (?ts ! j))"
    using cn_reach_inv [OF assms(1,2)] by auto
  have all_done: "ct_pc (?ts ! j) = CnDone" if "j < length ?ts" for j
    using assms(4) that by (simp add: list_all_length)
  have sent: "map (\<lambda>t. io_sent (snd (ct_conn t))) ?ts = ws"
    using inv(1,3) all_done by (intro nth_equalityI) (auto simp: conn_ok_def)
  have "0 < length ?ts" using assms(3) inv(1) by (metis length_greater_0_conv)
  have "cn_once (cy_shared s) = Once_Done"
  proof (cases "cn_once (cy_shared s)")
    case Once_New
    with inv(2) have "ct_pc (?ts ! 0) = CnOnce" using \<open>0 < length ?ts\<close> by (simp add: once_inv_def list_all_length)
    with all_done [OF \<open>0 < length ?ts\<close>] show ?thesis by simp
  next
    case Once_Running
    with inv(2) obtain k where "k < length ?ts" "ct_pc (?ts ! k) = CnSem \<or> ct_pc (?ts ! k) = CnZero"
      unfolding once_inv_def by auto
    with all_done [of k] show ?thesis by simp
  qed simp
  then have "cn_bytes (cy_shared s) = sum_list (map counted ?ts)"
    using inv(2) by (simp add: once_inv_def done_inv_def)
  also have "map counted ?ts = map (\<lambda>t. int (length (io_sent (snd (ct_conn t))))) ?ts"
    using assms(4) by (intro map_cong) (auto simp: counted_def list_all_iff)
  also have "sum_list \<dots> = int (length (concat (map (\<lambda>t. io_sent (snd (ct_conn t))) ?ts)))"
    by (rule sum_lengths)
  finally show ?thesis using sent by simp
qed

text \<open>Schedules stay among the reachable states; in the example two clients take turns.\<close>

interpretation pool: interleaving "cn_next strerror" "cn_reach strerror s0" for strerror s0
  by unfold_locales (rule cn_reach_step)

definition cn_demo_client :: "string \<Rightarrow> cn_thread" where
  "cn_demo_client d = \<lparr>ct_fd = 4, ct_pc = CnOnce,
     ct_conn = (\<lparr>rio_fd = 0, rio_cnt = 0, rio_bufptr = 0, rio_buf = []\<rparr>,
       \<lparr>w_errno = 0, w_out = [], w_err = [], io_in = [RdData d], io_plan = [], io_sent = []\<rparr>)\<rparr>"

definition cn_demo :: cn_sys where
  "cn_demo = \<lparr>cy_shared = cn_static, cy_threads = [cn_demo_client ''ab'', cn_demo_client ''cde'']\<rparr>"

definition cn_demo_schedule :: "nat list" where
  "cn_demo_schedule = [0, 0, 0, 1, 0, 1, 0, 1, 0, 0, 0, 0, 0, 1, 0, 1, 1, 1, 1, 1, 1, 0]"

declare rio_fill.simps [code] readlineb_loop.simps [code] rio_writen_loop.simps [code]

theorem echo_cnt_counts_witness:
  "\<exists>s. schedule (cn_next (\<lambda>e. [])) cn_demo_schedule cn_demo = Some s \<and>
     map (\<lambda>t. io_sent (snd (ct_conn t))) (cy_threads s) = [''ab'', ''cde''] \<and> cn_bytes (cy_shared s) = 5"
proof -
  have "map_option (\<lambda>s. list_all (\<lambda>t. ct_pc t = CnDone) (cy_threads s)) (schedule (cn_next (\<lambda>e. [])) cn_demo_schedule cn_demo) = Some True"
    by code_simp
  then obtain s where s: "schedule (cn_next (\<lambda>e. [])) cn_demo_schedule cn_demo = Some s"
    "list_all (\<lambda>t. ct_pc t = CnDone) (cy_threads s)"
    by (cases "schedule (cn_next (\<lambda>e. [])) cn_demo_schedule cn_demo") auto
  have "cn_reach (\<lambda>e. []) cn_demo s" by (rule pool.run_reach [OF s(1) cn_reach_init])
  moreover have "cn_start [''ab'', ''cde''] cn_demo"
    by (simp add: cn_start_def cn_demo_def cn_demo_client_def conn_ok_def)
  ultimately have "map (\<lambda>t. io_sent (snd (ct_conn t))) (cy_threads s) = [''ab'', ''cde''] \<and>
      cn_bytes (cy_shared s) = int (length (concat [''ab'', ''cde'']))"
    using echo_cnt_counts [of "\<lambda>e. []" cn_demo s "[''ab'', ''cde'']"] s(2) by simp
  with s(1) show ?thesis by simp
qed

end
