(* ===== verification/Echo_Pool_Props.thy ===== *)
theory Echo_Pool_Props
  imports Echo_Pool_Rest Echo_Props
begin

text \<open>
  The properties of the prethreaded echo server with all its threads: descriptors are never
  shared, no thread fails, the threads come to rest, and then all clients have been served.
\<close>

interpretation prethreaded: interleaving "pl_step strerror rp" "pl_reach strerror rp" for strerror rp
  by unfold_locales (rule pl_reach_step)

definition pl_demo_rio :: rio_t where
  "pl_demo_rio = \<lparr>rio_fd = 0, rio_cnt = 0, rio_bufptr = 0, rio_buf = []\<rparr>"

definition pl_demo_client :: "string \<Rightarrow> io" where
  "pl_demo_client d = \<lparr>w_errno = 0, w_out = [], w_err = [], io_in = [RdData d], io_plan = [], io_sent = []\<rparr>"

text \<open>Two clients, served by two workers; the second gets the descriptor the first has left.\<close>

definition pl_demo_events :: "pl_event list" where
  "pl_demo_events = Accepts 4 (pl_demo_client ''ab'') # replicate 6 (Runs 0) @ replicate 20 (Runs 1) @
     Accepts 4 (pl_demo_client ''cde'') # replicate 6 (Runs 0) @ replicate 18 (Runs 2)"

definition pl_demo :: "nat \<Rightarrow> pl_sys" where
  "pl_demo k = (case schedule (pl_step (\<lambda>e. []) pl_demo_rio) (take k pl_demo_events) pl_init of Some t \<Rightarrow> t | None \<Rightarrow> pl_init)"

lemma pl_demo_reach: "pl_reach (\<lambda>e. []) pl_demo_rio (pl_demo k)"
  using prethreaded.run_reach [OF _ pl_reach_init] pl_reach_init by (auto simp: pl_demo_def split: option.split)

text \<open>C37. No descriptor is lost or shared: however the threads interleave, those that \<open>main\<close> has
  accepted and not yet inserted, those in the buffer and those the workers hold are pairwise
  different and are exactly the open ones; they are taken in the order of their insertion, and
  no two calls of \<open>echo_cnt\<close> ever serve the same connection.\<close>

theorem pool_descriptors:
  assumes "pl_reach strerror rp s"
  shows "distinct (in_flight (pl_queue s)) \<and> set (in_flight (pl_queue s)) = dom (pl_fds s) \<and>
    distinct (map ca_conn (pl_calls s)) \<and>
    bs_out (pl_queue s) = take (length (bs_out (pl_queue s))) (bs_in (pl_queue s))"
  using pl_reach_own [OF assms]
  by (simp add: own_ok_def fds_ok_def calls_ok_def queue_ok_def bs_inv_def ring_ok_def)

theorem pool_descriptors_witness:
  "in_flight (pl_queue (pl_demo 20)) = [4] \<and> dom (pl_fds (pl_demo 20)) = {4}"
proof -
  have "in_flight (pl_queue (pl_demo 20)) = [4]" by code_simp
  with pool_descriptors [OF pl_demo_reach [of 20]] show ?thesis by auto
qed

text \<open>C38. No thread fails: as long as no read or write on a connection fails other than by an
  interruption (\<open>good_client\<close>; after an error the server exits), the clients together send at most \<open>INT_MAX\<close> bytes and \<open>rear\<close> has not reached \<open>INT_MAX\<close>, every step of every thread
  returns; none exits, overflows, or uses a closed descriptor.\<close>

theorem pool_no_failure:
  assumes "pl_reach strerror rp s" and "list_all good_client (pl_clients s)"
    and "int (length (concat (map client_data (pl_clients s)))) \<le> INT_MAX"
    and "bb_rear (bs_buf (pl_queue s)) < INT_MAX" and "pl_run strerror rp i s = Some r"
  shows "\<exists>t. r = Ret t"
proof -
  note own = pl_reach_own [OF assms(1)] and echo = pl_reach_echo [OF assms(1,2)]
  have len: "length (bs_threads (pl_queue s)) = Suc (length (pl_workers s))"
    and inv: "bs_inv (nat pre_SBUFSIZE) (pl_queue s)" using own by (simp_all add: own_ok_def queue_ok_def)
  have i: "i < length (bs_threads (pl_queue s))" using assms(5) by (auto simp: pl_run_def split: if_splits)
  show ?thesis
  proof (cases "\<exists>x. pl_thread i s = Returned x")
    case False
    with assms(5) i have "map_option (omap (\<lambda>q. s\<lparr>pl_queue := q\<rparr>)) (bs_step i (pl_queue s)) = Some r"
      by (cases "pl_thread i s") (auto simp: pl_run_def)
    then obtain o' where o': "bs_step i (pl_queue s) = Some o'" "r = omap (\<lambda>q. s\<lparr>pl_queue := q\<rparr>) o'" by auto
    then obtain p b f where st: "bb_step (bs_threads (pl_queue s) ! i) (bs_buf (pl_queue s)) = Some (p, b)"
      and p: "o' = omap f p"
      using i by (auto simp: bs_step_def split: option.splits)
    have "\<exists>q. p = Ret q"
      using bb_step_no_fault [OF _ i size_pos st] inv assms(4) by (auto simp: bs_inv_ok)
    with p o'(2) show ?thesis by auto
  next
    case True
    then obtain x j where x: "pl_thread i s = Returned x" "i = Suc j"
      using assms(5) i by (cases i) (auto simp: pl_run_def)
    with assms(5) i have w: "pl_worker strerror rp j x s = Some r" by (simp add: pl_run_def)
    show ?thesis
    proof (cases "pl_workers s ! j")
      case None
      with w show ?thesis by (auto simp: pl_worker_def split: option.splits)
    next
      case (Some k)
      note o = own_call [OF own _ Some]
      have k: "k < length (pl_calls s)" "pl_fds s (ca_fd (pl_calls s ! k)) = Some (ca_conn (pl_calls s ! k))"
        using o i x(2) by simp_all
      show ?thesis
      proof (cases "ca_pc (pl_calls s ! k) = CnDone")
        case True
        with w Some k(2) show ?thesis by (auto simp: pl_worker_def pl_close_def)
      next
        case False
        let ?ts = "call_threads s"
        have "pl_echo strerror k s = Some r" using w Some False by (simp add: pl_worker_def)
        then obtain o' h f where o': "cn_step strerror (ct_fd (?ts ! k)) (ct_pc (?ts ! k)) (ct_conn (?ts ! k)) (pl_shared s) = Some (o', h)"
          and r: "r = omap f o'"
          using k by (auto simp: pl_echo_def pl_io_def Let_def call_threads_nth split: option.splits)
        have "int (length (concat (call_data s))) \<le> INT_MAX"
          using call_data_total [OF own] assms(3) by simp
        then have "\<exists>y. o' = Ret y"
          using echo k(1) by (intro cn_step_no_fail [OF _ _ _ _ _ o', of "call_data s"]) (simp_all add: echo_ok_def)
        with r show ?thesis by auto
      qed
    qed
  qed
qed

theorem pool_no_failure_witness:
  "\<exists>t. the (pl_run (\<lambda>e. []) pl_demo_rio 1 (pl_demo 20)) = Ret t"
proof -
  let ?s = "pl_demo 20"
  have "pl_clients ?s = [pl_demo_client ''ab'']" "bb_rear (bs_buf (pl_queue ?s)) = 1"
    "\<not> Option.is_none (pl_run (\<lambda>e. []) pl_demo_rio 1 ?s)" by code_simp+
  then show ?thesis
    by (intro pool_no_failure [OF pl_demo_reach])
      (auto simp: good_client_def client_data_def pl_demo_client_def Option.is_none_def)
qed

text \<open>C35. Nothing is left undone: when no thread can move, every client that was accepted has got back
  exactly the bytes it sent, every connection is closed, and the counter is the number of
  bytes of all clients.\<close>

theorem pool_serves_all:
  assumes "pl_reach strerror rp s" and "list_all good_client (pl_clients s)" and "pl_clients s \<noteq> []"
    and "\<forall>i. pl_run strerror rp i s = None"
  shows "map io_sent (pl_conns s) = map client_data (pl_clients s) \<and> pl_fds s = (\<lambda>fd. None) \<and>
    cn_bytes (pl_shared s) = int (length (concat (map client_data (pl_clients s))))"
proof -
  note own = pl_reach_own [OF assms(1)] and echo = pl_reach_echo [OF assms(1,2)]
  have "0 < length (pl_workers s)" using pl_reach_workers [OF assms(1)] by (simp add: pre_NTHREADS_def)
  with rest_served [OF own echo assms(4)] rest_bytes [OF own echo assms(4) _ assms(3)] show ?thesis by simp
qed

theorem pool_serves_all_witness:
  "map io_sent (pl_conns (pl_demo 52)) = [''ab'', ''cde''] \<and> cn_bytes (pl_shared (pl_demo 52)) = 5"
proof -
  let ?s = "pl_demo 52"
  have clients: "pl_clients ?s = [pl_demo_client ''ab'', pl_demo_client ''cde'']"
    and len: "length (bs_threads (pl_queue ?s)) = 11" by code_simp+
  have "list_all (\<lambda>i. Option.is_none (pl_run (\<lambda>e. []) pl_demo_rio i ?s)) [0..<11]" by code_simp
  then have "pl_run (\<lambda>e. []) pl_demo_rio i ?s = None" if "i < 11" for i
    using that by (simp add: list_all_iff Option.is_none_def)
  then have "\<forall>i. pl_run (\<lambda>e. []) pl_demo_rio i ?s = None"
    using len by (auto simp: pl_run_def)
  with pool_serves_all [OF pl_demo_reach, of 52] clients show ?thesis
    by (simp add: good_client_def client_data_def pl_demo_client_def)
qed

text \<open>C36. The threads do come to rest: between two clients they can make at most \<open>pl_work\<close> steps, in
  whatever order they are scheduled.\<close>

theorem pool_comes_to_rest:
  assumes "pl_reach strerror rp s" and "list_all good_client (pl_clients s)"
    and "schedule (pl_step strerror rp) (map Runs is) s = Some t"
  shows "int (length is) \<le> pl_work s"
  by (rule pl_runs_bound [OF assms(3) pl_reach_own [OF assms(1)] pl_reach_echo [OF assms(1,2)] assms(2)])

theorem pool_comes_to_rest_witness:
  "int (length (replicate 6 0 @ replicate 20 (1 :: nat))) \<le> pl_work (pl_demo 1) \<and> pl_work (pl_demo 1) = 36"
proof -
  let ?is = "replicate 6 0 @ replicate 20 (1 :: nat)"
  have "pl_clients (pl_demo 1) = [pl_demo_client ''ab'']" by code_simp
  then have good: "list_all good_client (pl_clients (pl_demo 1))"
    by (simp add: good_client_def pl_demo_client_def)
  have "\<not> Option.is_none (schedule (pl_step (\<lambda>e. []) pl_demo_rio) (map Runs ?is) (pl_demo 1))" by code_simp
  then obtain t where "schedule (pl_step (\<lambda>e. []) pl_demo_rio) (map Runs ?is) (pl_demo 1) = Some t"
    by (auto simp: Option.is_none_def)
  from pool_comes_to_rest [OF pl_demo_reach good this] have "int (length ?is) \<le> pl_work (pl_demo 1)" .
  moreover have "pl_work (pl_demo 1) = 36" by code_simp
  ultimately show ?thesis by blast
qed

end
