(* ===== verification/Echo_Threads.thy ===== *)
theory Echo_Threads
  imports Echo_Cnt
begin

text \<open>
  The echo server with a thread per connection, \<open>hw6/echoservert.c\<close>, with all its threads:
  \<open>main\<close> allocates a block for each descriptor and hands it to a new thread, which reads it,
  frees it and echoes. The heap and the descriptor table of the process lie between them.
\<close>

section \<open>The system\<close>

text \<open>A thread, with the address \<open>vargp\<close> until it is freed, and the line it has read.\<close>

datatype et_pc =
    EtLoad nat                \<comment> \<open>before \<open>connfd = *vargp\<close>\<close>
  | EtDetach nat int          \<comment> \<open>before \<open>Pthread_detach\<close>\<close>
  | EtFree nat int            \<comment> \<open>before \<open>Free\<close>\<close>
  | EtInitb int               \<comment> \<open>in \<open>echo\<close>, before \<open>Rio_readinitb\<close>\<close>
  | EtRead int                \<comment> \<open>before \<open>Rio_readlineb\<close>\<close>
  | EtPrint int int string    \<comment> \<open>before \<open>printf\<close>\<close>
  | EtWrite int int string    \<comment> \<open>before \<open>Rio_writen\<close>\<close>
  | EtClose int               \<comment> \<open>before \<open>Close\<close>\<close>
  | EtDone

text \<open>\<open>main\<close>, in its loop.\<close>

datatype et_main_pc =
    MtMalloc                  \<comment> \<open>before \<open>Malloc\<close>\<close>
  | MtAccept nat              \<comment> \<open>before \<open>*connfdp = Accept\<close>\<close>
  | MtCreate nat              \<comment> \<open>before \<open>Pthread_create\<close>\<close>

record et_thread =
  et_pc :: et_pc
  et_rio :: rio_t

text \<open>
  The heap maps the allocated blocks to the integer they hold, \<open>None\<close> while it is indeterminate; the
  table maps the open descriptors to connections, which are numbered as they are accepted.
  \<open>et_clients\<close> records the connections as they were accepted.
\<close>

record et_sys =
  et_main :: et_main_pc
  et_heap :: "nat \<Rightarrow> int option option"
  et_fds :: "int \<Rightarrow> nat option"
  et_conns :: "io list"
  et_clients :: "io list"
  et_threads :: "et_thread list"
  et_out :: string

definition et_io :: "int \<Rightarrow> et_sys \<Rightarrow> io" where
  "et_io fd s = (case et_fds s fd of None \<Rightarrow> closed_io | Some c \<Rightarrow> et_conns s ! c)"

definition et_put_io :: "int \<Rightarrow> io \<Rightarrow> et_sys \<Rightarrow> et_sys" where
  "et_put_io fd v s = (case et_fds s fd of None \<Rightarrow> s | Some c \<Rightarrow> s\<lparr>et_conns := (et_conns s)[c := v]\<rparr>)"

section \<open>main\<close>

text \<open>\<open>malloc\<close> returns the address of a block that is not allocated, or a null pointer.\<close>

definition et_malloc :: "nat option \<Rightarrow> et_sys \<Rightarrow> et_sys outcome option" where
  "et_malloc p s =
     (case et_main s of
        MtMalloc \<Rightarrow>
          (case p of
             None \<Rightarrow> Some (Exited 0)
           | Some a \<Rightarrow>
               if et_heap s a \<noteq> None then None
               else Some (Ret (s\<lparr>et_heap := (et_heap s)(a \<mapsto> None), et_main := MtAccept a\<rparr>)))
      | _ \<Rightarrow> None)"

text \<open>\<open>accept\<close> returns a descriptor that is not open; \<open>v\<close> is what its client will send.\<close>

definition et_accept :: "int \<Rightarrow> io \<Rightarrow> et_sys \<Rightarrow> et_sys outcome option" where
  "et_accept fd v s =
     (case et_main s of
        MtAccept a \<Rightarrow>
          if fd < 0 then Some (Exited 0)
          else if et_fds s fd \<noteq> None then None
          else if et_heap s a = None then Some (Fault Out_Of_Bounds)
          else Some (Ret (s\<lparr>et_heap := (et_heap s)(a \<mapsto> Some fd), et_main := MtCreate a,
                 et_fds := (et_fds s)(fd \<mapsto> length (et_conns s)),
                 et_conns := et_conns s @ [v], et_clients := et_clients s @ [v]\<rparr>))
      | _ \<Rightarrow> None)"

text \<open>\<open>pthread_create\<close> returns \<open>rc\<close>; \<open>rp\<close> is what the stack of the thread holds.\<close>

definition et_create :: "rio_t \<Rightarrow> int \<Rightarrow> et_sys \<Rightarrow> et_sys outcome option" where
  "et_create rp rc s =
     (case et_main s of
        MtCreate a \<Rightarrow>
          if rc \<noteq> 0 then Some (Exited 0)
          else Some (Ret (s\<lparr>et_main := MtMalloc, et_threads := et_threads s @ [\<lparr>et_pc = EtLoad a, et_rio = rp\<rparr>]\<rparr>))
      | _ \<Rightarrow> None)"

section \<open>The threads\<close>

text \<open>
  One step of a thread: its new position and buffer, and the state. A block that is not
  allocated can neither be read nor freed. Detaching oneself does not fail.
\<close>

fun et_step :: "(int \<Rightarrow> string) \<Rightarrow> et_pc \<Rightarrow> rio_t \<Rightarrow> et_sys \<Rightarrow> ((et_pc \<times> rio_t) \<times> et_sys) outcome option" where
  "et_step strerror (EtLoad p) rio s =
     Some (case et_heap s p of
         None \<Rightarrow> Fault Out_Of_Bounds
       | Some v \<Rightarrow> (case v of None \<Rightarrow> Fault Uninitialised | Some fd \<Rightarrow> Ret ((EtDetach p fd, rio), s)))"
| "et_step strerror (EtDetach p fd) rio s = Some (Ret ((EtFree p fd, rio), s))"
| "et_step strerror (EtFree p fd) rio s =
     Some (if et_heap s p = None then Fault Out_Of_Bounds
       else Ret ((EtInitb fd, rio), s\<lparr>et_heap := (et_heap s)(p := None)\<rparr>))"
| "et_step strerror (EtInitb fd) rio s = Some (Ret ((EtRead fd, Rio_readinitb fd rio), s))"
| "et_step strerror (EtRead fd) rio s =
     (case Rio_readlineb strerror MAXLINE (rio, et_io fd s) of
        (r, c) \<Rightarrow>
          Some (omap (\<lambda>(n, d). ((if n = 0 then EtClose fd else EtPrint fd n (take (nat n) d), fst c), et_put_io fd (snd c) s)) r))"
| "et_step strerror (EtPrint fd n d) rio s =
     Some (Ret ((EtWrite fd n d, rio), s\<lparr>et_out := et_out s @ ''server received '' @ show_int n @ '' bytes'' @ [LF]\<rparr>))"
| "et_step strerror (EtWrite fd n d) rio s =
     (case Rio_writen strerror d (et_io fd s) of
        (r, v) \<Rightarrow> Some (omap (\<lambda>_. ((EtRead fd, rio), et_put_io fd v s)) r))"
| "et_step strerror (EtClose fd) rio s =
     Some (if et_fds s fd = None then Exited 0
       else Ret ((EtDone, rio), s\<lparr>et_fds := (et_fds s)(fd := None)\<rparr>))"
| "et_step strerror EtDone rio s = None"

definition et_run :: "(int \<Rightarrow> string) \<Rightarrow> nat \<Rightarrow> et_sys \<Rightarrow> et_sys outcome option" where
  "et_run strerror i s =
     (if i < length (et_threads s) then
        map_option
          (omap (\<lambda>((q, rio), t). t\<lparr>et_threads := (et_threads t)[i := \<lparr>et_pc = q, et_rio = rio\<rparr>]\<rparr>))
          (et_step strerror (et_pc (et_threads s ! i)) (et_rio (et_threads s ! i)) s)
      else None)"

datatype et_event = Mallocs "nat option" | Accepted int io | Creates int | Thread nat

fun et_next :: "(int \<Rightarrow> string) \<Rightarrow> rio_t \<Rightarrow> et_event \<Rightarrow> et_sys \<Rightarrow> et_sys outcome option" where
  "et_next strerror rp (Mallocs p) s = et_malloc p s"
| "et_next strerror rp (Accepted fd v) s = et_accept fd v s"
| "et_next strerror rp (Creates rc) s = et_create rp rc s"
| "et_next strerror rp (Thread i) s = et_run strerror i s"

definition et_init :: et_sys where
  "et_init = \<lparr>et_main = MtMalloc, et_heap = (\<lambda>a. None), et_fds = (\<lambda>fd. None), et_conns = [], et_clients = [],
     et_threads = [], et_out = []\<rparr>"

inductive et_reach :: "(int \<Rightarrow> string) \<Rightarrow> rio_t \<Rightarrow> et_sys \<Rightarrow> bool" for strerror rp where
  et_reach_init: "et_reach strerror rp et_init"
| et_reach_step: "et_reach strerror rp s \<Longrightarrow> et_next strerror rp l s = Some (Ret t) \<Longrightarrow> et_reach strerror rp t"

lemma et_runE:
  assumes "et_run strerror i s = Some (Ret t)"
  obtains q rio u where "i < length (et_threads s)"
    and "et_step strerror (et_pc (et_threads s ! i)) (et_rio (et_threads s ! i)) s = Some (Ret ((q, rio), u))"
    and "t = u\<lparr>et_threads := (et_threads u)[i := \<lparr>et_pc = q, et_rio = rio\<rparr>]\<rparr>"
proof -
  let ?r = "et_step strerror (et_pc (et_threads s ! i)) (et_rio (et_threads s ! i)) s"
  from assms have i: "i < length (et_threads s)" by (auto simp: et_run_def split: if_splits)
  with assms obtain r where r: "?r = Some r" by (auto simp: et_run_def)
  then obtain q rio u where "r = Ret ((q, rio), u)" using assms i by (cases r) (auto simp: et_run_def)
  with r assms i that show thesis by (simp add: et_run_def)
qed

section \<open>Who owns what\<close>

text \<open>The address a thread will still use, and that of \<open>main\<close>.\<close>

fun et_arg :: "et_pc \<Rightarrow> nat option" where
  "et_arg (EtLoad p) = Some p" | "et_arg (EtDetach p fd) = Some p" | "et_arg (EtFree p fd) = Some p" | "et_arg _ = None"

fun mt_arg :: "et_main_pc \<Rightarrow> nat option" where
  "mt_arg MtMalloc = None" | "mt_arg (MtAccept a) = Some a" | "mt_arg (MtCreate a) = Some a"

text \<open>The descriptor a thread will close.\<close>

fun et_fd :: "(nat \<Rightarrow> int option option) \<Rightarrow> et_pc \<Rightarrow> int option" where
  "et_fd h (EtLoad p) = (case h p of None \<Rightarrow> None | Some v \<Rightarrow> v)"
| "et_fd h (EtDetach p fd) = Some fd" | "et_fd h (EtFree p fd) = Some fd" | "et_fd h (EtInitb fd) = Some fd"
| "et_fd h (EtRead fd) = Some fd" | "et_fd h (EtPrint fd n d) = Some fd" | "et_fd h (EtWrite fd n d) = Some fd"
| "et_fd h (EtClose fd) = Some fd" | "et_fd h EtDone = None"

text \<open>
  Every allocated block has one owner, a thread or \<open>main\<close>; every open descriptor leads to the
  connection of one thread, thread \<open>k\<close> to connection \<open>k\<close>, or to the one \<open>main\<close> hands on.
\<close>

definition heap_ok :: "et_main_pc \<Rightarrow> (nat \<Rightarrow> int option option) \<Rightarrow> et_pc list \<Rightarrow> bool" where
  "heap_ok m h ps \<longleftrightarrow>
     (\<forall>i < length ps. \<forall>j < length ps. \<forall>a. et_arg (ps ! i) = Some a \<longrightarrow> et_arg (ps ! j) = Some a \<longrightarrow> i = j) \<and>
     (\<forall>i < length ps. \<forall>a. et_arg (ps ! i) = Some a \<longrightarrow> mt_arg m \<noteq> Some a) \<and>
     (\<forall>a. h a \<noteq> None \<longleftrightarrow> mt_arg m = Some a \<or> (\<exists>i < length ps. et_arg (ps ! i) = Some a))"

definition served_by :: "(nat \<Rightarrow> int option option) \<Rightarrow> et_pc \<Rightarrow> (int \<Rightarrow> nat option) \<Rightarrow> nat \<Rightarrow> bool" where
  "served_by h p fds i \<longleftrightarrow>
     (if p = EtDone then \<forall>fd. fds fd \<noteq> Some i else \<exists>fd. et_fd h p = Some fd \<and> fds fd = Some i)"

definition handed_on :: "et_main_pc \<Rightarrow> (nat \<Rightarrow> int option option) \<Rightarrow> (int \<Rightarrow> nat option) \<Rightarrow> nat \<Rightarrow> nat \<Rightarrow> bool" where
  "handed_on m h fds n nc \<longleftrightarrow>
     (case m of
        MtCreate a \<Rightarrow> nc = Suc n \<and> (\<exists>fd. h a = Some (Some fd) \<and> fds fd = Some n)
      | _ \<Rightarrow> nc = n)"

definition table_ok :: "et_main_pc \<Rightarrow> (nat \<Rightarrow> int option option) \<Rightarrow> et_pc list \<Rightarrow> (int \<Rightarrow> nat option) \<Rightarrow> nat \<Rightarrow> bool" where
  "table_ok m h ps fds nc \<longleftrightarrow>
     (\<forall>fd fd' c. fds fd = Some c \<longrightarrow> fds fd' = Some c \<longrightarrow> fd = fd') \<and> (\<forall>fd c. fds fd = Some c \<longrightarrow> c < nc) \<and>
     (\<forall>i < length ps. served_by h (ps ! i) fds i) \<and> handed_on m h fds (length ps) nc"

end
