(* ===== verification/Echo_Threads_Proofs.thy ===== *)
theory Echo_Threads_Proofs
  imports Echo_Threads
begin

text \<open>
  The invariants of the threaded echo server: the owners of blocks and descriptors, what each
  thread has done to its connection, and the work that is left.
\<close>

section \<open>Blocks\<close>

lemma heap_ok_inj: "heap_ok m h ps \<Longrightarrow> i < length ps \<Longrightarrow> j < length ps \<Longrightarrow> et_arg (ps ! i) = Some a \<Longrightarrow>
    et_arg (ps ! j) = Some a \<Longrightarrow> i = j"
  unfolding heap_ok_def by blast

lemma heap_ok_main: "heap_ok m h ps \<Longrightarrow> i < length ps \<Longrightarrow> et_arg (ps ! i) = Some a \<Longrightarrow> mt_arg m \<noteq> Some a"
  unfolding heap_ok_def by blast

lemma heap_ok_dom: "heap_ok m h ps \<Longrightarrow> h a \<noteq> None \<longleftrightarrow> mt_arg m = Some a \<or> (\<exists>i < length ps. et_arg (ps ! i) = Some a)"
  unfolding heap_ok_def by blast

lemma heap_ok_arg: "heap_ok m h ps \<Longrightarrow> i < length ps \<Longrightarrow> et_arg (ps ! i) = Some a \<Longrightarrow> h a \<noteq> None"
  using heap_ok_dom [of m h ps a] by blast

lemma heap_ok_malloc:
  assumes "heap_ok MtMalloc h ps" and "h a = None"
  shows "heap_ok (MtAccept a) (h(a \<mapsto> None)) ps"
proof -
  have "et_arg (ps ! i) \<noteq> Some a" if "i < length ps" for i
    using heap_ok_arg [OF assms(1) that] assms(2) by blast
  moreover from this have "mt_arg (MtAccept a) \<noteq> Some b" if "i < length ps" "et_arg (ps ! i) = Some b" for i b
    using that by auto
  ultimately show ?thesis using assms(1) unfolding heap_ok_def by simp
qed

lemma heap_ok_accept:
  assumes "heap_ok (MtAccept a) h ps"
  shows "h a \<noteq> None" and "heap_ok (MtCreate a) (h(a \<mapsto> v)) ps"
  using assms unfolding heap_ok_def by simp_all

lemma heap_ok_create:
  assumes "heap_ok (MtCreate a) h ps"
  shows "heap_ok MtMalloc h (ps @ [EtLoad a])"
proof -
  have fresh: "et_arg (ps ! i) \<noteq> Some a" if "i < length ps" for i
    using heap_ok_main [OF assms that] by force
  let ?ps = "ps @ [EtLoad a]"
  have old: "et_arg (?ps ! i) = et_arg (ps ! i)" if "i < length ps" for i using that by (simp add: nth_append)
  have "i = j" if ij: "i < length ?ps" "j < length ?ps" "et_arg (?ps ! i) = Some b" "et_arg (?ps ! j) = Some b" for i j b
  proof (cases "i < length ps")
    case True
    show ?thesis
    proof (cases "j < length ps")
      case True
      with \<open>i < length ps\<close> ij heap_ok_inj [OF assms, of i j b] old show ?thesis by simp
    next
      case False
      with ij(2) have "j = length ps" by simp
      with \<open>i < length ps\<close> ij(3,4) fresh [of i] old show ?thesis by simp
    qed
  next
    case False
    with ij(1) have i: "i = length ps" by simp
    show ?thesis
    proof (cases "j < length ps")
      case True
      with i ij(3,4) fresh [of j] old show ?thesis by simp
    next
      case False
      with i ij(2) show ?thesis by simp
    qed
  qed
  moreover have "h b \<noteq> None \<longleftrightarrow> (\<exists>i < length ?ps. et_arg (?ps ! i) = Some b)" for b
  proof -
    have "(\<exists>i < length ?ps. et_arg (?ps ! i) = Some b) \<longleftrightarrow> a = b \<or> (\<exists>i < length ps. et_arg (ps ! i) = Some b)"
      using old by (auto simp: Ex_less_Suc)
    with heap_ok_dom [OF assms, of b] show ?thesis by simp
  qed
  ultimately show ?thesis unfolding heap_ok_def by auto
qed

lemma heap_ok_keep:
  assumes "heap_ok m h ps" and "i < length ps" and "et_arg q = et_arg (ps ! i)"
  shows "heap_ok m h (ps[i := q])"
proof -
  have "et_arg (ps[i := q] ! j) = et_arg (ps ! j)" for j using assms(2,3) by (cases "j = i") simp_all
  with assms(1) show ?thesis unfolding heap_ok_def by simp
qed

lemma heap_ok_free:
  assumes "heap_ok m h ps" and "i < length ps" and "et_arg (ps ! i) = Some a" and "et_arg q = None"
  shows "heap_ok m (h(a := None)) (ps[i := q])"
proof -
  have q: "et_arg (ps[i := q] ! j) = Some b \<longleftrightarrow> j \<noteq> i \<and> et_arg (ps ! j) = Some b" for j b
    using assms(2,4) by (cases "j = i") simp_all
  have "et_arg (ps ! j) \<noteq> Some a" if "j < length ps" "j \<noteq> i" for j
    using heap_ok_inj [OF assms(1,2) that(1) assms(3)] that(2) by blast
  moreover have "mt_arg m \<noteq> Some a" by (rule heap_ok_main [OF assms(1-3)])
  ultimately have "(h(a := None)) b \<noteq> None \<longleftrightarrow> mt_arg m = Some b \<or> (\<exists>j < length ps. j \<noteq> i \<and> et_arg (ps ! j) = Some b)" for b
    using heap_ok_dom [OF assms(1), of b] assms(3) by (cases "b = a") auto
  with assms(1) show ?thesis unfolding heap_ok_def q length_list_update by blast
qed

section \<open>Descriptors\<close>

lemma table_ok_inj: "table_ok m h ps fds nc \<Longrightarrow> fds fd = Some c \<Longrightarrow> fds fd' = Some c \<Longrightarrow> fd = fd'"
  unfolding table_ok_def by blast

lemma table_ok_served: "table_ok m h ps fds nc \<Longrightarrow> i < length ps \<Longrightarrow> served_by h (ps ! i) fds i"
  unfolding table_ok_def by blast

lemma table_ok_bound: "table_ok m h ps fds nc \<Longrightarrow> fds fd = Some c \<Longrightarrow> c < nc"
  unfolding table_ok_def by blast

lemma table_ok_handed: "table_ok m h ps fds nc \<Longrightarrow> handed_on m h fds (length ps) nc"
  unfolding table_ok_def by blast

lemma table_okI:
  assumes "\<And>fd fd' c. fds fd = Some c \<Longrightarrow> fds fd' = Some c \<Longrightarrow> fd = fd'"
    and "\<And>fd c. fds fd = Some c \<Longrightarrow> c < nc"
    and "\<And>i. i < length ps \<Longrightarrow> served_by h (ps ! i) fds i"
    and "handed_on m h fds (length ps) nc"
  shows "table_ok m h ps fds nc"
  using assms unfolding table_ok_def by blast

lemma et_fd_upd: "et_arg p \<noteq> Some a \<Longrightarrow> et_fd (h(a := v)) p = et_fd h p"
  by (cases p) auto

text \<open>A block is taken, stored to or freed that no other thread has.\<close>

lemma table_ok_heap:
  assumes "table_ok m h ps fds nc" and "\<And>i. i < length ps \<Longrightarrow> et_arg (ps ! i) \<noteq> Some a" and "mt_arg m \<noteq> Some a"
  shows "table_ok m (h(a := v)) ps fds nc"
proof (rule table_okI)
  show "served_by (h(a := v)) (ps ! i) fds i" if "i < length ps" for i
    using table_ok_served [OF assms(1) that] assms(2) [OF that] by (simp add: served_by_def et_fd_upd)
  show "handed_on m (h(a := v)) fds (length ps) nc"
    using table_ok_handed [OF assms(1)] assms(3) by (cases m) (simp_all add: handed_on_def)
qed (rule table_ok_inj [OF assms(1)] table_ok_bound [OF assms(1)]; assumption)+

lemma table_ok_malloc:
  assumes "table_ok MtMalloc h ps fds nc"
  shows "table_ok (MtAccept a) h ps fds nc"
  using assms unfolding table_ok_def handed_on_def by (elim conjE, intro conjI) simp_all

lemma table_ok_accept:
  assumes "table_ok (MtAccept a) h ps fds nc" and "\<And>i. i < length ps \<Longrightarrow> et_arg (ps ! i) \<noteq> Some a"
    and "fds fd = None"
  shows "table_ok (MtCreate a) (h(a \<mapsto> Some fd)) ps (fds(fd \<mapsto> nc)) (Suc nc)"
proof (rule table_okI)
  note bound = table_ok_bound [OF assms(1)]
  have nc: "nc = length ps" using table_ok_handed [OF assms(1)] by (simp add: handed_on_def)
  show "served_by (h(a \<mapsto> Some fd)) (ps ! i) (fds(fd \<mapsto> nc)) i" if i: "i < length ps" for i
  proof (cases "ps ! i = EtDone")
    case True
    with table_ok_served [OF assms(1) i] i nc show ?thesis by (simp add: served_by_def)
  next
    case False
    with table_ok_served [OF assms(1) i] obtain f where f: "et_fd h (ps ! i) = Some f" "fds f = Some i"
      by (auto simp: served_by_def)
    with assms(3) have "(fds(fd \<mapsto> nc)) f = Some i" by auto
    with f(1) False assms(2) [OF i] show ?thesis by (simp add: served_by_def et_fd_upd)
  qed
  show "f = f'" if "(fds(fd \<mapsto> nc)) f = Some c" "(fds(fd \<mapsto> nc)) f' = Some c" for f f' c
    using that bound [of f c] bound [of f' c] table_ok_inj [OF assms(1), of f c f'] by (auto split: if_splits)
  show "c < Suc nc" if "(fds(fd \<mapsto> nc)) f = Some c" for f c
    using that bound [of f c] by (auto split: if_splits)
  show "handed_on (MtCreate a) (h(a \<mapsto> Some fd)) (fds(fd \<mapsto> nc)) (length ps) (Suc nc)"
    using nc by (simp add: handed_on_def)
qed

lemma table_ok_create:
  assumes "table_ok (MtCreate a) h ps fds nc"
  shows "table_ok MtMalloc h (ps @ [EtLoad a]) fds nc"
proof (rule table_okI)
  obtain fd where nc: "nc = Suc (length ps)" and fd: "h a = Some (Some fd)" "fds fd = Some (length ps)"
    using table_ok_handed [OF assms] by (auto simp: handed_on_def)
  show "served_by h ((ps @ [EtLoad a]) ! i) fds i" if "i < length (ps @ [EtLoad a])" for i
    using that table_ok_served [OF assms, of i] fd
    by (cases "i < length ps") (auto simp: nth_append served_by_def not_less less_Suc_eq_le)
  show "handed_on MtMalloc h fds (length (ps @ [EtLoad a])) nc" using nc by (simp add: handed_on_def)
qed (rule table_ok_inj [OF assms] table_ok_bound [OF assms]; assumption)+

text \<open>A thread moves and keeps its descriptor, or closes it.\<close>

lemma table_ok_keep:
  assumes "table_ok m h ps fds nc" and "i < length ps" and "ps ! i \<noteq> EtDone" and "q \<noteq> EtDone"
    and "et_fd h q = et_fd h (ps ! i)"
  shows "table_ok m h (ps[i := q]) fds nc"
proof -
  have "served_by h (ps[i := q] ! j) fds j" if "j < length ps" for j
    using table_ok_served [OF assms(1) that] assms(2-5) by (cases "j = i") (simp_all add: served_by_def)
  with assms(1) show ?thesis by (simp add: table_ok_def)
qed

lemma table_ok_close:
  assumes "table_ok m h ps fds nc" and "i < length ps" and "ps ! i = EtClose fd"
  shows "table_ok m h (ps[i := EtDone]) (fds(fd := None)) nc"
proof -
  let ?fds = "fds(fd := None)"
  have fd: "fds fd = Some i" using table_ok_served [OF assms(1,2)] assms(3) by (simp add: served_by_def)
  have gone: "?fds f \<noteq> Some i" for f using table_ok_inj [OF assms(1), of f i fd] fd by auto
  have keep: "?fds f = Some j \<longleftrightarrow> fds f = Some j" if "j \<noteq> i" for f j using fd that by auto
  have sub: "fds f = Some c" if "?fds f = Some c" for f c using that by (auto split: if_splits)
  have "served_by h (ps[i := EtDone] ! j) ?fds j" if j: "j < length ps" for j
  proof (cases "j = i")
    case True
    with j gone show ?thesis by (simp add: served_by_def)
  next
    case False
    with table_ok_served [OF assms(1) j] keep [OF False] show ?thesis by (simp add: served_by_def)
  qed
  moreover have "handed_on m h ?fds (length ps) nc"
    using assms(1,2) keep [of "length ps"] by (cases m) (simp_all add: table_ok_def handed_on_def)
  moreover have "f = f'" if "?fds f = Some c" "?fds f' = Some c" for f f' c
    using table_ok_inj [OF assms(1) sub [OF that(1)] sub [OF that(2)]] .
  moreover have "c < nc" if "?fds f = Some c" for f c
    using sub [OF that] assms(1) unfolding table_ok_def by blast
  ultimately show ?thesis unfolding table_ok_def length_list_update by blast
qed

section \<open>Ownership\<close>

definition et_pcs :: "et_sys \<Rightarrow> et_pc list" where
  "et_pcs s = map et_pc (et_threads s)"

definition et_own :: "et_sys \<Rightarrow> bool" where
  "et_own s \<longleftrightarrow> heap_ok (et_main s) (et_heap s) (et_pcs s) \<and>
     table_ok (et_main s) (et_heap s) (et_pcs s) (et_fds s) (length (et_conns s)) \<and>
     length (et_clients s) = length (et_conns s)"

lemma et_put_io_sel [simp]:
  "et_main (et_put_io fd v s) = et_main s" "et_heap (et_put_io fd v s) = et_heap s"
  "et_fds (et_put_io fd v s) = et_fds s" "et_clients (et_put_io fd v s) = et_clients s"
  "et_threads (et_put_io fd v s) = et_threads s" "length (et_conns (et_put_io fd v s)) = length (et_conns s)"
  by (simp_all add: et_put_io_def split: option.split)

lemma et_step_frame:
  assumes "et_step strerror p rio s = Some (Ret ((q, rio'), t))"
  shows "et_main t = et_main s" and "et_clients t = et_clients s" and "et_threads t = et_threads s"
    and "length (et_conns t) = length (et_conns s)"
  using assms by (cases p; auto simp: omap_Ret_iff split: option.splits if_splits prod.splits)+

text \<open>A step keeps the block and the descriptor of its thread, or frees the one, or closes the other.\<close>

lemma et_step_kinds:
  assumes "et_step strerror p rio s = Some (Ret ((q, rio'), u))"
  obtains (keep) "p \<noteq> EtDone" and "q \<noteq> EtDone" and "et_arg q = et_arg p" and "et_fd (et_heap s) q = et_fd (et_heap s) p"
      and "et_heap u = et_heap s" and "et_fds u = et_fds s"
  | (free) a fd where "p = EtFree a fd" and "q = EtInitb fd" and "et_heap u = (et_heap s)(a := None)" and "et_fds u = et_fds s"
  | (close) fd where "p = EtClose fd" and "q = EtDone" and "et_heap u = et_heap s" and "et_fds u = (et_fds s)(fd := None)"
proof (cases p)
  case (EtFree a fd)
  with assms show thesis by (intro free [of a fd]) (auto split: if_splits)
next
  case (EtClose fd)
  with assms show thesis by (intro close [of fd]) (auto split: if_splits)
next
  case (EtLoad a)
  with assms obtain fd where "et_heap s a = Some (Some fd)" "q = EtDetach a fd" "u = s" by (auto split: option.splits)
  with EtLoad keep show thesis by simp
next
  case (EtRead fd)
  with assms obtain v where "q = EtClose fd \<or> (\<exists>n d. q = EtPrint fd n d)" "u = et_put_io fd v s"
    by (auto simp: omap_Ret_iff split: prod.splits if_splits)
  with EtRead keep show thesis by auto
next
  case (EtWrite fd n d)
  with assms obtain v where "q = EtRead fd" "u = et_put_io fd v s" by (auto simp: omap_Ret_iff split: prod.splits)
  with EtWrite keep show thesis by simp
next
  case (EtDetach a fd)
  with assms have "q = EtFree a fd" "u = s" by auto
  with EtDetach keep show thesis by simp
next
  case (EtInitb fd)
  with assms have "q = EtRead fd" "u = s" by auto
  with EtInitb keep show thesis by simp
next
  case (EtPrint fd n d)
  with assms obtain m where "q = EtWrite fd n d" "u = s\<lparr>et_out := m\<rparr>" by auto
  with EtPrint keep show thesis by simp
qed (use assms in simp)

lemma et_run_own:
  assumes own: "et_own s" and run: "et_run strerror i s = Some (Ret t)"
  shows "et_own t"
proof -
  let ?p = "et_pc (et_threads s ! i)" and ?ps = "et_pcs s"
  from run obtain q rio u where i: "i < length (et_threads s)"
    and st: "et_step strerror ?p (et_rio (et_threads s ! i)) s = Some (Ret ((q, rio), u))"
    and t: "t = u\<lparr>et_threads := (et_threads u)[i := \<lparr>et_pc = q, et_rio = rio\<rparr>]\<rparr>"
    by (rule et_runE)
  note frame = et_step_frame [OF st]
  have p: "i < length ?ps" "?ps ! i = ?p" and pcs: "et_pcs t = ?ps[i := q]"
    using i t frame by (simp_all add: et_pcs_def map_update)
  from own have h: "heap_ok (et_main s) (et_heap s) ?ps"
    and tb: "table_ok (et_main s) (et_heap s) ?ps (et_fds s) (length (et_conns s))" by (simp_all add: et_own_def)
  have "heap_ok (et_main s) (et_heap u) (?ps[i := q]) \<and>
    table_ok (et_main s) (et_heap u) (?ps[i := q]) (et_fds u) (length (et_conns s))"
    using st
  proof (cases rule: et_step_kinds)
    case keep
    with heap_ok_keep [OF h p(1), of q] table_ok_keep [OF tb p(1), of q] p(2) show ?thesis by simp
  next
    case (free a fd)
    have arg: "et_arg (?ps ! i) = Some a" using p(2) free(1) by simp
    have t1: "table_ok (et_main s) (et_heap s) (?ps[i := q]) (et_fds s) (length (et_conns s))"
      using free p(2) by (intro table_ok_keep [OF tb p(1)]) simp_all
    have "et_arg (?ps[i := q] ! j) \<noteq> Some a" if "j < length (?ps[i := q])" for j
    proof (cases "j = i")
      case False
      with heap_ok_inj [OF h p(1), of j a] arg that show ?thesis by auto
    qed (use p free(2) in simp)
    from table_ok_heap [OF t1 this heap_ok_main [OF h p(1) arg]] heap_ok_free [OF h p(1) arg, of q] free
    show ?thesis by simp
  next
    case (close fd)
    with table_ok_close [OF tb p(1)] heap_ok_keep [OF h p(1), of q] p(2) show ?thesis by simp
  qed
  with own pcs frame show ?thesis by (simp add: et_own_def t)
qed

lemma et_next_own:
  assumes own: "et_own s" and step: "et_next strerror rp l s = Some (Ret t)"
  shows "et_own t"
proof (cases l)
  case (Mallocs p)
  from step obtain a where a: "et_main s = MtMalloc" "et_heap s a = None"
    "t = s\<lparr>et_heap := (et_heap s)(a \<mapsto> None), et_main := MtAccept a\<rparr>"
    by (auto simp: Mallocs et_malloc_def split: et_main_pc.splits option.splits if_splits)
  from own a(1) have h: "heap_ok MtMalloc (et_heap s) (et_pcs s)"
    and tb: "table_ok MtMalloc (et_heap s) (et_pcs s) (et_fds s) (length (et_conns s))" by (simp_all add: et_own_def)
  have "et_arg (et_pcs s ! i) \<noteq> Some a" if "i < length (et_pcs s)" for i
    using heap_ok_arg [OF h that] a(2) by blast
  then have "table_ok MtMalloc ((et_heap s)(a \<mapsto> None)) (et_pcs s) (et_fds s) (length (et_conns s))"
    by (intro table_ok_heap [OF tb]) simp_all
  with own heap_ok_malloc [OF h a(2)] show ?thesis by (simp add: et_own_def et_pcs_def a(3) table_ok_malloc)
next
  case (Accepted fd v)
  from step obtain a where a: "et_main s = MtAccept a" "et_fds s fd = None"
    "t = s\<lparr>et_heap := (et_heap s)(a \<mapsto> Some fd), et_main := MtCreate a, et_fds := (et_fds s)(fd \<mapsto> length (et_conns s)),
       et_conns := et_conns s @ [v], et_clients := et_clients s @ [v]\<rparr>"
    by (auto simp: Accepted et_accept_def split: et_main_pc.splits if_splits)
  from own a(1) have h: "heap_ok (MtAccept a) (et_heap s) (et_pcs s)"
    and tb: "table_ok (MtAccept a) (et_heap s) (et_pcs s) (et_fds s) (length (et_conns s))" by (simp_all add: et_own_def)
  have "et_arg (et_pcs s ! i) \<noteq> Some a" if "i < length (et_pcs s)" for i
    using heap_ok_main [OF h that] by force
  from table_ok_accept [OF tb this a(2)] own heap_ok_accept(2) [OF h] show ?thesis
    by (simp add: et_own_def et_pcs_def a(3))
next
  case (Creates rc)
  from step obtain a where a: "et_main s = MtCreate a"
    "t = s\<lparr>et_main := MtMalloc, et_threads := et_threads s @ [\<lparr>et_pc = EtLoad a, et_rio = rp\<rparr>]\<rparr>"
    by (auto simp: Creates et_create_def split: et_main_pc.splits if_splits)
  with own heap_ok_create [of a "et_heap s" "et_pcs s"] table_ok_create [of a "et_heap s" "et_pcs s"] show ?thesis
    by (simp add: et_own_def et_pcs_def)
next
  case (Thread i)
  with step et_run_own [OF own, of strerror i t] show ?thesis by simp
qed

lemma et_reach_own: "et_reach strerror rp s \<Longrightarrow> et_own s"
proof (induction rule: et_reach.induct)
  case et_reach_init
  then show ?case by (simp add: et_own_def et_init_def et_pcs_def heap_ok_def table_ok_def handed_on_def)
qed (rule et_next_own)

text \<open>A running thread has its connection open under its descriptor.\<close>

lemma et_own_fd:
  assumes "et_own s" and "i < length (et_threads s)" and "et_pc (et_threads s ! i) \<noteq> EtDone"
  obtains fd where "et_fd (et_heap s) (et_pc (et_threads s ! i)) = Some fd" and "et_fds s fd = Some i" and "i < length (et_conns s)"
proof -
  have tb: "table_ok (et_main s) (et_heap s) (et_pcs s) (et_fds s) (length (et_conns s))" using assms(1) by (simp add: et_own_def)
  from table_ok_served [OF tb, of i] assms(2,3)
  obtain fd where "et_fd (et_heap s) (et_pc (et_threads s ! i)) = Some fd" "et_fds s fd = Some i"
    by (auto simp: served_by_def et_pcs_def)
  with table_ok_bound [OF tb] that show thesis by blast
qed

text \<open>A thread never uses a block that it does not own, or a descriptor that is not open.\<close>

lemma et_step_sound:
  assumes own: "et_own s" and i: "i < length (et_threads s)"
    and st: "et_step strerror (et_pc (et_threads s ! i)) rio s = Some r"
  shows "(\<exists>x. r = Ret x) \<or>
    (\<exists>fd n. et_pc (et_threads s ! i) = EtRead fd \<and> fst (Rio_readlineb strerror MAXLINE (rio, et_io fd s)) = Exited n \<and> r = Exited n) \<or>
    (\<exists>fd m d n. et_pc (et_threads s ! i) = EtWrite fd m d \<and> fst (Rio_writen strerror d (et_io fd s)) = Exited n \<and> r = Exited n)"
proof -
  let ?p = "et_pc (et_threads s ! i)"
  have "?p \<noteq> EtDone" using st by auto
  then obtain fd where fd: "et_fd (et_heap s) ?p = Some fd" "et_fds s fd = Some i" by (rule et_own_fd [OF own i])
  have arg: "et_heap s a \<noteq> None" if "et_arg ?p = Some a" for a
    using heap_ok_arg [of "et_main s" "et_heap s" "et_pcs s" i a] own i that by (simp add: et_own_def et_pcs_def)
  show ?thesis
  proof (cases ?p)
    case (EtLoad a)
    with fd st show ?thesis by (auto split: option.splits)
  next
    case (EtFree a f)
    with arg [of a] st show ?thesis by auto
  next
    case (EtRead f)
    with st show ?thesis
      by (cases "fst (Rio_readlineb strerror MAXLINE (rio, et_io f s))")
        (auto simp: Rio_readlineb_def on_io_def unix_error_def split: prod.splits if_splits)
  next
    case (EtWrite f m d)
    with st show ?thesis
      by (cases "fst (Rio_writen strerror d (et_io f s))")
        (auto simp: Rio_writen_def unix_error_def split: prod.splits if_splits)
  next
    case (EtClose f)
    with fd st show ?thesis by auto
  qed (use st in auto)
qed

lemma et_next_no_fault:
  assumes own: "et_own s" and step: "et_next strerror rp l s = Some r"
  shows "r \<noteq> Fault e"
proof (cases l)
  case (Mallocs p)
  with step show ?thesis by (auto simp: et_malloc_def split: et_main_pc.splits option.splits if_splits)
next
  case (Accepted fd v)
  have "et_heap s a \<noteq> None" if "et_main s = MtAccept a" for a
    using own that heap_ok_accept(1) [of a "et_heap s" "et_pcs s"] by (simp add: et_own_def)
  with step Accepted show ?thesis by (auto simp: et_accept_def split: et_main_pc.splits if_splits)
next
  case (Creates rc)
  with step show ?thesis by (auto simp: et_create_def split: et_main_pc.splits if_splits)
next
  case (Thread i)
  with step have i: "i < length (et_threads s)" by (auto simp: et_run_def split: if_splits)
  with step Thread obtain q f where q: "et_step strerror (et_pc (et_threads s ! i)) (et_rio (et_threads s ! i)) s = Some q"
    and r: "r = omap f q" by (auto simp: et_run_def)
  from et_step_sound [OF own i q] r show ?thesis by auto
qed

text \<open>The number of owners of a block.\<close>

lemma heap_ok_owner:
  assumes "heap_ok m h ps"
  shows "(if mt_arg m = Some a then 1 else 0) + cnt (\<lambda>p. et_arg p = Some a) ps = (if h a = None then 0 else 1)"
proof -
  let ?c = "cnt (\<lambda>p. et_arg p = Some a) ps"
  have le: "?c \<le> 1"
    using heap_ok_inj [OF assms] at_most_one_alt [of "\<lambda>p. et_arg p = Some a" ps] by (simp add: at_most_one_def cnt_def)
  show ?thesis
  proof (cases "\<exists>i < length ps. et_arg (ps ! i) = Some a")
    case True
    then obtain i where i: "i < length ps" "et_arg (ps ! i) = Some a" by blast
    with cnt_pos [OF i(1), of "\<lambda>p. et_arg p = Some a"] le heap_ok_main [OF assms i] heap_ok_arg [OF assms i]
    show ?thesis by simp
  next
    case False
    then have "?c = 0" by (intro cnt_none) (auto simp: in_set_conv_nth)
    moreover have "h a \<noteq> None \<longleftrightarrow> mt_arg m = Some a" using heap_ok_dom [OF assms, of a] False by blast
    ultimately show ?thesis by auto
  qed
qed

end
