(* ===== verification/Echo_Threads_Props.thy ===== *)
theory Echo_Threads_Props
  imports Echo_Threads_Proofs "HOL-Library.Code_Target_Nat"
begin

text \<open>
  The properties of the echo server with a thread per connection: every block and every
  descriptor has one owner, and every client gets back what it sent, after a bounded number
  of steps in any order.
\<close>

section \<open>What the threads have done\<close>

text \<open>The positions of \<open>Echo_Cnt\<close> at which as much of the line has been read and written.\<close>

fun et_cn :: "et_pc \<Rightarrow> cn_pc" where
  "et_cn (EtLoad p) = CnInitb" | "et_cn (EtDetach p fd) = CnInitb" | "et_cn (EtFree p fd) = CnInitb"
| "et_cn (EtInitb fd) = CnInitb" | "et_cn (EtRead fd) = CnRead" | "et_cn (EtPrint fd n d) = CnP n d"
| "et_cn (EtWrite fd n d) = CnWrite n d" | "et_cn (EtClose fd) = CnDone" | "et_cn EtDone = CnDone"

definition et_conn :: "nat \<Rightarrow> et_sys \<Rightarrow> rio_t \<times> io" where
  "et_conn i s = (et_rio (et_threads s ! i), et_conns s ! i)"

definition et_serving :: "et_sys \<Rightarrow> bool" where
  "et_serving s \<longleftrightarrow>
     (\<forall>i < length (et_threads s). conn_ok (client_data (et_clients s ! i)) (et_cn (et_pc (et_threads s ! i))) (et_conn i s)) \<and>
     (\<forall>i < length (et_conns s). length (et_threads s) \<le> i \<longrightarrow> et_conns s ! i = et_clients s ! i)"

text \<open>The steps a thread can still make.\<close>

fun et_pc_work :: "et_pc \<Rightarrow> int" where
  "et_pc_work (EtLoad p) = 7" | "et_pc_work (EtDetach p fd) = 6" | "et_pc_work (EtFree p fd) = 5"
| "et_pc_work (EtInitb fd) = 4" | "et_pc_work (EtRead fd) = 3" | "et_pc_work (EtPrint fd n d) = 5"
| "et_pc_work (EtWrite fd n d) = 4" | "et_pc_work (EtClose fd) = 1" | "et_pc_work EtDone = 0"

definition et_unread :: "et_pc \<Rightarrow> rio_t \<times> io \<Rightarrow> string" where
  "et_unread p c =
     (if et_cn p = CnInitb then stream (io_in (snd c)) else if et_cn p = CnDone then [] else rio_rest c)"

definition et_left :: "et_pc \<Rightarrow> rio_t \<times> io \<Rightarrow> int" where
  "et_left p c = 3 * int (length (et_unread p c)) + et_pc_work p"

definition et_work :: "et_sys \<Rightarrow> int" where
  "et_work s = (\<Sum>i\<leftarrow>[0..<length (et_threads s)]. et_left (et_pc (et_threads s ! i)) (et_conn i s))"

lemma et_left_nonneg: "0 \<le> et_left p c"
  by (cases p) (simp_all add: et_left_def)

text \<open>One step of the thread of connection \<open>i\<close>.\<close>

lemma et_step_conn:
  assumes st: "et_step strerror p rio s = Some r" and fd: "et_fd (et_heap s) p = Some fd" "et_fds s fd = Some i"
    and i: "i < length (et_conns s)" and conn: "conn_ok w (et_cn p) (rio, et_conns s ! i)"
    and arg: "\<And>a. et_arg p = Some a \<Longrightarrow> et_heap s a \<noteq> None"
  obtains q rio' u where "r = Ret ((q, rio'), u)" and "conn_ok w (et_cn q) (rio', et_conns u ! i)"
    and "et_left q (rio', et_conns u ! i) < et_left p (rio, et_conns s ! i)"
    and "\<And>j. j \<noteq> i \<Longrightarrow> et_conns u ! j = et_conns s ! j"
proof (cases p)
  case (EtLoad a)
  with st fd have "r = Ret ((EtDetach a fd, rio), s)" by (auto split: option.splits)
  with that [of "EtDetach a fd" rio s] EtLoad conn show thesis by (simp add: et_left_def et_unread_def)
next
  case (EtDetach a f)
  with st that [of "EtFree a f" rio s] conn show thesis by (simp add: et_left_def et_unread_def)
next
  case (EtFree a f)
  let ?u = "s\<lparr>et_heap := (et_heap s)(a := None)\<rparr>"
  from EtFree arg [of a] st have "r = Ret ((EtInitb f, rio), ?u)" by auto
  with that [of "EtInitb f" rio ?u] EtFree conn show thesis by (simp add: et_left_def et_unread_def)
next
  case (EtInitb f)
  have q: "quiet (io_in (et_conns s ! i))" using conn EtInitb by (simp add: conn_ok_def)
  have "cn_step strerror f CnInitb (rio, et_conns s ! i) cn_static =
      Some (Ret (CnRead, (Rio_readinitb f rio, et_conns s ! i)), cn_static)" by simp
  with cn_step_conn [of strerror f CnInitb "(rio, et_conns s ! i)" cn_static] conn EtInitb
  have "conn_ok w CnRead (Rio_readinitb f rio, et_conns s ! i)" by simp
  with that [of "EtRead f" "Rio_readinitb f rio" s] st EtInitb rio_init [OF q, of f rio] show thesis
    by (simp add: et_left_def et_unread_def Rio_readinitb_def)
next
  case (EtRead f)
  with fd have f: "f = fd" "et_io f s = et_conns s ! i" by (simp_all add: et_io_def)
  have ok: "rio_ok (rio, et_conns s ! i)" using conn EtRead by (simp add: conn_ok_def)
  let ?c = "(rio, et_conns s ! i)"
  show thesis
  proof (cases rule: Rio_readlineb_cases [OF ok, of strerror])
    case (1 t)
    have "cn_step strerror f CnRead ?c cn_static = Some (Ret (CnDone, t), cn_static)" using 1(1) by simp
    from cn_step_conn [OF this] conn EtRead have "conn_ok w CnDone (fst t, snd t)" by simp
    with that [of "EtClose f" "fst t" "et_put_io f (snd t) s"] st EtRead f fd 1 i show thesis
      by (simp add: et_put_io_def et_left_def et_unread_def)
  next
    case (2 l t)
    have "cn_step strerror f CnRead ?c cn_static = Some (Ret (CnP (int (length l)) l, t), cn_static)" using 2(1,2) by simp
    from cn_step_conn [OF this] conn EtRead have "conn_ok w (CnP (int (length l)) l) (fst t, snd t)" by simp
    moreover have "2 < 3 * int (length l)" using 2(2) by (cases l) simp_all
    ultimately show thesis
      using that [of "EtPrint f (int (length l)) l" "fst t" "et_put_io f (snd t) s"] st EtRead f fd 2 i
      by (simp add: et_put_io_def et_left_def et_unread_def)
  qed
next
  case (EtPrint f n d)
  with st that [of "EtWrite f n d" rio "s\<lparr>et_out := et_out s @ ''server received '' @ show_int n @ '' bytes'' @ [LF]\<rparr>"] conn
  show thesis by (simp add: et_left_def et_unread_def conn_ok_def)
next
  case (EtWrite f n d)
  with fd have f: "f = fd" "et_io f s = et_conns s ! i" by (simp_all add: et_io_def)
  have "wr_quiet (io_plan (et_conns s ! i))" using conn by (simp add: conn_ok_def)
  then obtain v where v: "Rio_writen strerror d (et_conns s ! i) = (Ret (), v)" "wrote d (et_conns s ! i) v"
    by (rule Rio_writen_quiet)
  have "cn_step strerror f (CnWrite n d) (rio, et_conns s ! i) cn_static = Some (Ret (CnRead, (rio, v)), cn_static)"
    using v(1) by (simp add: on_io_def)
  from cn_step_conn [OF this] conn EtWrite have "conn_ok w CnRead (rio, v)" by simp
  with that [of "EtRead f" rio "et_put_io f v s"] st EtWrite f fd v i show thesis
    by (simp add: et_put_io_def et_left_def et_unread_def rio_rest_def wrote_def)
next
  case (EtClose f)
  let ?u = "s\<lparr>et_fds := (et_fds s)(f := None)\<rparr>"
  from EtClose fd st have "r = Ret ((EtDone, rio), ?u)" by auto
  with that [of EtDone rio ?u] EtClose conn show thesis by (simp add: et_left_def et_unread_def)
qed (use fd in simp)

section \<open>All threads\<close>

lemma et_conn_next:
  assumes own: "et_own s" and srv: "et_serving s" and i: "i < length (et_threads s)"
    and run: "et_run strerror i s = Some r"
  obtains t where "r = Ret t" and "et_serving t" and "et_work t < et_work s"
    and "et_clients t = et_clients s" and "length (et_threads t) = length (et_threads s)"
proof -
  let ?a = "et_threads s ! i" and ?n = "length (et_threads s)"
  let ?w = "\<lambda>s j. et_left (et_pc (et_threads s ! j)) (et_conn j s)"
  obtain r' where r': "et_step strerror (et_pc ?a) (et_rio ?a) s = Some r'"
    and r: "r = omap (\<lambda>((q, rio), t). t\<lparr>et_threads := (et_threads t)[i := \<lparr>et_pc = q, et_rio = rio\<rparr>]\<rparr>) r'"
    using run i by (auto simp: et_run_def)
  then have "et_pc ?a \<noteq> EtDone" by auto
  then obtain fd where fd: "et_fd (et_heap s) (et_pc ?a) = Some fd" "et_fds s fd = Some i" "i < length (et_conns s)"
    by (rule et_own_fd [OF own i])
  have arg: "et_heap s a \<noteq> None" if "et_arg (et_pc ?a) = Some a" for a
    using heap_ok_arg [of "et_main s" "et_heap s" "et_pcs s" i a] own i that by (simp add: et_own_def et_pcs_def)
  have "conn_ok (client_data (et_clients s ! i)) (et_cn (et_pc ?a)) (et_rio ?a, et_conns s ! i)"
    using srv i by (simp add: et_serving_def et_conn_def)
  from et_step_conn [OF r' fd this arg] obtain q rio u where u: "r' = Ret ((q, rio), u)"
    "conn_ok (client_data (et_clients s ! i)) (et_cn q) (rio, et_conns u ! i)"
    "et_left q (rio, et_conns u ! i) < et_left (et_pc ?a) (et_rio ?a, et_conns s ! i)"
    "\<And>j. j \<noteq> i \<Longrightarrow> et_conns u ! j = et_conns s ! j" by blast
  note frame = et_step_frame [OF r' [unfolded u(1)]]
  let ?t = "u\<lparr>et_threads := (et_threads u)[i := \<lparr>et_pc = q, et_rio = rio\<rparr>]\<rparr>"
  have same: "et_threads ?t ! j = et_threads s ! j" "et_conn j ?t = et_conn j s" if "j \<noteq> i" for j
    using that u(4) frame by (simp_all add: et_conn_def)
  have self: "et_threads ?t ! i = \<lparr>et_pc = q, et_rio = rio\<rparr>" "et_conn i ?t = (rio, et_conns u ! i)"
    using i frame by (simp_all add: et_conn_def)
  have "conn_ok (client_data (et_clients s ! j)) (et_cn (et_pc (et_threads ?t ! j))) (et_conn j ?t)" if "j < ?n" for j
    using that same self u(2) srv by (cases "j = i") (simp_all add: et_serving_def)
  moreover have "et_conns u ! j = et_clients s ! j" if "j < length (et_conns s)" "?n \<le> j" for j
    using that u(4) [of j] i srv by (auto simp: et_serving_def)
  ultimately have "et_serving ?t" using frame unfolding et_serving_def by simp
  moreover have "map (?w ?t) [0..<?n] = (map (?w s) [0..<?n])[i := ?w ?t i]"
  proof (rule nth_equalityI)
    show "map (?w ?t) [0..<?n] ! j = (map (?w s) [0..<?n])[i := ?w ?t i] ! j" if "j < length (map (?w ?t) [0..<?n])" for j
      using that same by (cases "j = i") simp_all
  qed simp
  then have "et_work ?t = et_work s - ?w s i + ?w ?t i"
    using sum_list_update_int [of i "map (?w s) [0..<?n]" id "?w ?t i"] i frame by (simp add: et_work_def)
  then have "et_work ?t < et_work s" using u(3) self by (simp add: et_conn_def)
  ultimately show thesis using that [of ?t] r u(1) frame by simp
qed

lemma et_next_serving:
  assumes own: "et_own s" and srv: "et_serving s" and step: "et_next strerror rp l s = Some (Ret t)"
    and good: "list_all good_client (et_clients s)"
  shows "et_serving t"
proof (cases l)
  case (Mallocs p)
  with step srv show ?thesis
    by (auto simp: et_malloc_def et_serving_def et_conn_def split: et_main_pc.splits option.splits if_splits)
next
  case (Accepted fd v)
  from step obtain a where a: "et_main s = MtAccept a"
    "t = s\<lparr>et_heap := (et_heap s)(a \<mapsto> Some fd), et_main := MtCreate a, et_fds := (et_fds s)(fd \<mapsto> length (et_conns s)),
       et_conns := et_conns s @ [v], et_clients := et_clients s @ [v]\<rparr>"
    by (auto simp: Accepted et_accept_def split: et_main_pc.splits if_splits)
  with own have "length (et_threads s) = length (et_conns s)" "length (et_clients s) = length (et_conns s)"
    by (simp_all add: et_own_def table_ok_def handed_on_def et_pcs_def)
  with srv show ?thesis by (auto simp: a(2) et_serving_def et_conn_def nth_append)
next
  case (Creates rc)
  let ?n = "length (et_threads s)"
  from step obtain a where a: "et_main s = MtCreate a"
    "t = s\<lparr>et_main := MtMalloc, et_threads := et_threads s @ [\<lparr>et_pc = EtLoad a, et_rio = rp\<rparr>]\<rparr>"
    by (auto simp: Creates et_create_def split: et_main_pc.splits if_splits)
  with own have n: "length (et_conns s) = Suc ?n" "length (et_clients s) = Suc ?n"
    by (simp_all add: et_own_def table_ok_def handed_on_def et_pcs_def)
  with good have "good_client (et_clients s ! ?n)" by (simp add: list_all_length)
  moreover have "et_conns s ! ?n = et_clients s ! ?n" using srv n by (simp add: et_serving_def)
  ultimately have "conn_ok (client_data (et_clients s ! ?n)) CnInitb (rp, et_conns s ! ?n)"
    by (simp add: conn_ok_def good_client_def client_data_def)
  then show ?thesis using srv n unfolding a(2) et_serving_def et_conn_def
    by (auto simp: nth_append less_Suc_eq)
next
  case (Thread i)
  with step have "et_run strerror i s = Some (Ret t)" by simp
  moreover from this have "i < length (et_threads s)" by (auto simp: et_run_def split: if_splits)
  ultimately show ?thesis by (auto elim: et_conn_next [OF own srv])
qed

lemma et_next_clients: "et_next strerror rp l s = Some (Ret t) \<Longrightarrow> \<exists>vs. et_clients t = et_clients s @ vs"
proof (cases l)
  case (Thread i)
  assume "et_next strerror rp l s = Some (Ret t)"
  with Thread show ?thesis by (auto elim!: et_runE dest: et_step_frame(2))
qed (auto simp: et_malloc_def et_accept_def et_create_def split: et_main_pc.splits option.splits if_splits)

lemma et_reach_serving:
  assumes "et_reach strerror rp s" and "list_all good_client (et_clients s)"
  shows "et_serving s"
  using assms
proof (induction rule: et_reach.induct)
  case et_reach_init
  then show ?case by (simp add: et_serving_def et_init_def)
next
  case (et_reach_step s l t)
  then have "list_all good_client (et_clients s)" using et_next_clients [OF et_reach_step.hyps(2)] by auto
  with et_reach_step show ?case using et_next_serving et_reach_own by blast
qed

text \<open>Schedules of events stay among the reachable states.\<close>

interpretation thread_per_client: interleaving "et_next strerror rp" "et_reach strerror rp" for strerror rp
  by unfold_locales (rule et_reach_step)

lemma et_reach_run:
  "schedule (et_next strerror rp) ls s = Some t \<Longrightarrow> et_reach strerror rp s \<Longrightarrow> et_reach strerror rp t"
  by (rule thread_per_client.run_reach)

text \<open>
  What the clients cost: the steps that the threads can make for them. Those that are left are
  the steps of the threads and the cost of a client whose thread is not yet created.
\<close>

definition client_cost :: "io \<Rightarrow> int" where
  "client_cost v = 3 * int (length (client_data v)) + 7"

definition et_budget :: "et_sys \<Rightarrow> int" where
  "et_budget s = et_work s + (\<Sum>v\<leftarrow>drop (length (et_threads s)) (et_clients s). client_cost v)"

definition thread_steps :: "et_event list \<Rightarrow> nat" where
  "thread_steps ls = length (filter (\<lambda>l. \<exists>i. l = Thread i) ls)"

lemma et_budget_nonneg: "0 \<le> et_budget s"
proof -
  have "0 \<le> et_work s" by (auto simp: et_work_def et_left_nonneg intro!: sum_list_nonneg)
  moreover have "0 \<le> (\<Sum>v\<leftarrow>vs. client_cost v)" for vs by (auto simp: client_cost_def intro!: sum_list_nonneg)
  ultimately show ?thesis by (simp add: et_budget_def)
qed

lemma et_next_budget:
  assumes own: "et_own s" and srv: "et_serving s" and step: "et_next strerror rp l s = Some (Ret t)"
  shows "int (thread_steps [l]) + et_budget t + (\<Sum>v\<leftarrow>et_clients s. client_cost v) \<le>
    et_budget s + (\<Sum>v\<leftarrow>et_clients t. client_cost v)"
proof (cases l)
  case (Mallocs p)
  with step show ?thesis
    by (auto simp: et_malloc_def et_budget_def et_work_def et_conn_def thread_steps_def
        split: et_main_pc.splits option.splits if_splits)
next
  case (Accepted fd v)
  from step obtain a where a: "et_main s = MtAccept a" "et_threads t = et_threads s" "et_conns t = et_conns s @ [v]"
    "et_clients t = et_clients s @ [v]"
    by (auto simp: Accepted et_accept_def split: et_main_pc.splits if_splits)
  with own have n: "length (et_threads s) = length (et_conns s)" "length (et_clients s) = length (et_conns s)"
    by (simp_all add: et_own_def table_ok_def handed_on_def et_pcs_def)
  have "et_conn i t = et_conn i s" if "i < length (et_threads s)" for i
    using that a n by (simp add: et_conn_def nth_append)
  then have "et_work t = et_work s" unfolding et_work_def a(2) by (intro arg_cong [of _ _ sum_list] map_cong) auto
  with a n Accepted show ?thesis by (simp add: et_budget_def thread_steps_def)
next
  case (Creates rc)
  let ?n = "length (et_threads s)"
  from step obtain a where a: "et_main s = MtCreate a"
    "t = s\<lparr>et_main := MtMalloc, et_threads := et_threads s @ [\<lparr>et_pc = EtLoad a, et_rio = rp\<rparr>]\<rparr>"
    by (auto simp: Creates et_create_def split: et_main_pc.splits if_splits)
  with own have n: "length (et_conns s) = Suc ?n" "length (et_clients s) = Suc ?n"
    by (simp_all add: et_own_def table_ok_def handed_on_def et_pcs_def)
  have last: "et_conns s ! ?n = et_clients s ! ?n" using srv n by (simp add: et_serving_def)
  have "map (\<lambda>i. et_left (et_pc (et_threads t ! i)) (et_conn i t)) [0..<?n] =
      map (\<lambda>i. et_left (et_pc (et_threads s ! i)) (et_conn i s)) [0..<?n]"
    by (simp add: a(2) et_conn_def nth_append)
  moreover have "et_left (et_pc (et_threads t ! ?n)) (et_conn ?n t) = client_cost (et_clients s ! ?n)"
    by (simp add: a(2) et_conn_def last et_left_def et_unread_def client_cost_def client_data_def)
  moreover have "length (et_threads t) = Suc ?n" by (simp add: a(2))
  ultimately have "et_work t = et_work s + client_cost (et_clients s ! ?n)"
    by (simp add: et_work_def del: map_eq_conv)
  moreover have "drop ?n (et_clients s) = [et_clients s ! ?n]" using n by (simp flip: Cons_nth_drop_Suc)
  ultimately show ?thesis using n Creates by (simp add: et_budget_def a(2) thread_steps_def)
next
  case (Thread i)
  with step have r: "et_run strerror i s = Some (Ret t)" by simp
  then have i: "i < length (et_threads s)" by (auto simp: et_run_def split: if_splits)
  from et_conn_next [OF own srv i r] have "et_work t < et_work s" "et_clients t = et_clients s"
    "length (et_threads t) = length (et_threads s)" by auto
  with Thread show ?thesis by (simp add: et_budget_def thread_steps_def)
qed

lemma et_run_clients:
  "schedule (et_next strerror rp) ls s = Some t \<Longrightarrow> \<exists>vs. et_clients t = et_clients s @ vs"
proof (induction ls arbitrary: s)
  case (Cons l ls)
  then obtain u where u: "et_next strerror rp l s = Some (Ret u)" "schedule (et_next strerror rp) ls u = Some t"
    by (auto split: option.splits outcome.splits)
  from et_next_clients [OF u(1)] Cons.IH [OF u(2)] show ?case by auto
qed simp

lemma et_run_budget:
  assumes "schedule (et_next strerror rp) ls s = Some t" and "et_reach strerror rp s"
    and "list_all good_client (et_clients t)"
  shows "int (thread_steps ls) + et_budget t + (\<Sum>v\<leftarrow>et_clients s. client_cost v) \<le>
    et_budget s + (\<Sum>v\<leftarrow>et_clients t. client_cost v)"
  using assms
proof (induction ls arbitrary: s)
  case Nil
  then show ?case by (simp add: thread_steps_def)
next
  case (Cons l ls)
  obtain u where u: "et_next strerror rp l s = Some (Ret u)" "schedule (et_next strerror rp) ls u = Some t"
    using Cons.prems(1) by (auto split: option.splits outcome.splits)
  have "list_all good_client (et_clients s)" using et_run_clients [OF Cons.prems(1)] Cons.prems(3) by auto
  note srv = et_reach_serving [OF Cons.prems(2) this]
  have "et_reach strerror rp u" by (rule et_reach_step [OF Cons.prems(2) u(1)])
  from Cons.IH [OF u(2) this Cons.prems(3)] et_next_budget [OF et_reach_own [OF Cons.prems(2)] srv u(1)]
  show ?case by (simp add: thread_steps_def split: if_splits)
qed

section \<open>Properties\<close>

text \<open>C34. Every block has one owner: however the threads interleave, a block of the heap belongs to
  \<open>main\<close> or to exactly one thread as long as it is allocated, and no longer; an open descriptor
  is the one its thread will close; and no step of any thread, or of \<open>main\<close>, reads a block that is
  freed or not yet filled, or frees one twice.\<close>

theorem threads_own_blocks:
  assumes "et_reach strerror rp s" and "et_next strerror rp l s = Some r"
  shows "(\<forall>e. r \<noteq> Fault e) \<and>
    (\<forall>a. (if mt_arg (et_main s) = Some a then 1 else 0) + cnt (\<lambda>t. et_arg (et_pc t) = Some a) (et_threads s) =
       (if et_heap s a = None then 0 else (1 :: nat))) \<and>
    (\<forall>fd i. et_fds s fd = Some i \<and> i < length (et_threads s) \<longrightarrow> et_fd (et_heap s) (et_pc (et_threads s ! i)) = Some fd)"
proof (intro conjI allI impI)
  have own: "et_own s" by (rule et_reach_own [OF assms(1)])
  have h: "heap_ok (et_main s) (et_heap s) (et_pcs s)"
    and tb: "table_ok (et_main s) (et_heap s) (et_pcs s) (et_fds s) (length (et_conns s))"
    using own by (simp_all add: et_own_def)
  show "r \<noteq> Fault e" for e
    using et_next_no_fault [OF own assms(2)] .
  show "(if mt_arg (et_main s) = Some a then 1 else 0) + cnt (\<lambda>t. et_arg (et_pc t) = Some a) (et_threads s) =
       (if et_heap s a = None then 0 else (1 :: nat))" for a
    using heap_ok_owner [OF h, of a] by (simp add: et_pcs_def cnt_def filter_map o_def)
  fix fd i
  assume a: "et_fds s fd = Some i \<and> i < length (et_threads s)"
  then obtain fd' where "et_fd (et_heap s) (et_pc (et_threads s ! i)) = Some fd'" "et_fds s fd' = Some i"
    using table_ok_served [OF tb, of i] by (auto simp: served_by_def et_pcs_def split: if_splits)
  with table_ok_inj [OF tb, of fd i fd'] a show "et_fd (et_heap s) (et_pc (et_threads s ! i)) = Some fd" by simp
qed

definition et_demo_rio :: rio_t where
  "et_demo_rio = \<lparr>rio_fd = 0, rio_cnt = 0, rio_bufptr = 0, rio_buf = []\<rparr>"

definition et_demo_client :: "string \<Rightarrow> io" where
  "et_demo_client d = \<lparr>w_errno = 0, w_out = [], w_err = [], io_in = [RdData d], io_plan = [], io_sent = []\<rparr>"

text \<open>Two clients; the second block is allocated where the first was, and the threads alternate.\<close>

definition et_demo_events :: "et_event list" where
  "et_demo_events = [Mallocs (Some 7), Accepted 4 (et_demo_client ''ab''), Creates 0, Thread 0, Thread 0, Thread 0,
     Mallocs (Some 7), Accepted 5 (et_demo_client ''cde''), Creates 0]"

definition et_demo :: et_sys where
  "et_demo = (case schedule (et_next (\<lambda>e. []) et_demo_rio) et_demo_events et_init of Some t \<Rightarrow> t | None \<Rightarrow> et_init)"

lemma et_demo_reach: "et_reach (\<lambda>e. []) et_demo_rio et_demo"
  using et_reach_run [OF _ et_reach_init] et_reach_init by (auto simp: et_demo_def split: option.split)

theorem threads_own_blocks_witness:
  "cnt (\<lambda>t. et_arg (et_pc t) = Some 7) (et_threads et_demo) = 1"
proof -
  have "\<not> Option.is_none (et_next (\<lambda>e. []) et_demo_rio (Thread 1) et_demo)" by code_simp
  then obtain r where "et_next (\<lambda>e. []) et_demo_rio (Thread 1) et_demo = Some r" by (auto simp: Option.is_none_def)
  note owner = threads_own_blocks [OF et_demo_reach this, THEN conjunct2, THEN conjunct1, rule_format, of 7]
  have "et_main et_demo = MtMalloc" "et_heap et_demo 7 = Some (Some 5)" by code_simp+
  with owner show ?thesis by simp
qed

text \<open>C33. Every client is served. For any sequence of allocations, connections, thread creations and
  thread steps from the start of the server, such that no \<open>read\<close> or \<open>write\<close> on an accepted
  connection fails (\<open>good_client\<close>; after an error \<open>Rio_readlineb\<close> and \<open>Rio_writen\<close> exit the server): the
  threads have made at most three steps for each byte of a client and seven more for each
  client; as long as a thread has not finished, its next step is possible and does not fail;
  and each that has finished has sent its client back exactly what it sent, and closed the
  connection.\<close>

theorem threads_serve_all:
  assumes "schedule (et_next strerror rp) ls et_init = Some t" and "list_all good_client (et_clients t)"
  shows "int (thread_steps ls) \<le> (\<Sum>v\<leftarrow>et_clients t. 3 * int (length (client_data v)) + 7) \<and>
    (\<forall>i < length (et_threads t).
       if et_pc (et_threads t ! i) = EtDone
       then io_sent (et_conns t ! i) = client_data (et_clients t ! i) \<and> (\<forall>fd. et_fds t fd \<noteq> Some i)
       else \<exists>u. et_next strerror rp (Thread i) t = Some (Ret u))"
proof (intro conjI allI impI)
  have "et_budget et_init = 0" "et_clients et_init = []" by (simp_all add: et_budget_def et_work_def et_init_def)
  with et_run_budget [OF assms(1) et_reach_init assms(2)] et_budget_nonneg [of t]
  show "int (thread_steps ls) \<le> (\<Sum>v\<leftarrow>et_clients t. 3 * int (length (client_data v)) + 7)"
    by (simp add: client_cost_def)
  have reach: "et_reach strerror rp t" by (rule et_reach_run [OF assms(1) et_reach_init])
  note own = et_reach_own [OF reach] and srv = et_reach_serving [OF reach assms(2)]
  fix i
  assume i: "i < length (et_threads t)"
  let ?p = "et_pc (et_threads t ! i)"
  show "if ?p = EtDone then io_sent (et_conns t ! i) = client_data (et_clients t ! i) \<and> (\<forall>fd. et_fds t fd \<noteq> Some i)
      else \<exists>u. et_next strerror rp (Thread i) t = Some (Ret u)"
  proof (cases "?p = EtDone")
    case True
    have "served_by (et_heap t) (et_pcs t ! i) (et_fds t) i"
      using own i table_ok_served [of "et_main t" "et_heap t" "et_pcs t" "et_fds t" "length (et_conns t)" i]
      by (simp add: et_own_def et_pcs_def)
    then have "\<forall>fd. et_fds t fd \<noteq> Some i" using True i by (simp add: served_by_def et_pcs_def)
    moreover have "conn_ok (client_data (et_clients t ! i)) (et_cn ?p) (et_conn i t)" using srv i by (simp add: et_serving_def)
    ultimately show ?thesis using True by (simp add: conn_ok_def et_conn_def)
  next
    case False
    then have "et_step strerror ?p (et_rio (et_threads t ! i)) t \<noteq> None" by (cases ?p) (auto split: prod.splits)
    then obtain r where r: "et_run strerror i t = Some r" using i by (auto simp: et_run_def)
    obtain u where "r = Ret u" by (rule et_conn_next [OF own srv i r])
    with False r show ?thesis by simp
  qed
qed

definition et_demo_order :: "et_event list" where
  "et_demo_order = map Thread (concat (replicate 6 [0, 1]) @ replicate 3 1)"

theorem threads_serve_all_witness:
  "\<exists>t. schedule (et_next (\<lambda>e. []) et_demo_rio) (et_demo_events @ et_demo_order) et_init = Some t \<and>
     io_sent (et_conns t ! 0) = ''ab'' \<and> io_sent (et_conns t ! 1) = ''cde''"
proof -
  let ?run = "schedule (et_next (\<lambda>e. []) et_demo_rio) (et_demo_events @ et_demo_order) et_init"
  have "map_option (\<lambda>t. (map et_pc (et_threads t), et_clients t)) ?run =
      Some ([EtDone, EtDone], [et_demo_client ''ab'', et_demo_client ''cde''])" by code_simp
  then obtain t where t: "?run = Some t" "map et_pc (et_threads t) = [EtDone, EtDone]"
    "et_clients t = [et_demo_client ''ab'', et_demo_client ''cde'']" by auto
  then have "list_all good_client (et_clients t)" by (simp add: good_client_def et_demo_client_def)
  note served = threads_serve_all [OF t(1) this, THEN conjunct2, rule_format]
  from t(2) have p: "et_pc (et_threads t ! 0) = EtDone" "et_pc (et_threads t ! 1) = EtDone" "length (et_threads t) = 2" by auto
  with served [of 0] served [of 1] t(1,3) show ?thesis by (simp add: client_data_def et_demo_client_def)
qed

end
