(* ===== verification/Hw_Sockets.thy ===== *)
theory Hw_Sockets
  imports Csapp_Net
begin

text \<open>
  The TCP client and server of \<open>hw5\<close>, with the socket calls as parameters.
\<close>

section \<open>The calls\<close>

text \<open>
  \<open>hc_fread\<close> is \<open>fread(message, 1, n, stdin)\<close>; \<open>hc_read\<close> and \<open>hc_recv\<close> report a length or -1 and the
  bytes they stored; \<open>hc_nameinfo\<close> is \<open>getnameinfo\<close> for the address that \<open>accept\<close> stored.
\<close>

record ('w, 'ai) hw5_calls =
  hc_net :: "('w, 'ai) netcalls"
  hc_fread :: "nat \<Rightarrow> ('w, string) syscall"
  hc_write :: "int \<Rightarrow> string \<Rightarrow> ('w, int) syscall"
  hc_read :: "int \<Rightarrow> nat \<Rightarrow> ('w, int \<times> string) syscall"
  hc_accept :: "int \<Rightarrow> ('w, int) syscall"
  hc_recv :: "int \<Rightarrow> nat \<Rightarrow> ('w, int \<times> string) syscall"
  hc_nameinfo :: "('w, int \<times> string \<times> string) syscall"
  hc_sendto :: "int \<Rightarrow> string \<Rightarrow> ('w, int) syscall"

abbreviation BUF_SIZE :: nat where "BUF_SIZE \<equiv> 500"
abbreviation MSG_MAX :: nat where "MSG_MAX \<equiv> 4096"

definition hw5_hints :: "bool \<Rightarrow> hints" where
  "hw5_hints passive = \<lparr>ai_family = 0, ai_socktype = SOCK_STREAM, ai_flags = (if passive then {''AI_PASSIVE''} else {})\<rparr>"

text \<open>
  The walk over the addresses, with \<open>connect\<close> or \<open>bind\<close> as the attempt; \<open>None\<close> when no address is
  left.
\<close>

fun hw5_walk :: "('w, 'ai) netcalls \<Rightarrow> (int \<Rightarrow> 'ai \<Rightarrow> 'w world_scheme \<Rightarrow> bool \<times> 'w world_scheme) \<Rightarrow> 'ai list \<Rightarrow>
    ('w, int option) syscall" where
  "hw5_walk nc attempt [] s = (None, s)"
| "hw5_walk nc attempt (rp # rps) s =
     (case nc_socket nc rp s of (sfd, s1) \<Rightarrow>
        if sfd = - 1 then hw5_walk nc attempt rps s1
        else case attempt sfd rp s1 of (ok, s2) \<Rightarrow>
          if ok then (Some sfd, s2) else hw5_walk nc attempt rps (snd (nc_close nc sfd s2)))"

definition client_attempt :: "('w, 'ai) netcalls \<Rightarrow> int \<Rightarrow> 'ai \<Rightarrow> 'w world_scheme \<Rightarrow> bool \<times> 'w world_scheme" where
  "client_attempt nc sfd rp s = (case nc_connect nc sfd rp s of (rc, t) \<Rightarrow> (rc \<noteq> - 1, t))"

definition server_attempt :: "('w, 'ai) netcalls \<Rightarrow> int \<Rightarrow> 'ai \<Rightarrow> 'w world_scheme \<Rightarrow> bool \<times> 'w world_scheme" where
  "server_attempt nc sfd rp s = (case nc_bind nc sfd rp s of (rc, t) \<Rightarrow> (rc = 0, t))"

text \<open>From \<open>getaddrinfo\<close> to \<open>freeaddrinfo\<close>.\<close>

definition hw5_open :: "('w, 'ai) netcalls \<Rightarrow> bool \<Rightarrow> string option \<Rightarrow> string \<Rightarrow> ('w world_scheme, int) cprog" where
  "hw5_open nc passive host port s =
     (case nc_getaddrinfo nc host port (hw5_hints passive) s of ((rc, result), s1) \<Rightarrow>
        if rc \<noteq> 0 then (Exited 1, print_err (''getaddrinfo: '' @ nc_gai_strerror nc rc @ [LF]) s1)
        else case hw5_walk nc (if passive then server_attempt nc else client_attempt nc) result s1 of (r, s2) \<Rightarrow>
          (case r of
             None \<Rightarrow> (Exited 1, print_err ((if passive then ''Could not bind'' else ''Could not connect'') @ [LF]) s2)
           | Some sfd \<Rightarrow> (Ret sfd, snd (nc_freeaddrinfo nc result s2))))"

section \<open>client.c\<close>

text \<open>The loop of \<open>write\<close>: a call that takes nothing is repeated.\<close>

partial_function (option) client_send :: "('w, 'ai) hw5_calls \<Rightarrow> int \<Rightarrow> string \<Rightarrow> int \<Rightarrow> 'w world_scheme \<Rightarrow>
    (unit outcome \<times> 'w world_scheme) option" where
  "client_send c sfd message n s =
     (if n = int (length message) then Some (Ret (), s)
      else
        (case hc_write c sfd (drop (nat n) message) s of
           (e, s1) \<Rightarrow>
             if e = - 1 then Some (Exited 1, print_err ''write error'' s1)
             else client_send c sfd message (n + e) s1))"

declare client_send.simps [code]

text \<open>
  \<open>fprintf(stdout, "%s\n", buf)\<close> after \<open>read\<close> stored \<open>d\<close> in the uninitialised array: without a null
  character among the bytes it reads on behind them.
\<close>

definition client_reply :: "string \<Rightarrow> string outcome" where
  "client_reply d =
     (if NUL \<in> set d then Ret (cstr d @ [LF])
      else if int BUF_SIZE \<le> int (length d) then Fault Out_Of_Bounds
      else Fault Uninitialised)"

definition client_main :: "('w, 'ai) hw5_calls \<Rightarrow> string list \<Rightarrow> ('w world_scheme, unit) dprog" where
  "client_main c argv =
     (if length argv < 3 then
        dlift (cbind (cmodify (print_err (''Usage: '' @ hd argv @ '' host port msg...'' @ [LF]))) (\<lambda>_. cexit 1))
      else
        dbind (dlift (hw5_open (hc_net c) False (Some (argv ! 1)) (argv ! 2))) (\<lambda>sfd.
        dbind (dlift (\<lambda>s. case hc_fread c MSG_MAX s of (m, t) \<Rightarrow> (Ret m, t))) (\<lambda>message.
        dbind (client_send c sfd message 0) (\<lambda>_.
        dbind (dlift (\<lambda>s. case hc_read c sfd BUF_SIZE s of (r, t) \<Rightarrow> (Ret r, t))) (\<lambda>(nread, d).
          if nread = - 1 then
            dlift (cbind (cmodify (\<lambda>s. print_err (''read: '' @ nc_strerror (hc_net c) (w_errno s) @ [LF]) s)) (\<lambda>_. cexit 1))
          else
            (case client_reply d of
               Ret m \<Rightarrow> dlift (cbind (cmodify (print_out m)) (\<lambda>_. cexit 0))
             | Exited k \<Rightarrow> dlift (cexit k)
             | Fault f \<Rightarrow> dlift (cfault f)))))))"

section \<open>server.c\<close>

text \<open>
  The loop receives from the listening socket: what \<open>accept\<close> returned is not kept.
\<close>

definition server_answer :: "('w, 'ai) hw5_calls \<Rightarrow> int \<Rightarrow> int \<Rightarrow> string \<Rightarrow> 'w world_scheme \<Rightarrow> 'w world_scheme" where
  "server_answer c sfd nread d s =
     (case hc_nameinfo c s of ((rc, host, service), s1) \<Rightarrow>
        let s2 = (if rc = 0
                  then print_out (''Received '' @ show_int nread @ '' bytes from '' @ host @ '':'' @ service @ [LF]) s1
                  else print_err (''getnameinfo: '' @ nc_gai_strerror (hc_net c) rc @ [LF]) s1)
        in case hc_sendto c sfd d s2 of (r, s3) \<Rightarrow>
             if r \<noteq> nread then print_err (''Error sending response'' @ [LF]) s3 else s3)"

partial_function (option) server_loop :: "('w, 'ai) hw5_calls \<Rightarrow> int \<Rightarrow> 'w world_scheme \<Rightarrow>
    (unit outcome \<times> 'w world_scheme) option" where
  "server_loop c sfd s =
     (case hc_recv c sfd BUF_SIZE s of
        (r, s1) \<Rightarrow>
          if fst r = 0 then Some (Ret (), s1)
          else if fst r = - 1 then server_loop c sfd s1
          else server_loop c sfd (server_answer c sfd (fst r) (snd r) s1))"

declare server_loop.simps [code]

definition server_main :: "('w, 'ai) hw5_calls \<Rightarrow> string list \<Rightarrow> ('w world_scheme, unit) dprog" where
  "server_main c argv =
     (if length argv \<noteq> 2 then
        dlift (cbind (cmodify (print_err (''Usage: '' @ hd argv @ '' port'' @ [LF]))) (\<lambda>_. cexit 1))
      else
        dbind (dlift (hw5_open (hc_net c) True None (argv ! 1))) (\<lambda>sfd.
        dbind (dlift (cmodify (\<lambda>s. snd (nc_listen (hc_net c) sfd 100 s)))) (\<lambda>_.
        dbind (dlift (cmodify (\<lambda>s. snd (hc_accept c sfd s)))) (\<lambda>_.
          server_loop c sfd))))"

section \<open>What they do\<close>

lemma server_loop_spins:
  fixes c :: "('w, 'ai) hw5_calls"
  assumes "\<And>s. fst (fst (hc_recv c sfd BUF_SIZE s)) = - 1"
  shows "server_loop c sfd s = None"
proof -
  have never: "d = c \<and> fd = sfd \<longrightarrow> False" if "server_loop d fd u = Some y"
    for d :: "('w, 'ai) hw5_calls" and fd and u :: "'w world_scheme" and y
    using that
  proof (rule server_loop.raw_induct [of "\<lambda>d fd u y. d = c \<and> fd = sfd \<longrightarrow> False", rotated])
    fix f :: "('w, 'ai) hw5_calls \<Rightarrow> int \<Rightarrow> 'w world_scheme \<Rightarrow> (unit outcome \<times> 'w world_scheme) option"
      and d :: "('w, 'ai) hw5_calls" and fd and u :: "'w world_scheme" and y
    assume IH: "\<And>d fd u y. f d fd u = Some y \<Longrightarrow> d = c \<and> fd = sfd \<longrightarrow> False"
      and body: "(case hc_recv d fd BUF_SIZE u of
        (r, s1) \<Rightarrow>
          if fst r = 0 then Some (Ret (), s1)
          else if fst r = - 1 then f d fd s1
          else f d fd (server_answer d fd (fst r) (snd r) s1)) = Some y"
    show "d = c \<and> fd = sfd \<longrightarrow> False"
    proof (intro impI)
      assume a: "d = c \<and> fd = sfd"
      obtain r s1 where r: "hc_recv d fd BUF_SIZE u = (r, s1)" by fastforce
      have "fst r = - 1" using assms [of u] a r by simp
      with body r have "f d fd s1 = Some y" by simp
      from IH [OF this] a show False by simp
    qed
  qed
  show ?thesis using never [of c sfd s] by (cases "server_loop c sfd s") auto
qed

lemma client_send_all:
  assumes "\<And>d s. d \<noteq> [] \<Longrightarrow> \<exists>k. 0 < k \<and> k \<le> length d \<and> fst (hc_write c sfd d s) = int k \<and>
      sent (snd (hc_write c sfd d s)) = sent s @ take k d"
    and "k \<le> length message"
  shows "\<exists>t. client_send c sfd message (int k) s = Some (Ret (), t) \<and> sent t = sent s @ drop k message"
  using assms(2)
proof (induction "length message - k" arbitrary: k s rule: less_induct)
  case less
  show ?case
  proof (cases "k = length message")
    case True
    then show ?thesis by (subst client_send.simps) simp
  next
    case False
    then have "drop k message \<noteq> []" using less.prems by simp
    from assms(1) [OF this, of s] obtain j e u where w: "hc_write c sfd (drop k message) s = (e, u)"
      "e = int j" "0 < j" "j \<le> length message - k" "sent u = sent s @ take j (drop k message)"
      by (metis length_drop prod.collapse)
    have "client_send c sfd message (int k) s = client_send c sfd message (int (k + j)) u"
      using w False by (subst client_send.simps) simp
    moreover have "take j (drop k message) @ drop (k + j) message = drop k message"
      by (metis add.commute append_take_drop_id drop_drop)
    ultimately show ?thesis using less.hyps [of "k + j" u] w less.prems False by auto
  qed
qed


text \<open>
  A reply of ordinary text is printed together with what lies behind it in the array.
\<close>

lemma client_reply_text: "no_nul d \<Longrightarrow> \<exists>f. client_reply d = Fault f"
  by (simp add: client_reply_def no_nul_def)

text \<open>
  A server whose address could be bound: \<open>recv\<close> on a socket that listens fails with \<open>ENOTCONN\<close>, and
  so the server ignores its clients and loops for ever.
\<close>

theorem hw5_server_spins:
  assumes "\<And>fd s. fst (fst (hc_recv c fd BUF_SIZE s)) = - 1"
    and "length argv = 2" and "hw5_open (hc_net c) True None (argv ! 1) s = (Ret sfd, t)"
  shows "server_main c argv s = None"
proof -
  have "server_loop c sfd u = None" for u using assms(1) by (rule server_loop_spins)
  with assms(2,3) show ?thesis by (simp add: server_main_def c_simps)
qed

definition hw5_demo :: "(unit, unit) hw5_calls" where
  "hw5_demo =
     \<lparr>hc_net = \<lparr>nc_getaddrinfo = (\<lambda>h p x s. ((0, [()]), s)), nc_gai_strerror = (\<lambda>e. []), nc_strerror = (\<lambda>e. []),
        nc_freeaddrinfo = (\<lambda>l s. ((), s)), nc_socket = (\<lambda>a s. (3, s)), nc_connect = (\<lambda>fd a s. (0, s)),
        nc_setsockopt = (\<lambda>fd s. (0, s)), nc_bind = (\<lambda>fd a s. (0, s)), nc_listen = (\<lambda>fd n s. (0, s)),
        nc_close = (\<lambda>fd s. (0, s))\<rparr>,
      hc_fread = (\<lambda>n s. (''hello'', s)),
      hc_write = (\<lambda>fd d s. (int (min 2 (length d)), print_out (take 2 d) s)),
      hc_read = (\<lambda>fd n s. ((3, ''ok'' @ [NUL]), s)), hc_accept = (\<lambda>fd s. (4, s)),
      hc_recv = (\<lambda>fd n s. ((- 1, []), s\<lparr>w_errno := 107\<rparr>)), hc_nameinfo = (\<lambda>s. ((0, ''h'', ''p''), s)),
      hc_sendto = (\<lambda>fd d s. (int (length d), s))\<rparr>"

theorem hw5_server_spins_witness:
  "server_main hw5_demo [''server'', ''8080''] \<lparr>w_errno = 0, w_out = [], w_err = []\<rparr> = None"
proof (rule hw5_server_spins)
  show "fst (fst (hc_recv hw5_demo fd BUF_SIZE s)) = - 1" for fd s by (simp add: hw5_demo_def)
  show "length [''server'', ''8080''] = 2" by simp
  show "hw5_open (hc_net hw5_demo) True None ([''server'', ''8080''] ! 1) \<lparr>w_errno = 0, w_out = [], w_err = []\<rparr> =
      (Ret 3, \<lparr>w_errno = 0, w_out = [], w_err = []\<rparr>)"
    by (simp add: hw5_open_def hw5_demo_def server_attempt_def)
qed

end
