(* ===== verification/Hw_Strings.thy ===== *)
theory Hw_Strings
  imports Bounded_Buffer CString "HOL-Library.Word"
begin

text \<open>
  The string exercises: \<open>hw4/strings/strings.c\<close> with the six tests of its \<open>main\<close>,
  \<open>hw2/strings.c\<close>, and \<open>hw2/slowcat.c\<close>. A character array is the list of its bytes, its null
  character included; an indeterminate byte is \<open>None\<close>.
\<close>

section \<open>hw4/strings/strings.c\<close>

definition isHelloWorld :: "string \<Rightarrow> bool" where
  "isHelloWorld str \<longleftrightarrow> cstr str = ''Hello World!''"

text \<open>\<open>strcpy\<close> into an array: what lies behind the null character stays.\<close>

definition strcpy_into :: "string \<Rightarrow> string \<Rightarrow> string outcome" where
  "strcpy_into dst src =
     (if length dst \<le> length src then Fault Out_Of_Bounds else Ret (src @ NUL # drop (Suc (length src)) dst))"

definition fillHelloWorld :: "string \<Rightarrow> string outcome" where
  "fillHelloWorld str = strcpy_into str ''Hello World!''"

definition copyString :: "string \<Rightarrow> string outcome" where
  "copyString str = strcpy_into (replicate (length (cstr str) + 1) NUL) (cstr str)"

text \<open>\<open>size + 1\<close> bytes are allocated, the last of them stays indeterminate.\<close>

definition copyArray :: "string \<Rightarrow> int \<Rightarrow> char option list outcome" where
  "copyArray arr sz =
     (if sz < 0 \<or> int (length arr) < sz then Fault Out_Of_Bounds
      else obind (int_add sz 1) (\<lambda>_. Ret (map Some (take (nat sz) arr) @ [None])))"

text \<open>\<open>length + 1\<close> wraps round for the largest \<open>unsigned\<close>: then nothing is allocated.\<close>

definition getSubstring :: "string \<Rightarrow> 32 word \<Rightarrow> 32 word \<Rightarrow> string outcome" where
  "getSubstring str begin len =
     (if length str < unat begin + unat len \<or> len + 1 = 0 then Fault Out_Of_Bounds
      else Ret (take (unat len) (drop (unat begin) str) @ [NUL]))"

text \<open>A null pointer for a string of spaces; the argument is not changed.\<close>

definition getFirstWord :: "string \<Rightarrow> string option outcome" where
  "getFirstWord str = omap (\<lambda>str2. fst (strtok '' '' (cstr str2))) (copyString str)"

definition byte_val :: "char \<Rightarrow> int" where
  "byte_val c = (if (of_char c :: nat) < 128 then of_char c else of_char c - 256)"

definition printBytes :: "string \<Rightarrow> string" where
  "printBytes bytes = concat (map (\<lambda>b. show_int (byte_val b) @ '' '') bytes) @ [LF]"

section \<open>Its main\<close>

definition SMSG :: string where "SMSG = LF # ''TEST PASSED!'' @ [LF]"
definition FMSG :: string where "FMSG = LF # ''TEST FAILED!'' @ [LF]"

definition verdict :: "bool \<Rightarrow> string" where
  "verdict ok = (if ok then SMSG else FMSG)"

definition in_quotes :: "string \<Rightarrow> string" where
  "in_quotes s = QUOTE # s @ [QUOTE]"

definition test_hello :: string where "test_hello = ''Hello World!'' @ [NUL]"
definition test_hello2 :: string where "test_hello2 = ''Hello Worl!'' @ [NUL]"
definition test_str :: string where "test_str = ''The quick brown fox jumped over the lazy dog'' @ [NUL]"
definition test_bytes :: string where "test_bytes = map char_of [4 :: nat, 8, 15, 16, 23, 42, 0, 1, 2, 3]"

definition truth_line :: "bool \<Rightarrow> string" where
  "truth_line h = ''Value returned from function: '' @ (if h then ''1 (True)'' else ''0 (False)'') @ [LF]"

definition strings_test1 :: "string outcome" where
  "strings_test1 =
     (let h1 = isHelloWorld test_hello; h2 = isHelloWorld test_hello2
      in Ret (''RUNNING TEST 1 - isHelloWorld(char* str)'' @ LF # ''Check if str equals the string '' @
           in_quotes ''Hello World!'' @ LF # LF # ''Input: str='' @ in_quotes (cstr test_hello) @ LF # truth_line h1 @
           ''Expected: True'' @ LF # LF # ''Input: '' @ in_quotes (cstr test_hello2) @ LF # truth_line h2 @
           ''Expected: False'' @ LF # verdict (h1 \<and> \<not> h2)))"

definition strings_test2 :: "string outcome" where
  "strings_test2 =
     omap (\<lambda>str. ''RUNNING TEST 2 - fillHelloWorld(char* str)'' @ LF # ''Replace str with the string '' @
         in_quotes ''Hello World!'' @ LF # LF # ''Input: str='' @ in_quotes (cstr test_str) @ LF #
         ''Value of str after function call: '' @ in_quotes (cstr str) @ LF #
         ''Expected: '' @ in_quotes ''Hello World!'' @ LF # verdict (cstr str = ''Hello World!''))
       (fillHelloWorld test_str)"

definition strings_test3 :: "string outcome" where
  "strings_test3 =
     omap (\<lambda>cpy. ''RUNNING TEST 3 - copyString(char* str)'' @ LF # ''Return a new string that is a copy of str'' @ LF # LF #
         ''Input: str='' @ in_quotes (cstr test_str) @ LF # ''String returned from function: '' @ in_quotes (cstr cpy) @ LF #
         ''Expected: '' @ in_quotes (cstr test_str) @ LF # verdict (cstr cpy = cstr test_str))
       (copyString test_str)"

definition strings_test4 :: "string outcome" where
  "strings_test4 =
     obind (copyArray test_bytes (int (length test_bytes))) (\<lambda>cpy.
       let got = take (length test_bytes) cpy
       in if None \<in> set got then Fault Uninitialised
          else Ret (''RUNNING TEST 4 - copyArray(char* array)'' @ LF #
            ''Return a new character array that is a copy of the passed-in array'' @ LF # LF # ''Input: bytes='' @
            printBytes test_bytes @ ''Array returned from function (first '' @ show_nat (length test_bytes) @ '' bytes): '' @
            printBytes (map the got) @ ''Expected: '' @ printBytes test_bytes @ verdict (map the got = test_bytes)))"

definition strings_test5 :: "string outcome" where
  "strings_test5 =
     omap (\<lambda>w. ''RUNNING TEST 5 - getSubstring(char* str, unsigned int begin, unsigned int length)'' @ LF #
         ''Get the substring in str of the given begin index and length'' @ LF # LF #
         ''Input: str='' @ in_quotes (cstr test_hello) @ '', begin=3, length=7'' @ LF #
         ''String returned from function: '' @ in_quotes (cstr w) @ LF #
         ''Expected: '' @ in_quotes ''lo Worl'' @ LF # verdict (cstr w = ''lo Worl''))
       (getSubstring test_hello 3 7)"

definition strings_test6 :: "string outcome" where
  "strings_test6 =
     obind (getFirstWord test_str) (\<lambda>p. obind (deref p) (\<lambda>w.
       Ret (''RUNNING TEST 6 - getFirstWord(char* str)'' @ LF #
         ''Return the first word of str (space delimited) without modifying str'' @ LF # LF #
         ''Input: str='' @ in_quotes (cstr test_str) @ LF # ''String returned from function: '' @ in_quotes w @ LF #
         ''Expected: '' @ in_quotes ''The'' @ LF #
         ''Value of str after function call: '' @ in_quotes (cstr test_str) @ LF # verdict (w = ''The''))))"

text \<open>\<open>main\<close>: what it prints and returns.\<close>

definition strings_main :: "string list \<Rightarrow> (string \<times> int) outcome" where
  "strings_main argv =
     (if length argv < 2 then Ret (''Usage: ./strings <num>(1-6)'' @ [LF], 1)
      else
        (let num = atoi (argv ! 1); ok = omap (\<lambda>out. (out, 0))
         in if num = 1 then ok strings_test1 else if num = 2 then ok strings_test2
            else if num = 3 then ok strings_test3 else if num = 4 then ok strings_test4
            else if num = 5 then ok strings_test5 else if num = 6 then ok strings_test6
            else Ret (''Invalid test number: '' @ (argv ! 1) @ [LF], 1)))"

section \<open>hw2/strings.c\<close>

text \<open>
  \<open>strcmp\<close> as in glibc: the difference of the first bytes that differ, the end of a string
  counting as 0. \<open>s1\<close> and \<open>e1\<close> are the same array; one is measured as an array, the other as a
  pointer.
\<close>

fun strcmp :: "string \<Rightarrow> string \<Rightarrow> int" where
  "strcmp [] [] = 0"
| "strcmp [] (d # ds) = - of_char d"
| "strcmp (c # cs) [] = of_char c"
| "strcmp (c # cs) (d # ds) = (if c = d then strcmp cs ds else of_char c - of_char d)"

definition hw2_strings_main :: string where
  "hw2_strings_main =
     (let s1 = ''CS 324'' @ [NUL]; e1 = s1;
          result = strcmp (cstr s1) (cstr e1);
          size1 = int (length s1); size2 = 8
      in (if result = 0 then ''Strings are the same!'' @ [LF]
          else ''Strings are NOT the same!  result='' @ show_int result @ [LF]) @
         (if size1 = size2 then ''Array sizes are the same!  size='' @ show_int size1 @ [LF]
          else ''Array sizes are NOT the same!  size1='' @ show_int size1 @ '', size2='' @ show_int size2 @ [LF]))"

lemma strcmp_eq: "no_nul a \<Longrightarrow> no_nul b \<Longrightarrow> strcmp a b = 0 \<longleftrightarrow> a = b"
proof (induction a b rule: strcmp.induct)
  case (2 d ds)
  then have "(of_char d :: int) \<noteq> of_char NUL" by (metis no_nul_Cons of_char_eq_iff)
  then show ?case by simp
next
  case (3 c cs)
  then have "(of_char c :: int) \<noteq> of_char NUL" by (metis no_nul_Cons of_char_eq_iff)
  then show ?case by simp
qed auto

section \<open>hw2/slowcat.c\<close>

text \<open>
  \<open>printf(line)\<close>: the line is a format. Without arguments only \<open>%%\<close> has a meaning.
\<close>

fun printf_plain :: "string \<Rightarrow> string outcome" where
  "printf_plain [] = Ret []"
| "printf_plain (c # cs) =
     (if c \<noteq> CHR ''%'' then omap (\<lambda>r. c # r) (printf_plain cs)
      else case cs of
        d # ds \<Rightarrow> if d = CHR ''%'' then omap (\<lambda>r. CHR ''%'' # r) (printf_plain ds) else Fault Uninitialised
      | [] \<Rightarrow> Fault Uninitialised)"

text \<open>One line of at most \<open>m\<close> bytes, as \<open>fgets\<close> takes it, and the lines of a file.\<close>

fun fgets_line :: "nat \<Rightarrow> string \<Rightarrow> string \<times> string" where
  "fgets_line 0 s = ([], s)"
| "fgets_line (Suc m) [] = ([], [])"
| "fgets_line (Suc m) (c # cs) =
     (if c = LF then ([LF], cs) else (case fgets_line m cs of (l, r) \<Rightarrow> (c # l, r)))"

lemma fgets_line_append: "fgets_line m s = (l, r) \<Longrightarrow> s = l @ r"
  by (induction m s arbitrary: l r rule: fgets_line.induct) (auto split: if_splits prod.splits)

lemma fgets_line_less: "0 < m \<Longrightarrow> s \<noteq> [] \<Longrightarrow> fgets_line m s = (l, r) \<Longrightarrow> length r < length s"
  by (cases "(m, s)" rule: fgets_line.cases) (auto split: if_splits prod.splits dest: fgets_line_append)

text \<open>The loop: what is printed, and the argument of each call of \<open>sleep\<close>.\<close>

function slowcat_loop :: "int \<Rightarrow> string \<Rightarrow> (string \<times> int list) outcome" where
  "slowcat_loop sleep_time input =
     (if input = [] then Ret ([], [])
      else case fgets_line 999 input of (line, rest) \<Rightarrow>
        obind (printf_plain (cstr line)) (\<lambda>out.
          omap (\<lambda>(o', sl). (out @ o', sleep_time # sl)) (slowcat_loop sleep_time rest)))"
  by pat_completeness auto
termination
  by (relation "measure (\<lambda>(t, input). length input)") (auto intro: fgets_line_less [of 999, OF _ _ sym])

declare slowcat_loop.simps [simp del]

text \<open>
  \<open>None\<close> for a file that \<open>fopen\<close> cannot open: \<open>fgets\<close> gets a null pointer. The result is the process
  number on the standard error, what is printed, and the sleeps.
\<close>

definition slowcat_main :: "int \<Rightarrow> string option \<Rightarrow> string list \<Rightarrow> string \<Rightarrow> (string \<Rightarrow> string option) \<Rightarrow>
    (string \<times> string \<times> int list) outcome" where
  "slowcat_main pid env argv stdin_text fopen =
     (let sleep_time = (case env of Some v \<Rightarrow> atoi v | None \<Rightarrow> 1)
      in obind (if length argv < 2 \<or> argv ! 1 = ''-'' then Ret stdin_text else deref (fopen (argv ! 1)))
           (\<lambda>input. omap (Pair (show_int pid @ [LF])) (slowcat_loop sleep_time input)))"

section \<open>What they do\<close>

lemma getSubstring_part:
  assumes "unat begin + unat len \<le> length (cstr str)" and "len \<noteq> - 1"
  shows "omap cstr (getSubstring str begin len) = Ret (take (unat len) (drop (unat begin) (cstr str)))"
proof -
  have le: "length (cstr str) \<le> length str" by (simp add: cstr_def length_takeWhile_le)
  let ?p = "take (unat len) (drop (unat begin) str)"
  have "str = cstr str @ drop (length (cstr str)) str"
    by (metis cstr_def append_eq_conv_conj takeWhile_dropWhile_id)
  then have "?p = take (unat len) (drop (unat begin) (cstr str @ drop (length (cstr str)) str))" by simp
  also have "\<dots> = take (unat len) (drop (unat begin) (cstr str))" using assms(1) by simp
  finally have part: "?p = take (unat len) (drop (unat begin) (cstr str))" .
  have "no_nul ?p" unfolding part using no_nul_cstr [of str]
    by (auto simp: no_nul_def dest: in_set_takeD in_set_dropD)
  moreover have "len + 1 \<noteq> 0" using assms(2) by (metis eq_neg_iff_add_eq_0)
  ultimately show ?thesis using assms(1) le part cstr_append_NUL [of ?p "[]"]
    by (simp add: getSubstring_def)
qed

lemma copyString_copies: "omap cstr (copyString str) = Ret (cstr str)"
  by (simp add: copyString_def strcpy_into_def cstr_append_NUL no_nul_cstr)

text \<open>The first word ends at the first space after the leading ones.\<close>

lemma getFirstWord_word:
  assumes "cstr str = replicate k SPC @ w @ SPC # r" and "w \<noteq> []" and "SPC \<notin> set w"
  shows "getFirstWord str = Ret (Some w)"
proof -
  have "strtok '' '' (replicate k SPC @ w @ SPC # r) = (Some w, r)"
  proof (induction k)
    case 0
    show ?case using strtok_word [of w "'' ''" SPC r] assms(2,3) by simp
  next
    case (Suc k)
    then show ?case using strtok_skip [of SPC "'' ''"] by simp
  qed
  then show ?thesis using assms(1) cstr_append_NUL [of "cstr str"] no_nul_cstr [of str]
    by (simp add: getFirstWord_def copyString_def strcpy_into_def)
qed

text \<open>\<open>slowcat\<close> copies a text without percent signs, a line a time.\<close>

lemma printf_plain_text: "CHR ''%'' \<notin> set s \<Longrightarrow> printf_plain s = Ret s"
  by (induction s) auto

lemma slowcat_loop_copies:
  assumes "CHR ''%'' \<notin> set input" and "no_nul input"
  shows "\<exists>sl. slowcat_loop t input = Ret (input, sl)"
  using assms
proof (induction input rule: length_induct)
  case (1 input)
  show ?case
  proof (cases "input = []")
    case True
    then show ?thesis by (subst slowcat_loop.simps) simp
  next
    case False
    obtain l r where f: "fgets_line 999 input = (l, r)" by fastforce
    from fgets_line_append [OF f] have s: "input = l @ r" .
    have "length r < length input" by (rule fgets_line_less [OF _ False f]) simp
    moreover have "CHR ''%'' \<notin> set r" "no_nul r" using "1.prems" s by simp_all
    ultimately obtain sl where "slowcat_loop t r = Ret (r, sl)" using "1.IH" by blast
    moreover have "printf_plain (cstr l) = Ret l" using "1.prems" s by (simp add: cstr_id printf_plain_text)
    ultimately show ?thesis using False f s by (subst slowcat_loop.simps) simp
  qed
qed

lemma slowcat_main_copies:
  assumes "CHR ''%'' \<notin> set input" and "no_nul input"
  shows "\<exists>sl. slowcat_main pid env [''slowcat''] input fopen = Ret (show_int pid @ [LF], input, sl)"
proof -
  obtain sl where "slowcat_loop (case env of None \<Rightarrow> 1 | Some v \<Rightarrow> atoi v) input = Ret (input, sl)"
    using slowcat_loop_copies [OF assms] by blast
  then show ?thesis by (simp add: slowcat_main_def)
qed

lemma slowcat_percent: "slowcat_loop t (''100%'' @ [LF]) = Fault Uninitialised"
  by (subst slowcat_loop.simps) (simp add: eval_nat_numeral cstr_def)


section \<open>The tests pass\<close>

definition test_passes :: "string \<Rightarrow> bool" where
  "test_passes n = (case strings_main [''strings'', n] of
     Ret (out, rc) \<Rightarrow> rc = 0 \<and> drop (length out - length SMSG) out = SMSG
   | _ \<Rightarrow> False)"

lemma strings_tests_pass: "list_all test_passes [''1'', ''2'', ''3'', ''4'', ''5'', ''6'']"
  by code_simp

end
