(* ===== verification/Hw_Processes.thy ===== *)
theory Hw_Processes
  imports Csapp_Base "HOL-Library.Multiset"
begin

text \<open>
  Small programs about processes: the helpers of the shell lab \<open>myspin.c\<close>, \<open>myint.c\<close>,
  \<open>mystop.c\<close> and \<open>mysplit.c\<close>, and \<open>exec.c\<close> and \<open>fork.c\<close> of \<open>hw3\<close>. A program is the list of
  the calls it makes and what it prints; standard output is a terminal and so line-buffered.
\<close>

section \<open>The helpers of the shell lab\<close>

datatype pcall = PSleep int | PKill int int | PWait

definition SIGINT :: int where "SIGINT = 2"
definition SIGTSTP :: int where "SIGTSTP = 20"

definition helper_usage :: "string \<Rightarrow> string" where
  "helper_usage name = ''Usage: '' @ name @ '' <n>'' @ [LF]"

text \<open>\<open>for (i = 0; i < secs; i++) sleep(1);\<close>\<close>

definition spin :: "int \<Rightarrow> pcall list" where
  "spin secs = replicate (nat secs) (PSleep 1)"

text \<open>
  Each returns its calls and what it prints on standard error; all of them end with \<open>exit(0)\<close>.
  A signal that ends or stops the process does so at \<open>PKill\<close>.
\<close>

definition myspin_main :: "string list \<Rightarrow> pcall list \<times> string" where
  "myspin_main argv =
     (if length argv \<noteq> 2 then ([], helper_usage (hd argv)) else (spin (atoi (argv ! 1)), []))"

definition myint_main :: "int \<Rightarrow> (int \<Rightarrow> int \<Rightarrow> int) \<Rightarrow> string list \<Rightarrow> pcall list \<times> string" where
  "myint_main pid kill argv =
     (if length argv \<noteq> 2 then ([], helper_usage (hd argv))
      else (spin (atoi (argv ! 1)) @ [PKill pid SIGINT],
            if kill pid SIGINT < 0 then ''kill (int) error'' else []))"

definition mystop_main :: "int \<Rightarrow> (int \<Rightarrow> int \<Rightarrow> int) \<Rightarrow> string list \<Rightarrow> pcall list \<times> string" where
  "mystop_main pid kill argv =
     (if length argv \<noteq> 2 then ([], helper_usage (hd argv))
      else (spin (atoi (argv ! 1)) @ [PKill (- pid) SIGTSTP],
            if kill (- pid) SIGTSTP < 0 then ''kill (tstp) error'' else []))"

text \<open>As seen by the process to which \<open>fork\<close> returns \<open>rc\<close>.\<close>

definition mysplit_main :: "int \<Rightarrow> string list \<Rightarrow> pcall list \<times> string" where
  "mysplit_main rc argv =
     (if length argv \<noteq> 2 then ([], helper_usage (hd argv))
      else if rc = 0 then (spin (atoi (argv ! 1)), [])
      else ([PWait], []))"

section \<open>hw3/exec.c\<close>

text \<open>
  \<open>exec_out\<close> is what a program prints, \<open>None\<close> when \<open>execve\<close> fails. The result is the output and
  the exit status; after a successful \<open>execve\<close> the status is that of the other program, \<open>None\<close>.
\<close>

definition exec_main :: "int \<Rightarrow> (string list \<Rightarrow> string option) \<Rightarrow> string list \<Rightarrow> string \<times> int option" where
  "exec_main pid exec_out argv =
     (let intro = ''Program '' @ [CHR 0x22] @ hd argv @ [CHR 0x22] @ '' has pid '' @ show_int pid @ ''. Sleeping.'' @ [LF]
      in if length argv \<le> 1 then (intro @ ''No program to exec.  Exiting...'' @ [LF], Some 0)
         else
           (let run = intro @ ''Running exec of '' @ [CHR 0x22] @ argv ! 1 @ [CHR 0x22, LF]
            in case exec_out (tl argv) of
                 Some out \<Rightarrow> (run @ out, None)
               | None \<Rightarrow> (run @ ''End of program '' @ [CHR 0x22] @ hd argv @ [CHR 0x22] @ ''.'' @ [LF], Some 0)))"

section \<open>hw3/fork.c\<close>

text \<open>
  What the child writes to the file in pieces, prints, and leaves in the pipe. The message is
  in the buffer of \<open>write_pipe\<close>: \<open>exit\<close> writes it out, \<open>execve\<close> drops it. After \<open>dup2\<close> the standard
  output is the file.
\<close>

definition fork_child :: "int \<Rightarrow> (string list \<Rightarrow> string option) \<Rightarrow> string list \<Rightarrow> string list \<times> string \<times> string" where
  "fork_child pid exec_out argv =
     (let file = [''SECTION A'' @ [LF], ''SECTION B'' @ [LF]];
          message = ''Hello from section B'' @ [LF];
          intro = ''Program '' @ [CHR 0x22] @ hd argv @ [CHR 0x22] @ '' has pid '' @ show_int pid @ ''.'' @ [LF]
      in if length argv \<le> 1 then (file, intro @ ''No program to exec.  Exiting...'' @ [LF], message)
         else
           (let run = intro @ ''Running exec of '' @ [CHR 0x22] @ argv ! 1 @ [CHR 0x22, LF]
            in case exec_out (tl argv) of
                 Some out \<Rightarrow> (file @ [out], run, [])
               | None \<Rightarrow> (file @ [''End of program '' @ [CHR 0x22] @ hd argv @ [CHR 0x22] @ ''.'' @ [LF]], run, message)))"

text \<open>
  The parent: \<open>fgets\<close> takes a line of at most 99 bytes; at the end of the pipe it leaves
  \<open>message\<close> as it was, indeterminate.
\<close>

definition fgets_99 :: "string \<Rightarrow> string" where
  "fgets_99 s = take 99 (takeWhile (\<lambda>c. c \<noteq> LF) s @ (if LF \<in> set s then [LF] else []))"

definition fork_parent :: "string \<Rightarrow> string list \<times> string outcome" where
  "fork_parent pipe =
     ([''SECTION A'' @ [LF], ''SECTION C'' @ [LF]],
      if pipe = [] then Fault Uninitialised else Ret (fgets_99 pipe @ [LF]))"

text \<open>
  The run: the parent's output, the child's output, and the possible contents of the file,
  which both write at a common offset.
\<close>

definition fork_main :: "bool \<Rightarrow> bool \<Rightarrow> int \<Rightarrow> (string list \<Rightarrow> string option) \<Rightarrow> string list \<Rightarrow>
    (string outcome \<times> string \<times> string set) outcome" where
  "fork_main fopen_ok pipe_ok pid exec_out argv =
     (if \<not> fopen_ok then Fault Null_Deref
      else if \<not> pipe_ok then Exited 0
      else if pid < 0 then Exited 1
      else case fork_child pid exec_out argv of (cfile, cout, pipe) \<Rightarrow>
        (case fork_parent pipe of (pfile, pout) \<Rightarrow>
           Ret (pout, cout, (\<lambda>zs. ''BEFORE FORK'' @ LF # concat zs) ` shuffles pfile cfile)))"

section \<open>What they do\<close>

lemma spin_seconds: "sum_list (map (\<lambda>c. case c of PSleep n \<Rightarrow> n | _ \<Rightarrow> 0) (spin n)) = max 0 n"
  by (simp add: spin_def sum_list_replicate)

text \<open>
  With a program that \<open>execve\<close> can run the message of the child is lost, and the parent prints an
  uninitialised array; otherwise it prints the message.
\<close>

lemma fork_message_lost:
  assumes "1 < length argv" and "exec_out (tl argv) = Some out" and "0 \<le> pid"
  shows "\<exists>cout files. fork_main True True pid exec_out argv = Ret (Fault Uninitialised, cout, files)"
  using assms by (simp add: fork_main_def fork_child_def fork_parent_def Let_def)

lemma fork_message:
  assumes "length argv \<le> 1 \<or> exec_out (tl argv) = None" and "0 \<le> pid"
  shows "\<exists>cout files. fork_main True True pid exec_out argv =
    Ret (Ret (''Hello from section B'' @ [LF, LF]), cout, files)"
  using assms by (auto simp: fork_main_def fork_child_def fork_parent_def fgets_99_def Let_def)

text \<open>In every order of the writes each section is in the file, the first one twice.\<close>

lemma fork_file_length:
  assumes "fork_main True True pid exec_out argv = Ret (pout, cout, files)" and "length argv \<le> 1" and "f \<in> files"
  shows "length f = length (''BEFORE FORK'' @ [LF]) + 4 * length (''SECTION A'' @ [LF])"
proof -
  obtain zs where f: "f = ''BEFORE FORK'' @ LF # concat zs"
    and zs: "zs \<in> shuffles [''SECTION A'' @ [LF], ''SECTION C'' @ [LF]] [''SECTION A'' @ [LF], ''SECTION B'' @ [LF]]"
    using assms by (auto simp: fork_main_def fork_child_def fork_parent_def Let_def simp del: shuffles.simps split: if_splits)
  have "mset zs = mset [''SECTION A'' @ [LF], ''SECTION C'' @ [LF]] + mset [''SECTION A'' @ [LF], ''SECTION B'' @ [LF]]"
    using mset_shuffles [OF zs] .
  then have "sum_mset (image_mset length (mset zs)) = 4 * length (''SECTION A'' @ [LF])" by simp
  then have "sum_list (map length zs) = 4 * length (''SECTION A'' @ [LF])"
    by (simp only: mset_map [symmetric] sum_mset_sum_list)
  with f show ?thesis by (simp add: length_concat)
qed

end
