(* ===== verification/Hw_Mandelbrot.thy ===== *)
theory Hw_Mandelbrot
  imports Csapp_Base "HOL-Library.Word"
begin

text \<open>
  The Mandelbrot program \<open>hw7/mandelbrot.c\<close>. The type \<open>double\<close> and its operations are
  parameters: what is proved holds for any rounding. The iterations of the parallel loop are run by
  threads that interleave their statements; a variable has one copy or one for each thread, as
  the \<open>private\<close> clause of the directive says.
\<close>

section \<open>Floating point\<close>

text \<open>\<open>fp_int\<close> is the conversion to \<open>int\<close>, undefined (\<open>None\<close>) when the value does not fit.\<close>

record 'r fp =
  fp_of_int :: "int \<Rightarrow> 'r"
  fp_add :: "'r \<Rightarrow> 'r \<Rightarrow> 'r"
  fp_sub :: "'r \<Rightarrow> 'r \<Rightarrow> 'r"
  fp_mul :: "'r \<Rightarrow> 'r \<Rightarrow> 'r"
  fp_div :: "'r \<Rightarrow> 'r \<Rightarrow> 'r"
  fp_less :: "'r \<Rightarrow> 'r \<Rightarrow> bool"
  fp_int :: "'r \<Rightarrow> int option"
  fp_atof :: "string \<Rightarrow> 'r"
  fp_show :: "'r \<Rightarrow> string"    \<comment> \<open>\<open>%lf\<close>\<close>

section \<open>The iteration\<close>

function escape_loop :: "'r fp \<Rightarrow> int \<Rightarrow> 'r \<Rightarrow> 'r \<Rightarrow> int \<Rightarrow> 'r \<Rightarrow> 'r \<Rightarrow> 'r \<Rightarrow> 'r \<Rightarrow> int" where
  "escape_loop fp maxiter x y k u v u2 v2 =
     (if k < maxiter \<and> fp_less fp (fp_add fp u2 v2) (fp_of_int fp 4) then
        (let v' = fp_add fp (fp_mul fp (fp_mul fp (fp_of_int fp 2) u) v) y;
             u' = fp_add fp (fp_sub fp u2 v2) x
         in escape_loop fp maxiter x y (k + 1) u' v' (fp_mul fp u' u') (fp_mul fp v' v'))
      else k)"
  by pat_completeness auto
termination
  by (relation "measure (\<lambda>(fp, maxiter, x, y, k, u, v, u2, v2). nat (maxiter - k))") auto

declare escape_loop.simps [simp del]

definition escape :: "'r fp \<Rightarrow> int \<Rightarrow> 'r \<Rightarrow> 'r \<Rightarrow> int" where
  "escape fp maxiter x y =
     (let z = fp_of_int fp 0 in escape_loop fp maxiter x y 1 z z (fp_mul fp z z) (fp_mul fp z z))"

record 'r window =
  wd_xmin :: 'r
  wd_xmax :: 'r
  wd_ymin :: 'r
  wd_ymax :: 'r

section \<open>The loop over the rows\<close>

text \<open>
  What the loop reads: the arithmetic, the window, the bounds, and the variables that the \<open>private\<close>
  clause of the directive names.
\<close>

datatype mvar = VX | VY | VU | VV | VI | VJ | VK

definition private_clause :: "mvar list" where
  "private_clause = [VX, VY, VU, VV, VI, VJ, VK]"

record 'r mandel =
  md_fp :: "'r fp"
  md_win :: "'r window"
  md_maxiter :: int
  md_xres :: int
  md_yres :: int
  md_private :: "mvar list"

definition md_dx :: "'r mandel \<Rightarrow> 'r" where
  "md_dx d = (let f = md_fp d; w = md_win d in fp_div f (fp_sub f (wd_xmax w) (wd_xmin w)) (fp_of_int f (md_xres d)))"

definition md_dy :: "'r mandel \<Rightarrow> 'r" where
  "md_dy d = (let f = md_fp d; w = md_win d in fp_div f (fp_sub f (wd_ymax w) (wd_ymin w)) (fp_of_int f (md_yres d)))"

definition md_y :: "'r mandel \<Rightarrow> int \<Rightarrow> 'r" where
  "md_y d j = fp_sub (md_fp d) (wd_ymax (md_win d)) (fp_mul (md_fp d) (fp_of_int (md_fp d) j) (md_dy d))"

definition md_x :: "'r mandel \<Rightarrow> int \<Rightarrow> 'r" where
  "md_x d i = fp_add (md_fp d) (wd_xmin (md_win d)) (fp_mul (md_fp d) (fp_of_int (md_fp d) i) (md_dx d))"

text \<open>The loop without its directive: what row \<open>j\<close> of \<open>pic\<close> becomes.\<close>

definition mandel_row :: "'r mandel \<Rightarrow> nat \<Rightarrow> int list" where
  "mandel_row d j =
     map (\<lambda>i. escape (md_fp d) (md_maxiter d) (md_x d (int i)) (md_y d (int j))) [0..<nat (md_xres d)]"

section \<open>The threads\<close>

text \<open>
  The variables of \<open>main\<close> that the loop assigns: one copy is shared, and every thread has one of its
  own, which it uses for those in the \<open>private\<close> clause. Both start with indeterminate values.
\<close>

record 'r mvars =
  mv_x :: 'r
  mv_y :: 'r
  mv_u :: 'r
  mv_v :: 'r
  mv_i :: int
  mv_j :: int
  mv_k :: int

definition mv_read :: "'r mandel \<Rightarrow> mvar \<Rightarrow> ('r mvars \<Rightarrow> 'a) \<Rightarrow> 'r mvars \<times> 'r mvars \<Rightarrow> 'a" where
  "mv_read d v f s = (if v \<in> set (md_private d) then f (fst s) else f (snd s))"

definition mv_write :: "'r mandel \<Rightarrow> mvar \<Rightarrow> ('r mvars \<Rightarrow> 'r mvars) \<Rightarrow> 'r mvars \<times> 'r mvars \<Rightarrow> 'r mvars \<times> 'r mvars" where
  "mv_write d v f s = (if v \<in> set (md_private d) then (f (fst s), snd s) else (fst s, f (snd s)))"

text \<open>
  The statements of the loop body; the block-local \<open>u\<close>, \<open>v\<close>, \<open>u2\<close> and \<open>v2\<close>, which hide the outer ones,
  are part of the position.
\<close>

datatype 'r ms_pc =
    MsNext                 \<comment> \<open>before the next row of the thread's share\<close>
  | MsRow                  \<comment> \<open>before \<open>y = ymax - j * dy\<close>\<close>
  | MsCols                 \<comment> \<open>before \<open>i = 0\<close>\<close>
  | MsCol                  \<comment> \<open>before \<open>i < xres\<close>\<close>
  | MsPoint                \<comment> \<open>before \<open>x = xmin + i * dx\<close>\<close>
  | MsInit                 \<comment> \<open>before \<open>k = 1\<close>\<close>
  | MsTest 'r 'r 'r 'r     \<comment> \<open>before the condition of the inner loop\<close>
  | MsBody 'r 'r 'r 'r     \<comment> \<open>before its body\<close>
  | MsIncr 'r 'r 'r 'r     \<comment> \<open>before \<open>k++\<close>\<close>
  | MsStore                \<comment> \<open>before \<open>pic[j][i] = k\<close>\<close>
  | MsInc                  \<comment> \<open>before \<open>i++\<close>\<close>
  | MsDone

record 'r ms_thread =
  mt_pc :: "'r ms_pc"
  mt_vars :: "'r mvars"
  mt_rows :: "nat list"

text \<open>The cells of \<open>pic\<close>; \<open>None\<close> is indeterminate, as \<open>malloc\<close> leaves them.\<close>

type_synonym picture = "int option list list"

definition pic_store :: "int \<Rightarrow> int \<Rightarrow> int \<Rightarrow> picture \<Rightarrow> picture outcome" where
  "pic_store j i k pic =
     (if 0 \<le> j \<and> nat j < length pic \<and> 0 \<le> i \<and> nat i < length (pic ! nat j)
      then Ret (pic[nat j := (pic ! nat j)[nat i := Some k]])
      else Fault Out_Of_Bounds)"

text \<open>
  One statement of a thread, with its own variables and the shared ones. The rows of its share
  are what the runtime library has given it.
\<close>

definition ms_goto :: "'r ms_thread \<Rightarrow> picture \<Rightarrow> 'r ms_pc \<Rightarrow> 'r mvars \<times> 'r mvars \<Rightarrow>
    ('r ms_thread \<times> 'r mvars \<times> picture) outcome option" where
  "ms_goto th pic pc s = Some (Ret (th\<lparr>mt_pc := pc, mt_vars := fst s\<rparr>, snd s, pic))"

definition ms_thread_step :: "'r mandel \<Rightarrow> 'r ms_thread \<Rightarrow> 'r mvars \<Rightarrow> picture \<Rightarrow>
    ('r ms_thread \<times> 'r mvars \<times> picture) outcome option" where
  "ms_thread_step d th shared pic =
     (let f = md_fp d;
          s = (mt_vars th, shared);
          i = mv_read d VI mv_i s;
          j = mv_read d VJ mv_j s;
          k = mv_read d VK mv_k s
      in case mt_pc th of
        MsNext \<Rightarrow>
          (case mt_rows th of
             [] \<Rightarrow> ms_goto th pic MsDone s
           | r # rs \<Rightarrow> ms_goto (th\<lparr>mt_rows := rs\<rparr>) pic MsRow (mv_write d VJ (mv_j_update (\<lambda>_. int r)) s))
      | MsRow \<Rightarrow> ms_goto th pic MsCols (mv_write d VY (mv_y_update (\<lambda>_. md_y d j)) s)
      | MsCols \<Rightarrow> ms_goto th pic MsCol (mv_write d VI (mv_i_update (\<lambda>_. 0)) s)
      | MsCol \<Rightarrow> ms_goto th pic (if i < md_xres d then MsPoint else MsNext) s
      | MsPoint \<Rightarrow> ms_goto th pic MsInit (mv_write d VX (mv_x_update (\<lambda>_. md_x d i)) s)
      | MsInit \<Rightarrow>
          (let z = fp_of_int f 0
           in ms_goto th pic (MsTest z z (fp_mul f z z) (fp_mul f z z)) (mv_write d VK (mv_k_update (\<lambda>_. 1)) s))
      | MsTest u v u2 v2 \<Rightarrow>
          ms_goto th pic
            (if k < md_maxiter d \<and> fp_less f (fp_add f u2 v2) (fp_of_int f 4) then MsBody u v u2 v2 else MsStore) s
      | MsBody u v u2 v2 \<Rightarrow>
          (let v' = fp_add f (fp_mul f (fp_mul f (fp_of_int f 2) u) v) (mv_read d VY mv_y s);
               u' = fp_add f (fp_sub f u2 v2) (mv_read d VX mv_x s)
           in ms_goto th pic (MsIncr u' v' (fp_mul f u' u') (fp_mul f v' v')) s)
      | MsIncr u v u2 v2 \<Rightarrow> ms_goto th pic (MsTest u v u2 v2) (mv_write d VK (mv_k_update (\<lambda>_. k + 1)) s)
      | MsStore \<Rightarrow>
          (case pic_store j i k pic of
             Ret pic' \<Rightarrow> ms_goto th pic' MsInc s
           | Exited n \<Rightarrow> Some (Exited n)
           | Fault e \<Rightarrow> Some (Fault e))
      | MsInc \<Rightarrow> ms_goto th pic MsCol (mv_write d VI (mv_i_update (\<lambda>_. i + 1)) s)
      | MsDone \<Rightarrow> None)"

record 'r ms_sys =
  ms_shared :: "'r mvars"
  ms_pic :: picture
  ms_threads :: "'r ms_thread list"

definition ms_step :: "'r mandel \<Rightarrow> nat \<Rightarrow> 'r ms_sys \<Rightarrow> 'r ms_sys outcome option" where
  "ms_step d n s =
     (if n < length (ms_threads s) then
        map_option
          (omap (\<lambda>(th, shared, pic). s\<lparr>ms_shared := shared, ms_pic := pic, ms_threads := (ms_threads s)[n := th]\<rparr>))
          (ms_thread_step d (ms_threads s ! n) (ms_shared s) (ms_pic s))
      else None)"

text \<open>
  The parallel loop: \<open>shares\<close> are the rows that each thread gets, \<open>own\<close> the variables it starts with,
  \<open>order\<close> the threads in the order in which they make their steps. The loop ends when all threads
  are done; \<open>None\<close> says that \<open>order\<close> is no complete execution.
\<close>

definition ms_init :: "'r mvars \<Rightarrow> (nat \<Rightarrow> 'r mvars) \<Rightarrow> nat list list \<Rightarrow> picture \<Rightarrow> 'r ms_sys" where
  "ms_init shared own shares pic =
     \<lparr>ms_shared = shared, ms_pic = pic,
      ms_threads = map (\<lambda>n. \<lparr>mt_pc = MsNext, mt_vars = own n, mt_rows = shares ! n\<rparr>) [0..<length shares]\<rparr>"

definition ms_done :: "'r ms_sys \<Rightarrow> bool" where
  "ms_done s \<longleftrightarrow> list_all (\<lambda>th. case mt_pc th of MsDone \<Rightarrow> True | _ \<Rightarrow> False) (ms_threads s)"

fun ms_run :: "'r mandel \<Rightarrow> nat list \<Rightarrow> 'r ms_sys \<Rightarrow> picture outcome option" where
  "ms_run d [] s = (if ms_done s then Some (Ret (ms_pic s)) else None)"
| "ms_run d (n # ns) s =
     (case ms_step d n s of
        None \<Rightarrow> None
      | Some r \<Rightarrow> (case r of Ret t \<Rightarrow> ms_run d ns t | Exited c \<Rightarrow> Some (Exited c) | Fault e \<Rightarrow> Some (Fault e)))"

section \<open>The file\<close>

definition pixel_bytes :: "int \<Rightarrow> int \<Rightarrow> 8 word list" where
  "pixel_bytes maxiter k =
     (if maxiter \<le> k then replicate 6 0
      else (let hi = word_of_int (k div 256); lo = word_of_int (k mod 256) in [hi, lo, hi, lo, hi, lo]))"

definition picture_bytes :: "int \<Rightarrow> int list list \<Rightarrow> 8 word list" where
  "picture_bytes maxiter pic = concat (map (\<lambda>row. concat (map (pixel_bytes maxiter) row)) pic)"

definition mandel_header :: "'r fp \<Rightarrow> 'r window \<Rightarrow> int \<Rightarrow> int \<Rightarrow> int \<Rightarrow> string" where
  "mandel_header fp w maxiter xres yres =
     ''P6'' @ LF # ''# Mandelbrot, xmin='' @ fp_show fp (wd_xmin w) @ '', xmax='' @ fp_show fp (wd_xmax w) @
     '', ymin='' @ fp_show fp (wd_ymin w) @ '', ymax='' @ fp_show fp (wd_ymax w) @ '', maxiter='' @ show_int maxiter @
     LF # show_int xres @ LF # show_int yres @ LF # show_int (if maxiter < 256 then 256 else maxiter) @ [LF]"

text \<open>
  The rows are allocated by \<open>for (int r; r < yres; r++)\<close>; \<open>r0\<close> is what the uninitialised \<open>r\<close> holds.
\<close>

definition alloc_rows :: "int \<Rightarrow> int \<Rightarrow> nat \<Rightarrow> picture outcome" where
  "alloc_rows r0 yres xres =
     (if yres \<le> 0 then (if r0 < yres then Fault Out_Of_Bounds else Ret [])
      else if r0 < 0 then Fault Out_Of_Bounds
      else if 0 < r0 then Fault Uninitialised
      else Ret (replicate (nat yres) (replicate xres None)))"

text \<open>The cells that the last loops read.\<close>

definition read_cells :: "picture \<Rightarrow> int list list outcome" where
  "read_cells pic =
     (if list_all (list_all (\<lambda>c. c \<noteq> None)) pic then Ret (map (map the) pic) else Fault Uninitialised)"

definition atou16 :: "string \<Rightarrow> int" where
  "atou16 s = atoi s mod 65536"

text \<open>
  \<open>main\<close> around the loop over the rows: the output and the exit status, or the header and the pixels
  of the file; \<open>None\<close> when the loop has not ended.
\<close>

definition mandel_prog :: "('r mandel \<Rightarrow> picture \<Rightarrow> picture outcome option) \<Rightarrow> 'r fp \<Rightarrow> bool \<Rightarrow> int \<Rightarrow> string list \<Rightarrow>
    (string \<times> int + string \<times> 8 word list) outcome option" where
  "mandel_prog loop fp fopen_ok r0 argv =
     (if length argv \<noteq> 8 then
        Some (Ret (Inl (''Usage:   '' @ hd argv @ '' <xmin> <xmax> <ymin> <ymax> <maxiter> <xres> <out.ppm>'' @ LF #
          ''Example: '' @ hd argv @ '' 0.27085 0.27100 0.004640 0.004810 1000 1024 pic.ppm'' @ [LF], 1)))
      else
        (let w = \<lparr>wd_xmin = fp_atof fp (argv ! 1), wd_xmax = fp_atof fp (argv ! 2),
               wd_ymin = fp_atof fp (argv ! 3), wd_ymax = fp_atof fp (argv ! 4)\<rparr>;
             maxiter = atou16 (argv ! 5);
             xres = atoi (argv ! 6)
         in (case fp_int fp (fp_div fp (fp_mul fp (fp_of_int fp xres) (fp_sub fp (wd_ymax w) (wd_ymin w)))
                 (fp_sub fp (wd_xmax w) (wd_xmin w))) of
               None \<Rightarrow> Some (Fault Int_Overflow)
             | Some yres \<Rightarrow>
                 if \<not> fopen_ok then Some (Fault Null_Deref)
                 else
                   (case alloc_rows r0 yres (nat xres) of
                      Ret pic \<Rightarrow>
                        map_option (\<lambda>r. obind r (\<lambda>pic'. omap (\<lambda>rows.
                            Inr (mandel_header fp w maxiter xres yres, picture_bytes maxiter rows)) (read_cells pic')))
                          (loop \<lparr>md_fp = fp, md_win = w, md_maxiter = maxiter, md_xres = xres, md_yres = yres,
                             md_private = private_clause\<rparr> pic)
                    | Exited n \<Rightarrow> Some (Exited n)
                    | Fault e \<Rightarrow> Some (Fault e)))))"

text \<open>The program as it is, and as it is without the directive.\<close>

definition mandel_main :: "'r mvars \<Rightarrow> (nat \<Rightarrow> 'r mvars) \<Rightarrow> (nat \<Rightarrow> nat list list) \<Rightarrow> nat list \<Rightarrow>
    'r fp \<Rightarrow> bool \<Rightarrow> int \<Rightarrow> string list \<Rightarrow> (string \<times> int + string \<times> 8 word list) outcome option" where
  "mandel_main shared own shares order =
     mandel_prog (\<lambda>d pic. ms_run d order (ms_init shared own (shares (nat (md_yres d))) pic))"

definition mandel_seq :: "'r fp \<Rightarrow> bool \<Rightarrow> int \<Rightarrow> string list \<Rightarrow> (string \<times> int + string \<times> 8 word list) outcome option" where
  "mandel_seq = mandel_prog (\<lambda>d pic. Some (Ret (map (\<lambda>j. map Some (mandel_row d j)) [0..<nat (md_yres d)])))"

section \<open>What it computes\<close>

lemma escape_loop_bounds:
  assumes "1 \<le> k" and "k \<le> max 1 maxiter"
  shows "1 \<le> escape_loop fp maxiter x y k u v u2 v2 \<and> escape_loop fp maxiter x y k u v u2 v2 \<le> max 1 maxiter"
  using assms
proof (induction fp maxiter x y k u v u2 v2 rule: escape_loop.induct)
  case (1 fp maxiter x y k u v u2 v2)
  show ?case
  proof (cases "k < maxiter \<and> fp_less fp (fp_add fp u2 v2) (fp_of_int fp 4)")
    case True
    then show ?thesis using "1.IH" [OF True refl refl] "1.prems"
      by (subst (1 2) escape_loop.simps) (simp add: Let_def)
  next
    case False
    have "escape_loop fp maxiter x y k u v u2 v2 = k"
      by (subst escape_loop.simps) (simp only: False if_False)
    then show ?thesis using "1.prems" by simp
  qed
qed

lemma escape_bounds: "1 \<le> escape fp maxiter x y \<and> escape fp maxiter x y \<le> max 1 maxiter"
  unfolding escape_def Let_def by (rule escape_loop_bounds) simp_all

text \<open>
  Each pixel below the limit holds its number of iterations in 16 bits, three times.
\<close>

definition pixel_value :: "8 word list \<Rightarrow> int" where
  "pixel_value bs = uint (bs ! 0) * 256 + uint (bs ! 1)"

lemma pixel_bytes_value:
  assumes "0 \<le> k" and "k < maxiter" and "maxiter \<le> 65536"
  shows "pixel_value (pixel_bytes maxiter k) = k"
proof -
  have "k div 256 < 256" "0 \<le> k div 256" using assms by auto
  then show ?thesis using assms by (simp add: pixel_value_def pixel_bytes_def uint_word_of_int Let_def)
qed

text \<open>The rows of the picture are all the program has: without a row allocated it writes no pixel.\<close>

lemma ms_thread_step_length:
  "ms_thread_step d th shared pic = Some (Ret (th', shared', pic')) \<Longrightarrow> length pic' = length pic"
  by (auto simp: ms_thread_step_def ms_goto_def pic_store_def Let_def
      split: ms_pc.splits list.splits outcome.splits if_splits)

lemma ms_step_length: "ms_step d n s = Some (Ret t) \<Longrightarrow> length (ms_pic t) = length (ms_pic s)"
  by (auto simp: ms_step_def omap_Ret_iff dest: ms_thread_step_length split: if_splits)

lemma ms_run_length: "ms_run d ns s = Some (Ret pic) \<Longrightarrow> length pic = length (ms_pic s)"
  by (induction d ns s rule: ms_run.induct)
    (auto split: if_splits option.splits outcome.splits dest: ms_step_length)

lemma mandel_needs_zero:
  assumes "mandel_main shared own shares order fp fopen_ok r0 argv = Some (Ret (Inr (h, bs)))"
  shows "r0 = 0 \<or> bs = []"
proof (rule ccontr)
  assume "\<not> (r0 = 0 \<or> bs = [])"
  with assms show False
    by (auto simp: mandel_main_def mandel_prog_def alloc_rows_def obind_Ret_iff omap_Ret_iff Let_def
        picture_bytes_def read_cells_def ms_init_def dest!: ms_run_length split: if_splits option.splits)
qed

text \<open>Integers in the place of \<open>double\<close>.\<close>

definition int_fp :: "int fp" where
  "int_fp = \<lparr>fp_of_int = (\<lambda>n. n), fp_add = (+), fp_sub = (-), fp_mul = (*), fp_div = (div), fp_less = (<),
     fp_int = Some, fp_atof = atoi, fp_show = show_int\<rparr>"

section \<open>Properties\<close>

text \<open>C40. Every number of iterations lies between 1 and the limit, so that a point below the limit
  can be read back from the two bytes of each of its channels, and only the others are black.\<close>

theorem mandel_pixels:
  assumes "1 < maxiter" and "maxiter < 65536"
  shows "1 \<le> escape fp maxiter x y \<and> escape fp maxiter x y \<le> maxiter \<and>
    pixel_value (pixel_bytes maxiter (escape fp maxiter x y)) =
      (if escape fp maxiter x y = maxiter then 0 else escape fp maxiter x y)"
proof -
  have b: "1 \<le> escape fp maxiter x y" "escape fp maxiter x y \<le> maxiter"
    using escape_bounds [of fp maxiter x y] assms(1) by simp_all
  then show ?thesis
    using pixel_bytes_value [of "escape fp maxiter x y" maxiter] assms
    by (auto simp: pixel_value_def pixel_bytes_def)
qed

theorem mandel_pixels_witness:
  "escape int_fp 9 1 0 = 3 \<and> pixel_value (pixel_bytes 9 (escape int_fp 9 1 0)) = 3"
proof -
  have "escape int_fp 9 1 0 = 3"
    by (simp add: escape_def escape_loop.simps int_fp_def Let_def)
  with mandel_pixels [of 9 int_fp 1 0] show ?thesis by simp
qed

end
