(* ===== verification/Hw_Mandel_Threads.thy ===== *)
theory Hw_Mandel_Threads
  imports Hw_Mandelbrot
begin

text \<open>
  The parallel loop of \<open>hw7/mandelbrot.c\<close>: its threads, in any interleaving of their statements,
  compute the picture of the sequential loop. This rests on the \<open>private\<close> clause, on the block-local
  variables, and on every row being given to one thread.
\<close>

section \<open>One thread\<close>

lemma private_all: "v \<in> set private_clause"
  by (cases v) (simp_all add: private_clause_def)

lemma mv_private [simp]:
  assumes "md_private d = private_clause"
  shows "mv_read d v f s = f (fst s)" and "mv_write d v g s = (g (fst s), snd s)"
  by (simp_all add: mv_read_def mv_write_def assms private_all)

definition pic_shape :: "'r mandel \<Rightarrow> picture \<Rightarrow> bool" where
  "pic_shape d pic \<longleftrightarrow> length pic = nat (md_yres d) \<and> (\<forall>j < nat (md_yres d). length (pic ! j) = nat (md_xres d))"

text \<open>The first \<open>n\<close> points of row \<open>j\<close> are those of the sequential loop.\<close>

definition row_prefix :: "'r mandel \<Rightarrow> picture \<Rightarrow> nat \<Rightarrow> nat \<Rightarrow> bool" where
  "row_prefix d pic j n \<longleftrightarrow> (\<forall>i < n. pic ! j ! i = Some (mandel_row d j ! i))"

abbreviation row_done :: "'r mandel \<Rightarrow> picture \<Rightarrow> nat \<Rightarrow> bool" where
  "row_done d pic j \<equiv> row_prefix d pic j (nat (md_xres d))"

text \<open>What the inner loop will end with.\<close>

definition ends_at :: "'r mandel \<Rightarrow> nat \<Rightarrow> 'r mvars \<Rightarrow> int \<Rightarrow> 'r \<Rightarrow> 'r \<Rightarrow> 'r \<Rightarrow> 'r \<Rightarrow> bool" where
  "ends_at d j m k u v u2 v2 \<longleftrightarrow>
     escape_loop (md_fp d) (md_maxiter d) (mv_x m) (mv_y m) k u v u2 v2 =
     escape (md_fp d) (md_maxiter d) (md_x d (mv_i m)) (md_y d (int j)) \<and>
     mv_x m = md_x d (mv_i m)"

fun looping :: "'r mandel \<Rightarrow> 'r ms_pc \<Rightarrow> 'r mvars \<Rightarrow> bool" where
  "looping d (MsBody u v u2 v2) m \<longleftrightarrow>
     mv_k m < md_maxiter d \<and> fp_less (md_fp d) (fp_add (md_fp d) u2 v2) (fp_of_int (md_fp d) 4)"
| "looping d (MsIncr u v u2 v2) m \<longleftrightarrow> mv_k m < md_maxiter d"
| "looping d pc m \<longleftrightarrow> True"

text \<open>A thread in row \<open>j\<close>: its variables, and how many points of the row it has stored.\<close>

fun in_row :: "'r mandel \<Rightarrow> nat \<Rightarrow> 'r ms_pc \<Rightarrow> 'r mvars \<Rightarrow> bool" where
  "in_row d j MsRow m \<longleftrightarrow> True"
| "in_row d j MsCols m \<longleftrightarrow> mv_y m = md_y d (int j)"
| "in_row d j MsCol m \<longleftrightarrow> mv_y m = md_y d (int j) \<and> 0 \<le> mv_i m \<and> mv_i m \<le> int (nat (md_xres d))"
| "in_row d j MsInit m \<longleftrightarrow> mv_y m = md_y d (int j) \<and> 0 \<le> mv_i m \<and> mv_i m < md_xres d \<and> mv_x m = md_x d (mv_i m)"
| "in_row d j (MsTest u v u2 v2) m \<longleftrightarrow> mv_y m = md_y d (int j) \<and> 0 \<le> mv_i m \<and> mv_i m < md_xres d \<and>
     ends_at d j m (mv_k m) u v u2 v2"
| "in_row d j (MsBody u v u2 v2) m \<longleftrightarrow> mv_y m = md_y d (int j) \<and> 0 \<le> mv_i m \<and> mv_i m < md_xres d \<and>
     ends_at d j m (mv_k m) u v u2 v2"
| "in_row d j (MsIncr u v u2 v2) m \<longleftrightarrow> mv_y m = md_y d (int j) \<and> 0 \<le> mv_i m \<and> mv_i m < md_xres d \<and>
     ends_at d j m (mv_k m + 1) u v u2 v2"
| "in_row d j MsStore m \<longleftrightarrow> mv_y m = md_y d (int j) \<and> 0 \<le> mv_i m \<and> mv_i m < md_xres d \<and>
     mv_k m = escape (md_fp d) (md_maxiter d) (md_x d (mv_i m)) (md_y d (int j))"
| "in_row d j pc m \<longleftrightarrow> mv_y m = md_y d (int j) \<and> 0 \<le> mv_i m \<and> mv_i m < md_xres d"

fun stored :: "'r ms_pc \<Rightarrow> int \<Rightarrow> nat" where
  "stored MsRow i = 0"
| "stored MsCols i = 0"
| "stored MsInc i = Suc (nat i)"
| "stored pc i = nat i"

definition at_row :: "'r mandel \<Rightarrow> nat list \<Rightarrow> 'r ms_thread \<Rightarrow> picture \<Rightarrow> bool" where
  "at_row d share th pic \<longleftrightarrow>
     (\<exists>before j. share = before @ j # mt_rows th \<and> (\<forall>l \<in> set before. row_done d pic l) \<and>
        mv_j (mt_vars th) = int j \<and> in_row d j (mt_pc th) (mt_vars th) \<and> looping d (mt_pc th) (mt_vars th) \<and>
        row_prefix d pic j (stored (mt_pc th) (mv_i (mt_vars th))))"

definition thread_ok :: "'r mandel \<Rightarrow> nat list \<Rightarrow> 'r ms_thread \<Rightarrow> picture \<Rightarrow> bool" where
  "thread_ok d share th pic \<longleftrightarrow>
     (case mt_pc th of
        MsNext \<Rightarrow> \<exists>before. share = before @ mt_rows th \<and> (\<forall>l \<in> set before. row_done d pic l)
      | MsDone \<Rightarrow> \<forall>l \<in> set share. row_done d pic l
      | _ \<Rightarrow> at_row d share th pic)"

text \<open>A thread depends on the rows of its share only.\<close>

lemma row_prefix_cong: "pic' ! j = pic ! j \<Longrightarrow> row_prefix d pic' j n = row_prefix d pic j n"
  by (simp add: row_prefix_def)

lemma thread_ok_other:
  assumes "thread_ok d share th pic" and "\<And>l. l \<in> set share \<Longrightarrow> pic' ! l = pic ! l"
  shows "thread_ok d share th pic'"
proof -
  have same: "row_prefix d pic' l n = row_prefix d pic l n" if "l \<in> set share" for l n
    by (rule row_prefix_cong [OF assms(2) [OF that]])
  then have "at_row d share th pic \<Longrightarrow> at_row d share th pic'" unfolding at_row_def by fastforce
  moreover have "\<exists>before. share = before @ mt_rows th \<and> (\<forall>l \<in> set before. row_done d pic l) \<Longrightarrow>
      \<exists>before. share = before @ mt_rows th \<and> (\<forall>l \<in> set before. row_done d pic' l)" using same by fastforce
  ultimately show ?thesis using assms(1) same unfolding thread_ok_def by (cases "mt_pc th") simp_all
qed

text \<open>The statements that a thread still has to execute, at most.\<close>

definition point_cost :: "'r mandel \<Rightarrow> int" where
  "point_cost d = 3 * int (nat (md_maxiter d)) + 10"

definition row_cost :: "'r mandel \<Rightarrow> int" where
  "row_cost d = int (nat (md_xres d)) * point_cost d + 10"

definition cols_cost :: "'r mandel \<Rightarrow> int \<Rightarrow> int" where
  "cols_cost d i = int (nat (md_xres d - i)) * point_cost d"

fun pc_cost :: "'r mandel \<Rightarrow> 'r ms_pc \<Rightarrow> 'r mvars \<Rightarrow> int" where
  "pc_cost d MsDone m = 0"
| "pc_cost d MsNext m = 1"
| "pc_cost d MsRow m = cols_cost d 0 + 5"
| "pc_cost d MsCols m = cols_cost d 0 + 4"
| "pc_cost d MsCol m = cols_cost d (mv_i m) + 3"
| "pc_cost d MsPoint m = cols_cost d (mv_i m) + 2"
| "pc_cost d MsInit m = cols_cost d (mv_i m) + 1"
| "pc_cost d (MsTest u v u2 v2) m = cols_cost d (mv_i m + 1) + 3 * int (nat (md_maxiter d - mv_k m)) + 6"
| "pc_cost d (MsBody u v u2 v2) m = cols_cost d (mv_i m + 1) + 3 * int (nat (md_maxiter d - mv_k m)) + 5"
| "pc_cost d (MsIncr u v u2 v2) m = cols_cost d (mv_i m + 1) + 3 * int (nat (md_maxiter d - mv_k m)) + 4"
| "pc_cost d MsStore m = cols_cost d (mv_i m + 1) + 5"
| "pc_cost d MsInc m = cols_cost d (mv_i m + 1) + 4"

definition thread_cost :: "'r mandel \<Rightarrow> 'r ms_thread \<Rightarrow> int" where
  "thread_cost d th = int (length (mt_rows th)) * row_cost d + pc_cost d (mt_pc th) (mt_vars th)"

lemma cols_cost_nonneg: "0 \<le> cols_cost d i"
  by (simp add: cols_cost_def point_cost_def)

lemma thread_cost_nonneg: "0 \<le> thread_cost d th"
proof -
  have "0 \<le> row_cost d" by (simp add: row_cost_def point_cost_def)
  moreover have "0 \<le> pc_cost d pc m" for pc m using cols_cost_nonneg [of d] by (cases pc) (auto simp: add_increasing)
  ultimately show ?thesis by (simp add: thread_cost_def)
qed

lemma cols_cost_point: "i < md_xres d \<Longrightarrow> cols_cost d i = cols_cost d (i + 1) + point_cost d"
proof -
  assume "i < md_xres d"
  then have "int (nat (md_xres d - i)) = int (nat (md_xres d - (i + 1))) + 1" by simp
  then show ?thesis by (simp add: cols_cost_def distrib_right)
qed

text \<open>The inner loop, one statement at a time.\<close>

lemma escape_loop_more:
  assumes "k < maxiter" and "fp_less f (fp_add f u2 v2) (fp_of_int f 4)"
    and "v' = fp_add f (fp_mul f (fp_mul f (fp_of_int f 2) u) v) y" and "u' = fp_add f (fp_sub f u2 v2) x"
  shows "escape_loop f maxiter x y k u v u2 v2 = escape_loop f maxiter x y (k + 1) u' v' (fp_mul f u' u') (fp_mul f v' v')"
  using assms by (subst escape_loop.simps) (simp add: Let_def)

lemma escape_loop_ends:
  "\<not> (k < maxiter \<and> fp_less f (fp_add f u2 v2) (fp_of_int f 4)) \<Longrightarrow> escape_loop f maxiter x y k u v u2 v2 = k"
  by (subst escape_loop.simps) (simp only: if_False)


text \<open>One statement.\<close>

lemma at_rowI:
  assumes "share = before @ j # mt_rows th" and "\<forall>l \<in> set before. row_done d pic l" and "mv_j (mt_vars th) = int j"
    and "in_row d j (mt_pc th) (mt_vars th)" and "looping d (mt_pc th) (mt_vars th)"
    and "row_prefix d pic j (stored (mt_pc th) (mv_i (mt_vars th)))"
  shows "at_row d share th pic"
  using assms unfolding at_row_def by blast

lemma step_in_row:
  assumes priv: "md_private d = private_clause" and row: "at_row d share th pic"
    and pc: "mt_pc th \<notin> {MsNext, MsStore, MsDone}" and col: "mt_pc th = MsCol \<Longrightarrow> mv_i (mt_vars th) < md_xres d"
  obtains th' where "ms_thread_step d th shared pic = Some (Ret (th', shared, pic))"
    and "at_row d share th' pic" and "mt_pc th' \<notin> {MsNext, MsDone}" and "thread_cost d th' < thread_cost d th"
proof -
  let ?m = "mt_vars th"
  obtain before j where share: "share = before @ j # mt_rows th" and dn: "\<forall>l \<in> set before. row_done d pic l"
    and j: "mv_j ?m = int j" and inr: "in_row d j (mt_pc th) ?m" and loop: "looping d (mt_pc th) ?m"
    and pre: "row_prefix d pic j (stored (mt_pc th) (mv_i ?m))"
    using row unfolding at_row_def by blast
  note row' = at_rowI [where before = before and j = j, OF _ dn]
  note defs = ms_thread_step_def ms_goto_def Let_def priv thread_cost_def
  show thesis
  proof (cases "mt_pc th")
    case MsRow
    show thesis
      by (rule that [of "th\<lparr>mt_pc := MsCols, mt_vars := ?m\<lparr>mv_y := md_y d (int j)\<rparr>\<rparr>"])
        (use MsRow share j pre in \<open>auto simp: defs intro!: row'\<close>)
  next
    case MsCols
    show thesis
      by (rule that [of "th\<lparr>mt_pc := MsCol, mt_vars := ?m\<lparr>mv_i := 0\<rparr>\<rparr>"])
        (use MsCols share j inr pre in \<open>auto simp: defs intro!: row'\<close>)
  next
    case MsCol
    show thesis
      by (rule that [of "th\<lparr>mt_pc := MsPoint\<rparr>"])
        (use MsCol col share j inr pre in \<open>auto simp: defs intro!: row'\<close>)
  next
    case MsPoint
    show thesis
      by (rule that [of "th\<lparr>mt_pc := MsInit, mt_vars := ?m\<lparr>mv_x := md_x d (mv_i ?m)\<rparr>\<rparr>"])
        (use MsPoint share j inr pre in \<open>auto simp: defs intro!: row'\<close>)
  next
    case MsInit
    let ?z = "fp_of_int (md_fp d) 0" and ?f = "md_fp d"
    have "ends_at d j (?m\<lparr>mv_k := 1\<rparr>) 1 ?z ?z (fp_mul ?f ?z ?z) (fp_mul ?f ?z ?z)"
      using MsInit inr by (simp add: ends_at_def escape_def Let_def)
    moreover have "int (nat (md_maxiter d - 1)) \<le> int (nat (md_maxiter d))" by simp
    then have "3 * int (nat (md_maxiter d - 1)) + 6 < point_cost d + 1" by (simp add: point_cost_def)
    ultimately show thesis
      by (intro that [of "th\<lparr>mt_pc := MsTest ?z ?z (fp_mul ?f ?z ?z) (fp_mul ?f ?z ?z), mt_vars := ?m\<lparr>mv_k := 1\<rparr>\<rparr>"])
        (use MsInit share j inr pre cols_cost_point [of "mv_i ?m" d] in \<open>auto simp: defs intro!: row'\<close>)
  next
    case (MsTest u v u2 v2)
    let ?go = "mv_k ?m < md_maxiter d \<and> fp_less (md_fp d) (fp_add (md_fp d) u2 v2) (fp_of_int (md_fp d) 4)"
    show thesis
    proof (cases ?go)
      case True
      show thesis
        by (rule that [of "th\<lparr>mt_pc := MsBody u v u2 v2\<rparr>"])
          (use MsTest True share j inr pre in \<open>auto simp: defs intro!: row'\<close>)
    next
      case False
      from escape_loop_ends [OF False] inr MsTest
      have "mv_k ?m = escape (md_fp d) (md_maxiter d) (md_x d (mv_i ?m)) (md_y d (int j))"
        by (simp add: ends_at_def)
      then show thesis
        by (intro that [of "th\<lparr>mt_pc := MsStore\<rparr>"])
          (use MsTest False share j inr pre in \<open>auto simp: defs intro!: row'\<close>)
    qed
  next
    case (MsBody u v u2 v2)
    let ?f = "md_fp d"
    let ?v = "fp_add ?f (fp_mul ?f (fp_mul ?f (fp_of_int ?f 2) u) v) (mv_y ?m)" and ?u = "fp_add ?f (fp_sub ?f u2 v2) (mv_x ?m)"
    have now: "ends_at d j ?m (mv_k ?m) u v u2 v2" using inr MsBody by simp
    have more: "escape_loop ?f (md_maxiter d) (mv_x ?m) (mv_y ?m) (mv_k ?m) u v u2 v2 =
        escape_loop ?f (md_maxiter d) (mv_x ?m) (mv_y ?m) (mv_k ?m + 1) ?u ?v (fp_mul ?f ?u ?u) (fp_mul ?f ?v ?v)"
      using loop MsBody by (intro escape_loop_more refl) simp_all
    have "ends_at d j ?m (mv_k ?m + 1) ?u ?v (fp_mul ?f ?u ?u) (fp_mul ?f ?v ?v)"
      using now unfolding ends_at_def more .
    then show thesis
      by (intro that [of "th\<lparr>mt_pc := MsIncr ?u ?v (fp_mul ?f ?u ?u) (fp_mul ?f ?v ?v)\<rparr>"])
        (use MsBody share j inr loop pre in \<open>auto simp: defs intro!: row'\<close>)
  next
    case (MsIncr u v u2 v2)
    show thesis
      by (rule that [of "th\<lparr>mt_pc := MsTest u v u2 v2, mt_vars := ?m\<lparr>mv_k := mv_k ?m + 1\<rparr>\<rparr>"])
        (use MsIncr share j inr loop pre in \<open>auto simp: defs ends_at_def intro!: row'\<close>)
  next
    case MsInc
    show thesis
      by (rule that [of "th\<lparr>mt_pc := MsCol, mt_vars := ?m\<lparr>mv_i := mv_i ?m + 1\<rparr>\<rparr>"])
        (use MsInc share j inr pre in \<open>auto simp: defs nat_add_distrib intro!: row'\<close>)
  qed (use pc in simp_all)
qed

text \<open>The store is within its row.\<close>

lemma step_store:
  assumes priv: "md_private d = private_clause" and row: "at_row d share th pic" and pc: "mt_pc th = MsStore"
    and shape: "pic_shape d pic" and share: "set share \<subseteq> {..<nat (md_yres d)}" and dist: "distinct share"
  obtains th' pic' where "ms_thread_step d th shared pic = Some (Ret (th', shared, pic'))"
    and "at_row d share th' pic'" and "mt_pc th' = MsInc" and "thread_cost d th' < thread_cost d th"
    and "pic_shape d pic'" and "\<And>l. l \<notin> set share \<Longrightarrow> pic' ! l = pic ! l"
proof -
  let ?m = "mt_vars th" and ?n = "nat (mv_i (mt_vars th))"
  obtain before j where sh: "share = before @ j # mt_rows th" and dn: "\<forall>l \<in> set before. row_done d pic l"
    and j: "mv_j ?m = int j" and inr: "in_row d j MsStore ?m" and pre: "row_prefix d pic j ?n"
    using row unfolding at_row_def pc by auto
  from inr have i: "0 \<le> mv_i ?m" "mv_i ?m < md_xres d" "mv_y ?m = md_y d (int j)"
    and k: "mv_k ?m = mandel_row d j ! ?n" by (simp_all add: mandel_row_def)
  have jy: "j < nat (md_yres d)" using share sh by auto
  then have len: "j < length pic" "?n < length (pic ! j)" using shape i by (simp_all add: pic_shape_def)
  let ?pic = "pic[j := (pic ! j)[?n := Some (mv_k ?m)]]" and ?th = "th\<lparr>mt_pc := MsInc\<rparr>"
  have step: "ms_thread_step d th shared pic = Some (Ret (?th, shared, ?pic))"
    using pc priv j i(1) len by (simp add: ms_thread_step_def ms_goto_def pic_store_def Let_def)
  have other: "?pic ! l = pic ! l" if "l \<noteq> j" for l using that by simp
  have "row_prefix d ?pic j (Suc ?n)"
    using pre k len by (simp add: row_prefix_def nth_list_update less_Suc_eq)
  moreover have "\<forall>l \<in> set before. row_done d ?pic l"
  proof
    fix l
    assume l: "l \<in> set before"
    with dist sh have "l \<noteq> j" by auto
    with dn l row_prefix_cong [OF other, of l] show "row_done d ?pic l" by blast
  qed
  ultimately have "at_row d share ?th ?pic"
    by (intro at_rowI [of share before j]) (use sh j i in simp_all)
  moreover have "pic_shape d ?pic" using shape len by (auto simp: pic_shape_def nth_list_update)
  moreover have "?pic ! l = pic ! l" if "l \<notin> set share" for l using that sh by (intro other) auto
  ultimately show thesis
    by (intro that [OF step]) (simp_all add: thread_cost_def pc)
qed

lemma thread_step_ok:
  assumes priv: "md_private d = private_clause" and ok: "thread_ok d share th pic" and run: "mt_pc th \<noteq> MsDone"
    and shape: "pic_shape d pic" and share: "set share \<subseteq> {..<nat (md_yres d)}" and dist: "distinct share"
  obtains th' pic' where "ms_thread_step d th shared pic = Some (Ret (th', shared, pic'))"
    and "thread_ok d share th' pic'" and "thread_cost d th' < thread_cost d th"
    and "pic_shape d pic'" and "\<And>l. l \<notin> set share \<Longrightarrow> pic' ! l = pic ! l"
proof (cases "mt_pc th = MsNext")
  case True
  let ?m = "mt_vars th"
  note defs = ms_thread_step_def ms_goto_def Let_def priv thread_ok_def thread_cost_def
  obtain before where sh: "share = before @ mt_rows th" and dn: "\<forall>l \<in> set before. row_done d pic l"
    using ok True by (auto simp: thread_ok_def)
  show thesis
  proof (cases "mt_rows th")
    case Nil
    show thesis
      by (rule that [of "th\<lparr>mt_pc := MsDone\<rparr>" pic]) (use True Nil sh dn shape in \<open>simp_all add: defs\<close>)
  next
    case (Cons r rs)
    let ?th = "th\<lparr>mt_rows := rs, mt_pc := MsRow, mt_vars := ?m\<lparr>mv_j := int r\<rparr>\<rparr>"
    have "at_row d share ?th pic"
      by (rule at_rowI [of _ before r]) (use Cons sh dn in \<open>simp_all add: row_prefix_def\<close>)
    moreover have "cols_cost d 0 + 5 < row_cost d + 1" by (simp add: cols_cost_def row_cost_def)
    ultimately show thesis
      by (intro that [of ?th pic]) (use True Cons shape in \<open>simp_all add: defs distrib_right\<close>)
  qed
next
  case False
  then have row: "at_row d share th pic" using ok run by (cases "mt_pc th") (simp_all add: thread_ok_def)
  consider "mt_pc th = MsStore" | "mt_pc th = MsCol" "\<not> mv_i (mt_vars th) < md_xres d"
    | "mt_pc th \<noteq> MsStore" "mt_pc th = MsCol \<Longrightarrow> mv_i (mt_vars th) < md_xres d" by blast
  then show thesis
  proof cases
    case 1
    show thesis
      by (rule step_store [OF priv row 1 shape share dist, of shared])
        (rule that, assumption, simp_all add: thread_ok_def)
  next
    case 2
    obtain before j where sh: "share = before @ j # mt_rows th" and dn: "\<forall>l \<in> set before. row_done d pic l"
      and inr: "in_row d j MsCol (mt_vars th)" and pre: "row_prefix d pic j (nat (mv_i (mt_vars th)))"
      using row unfolding at_row_def 2 by auto
    from inr 2(2) have "nat (mv_i (mt_vars th)) = nat (md_xres d)" by (auto split: if_splits)
    with pre dn have "\<forall>l \<in> set (before @ [j]). row_done d pic l" by auto
    moreover have "share = (before @ [j]) @ mt_rows th" using sh by simp
    ultimately have "thread_ok d share (th\<lparr>mt_pc := MsNext\<rparr>) pic" unfolding thread_ok_def by simp
    then show thesis
      by (intro that [of "th\<lparr>mt_pc := MsNext\<rparr>" pic])
        (use 2 shape cols_cost_nonneg [of d "mv_i (mt_vars th)"] in \<open>auto simp: ms_thread_step_def ms_goto_def Let_def priv thread_cost_def add_nonneg_pos\<close>)
  next
    case 3
    have "mt_pc th \<notin> {MsNext, MsStore, MsDone}" using 3(1) False run by simp
    from step_in_row [OF priv row this 3(2), of shared] obtain th' where
      th': "ms_thread_step d th shared pic = Some (Ret (th', shared, pic))" "at_row d share th' pic"
        "mt_pc th' \<notin> {MsNext, MsDone}" "thread_cost d th' < thread_cost d th" by blast
    then have "thread_ok d share th' pic" by (cases "mt_pc th'") (simp_all add: thread_ok_def)
    with th' shape show thesis by (intro that [of th' pic]) simp_all
  qed
qed

section \<open>All threads\<close>

definition ms_ok :: "'r mandel \<Rightarrow> nat list list \<Rightarrow> 'r ms_sys \<Rightarrow> bool" where
  "ms_ok d shares s \<longleftrightarrow> length (ms_threads s) = length shares \<and> pic_shape d (ms_pic s) \<and>
     (\<forall>n < length shares. thread_ok d (shares ! n) (ms_threads s ! n) (ms_pic s))"

definition ms_cost :: "'r mandel \<Rightarrow> 'r ms_sys \<Rightarrow> int" where
  "ms_cost d s = (\<Sum>th\<leftarrow>ms_threads s. thread_cost d th)"

lemma ms_cost_nonneg: "0 \<le> ms_cost d s"
  by (auto simp: ms_cost_def thread_cost_nonneg intro!: sum_list_nonneg)

text \<open>Every row is given to one thread.\<close>

definition one_each :: "nat \<Rightarrow> nat list list \<Rightarrow> bool" where
  "one_each n shares \<longleftrightarrow> set (concat shares) = {..<n} \<and> distinct (concat shares)"

lemma one_each_parts:
  assumes "one_each n shares"
  shows "set (concat shares) = {..<n}" and "distinct (concat shares)"
  using assms unfolding one_each_def by blast+

lemma share_distinct: "distinct (concat xss) \<Longrightarrow> n < length xss \<Longrightarrow> distinct (xss ! n)"
  by (induction xss arbitrary: n) (auto simp: nth_Cons split: nat.splits)

lemma ms_step_ok:
  assumes priv: "md_private d = private_clause" and shares: "one_each (nat (md_yres d)) shares"
    and ok: "ms_ok d shares s" and n: "n < length (ms_threads s)" and run: "mt_pc (ms_threads s ! n) \<noteq> MsDone"
  obtains t where "ms_step d n s = Some (Ret t)" and "ms_ok d shares t" and "ms_cost d t < ms_cost d s"
proof -
  let ?th = "ms_threads s ! n"
  note parts = one_each_parts [OF shares]
  have len: "length (ms_threads s) = length shares" and shape: "pic_shape d (ms_pic s)"
    and threads: "\<And>m. m < length shares \<Longrightarrow> thread_ok d (shares ! m) (ms_threads s ! m) (ms_pic s)"
    using ok by (simp_all add: ms_ok_def)
  have n': "n < length shares" using n len by simp
  then have "set (shares ! n) \<subseteq> set (concat shares)" by (auto intro!: bexI [of _ "shares ! n"])
  then have sub: "set (shares ! n) \<subseteq> {..<nat (md_yres d)}" by (simp only: parts(1))
  obtain th pic where step: "ms_thread_step d ?th (ms_shared s) (ms_pic s) = Some (Ret (th, ms_shared s, pic))"
    and th: "thread_ok d (shares ! n) th pic" "thread_cost d th < thread_cost d ?th" and pic: "pic_shape d pic"
    and other: "\<And>l. l \<notin> set (shares ! n) \<Longrightarrow> pic ! l = ms_pic s ! l"
    by (rule thread_step_ok [OF priv threads [OF n'] run shape sub share_distinct [OF parts(2) n'], of "ms_shared s"]) blast
  let ?t = "s\<lparr>ms_shared := ms_shared s, ms_pic := pic, ms_threads := (ms_threads s)[n := th]\<rparr>"
  have "thread_ok d (shares ! m) (ms_threads ?t ! m) pic" if m: "m < length shares" for m
  proof (cases "m = n")
    case True
    with th(1) n show ?thesis by simp
  next
    case False
    have "l \<notin> set (shares ! n)" if "l \<in> set (shares ! m)" for l
      using distinct_concat_nth [of "\<lambda>share. share" shares m n l] parts(2) m n' False that by auto
    then have "thread_ok d (shares ! m) (ms_threads s ! m) pic"
      by (intro thread_ok_other [OF threads [OF m] other])
    with False show ?thesis by simp
  qed
  then have "ms_ok d shares ?t" using len pic by (simp add: ms_ok_def)
  moreover have "ms_cost d ?t = ms_cost d s - thread_cost d ?th + thread_cost d th"
    using sum_list_update_int [OF n, of "thread_cost d" th] by (simp add: ms_cost_def)
  moreover have "ms_step d n s = Some (Ret ?t)" using n step by (simp add: ms_step_def)
  ultimately show thesis using th(2) by (intro that [of ?t]) simp_all
qed

lemma ms_init_ok:
  assumes "pic_shape d pic"
  shows "ms_ok d shares (ms_init shared own shares pic)"
  using assms by (auto simp: ms_ok_def ms_init_def thread_ok_def)

lemma ms_done_iff: "ms_done s \<longleftrightarrow> (\<forall>n < length (ms_threads s). mt_pc (ms_threads s ! n) = MsDone)"
proof -
  have "(case pc of MsDone \<Rightarrow> True | _ \<Rightarrow> False) \<longleftrightarrow> pc = MsDone" for pc :: "'a ms_pc" by (cases pc) simp_all
  then show ?thesis by (simp add: ms_done_def list_all_length)
qed

text \<open>When all are done the picture is that of the sequential loop.\<close>

definition seq_picture :: "'r mandel \<Rightarrow> picture" where
  "seq_picture d = map (\<lambda>j. map Some (mandel_row d j)) [0..<nat (md_yres d)]"

lemma ms_done_picture:
  assumes shares: "one_each (nat (md_yres d)) shares" and ok: "ms_ok d shares s" and fin: "ms_done s"
  shows "ms_pic s = seq_picture d"
proof -
  note parts = one_each_parts [OF shares]
  have shape: "length (ms_pic s) = nat (md_yres d)" "\<And>j. j < nat (md_yres d) \<Longrightarrow> length (ms_pic s ! j) = nat (md_xres d)"
    using ok by (simp_all add: ms_ok_def pic_shape_def)
  have "ms_pic s ! j = map Some (mandel_row d j)" if j: "j < nat (md_yres d)" for j
  proof -
    have "j \<in> set (concat shares)" using j parts(1) by simp
    then obtain share where "share \<in> set shares" "j \<in> set share" by auto
    then obtain n where n: "n < length shares" "j \<in> set (shares ! n)" by (metis in_set_conv_nth)
    then have "n < length (ms_threads s)" using ok by (simp add: ms_ok_def)
    then have "mt_pc (ms_threads s ! n) = MsDone" using fin by (simp add: ms_done_iff)
    moreover have "thread_ok d (shares ! n) (ms_threads s ! n) (ms_pic s)" using ok n(1) by (simp add: ms_ok_def)
    ultimately have "row_done d (ms_pic s) j" using n(2) by (simp add: thread_ok_def)
    then show ?thesis using shape(2) [OF j]
      by (intro nth_equalityI) (simp_all add: row_prefix_def mandel_row_def)
  qed
  with shape(1) show ?thesis by (intro nth_equalityI) (simp_all add: seq_picture_def)
qed

lemma ms_step_blocked:
  assumes "ms_step d n s = Some r"
  shows "n < length (ms_threads s)" and "mt_pc (ms_threads s ! n) \<noteq> MsDone"
  using assms by (auto simp: ms_step_def ms_thread_step_def Let_def split: if_splits)

text \<open>Every complete execution ends with the picture, and there is one.\<close>

lemma ms_run_picture:
  assumes priv: "md_private d = private_clause" and shares: "one_each (nat (md_yres d)) shares"
  shows "ms_ok d shares s \<Longrightarrow> ms_run d order s = Some r \<Longrightarrow> r = Ret (seq_picture d)"
proof (induction order arbitrary: s)
  case Nil
  then show ?case using ms_done_picture [OF shares] by (simp split: if_splits)
next
  case (Cons n ns)
  then obtain q where q: "ms_step d n s = Some q" by (cases "ms_step d n s") auto
  obtain t where "ms_step d n s = Some (Ret t)" "ms_ok d shares t"
    by (rule ms_step_ok [OF priv shares Cons.prems(1) ms_step_blocked [OF q]]) blast
  with Cons show ?case by simp
qed

lemma ms_run_exists:
  assumes priv: "md_private d = private_clause" and shares: "one_each (nat (md_yres d)) shares"
  shows "ms_ok d shares s \<Longrightarrow> \<exists>order. ms_run d order s = Some (Ret (seq_picture d))"
proof (induction "nat (ms_cost d s)" arbitrary: s rule: less_induct)
  case less
  show ?case
  proof (cases "ms_done s")
    case True
    with ms_done_picture [OF shares less.prems] show ?thesis by (intro exI [of _ "[]"]) simp
  next
    case False
    then obtain n where n: "n < length (ms_threads s)" "mt_pc (ms_threads s ! n) \<noteq> MsDone"
      by (auto simp: ms_done_iff)
    obtain t where t: "ms_step d n s = Some (Ret t)" "ms_ok d shares t" "ms_cost d t < ms_cost d s"
      by (rule ms_step_ok [OF priv shares less.prems n]) blast
    have "nat (ms_cost d t) < nat (ms_cost d s)" using t(3) ms_cost_nonneg [of d t] by simp
    then obtain order where "ms_run d order t = Some (Ret (seq_picture d))" using less.hyps t(2) by blast
    with t(1) show ?thesis by (intro exI [of _ "n # order"]) simp
  qed
qed

section \<open>The program\<close>

text \<open>The program ends before the loop, or it is a function of what the loop makes of the picture.\<close>

lemma mandel_prog_cases:
  obtains (early) r where "\<And>loop. mandel_prog loop fp fopen_ok r0 argv = Some r"
  | (loop) d pic g where "md_private d = private_clause" and "alloc_rows r0 (md_yres d) (nat (md_xres d)) = Ret pic"
      and "\<And>loop. mandel_prog loop fp fopen_ok r0 argv = map_option g (loop d pic)"
proof (cases "length argv = 8 \<and> fopen_ok")
  case len: True
  let ?w = "\<lparr>wd_xmin = fp_atof fp (argv ! 1), wd_xmax = fp_atof fp (argv ! 2),
      wd_ymin = fp_atof fp (argv ! 3), wd_ymax = fp_atof fp (argv ! 4)\<rparr>"
  let ?yres = "fp_int fp (fp_div fp (fp_mul fp (fp_of_int fp (atoi (argv ! 6))) (fp_sub fp (wd_ymax ?w) (wd_ymin ?w)))
      (fp_sub fp (wd_xmax ?w) (wd_xmin ?w)))"
  show thesis
  proof (cases ?yres)
    case None
    with len show thesis by (intro early [of "Fault Int_Overflow"]) (simp add: mandel_prog_def)
  next
    case (Some yres)
    show thesis
    proof (cases "alloc_rows r0 yres (nat (atoi (argv ! 6)))")
      case (Ret pic)
      let ?d = "\<lparr>md_fp = fp, md_win = ?w, md_maxiter = atou16 (argv ! 5), md_xres = atoi (argv ! 6), md_yres = yres,
          md_private = private_clause\<rparr>"
      show thesis
        by (rule loop [of ?d pic "\<lambda>r. obind r (\<lambda>pic'. omap (\<lambda>rows.
              Inr (mandel_header fp ?w (atou16 (argv ! 5)) (atoi (argv ! 6)) yres, picture_bytes (atou16 (argv ! 5)) rows))
              (read_cells pic'))"])
          (use len Some Ret in \<open>simp_all add: mandel_prog_def Let_def\<close>)
    next
      case (Exited n)
      with len Some show thesis by (intro early [of "Exited n"]) (simp add: mandel_prog_def)
    next
      case (Fault e)
      with len Some show thesis by (intro early [of "Fault e"]) (simp add: mandel_prog_def)
    qed
  qed
next
  case False
  show thesis
  proof (cases "length argv = 8")
    case True
    let ?early = "case fp_int fp (fp_div fp (fp_mul fp (fp_of_int fp (atoi (argv ! 6)))
        (fp_sub fp (fp_atof fp (argv ! 4)) (fp_atof fp (argv ! 3)))) (fp_sub fp (fp_atof fp (argv ! 2)) (fp_atof fp (argv ! 1)))) of
        None \<Rightarrow> Fault Int_Overflow | Some yres \<Rightarrow> Fault Null_Deref"
    from True False show thesis by (intro early [of ?early]) (simp add: mandel_prog_def split: option.split)
  next
    case False
    then show thesis by (intro early) (simp add: mandel_prog_def)
  qed
qed

lemma alloc_rows_shape:
  "alloc_rows r0 (md_yres d) (nat (md_xres d)) = Ret pic \<Longrightarrow> pic_shape d pic"
  by (auto simp: alloc_rows_def pic_shape_def split: if_splits)

text \<open>C39. The picture does not depend on the interleaving: the runtime library may give the rows of
  the loop to any number of threads, as long as it gives every row to one of them
  (\<open>one_each\<close>); the threads may interleave the statements of the loop body in any order; and the
  variables may hold anything when it starts. A complete execution writes the same output and
  file as the program without the directive, and there is one.\<close>

theorem mandel_schedule:
  assumes "\<And>n. one_each n (shares n)"
  shows "(\<forall>order r. mandel_main shared own shares order fp fopen_ok r0 argv = Some r \<longrightarrow>
      mandel_seq fp fopen_ok r0 argv = Some r) \<and>
    (\<exists>order. mandel_main shared own shares order fp fopen_ok r0 argv \<noteq> None)"
proof (cases rule: mandel_prog_cases [of fp fopen_ok r0 argv])
  case (early r)
  then show ?thesis by (simp add: mandel_main_def mandel_seq_def)
next
  case (loop d pic g)
  let ?s = "ms_init shared own (shares (nat (md_yres d))) pic"
  have ok: "ms_ok d (shares (nat (md_yres d))) ?s" by (rule ms_init_ok [OF alloc_rows_shape [OF loop(2)]])
  have main: "mandel_main shared own shares order fp fopen_ok r0 argv = map_option g (ms_run d order ?s)" for order
    by (simp add: mandel_main_def loop(3))
  have "mandel_seq fp fopen_ok r0 argv = Some (g (Ret (seq_picture d)))"
    by (simp add: mandel_seq_def loop(3) seq_picture_def)
  with main ms_run_picture [OF loop(1) assms ok] ms_run_exists [OF loop(1) assms ok] show ?thesis by auto
qed

definition zero_vars :: "int mvars" where
  "zero_vars = \<lparr>mv_x = 0, mv_y = 0, mv_u = 0, mv_v = 0, mv_i = 0, mv_j = 0, mv_k = 0\<rparr>"

text \<open>Two threads share the rows; before the loop every variable of the second holds 7.\<close>

definition seven_vars :: "nat \<Rightarrow> int mvars" where
  "seven_vars n = (if n = 0 then zero_vars
     else \<lparr>mv_x = 7, mv_y = 7, mv_u = 7, mv_v = 7, mv_i = 7, mv_j = 7, mv_k = 7\<rparr>)"

definition two_shares :: "nat \<Rightarrow> nat list list" where
  "two_shares n = [[0..<n div 2], [n div 2..<n]]"

theorem mandel_schedule_witness:
  "\<exists>order. mandel_main zero_vars seven_vars two_shares order int_fp True 0
       [''m'', ''0'', ''2'', ''0'', ''2'', ''9'', ''2'', ''p''] =
     mandel_seq int_fp True 0 [''m'', ''0'', ''2'', ''0'', ''2'', ''9'', ''2'', ''p'']"
proof -
  have "one_each n (two_shares n)" for n by (auto simp: one_each_def two_shares_def)
  from mandel_schedule [of two_shares, OF this] show ?thesis by (metis not_None_eq)
qed

text \<open>No step of an unfinished thread fails, and the number of steps is bounded.\<close>

theorem mandel_threads_end:
  assumes "md_private d = private_clause" and "one_each (nat (md_yres d)) shares" and "pic_shape d pic"
    and "schedule (ms_step d) order (ms_init shared own shares pic) = Some s"
  shows "int (length order) \<le> ms_cost d (ms_init shared own shares pic) \<and>
    (\<forall>n < length (ms_threads s). mt_pc (ms_threads s ! n) \<noteq> MsDone \<longrightarrow> (\<exists>t. ms_step d n s = Some (Ret t)))"
proof -
  have "ms_ok d shares u \<Longrightarrow> schedule (ms_step d) ns u = Some s \<Longrightarrow>
      int (length ns) + ms_cost d s \<le> ms_cost d u \<and> ms_ok d shares s" for ns u
  proof (induction ns arbitrary: u)
    case (Cons n ns)
    then obtain q where q: "ms_step d n u = Some q" by (cases "ms_step d n u") auto
    obtain t where "ms_step d n u = Some (Ret t)" "ms_ok d shares t" "ms_cost d t < ms_cost d u"
      by (rule ms_step_ok [OF assms(1,2) Cons.prems(1) ms_step_blocked [OF q]]) blast
    with Cons.IH [of t] Cons.prems(2) show ?case by simp
  qed simp
  from this [OF ms_init_ok [OF assms(3)] assms(4)] ms_cost_nonneg [of d s] show ?thesis
    using ms_step_ok [OF assms(1,2)] by (metis add_increasing2 dual_order.trans le_add_same_cancel1)
qed

text \<open>
  With \<open>k\<close> missing in the clause it would be shared, and another thread could reset it between the
  inner loop and the store: the picture then depends on the interleaving.
\<close>

definition shared_k :: "int mandel" where
  "shared_k = \<lparr>md_fp = int_fp, md_win = \<lparr>wd_xmin = 1, wd_xmax = 2, wd_ymin = 0, wd_ymax = 2\<rparr>, md_maxiter = 9,
     md_xres = 1, md_yres = 2, md_private = [VX, VY, VU, VV, VI, VJ]\<rparr>"

lemma mandel_shared_k:
  "ms_run shared_k (replicate 10 0 @ replicate 6 1 @ replicate 4 0 @ replicate 11 1)
     (ms_init zero_vars seven_vars (two_shares 2) [[None], [None]]) = Some (Ret [[Some 1], [Some 3]])"
  "map (mandel_row shared_k) [0..<2] = [[2], [3]]"
  by code_simp+

end
