(* ===== verification/Spec2Isabelle.thy ===== *)
theory Spec2Isabelle
  imports Tsh_Props Buffer_Props Rio_Props Csapp_Wrap Csapp_Sio Csapp_Net Dns_Props Dns_Free
    Proxy_System_Props Proxy_Epoll_Props Tiny_Props Echo_Pool_Props Echo_Threads_Props
    Hw_Sockets Hw_Strings Hw_Processes Hw_Mandel_Threads
begin

text \<open>
  A verification library for the C programs of this repository.

  \<^bold>\<open>The programs.\<close> The repository holds the work of a systems programming course. Its parts are
  \<^item> \<open>shlab-handout/tsh.c\<close>, a shell with job control: a main loop, built-in commands, and handlers
    of \<open>SIGCHLD\<close>, \<open>SIGINT\<close> and \<open>SIGTSTP\<close> that share a fixed array of jobs; four helper programs;
  \<^item> \<open>csapp.c\<close>, a support library that several programs link (seven identical copies, the one of
    \<open>hw6\<close> is modelled): wrappers of system calls that exit on failure, robust and buffered I/O,
    output that is safe in signal handlers, and functions that open sockets;
  \<^item> \<open>sbuf.c\<close> (two versions) and \<open>logbuf.c\<close>, bounded buffers between threads;
  \<^item> \<open>dnsresolverlab-handout/resolver.c\<close>, a DNS resolver;
  \<^item> \<open>first-proxylab-handout\<close>, an HTTP proxy with a pool of threads (\<open>proxy.c\<close>), a cache of
    objects (\<open>cache.c\<close>) and a logging thread fed through a \<open>logbuf\<close>; descriptors reach the pool
    through an \<open>sbuf\<close>;
  \<^item> \<open>proxylab-handout/proxy.c\<close>, the same proxy as a single thread driven by \<open>epoll\<close>;
  \<^item> \<open>tiny.c\<close> (four identical copies), a web server that serves files and runs the CGI programs
    \<open>adder.c\<close> and \<open>slow.c\<close>;
  \<^item> \<open>hw2\<close> to \<open>hw7\<close>: string exercises, processes, a TCP client and server, echo servers, and a
    parallel Mandelbrot program.

  \<^bold>\<open>How C is modelled.\<close> \<open>Prelude\<close> defines what a C function can do: return (\<open>Ret\<close>), call \<open>exit\<close>
  (\<open>Exited\<close>), or run into undefined behaviour (\<open>Fault\<close>: a null pointer, an access outside an
  object, an indeterminate value, the overflow of an \<open>int\<close>, a division by zero). A stateful
  function is a \<open>cprog\<close>, one that may loop or block for ever a \<open>dprog\<close> whose value \<open>None\<close> is a
  call that does not return; loops that may not end are partial functions into an option, the
  others are total with a measure, so that no loop has fuel. Theorems that a
  program returns state \<open>Some (Ret \<dots>)\<close>. \<open>Prelude\<close> also has schedules of interleaved threads (the locale
  \<open>interleaving\<close>) and the counting of threads at a place. \<open>CString\<close> models the string functions
  of the C library. Strings are lists of the characters before the null character, arrays of
  bytes are lists of fixed length, bytes of messages are \<open>8 word\<close>; \<open>int\<close> is the type of
  integers with explicit overflow where the code can reach it.

  System calls are parameters (records of functions, or scripts of the data that \<open>read\<close> and
  \<open>write\<close> will move), so that every theorem holds for every behaviour of the system that its
  hypotheses allow: reads cut anywhere, interruptions, failing calls.

  \<^bold>\<open>The theories.\<close>
  \<^item> \<open>Tsh_Jobs\<close> (the job list and its routines; locale \<open>job_table\<close>, a map from process IDs to
    jobs), \<open>Tsh_Parse\<close> (\<open>parseline\<close>), \<open>Tsh_Shell\<close> (\<open>main\<close>, \<open>eval\<close>, \<open>do_bgfg\<close>, \<open>waitfg\<close> and the
    handlers as a transition system over the events of the shell, its children and the keyboard).
    \<open>Tsh_Proofs\<close>: at most one foreground job in every steady schedule (no \<open>SIGCHLD\<close> in
    \<open>do_bgfg\<close>, no reuse of a process ID that the list still holds);
    \<open>Tsh_Cover\<close>: the handler finds the job of every child in the calm ones (steady, and room
    in the list); \<open>Tsh_Props\<close>: the properties, and the
    schedules that break the promises of the comments.
  \<^item> \<open>Bounded_Buffer\<close> (the atomic steps of insert and remove, shared by the three buffers),
    \<open>Buffer_Proofs\<close> (tokens are conserved, the lock excludes, items keep their order and are
    inserted once each, who inserts and who removes, where threads are stuck),
    \<open>Buffer_Props\<close> (locale \<open>bounded_queue\<close>, interpreted on the three copies; first in first
    out in every interleaving; absence of faults and of deadlock).
  \<^item> \<open>Csapp_Base\<close>, \<open>Csapp_Wrap\<close> (error functions and wrappers), \<open>Csapp_Rio\<close> with
    \<open>Rio_Proofs\<close>, \<open>Rio_Lines\<close> and \<open>Rio_Props\<close> (robust I/O; locale \<open>byte_source\<close>: the buffered
    functions deliver the bytes of the descriptor once and in order), \<open>Csapp_Sio\<close>,
    \<open>Csapp_Net\<close> (no descriptor leaks).
  \<^item> \<open>Dns_Name\<close>, \<open>Dns_Resolve\<close> (names and messages), \<open>Dns_Proofs\<close>, \<open>Dns_Props\<close> (names are read
    back from the wire; answers are printed; what compressed and hostile messages do), \<open>Dns_Free\<close>
    (the list of answers is freed without a double free).
  \<^item> \<open>Proxy_Parse\<close>, \<open>Proxy_Parse_Props\<close> (the request parser of both proxies); \<open>Proxy_Cache\<close>,
    \<open>Proxy_Cache_Props\<close> (the readers-writer lock excludes; the search never succeeds);
    \<open>Proxy_Sys\<close>, \<open>Proxy_Threads\<close>, \<open>Proxy_Threads_Props\<close> (what each thread of the threaded proxy
    does; no request is answered); \<open>Proxy_System\<close> (all its threads, with both buffers, the cache and
    the URLs they share), \<open>Proxy_System_Proofs\<close> (the invariants of the parts hold together, and
    where every worker is in them) and \<open>Proxy_System_Props\<close> (no client is answered, the log is in order,
    a worker may read a URL that is freed); \<open>Proxy_Epoll\<close>, \<open>Proxy_Epoll_Proofs\<close> (the event loop; every request stays
    consistent with its state), \<open>Proxy_Epoll_Net\<close> (the connections behind the descriptors and what
    the calls do to them), \<open>Proxy_Epoll_Relay\<close> and \<open>Proxy_Epoll_Props\<close> (every client is sent what
    its own server answered to its rewritten request).
  \<^item> \<open>Tiny\<close>, \<open>Cgi\<close>, \<open>Tiny_Props\<close> (the web server and the programs it runs).
  \<^item> \<open>Echo\<close> (\<open>hw6/echo*.c\<close>), \<open>Echo_Cnt\<close> (the counting server as steps of threads), \<open>Echo_Props\<close>.
    \<open>Echo_Pool\<close> composes the steps of the buffer and of the counting echo to the whole prethreaded
    server with its descriptor table; \<open>Echo_Pool_Proofs\<close> (who holds which descriptor, what the calls
    have done), \<open>Echo_Pool_Rest\<close> (the states at rest, a bound of the work left) and
    \<open>Echo_Pool_Props\<close> show that no connection is shared, lost or left open, that no thread fails,
    and that the threads come to rest with every client served. \<open>Echo_Threads\<close> has the server with a
    thread per connection: \<open>main\<close>, the heap through which it hands on each descriptor, and the
    threads; \<open>Echo_Threads_Proofs\<close> (blocks and descriptors have one owner) and \<open>Echo_Threads_Props\<close>
    (no block is used after it is freed; every client is served).
  \<^item> \<open>Hw_Sockets\<close> (\<open>hw5\<close>), \<open>Hw_Strings\<close> (\<open>hw4\<close>, \<open>hw2\<close>), \<open>Hw_Processes\<close> (\<open>hw3\<close> and the helpers of
    the shell lab), \<open>Hw_Mandelbrot\<close> (\<open>hw7\<close>: the program, whose parallel loop is threads that interleave
    their statements over shared and private variables) and \<open>Hw_Mandel_Threads\<close> (every
    interleaving computes the sequential picture).

  \<^bold>\<open>How the parts interact.\<close> The state of a program extends that of the library it calls (\<open>io\<close>
  and the states of the proxies extend \<open>world\<close>), and the servers call the definitions of
  \<open>Csapp_Rio\<close>, so that their theorems rest on what \<open>Rio_Proofs\<close> shows for any split of the data.
  In \<open>Proxy_System\<close> \<open>main\<close> and the workers meet in one buffer, the workers and the logging thread in
  another, the workers among each other in the cache: its invariant is made of those that
  \<open>Buffer_Proofs\<close> and \<open>Proxy_Cache\<close> show of the parts; both proxies share the parser; in the prethreaded server the steps of \<open>Bounded_Buffer\<close> and \<open>Echo_Cnt\<close> interleave, and the
  invariants of both carry over to the composition; the steps of a thread of
  \<open>Echo_Threads\<close> on its connection are those of \<open>Echo_Cnt\<close> without the counter; Tiny's answer for \<open>/cgi-bin/adder\<close> is proved through the model of \<open>adder.c\<close>.

  \<^bold>\<open>Assumptions.\<close> Pointers have 8 bytes and \<open>int\<close> 4; \<open>malloc\<close> succeeds where the code does not
  test it and the model has no parameter for it; \<open>sprintf\<close> of a buffer into itself, which C leaves
  undefined, appends; writing to a closed connection is an error and no signal; \<open>close\<close> releases an open descriptor
  even when it reports an error; \<open>fork\<close> may return any process ID of which no process and no
  status is left; \<open>strtol\<close> behaves as in glibc; standard output is a terminal. In
  \<open>Proxy_Threads\<close> and \<open>Echo\<close> the operations of one thread run without interruption; the
  interleavings are in \<open>Bounded_Buffer\<close>, \<open>Proxy_Cache\<close>, \<open>Proxy_System\<close> (where reading a request,
  fetching and sending are one step each), \<open>Echo_Cnt\<close>, \<open>Echo_Pool\<close>, \<open>Echo_Threads\<close> and \<open>Hw_Mandelbrot\<close>; a thread that detaches itself succeeds. In
  \<open>Hw_Mandelbrot\<close> the operations on \<open>double\<close> are parameters, and so are the rows that the runtime
  library gives to each thread.

  \<^bold>\<open>Conditions.\<close> Where the code fails under some condition, the property is stated for the runs
  without it, and a lemma shows what happens otherwise: a full job list or a \<open>SIGCHLD\<close> inside \<open>do_bgfg\<close>
  (\<open>Tsh_Props\<close>), bytes that follow the unterminated array of delimiters (\<open>Dns_Props\<close>), line breaks in the
  first word of a request (\<open>Proxy_Parse_Props\<close>), errors and hang-ups that \<open>epoll\<close> reports
  (\<open>Proxy_Epoll_Props\<close>). The echo servers exit when a read or write on a connection fails; their
  properties are about clients whose connections do not.

  \<^bold>\<open>Not modelled.\<close> The empty functions of \<open>resolver.c\<close>; the perl,
  python and shell scripts that drive the tests, and the make files; the further identical
  copies of \<open>csapp.c\<close>, \<open>csapp.h\<close>, \<open>tiny.c\<close> and the CGI programs; addresses of objects, except as
  null or not and where blocks are freed (\<open>Dns_Free\<close>, \<open>Echo_Threads\<close>, \<open>Proxy_System\<close>); time. The unused arrays of \<open>hw2/strings.c\<close> and code in comments have no model.
\<close>

end
